(* ===== verification/Prelude.thy ===== *)
theory Prelude
  imports Main "HOL-Library.Sublist" "HOL-Library.Code_Target_Numeral"
begin

text \<open>
  Shared vocabulary of the development: the operations of Python's \<open>str\<close>, \<open>int\<close> and
  exception handling that the console's modules use, with the lemmas about them.

  A Python string is a \<^typ>\<open>string\<close>: the list of its code points, each below 256.  Text of the
  code outside that range (the star of the boot menu) is written as its UTF-8 bytes.  The
  character predicates below are Python's, restricted to that range.
\<close>

named_theorems py_simps \<open>rewrite rules for the string operations\<close>
named_theorems line_safe \<open>facts that a piece of text cannot end a line of a generated file\<close>

section \<open>Results\<close>

text \<open>A statement that may raise is a sum: \<open>Inl\<close> the exception, \<open>Inr\<close> the value.\<close>

definition rbind :: "'e + 'a \<Rightarrow> ('a \<Rightarrow> 'e + 'b) \<Rightarrow> 'e + 'b" where
  "rbind m f = (case m of Inl e \<Rightarrow> Inl e | Inr x \<Rightarrow> f x)"

lemma rbind_simps [simp]:
  "rbind (Inl e) f = Inl e"
  "rbind (Inr x) f = f x"
  by (simp_all add: rbind_def)

lemma rbind_eq_Inr: "rbind m f = Inr y \<longleftrightarrow> (\<exists>x. m = Inr x \<and> f x = Inr y)"
  by (cases m) auto

lemma rbind_eq_Inl: "rbind m f = Inl e \<longleftrightarrow> m = Inl e \<or> (\<exists>x. m = Inr x \<and> f x = Inl e)"
  by (cases m) auto

lemma rbind_cong [fundef_cong]:
  "m = m' \<Longrightarrow> (\<And>x. m' = Inr x \<Longrightarrow> f x = f' x) \<Longrightarrow> rbind m f = rbind m' f'"
  by (cases m') auto

text \<open>A statement that raises \<open>e\<close> when \<open>b\<close> holds.\<close>

definition raise_if :: "bool \<Rightarrow> 'e \<Rightarrow> 'e + unit" where
  "raise_if b e = (if b then Inl e else Inr ())"

lemma raise_if_eq [simp]:
  "raise_if b e = Inr u \<longleftrightarrow> \<not> b"
  "raise_if b e = Inl e' \<longleftrightarrow> b \<and> e' = e"
  by (auto simp: raise_if_def)

text \<open>A loop that applies a raising statement to each element and collects the values.\<close>

fun rmap :: "('a \<Rightarrow> 'e + 'b) \<Rightarrow> 'a list \<Rightarrow> 'e + 'b list" where
  "rmap f [] = Inr []"
| "rmap f (x # xs) = rbind (f x) (\<lambda>y. rbind (rmap f xs) (\<lambda>ys. Inr (y # ys)))"

lemma rmap_Inr_iff: "rmap f xs = Inr ys \<longleftrightarrow> list_all2 (\<lambda>x y. f x = Inr y) xs ys"
  by (induction xs arbitrary: ys) (auto simp: rbind_eq_Inr list_all2_Cons1)

section \<open>Characters\<close>

abbreviation code :: "char \<Rightarrow> nat" where
  "code \<equiv> of_char"

abbreviation NL :: char where "NL \<equiv> CHR 0x0A"
abbreviation CR :: char where "CR \<equiv> CHR 0x0D"

text \<open>\<open>str.isspace\<close>: what \<open>strip()\<close>, \<open>split()\<close> and \<open>\s\<close> treat as white space.\<close>

definition py_space :: "char \<Rightarrow> bool" where
  "py_space c \<longleftrightarrow> code c \<in> {9, 10, 11, 12, 13, 28, 29, 30, 31, 32, 133, 160}"

definition chr_in :: "char \<Rightarrow> char \<Rightarrow> char \<Rightarrow> bool" where
  "chr_in lo hi c \<longleftrightarrow> code lo \<le> code c \<and> code c \<le> code hi"

abbreviation is_digit :: "char \<Rightarrow> bool" where
  "is_digit \<equiv> chr_in CHR ''0'' CHR ''9''"

text \<open>\<open>str.isdigit\<close> also accepts the superscripts one, two and three, which \<open>int()\<close> refuses.\<close>

definition py_isdigit_chr :: "char \<Rightarrow> bool" where
  "py_isdigit_chr c \<longleftrightarrow> is_digit c \<or> code c \<in> {178, 179, 185}"

definition py_isdigit :: "string \<Rightarrow> bool" where
  "py_isdigit s \<longleftrightarrow> s \<noteq> [] \<and> list_all py_isdigit_chr s"

definition is_lower :: "char \<Rightarrow> bool" where
  "is_lower c \<longleftrightarrow> chr_in CHR ''a'' CHR ''z'' c"

definition is_upper :: "char \<Rightarrow> bool" where
  "is_upper c \<longleftrightarrow> chr_in CHR ''A'' CHR ''Z'' c"

definition is_alnum :: "char \<Rightarrow> bool" where
  "is_alnum c \<longleftrightarrow> is_lower c \<or> is_upper c \<or> is_digit c"

text \<open>\<open>\w\<close>: letters, digits and the underscore, over the whole range of the model.\<close>

definition py_word :: "char \<Rightarrow> bool" where
  "py_word c \<longleftrightarrow> is_alnum c \<or> c = CHR ''_'' \<or>
     code c \<in> {170, 178, 179, 181, 185, 186, 188, 189, 190} \<or>
     (192 \<le> code c \<and> code c \<noteq> 215 \<and> code c \<noteq> 247)"

text \<open>\<open>str.lower\<close> on one character.\<close>

definition lower_chr :: "char \<Rightarrow> char" where
  "lower_chr c =
     (if is_upper c \<or> (192 \<le> code c \<and> code c \<le> 222 \<and> code c \<noteq> 215)
      then char_of (code c + 32) else c)"

definition lower :: "string \<Rightarrow> string" where
  "lower = map lower_chr"

text \<open>C0 control characters and DEL.\<close>

definition is_control :: "char \<Rightarrow> bool" where
  "is_control c \<longleftrightarrow> code c < 32 \<or> code c = 127"

section \<open>Stripping and splitting\<close>

definition lstrip_chars :: "string \<Rightarrow> string \<Rightarrow> string" where
  "lstrip_chars cs s = dropWhile (\<lambda>c. c \<in> set cs) s"

definition rstrip_chars :: "string \<Rightarrow> string \<Rightarrow> string" where
  "rstrip_chars cs s = rev (dropWhile (\<lambda>c. c \<in> set cs) (rev s))"

definition strip_chars :: "string \<Rightarrow> string \<Rightarrow> string" where
  "strip_chars cs s = rstrip_chars cs (lstrip_chars cs s)"

definition strip :: "string \<Rightarrow> string" where
  "strip s = rev (dropWhile py_space (rev (dropWhile py_space s)))"

text \<open>\<open>s.split()\<close>: the maximal runs of characters that are not white space.\<close>

fun words_acc :: "string \<Rightarrow> string \<Rightarrow> string list" where
  "words_acc w [] = (if w = [] then [] else [rev w])"
| "words_acc w (c # cs) =
     (if py_space c then (if w = [] then words_acc [] cs else rev w # words_acc [] cs)
      else words_acc (c # w) cs)"

definition words :: "string \<Rightarrow> string list" where
  "words s = words_acc [] s"

text \<open>\<open>s.split(c)\<close>: the fields between occurrences of \<open>c\<close>, never an empty list.\<close>

fun split_on :: "char \<Rightarrow> string \<Rightarrow> string list" where
  "split_on c [] = [[]]"
| "split_on c (x # xs) =
     (if x = c then [] # split_on c xs
      else (case split_on c xs of [] \<Rightarrow> [[x]] | f # fs \<Rightarrow> (x # f) # fs))"

fun join :: "string \<Rightarrow> string list \<Rightarrow> string" where
  "join sep [] = []"
| "join sep [x] = x"
| "join sep (x # y # zs) = x @ sep @ join sep (y # zs)"

text \<open>\<open>s.splitlines()\<close>.\<close>

definition line_end :: "char \<Rightarrow> bool" where
  "line_end c \<longleftrightarrow> code c \<in> {10, 11, 12, 13, 28, 29, 30, 133}"

fun splitlines_acc :: "string \<Rightarrow> string \<Rightarrow> string list" where
  "splitlines_acc w [] = (if w = [] then [] else [rev w])"
| "splitlines_acc w (c # cs) =
     (if c = CR then
        rev w # (case cs of [] \<Rightarrow> [] | d # ds \<Rightarrow>
                   if d = NL then splitlines_acc [] ds else splitlines_acc [] cs)
      else if line_end c then rev w # splitlines_acc [] cs
      else splitlines_acc (c # w) cs)"

definition splitlines :: "string \<Rightarrow> string list" where
  "splitlines s = splitlines_acc [] s"

text \<open>\<open>s.partition(c)\<close> and \<open>s.rpartition(c)\<close>, for a one-character separator.\<close>

definition partition_at :: "char \<Rightarrow> string \<Rightarrow> string \<times> bool \<times> string" where
  "partition_at c s =
     (if c \<in> set s then (takeWhile (\<lambda>x. x \<noteq> c) s, True, tl (dropWhile (\<lambda>x. x \<noteq> c) s))
      else (s, False, []))"

definition rpartition_at :: "char \<Rightarrow> string \<Rightarrow> string \<times> bool \<times> string" where
  "rpartition_at c s =
     (if c \<in> set s
      then (rev (tl (dropWhile (\<lambda>x. x \<noteq> c) (rev s))), True, rev (takeWhile (\<lambda>x. x \<noteq> c) (rev s)))
      else ([], False, s))"

text \<open>\<open>s.rsplit(c, 1)[-1]\<close> and \<open>s.rsplit(c, 1)[0]\<close>.\<close>

definition after_last :: "char \<Rightarrow> string \<Rightarrow> string" where
  "after_last c s = rev (takeWhile (\<lambda>x. x \<noteq> c) (rev s))"

definition before_last :: "char \<Rightarrow> string \<Rightarrow> string" where
  "before_last c s = (if c \<in> set s then rev (tl (dropWhile (\<lambda>x. x \<noteq> c) (rev s))) else s)"

text \<open>\<open>sub in s\<close>, \<open>s.startswith(p)\<close> (the library's \<^const>\<open>prefix\<close>), \<open>s.endswith(p)\<close>.\<close>

fun contains :: "string \<Rightarrow> string \<Rightarrow> bool" where
  "contains p [] = (p = [])"
| "contains p (c # cs) = (prefix p (c # cs) \<or> contains p cs)"

definition removeprefix :: "string \<Rightarrow> string \<Rightarrow> string" where
  "removeprefix p s = (if prefix p s then drop (length p) s else s)"

text \<open>\<open>s.replace(old, new)\<close> for a non-empty \<open>old\<close>: left to right, without overlaps.\<close>

function replace :: "string \<Rightarrow> string \<Rightarrow> string \<Rightarrow> string" where
  "replace old new [] = []"
| "replace old new (c # cs) =
     (if old \<noteq> [] \<and> prefix old (c # cs) then new @ replace old new (drop (length old) (c # cs))
      else c # replace old new cs)"
  by pat_completeness auto
termination
proof (relation "measure (\<lambda>(old, new, s). length s)", goal_cases)
  case 1
  show ?case by simp
next
  case (2 old new c cs)
  then show ?case by (cases old) auto
next
  case 3
  then show ?case by simp
qed

section \<open>Numbers\<close>

text \<open>\<open>str(n)\<close>.\<close>

fun show_nat :: "nat \<Rightarrow> string" where
  "show_nat n = (if n < 10 then [char_of (48 + n)]
                 else show_nat (n div 10) @ [char_of (48 + n mod 10)])"

declare show_nat.simps [simp del]

definition show_int :: "int \<Rightarrow> string" where
  "show_int i = (if i < 0 then ''-'' @ show_nat (nat (- i)) else show_nat (nat i))"

definition digit_val :: "char \<Rightarrow> nat" where
  "digit_val c = code c - 48"

definition nat_of_digits :: "string \<Rightarrow> nat" where
  "nat_of_digits s = foldl (\<lambda>n c. 10 * n + digit_val c) 0 s"

text \<open>
  \<open>int(s)\<close>: white space around an optional sign and digits, where single underscores may stand
  between digits; anything else raises ValueError, and so do more than 4300 digits.
\<close>

fun int_digits :: "string \<Rightarrow> string option" where
  "int_digits [] = None"
| "int_digits [c] = (if is_digit c then Some [c] else None)"
| "int_digits (c # d # ds) =
     (if is_digit c then
        (if d = CHR ''_'' then map_option (Cons c) (int_digits ds)
         else map_option (Cons c) (int_digits (d # ds)))
      else None)"

definition max_str_digits :: nat where
  "max_str_digits = 4300"

definition int_body :: "string \<Rightarrow> int option" where
  "int_body s = (case int_digits s of None \<Rightarrow> None
     | Some ds \<Rightarrow> if max_str_digits < length ds then None else Some (int (nat_of_digits ds)))"

definition py_int :: "string \<Rightarrow> int option" where
  "py_int s = (case strip s of
       [] \<Rightarrow> None
     | c # cs \<Rightarrow> if c = CHR ''-'' then map_option uminus (int_body cs)
                 else if c = CHR ''+'' then int_body cs
                 else int_body (c # cs))"

section \<open>Lemmas on strings\<close>

lemma words_acc_nonspace:
  "list_all (\<lambda>c. \<not> py_space c) u \<Longrightarrow> words_acc w (u @ v) = words_acc (rev u @ w) v"
  by (induction u arbitrary: w) auto

lemma words_acc_props:
  "list_all (\<lambda>c. \<not> py_space c) w \<Longrightarrow> x \<in> set (words_acc w s) \<Longrightarrow>
     x \<noteq> [] \<and> list_all (\<lambda>c. \<not> py_space c) x"
proof (induction s arbitrary: w)
  case Nil
  then show ?case by (auto simp: list_all_iff split: if_splits)
next
  case (Cons c s)
  show ?case
  proof (cases "py_space c")
    case True
    with Cons.prems Cons.IH [of "[]"] show ?thesis
      by (auto simp: list_all_iff split: if_splits)
  next
    case False
    with Cons.prems Cons.IH [of "c # w"] show ?thesis by simp
  qed
qed

lemma words_nonempty: "x \<in> set (words s) \<Longrightarrow> x \<noteq> []"
  unfolding words_def using words_acc_props [of "[]"] by simp

lemma words_nospace: "x \<in> set (words s) \<Longrightarrow> c \<in> set x \<Longrightarrow> \<not> py_space c"
  unfolding words_def using words_acc_props [of "[]" x s] by (simp add: list_all_iff)

text \<open>A word: a non-empty run of characters that are not white space.\<close>

definition is_word :: "string \<Rightarrow> bool" where
  "is_word x \<longleftrightarrow> x \<noteq> [] \<and> list_all (\<lambda>c. \<not> py_space c) x"

lemma words_are_words: "x \<in> set (words s) \<Longrightarrow> is_word x"
  unfolding is_word_def words_def using words_acc_props [of "[]"] by simp

lemma py_space_blank [simp]: "py_space CHR '' ''"
  by (simp add: py_space_def)

lemma words_join_append:
  "list_all is_word xs \<Longrightarrow> is_word x \<Longrightarrow>
     words (x @ '' '' @ s) = x # words s"
  using words_acc_nonspace [of x "[]" "CHR '' '' # s"]
  by (simp add: words_def is_word_def)

lemma words_single: "is_word x \<Longrightarrow> words x = [x]"
  using words_acc_nonspace [of x "[]" "[]"] by (simp add: words_def is_word_def)

lemma words_join: "list_all is_word xs \<Longrightarrow> words (join '' '' xs) = xs"
proof (induction "'' ''" xs rule: join.induct)
  case 1
  then show ?case by (simp add: words_def)
next
  case (2 x)
  then show ?case by (simp add: words_single)
next
  case (3 x y zs)
  then show ?case using words_join_append [of "[]" x "join '' '' (y # zs)"] by simp
qed

text \<open>
  \<open>split_on\<close> cuts a string at every separator and \<open>join\<close> puts it back; the two are inverse on
  fields that do not hold the separator.
\<close>

lemma split_on_ne [simp]: "split_on c s \<noteq> []"
  by (induction s) (auto split: list.splits)

lemma split_on_free: "f \<in> set (split_on c s) \<Longrightarrow> c \<notin> set f"
  by (induction s arbitrary: f) (auto split: list.splits if_splits)

lemma join_Cons: "xs \<noteq> [] \<Longrightarrow> join sep (x # xs) = x @ sep @ join sep xs"
  by (cases xs) simp_all

lemma join_Cons_head: "join sep ((x # f) # fs) = x # join sep (f # fs)"
  by (cases fs) simp_all

lemma join_split_on: "join [c] (split_on c s) = s"
proof (induction s)
  case (Cons x xs)
  obtain f fs where "split_on c xs = f # fs"
    using split_on_ne list.exhaust by metis
  with Cons show ?case by (simp add: join_Cons join_Cons_head)
qed simp

lemma split_on_append_sep:
  "c \<notin> set u \<Longrightarrow> split_on c (u @ c # v) = u # split_on c v"
  by (induction u) auto

lemma split_on_no_sep: "c \<notin> set u \<Longrightarrow> split_on c u = [u]"
  by (induction u) auto

lemma split_on_join:
  "fs \<noteq> [] \<Longrightarrow> (\<And>f. f \<in> set fs \<Longrightarrow> c \<notin> set f) \<Longrightarrow> split_on c (join [c] fs) = fs"
proof (induction "[c]" fs rule: join.induct)
  case 1
  then show ?case by simp
next
  case (2 x)
  then show ?case by (simp add: split_on_no_sep)
next
  case (3 x y zs)
  then show ?case by (simp add: split_on_append_sep)
qed

lemma set_join_subset: "set (join sep xs) \<subseteq> set sep \<union> (\<Union>x\<in>set xs. set x)"
  by (induction sep xs rule: join.induct) auto

lemma join_mem: "c \<in> set (join sep xs) \<Longrightarrow> c \<notin> set sep \<Longrightarrow> \<exists>x\<in>set xs. c \<in> set x"
  using set_join_subset by fastforce

lemma strip_subset: "set (strip s) \<subseteq> set s"
  unfolding strip_def by (fastforce dest: set_dropWhileD)

lemma contains_prefix: "prefix p s \<Longrightarrow> contains p s"
  by (cases s) auto

lemma contains_iff: "contains p s \<longleftrightarrow> (\<exists>u v. s = u @ p @ v)"
proof
  show "contains p s \<Longrightarrow> \<exists>u v. s = u @ p @ v"
  proof (induction s)
    case (Cons c s)
    then show ?case
      by (auto simp: prefix_def) (metis append_Nil, metis append_Cons)
  qed simp
next
  assume "\<exists>u v. s = u @ p @ v"
  then obtain u v where "s = u @ p @ v" by blast
  then show "contains p s"
  proof (induction u arbitrary: s)
    case Nil
    then show ?case by (simp add: contains_prefix)
  qed auto
qed

lemma contains_append_left: "contains p s \<Longrightarrow> contains p (u @ s)"
  unfolding contains_iff by (metis append.assoc)

section \<open>Lemmas on numbers\<close>

lemma code_char_of: "n < 256 \<Longrightarrow> code (char_of n :: char) = n"
  by simp

lemma digit_char: "(n :: nat) < 10 \<Longrightarrow> is_digit (char_of (48 + n))"
  by (simp add: chr_in_def)

lemma digit_val_char: "(n :: nat) < 10 \<Longrightarrow> digit_val (char_of (48 + n)) = n"
  by (simp add: digit_val_def)

lemma show_nat_ne [simp]: "show_nat n \<noteq> []"
  by (subst show_nat.simps) simp

lemma show_nat_digits: "c \<in> set (show_nat n) \<Longrightarrow> is_digit c"
proof (induction n rule: show_nat.induct)
  case (1 n)
  then show ?case
    by (subst (asm) show_nat.simps) (auto split: if_splits simp: digit_char)
qed

lemma nat_of_digits_snoc: "nat_of_digits (s @ [c]) = 10 * nat_of_digits s + digit_val c"
  by (simp add: nat_of_digits_def)

lemma nat_of_digits_show [simp]: "nat_of_digits (show_nat n) = n"
proof (induction n rule: show_nat.induct)
  case (1 n)
  show ?case
  proof (cases "n < 10")
    case True
    then show ?thesis
      by (subst show_nat.simps) (simp add: nat_of_digits_def digit_val_char)
  next
    case False
    with "1.IH" show ?thesis
      by (subst show_nat.simps) (simp add: nat_of_digits_snoc digit_val_char)
  qed
qed

lemma show_nat_inj [simp]: "show_nat m = show_nat n \<longleftrightarrow> m = n"
  by (metis nat_of_digits_show)

text \<open>A decimal number holds no separator, white space or control character.\<close>

lemma is_digit_plain:
  "is_digit c \<Longrightarrow> \<not> py_space c \<and> \<not> is_control c \<and> c \<noteq> NL \<and> c \<noteq> CHR ''-'' \<and> c \<noteq> CHR ''/''"
  by (auto simp: chr_in_def py_space_def is_control_def)

lemma show_nat_plain: "c \<in> set (show_nat n) \<Longrightarrow> \<not> py_space c \<and> \<not> is_control c \<and> c \<noteq> NL"
  using show_nat_digits is_digit_plain by blast

lemma show_nat_NL [simp, line_safe]: "NL \<notin> set (show_nat n)"
  using show_nat_plain by blast

text \<open>Evaluation of decimals in proofs.\<close>

lemma digit_chrs [simp]:
  "char_of (48 :: nat) = CHR ''0''" "char_of (49 :: nat) = CHR ''1''" "char_of (50 :: nat) = CHR ''2''"
  "char_of (51 :: nat) = CHR ''3''" "char_of (52 :: nat) = CHR ''4''" "char_of (53 :: nat) = CHR ''5''"
  "char_of (54 :: nat) = CHR ''6''" "char_of (55 :: nat) = CHR ''7''" "char_of (56 :: nat) = CHR ''8''"
  "char_of (57 :: nat) = CHR ''9''"
  by (simp_all add: char_of_def bit_iff_odd)

lemma show_int_NL [simp]: "NL \<notin> set (show_int i)"
  by (simp add: show_int_def)

section \<open>Lines of a file\<close>

text \<open>The text of a list of lines, each with its line end.\<close>

definition unlines :: "string list \<Rightarrow> string" where
  "unlines ls = concat (map (\<lambda>l. l @ [NL]) ls)"

lemma split_unlines:
  "list_all (\<lambda>l. NL \<notin> set l) ls \<Longrightarrow> split_on NL (unlines ls @ t) = ls @ split_on NL t"
  by (induction ls) (auto simp: unlines_def split_on_append_sep)

lemma unlines_append: "unlines (xs @ ys) = unlines xs @ unlines ys"
  by (simp add: unlines_def)

text \<open>The number of line breaks of a text.\<close>

definition breaks :: "string \<Rightarrow> nat" where
  "breaks s = length (filter (\<lambda>c. c = NL) s)"

lemma breaks_simps [simp]:
  "breaks [] = 0"
  "breaks (c # s) = (if c = NL then Suc (breaks s) else breaks s)"
  "breaks (s @ t) = breaks s + breaks t"
  by (simp_all add: breaks_def)

lemma breaks_free: "NL \<notin> set s \<Longrightarrow> breaks s = 0"
  by (auto simp: breaks_def filter_empty_conv)

lemma breaks_unlines [simp]:
  "breaks (unlines []) = 0"
  "breaks (unlines (l # ls)) = Suc (breaks l + breaks (unlines ls))"
  by (simp_all add: unlines_def)

lemma breaks_join: "breaks (join [NL] (x # xs)) = length xs + breaks x + sum_list (map breaks xs)"
  by (induction xs arbitrary: x) (auto simp: join_Cons)

lemma split_join_parts:
  "ps \<noteq> [] \<Longrightarrow> split_on c (join [c] ps) = concat (map (split_on c) ps)"
proof (induction "[c]" ps rule: join.induct)
  case (3 x y zs)
  have "split_on c (u @ c # v) = split_on c u @ split_on c v" for u v
    by (induction u) (auto split: list.splits)
  with 3 show ?case by simp
qed simp_all

text \<open>
  The interface of a function that makes a value fit for one line of a generated file.  A line built
  around a cleaned value stays one line of the file, wherever it stands.
\<close>

locale line_cleaner =
  fixes clean :: "string \<Rightarrow> string"
  assumes clean_NL: "NL \<notin> set (clean s)"
begin

lemma clean_line:
  "NL \<notin> set pre \<Longrightarrow> NL \<notin> set post \<Longrightarrow>
     split_on NL (pre @ clean s @ post) = [pre @ clean s @ post]"
  by (rule split_on_no_sep) (simp add: clean_NL)

lemma clean_lines:
  "NL \<notin> set pre \<Longrightarrow> NL \<notin> set post \<Longrightarrow>
     split_on NL (pre @ clean s @ post @ NL # t) = (pre @ clean s @ post) # split_on NL t"
  using split_on_append_sep [of NL "pre @ clean s @ post" t] by (simp add: clean_NL)

lemma breaks_clean: "breaks (clean s) = 0"
  by (rule breaks_free) (rule clean_NL)

end

section \<open>Invariants of a sequence of requests\<close>

text \<open>
  The interface of a component whose operations all keep an invariant: a step per request, and the
  law that one step keeps it.  Every history of requests then keeps it.
\<close>

locale machine =
  fixes step :: "'e \<Rightarrow> 's \<Rightarrow> 's"
    and inv :: "'s \<Rightarrow> bool"
  assumes keeps: "inv s \<Longrightarrow> inv (step e s)"
begin

lemma history_keeps: "inv s \<Longrightarrow> inv (fold step es s)"
  by (induction es arbitrary: s) (simp_all add: keeps)

lemma history_prefix_keeps: "inv s \<Longrightarrow> inv (fold step (take n es) s)"
  by (rule history_keeps)

end

section \<open>More on strip\<close>

lemma strip_fixed:
  "s \<noteq> [] \<Longrightarrow> \<not> py_space (hd s) \<Longrightarrow> \<not> py_space (last s) \<Longrightarrow> strip s = s"
proof -
  assume s: "s \<noteq> []" "\<not> py_space (hd s)" "\<not> py_space (last s)"
  then have "dropWhile py_space s = s" by (cases s) auto
  moreover have "dropWhile py_space (rev s) = rev s"
    using s by (cases "rev s") (auto simp: last_rev hd_rev [symmetric] rev_swap)
  ultimately show ?thesis by (simp add: strip_def)
qed

lemma strip_ends: "strip s \<noteq> [] \<Longrightarrow> \<not> py_space (hd (strip s)) \<and> \<not> py_space (last (strip s))"
proof -
  let ?t = "dropWhile py_space s"
  have "strip s = rev (dropWhile py_space (rev ?t))" by (simp add: strip_def)
  moreover assume ne: "strip s \<noteq> []"
  ultimately have t: "dropWhile py_space (rev ?t) \<noteq> []" by simp
  have last: "\<not> py_space (last (strip s))"
    using hd_dropWhile [OF t] by (simp add: strip_def last_rev)
  obtain u where u: "?t = strip s @ u"
  proof
    have "rev ?t = takeWhile py_space (rev ?t) @ dropWhile py_space (rev ?t)" by simp
    then have "?t = rev (takeWhile py_space (rev ?t) @ dropWhile py_space (rev ?t))" by (metis rev_rev_ident)
    also have "\<dots> = strip s @ rev (takeWhile py_space (rev ?t))" by (simp only: rev_append strip_def)
    finally show "?t = strip s @ rev (takeWhile py_space (rev ?t))" .
  qed
  with ne have "?t \<noteq> []" "hd ?t = hd (strip s)" by auto
  with hd_dropWhile [of py_space s] last show ?thesis by auto
qed

lemma strip_idem [simp]: "strip (strip s) = strip s"
proof (cases "strip s = []")
  case True
  moreover have "strip [] = []" by (simp add: strip_def)
  ultimately show ?thesis by simp
next
  case False
  with strip_ends [of s] show ?thesis by (simp add: strip_fixed)
qed

lemma strip_all: "list_all (\<lambda>c. \<not> py_space c) s \<Longrightarrow> strip s = s"
proof (cases "s = []")
  case True
  then show ?thesis by (simp add: strip_def)
next
  case False
  moreover assume "list_all (\<lambda>c. \<not> py_space c) s"
  ultimately show ?thesis by (intro strip_fixed) (simp_all add: list_all_iff)
qed

text \<open>The first match in two lists, one after the other.\<close>

lemma find_append: "find P (xs @ ys) = (case find P xs of Some x \<Rightarrow> Some x | None \<Rightarrow> find P ys)"
  by (induction xs) auto

end
