(* ===== verification/Models.thy ===== *)
theory Models
  imports Prelude
begin

text \<open>
  The rows of \<open>models.py\<close> that several components share: images and users.  Rows keep the
  columns of the source; the creation times no modelled code reads are left out.  Statuses,
  sources and variants are the strings the source stores.
\<close>

section \<open>Tables\<close>

text \<open>
  A table is the list of its rows, each with an integer primary key \<open>rid\<close>: \<open>db.get(Row, id)\<close>,
  writing a row's columns back, \<open>db.delete(row)\<close>, and the key SQLite gives a new row, which is one
  more than the largest key in use (so the key of a deleted last row is given out again).
\<close>

fun get_row :: "('r \<Rightarrow> nat) \<Rightarrow> 'r list \<Rightarrow> nat \<Rightarrow> 'r option" where
  "get_row rid [] i = None"
| "get_row rid (r # rs) i = (if rid r = i then Some r else get_row rid rs i)"

definition upd_row :: "('r \<Rightarrow> nat) \<Rightarrow> 'r list \<Rightarrow> nat \<Rightarrow> ('r \<Rightarrow> 'r) \<Rightarrow> 'r list" where
  "upd_row rid db i f = map (\<lambda>r. if rid r = i then f r else r) db"

definition del_row :: "('r \<Rightarrow> nat) \<Rightarrow> 'r list \<Rightarrow> nat \<Rightarrow> 'r list" where
  "del_row rid db i = filter (\<lambda>r. rid r \<noteq> i) db"

definition next_id :: "('r \<Rightarrow> nat) \<Rightarrow> 'r list \<Rightarrow> nat" where
  "next_id rid db = Suc (foldr (\<lambda>r. max (rid r)) db 0)"

lemma get_row_id: "get_row rid db i = Some r \<Longrightarrow> rid r = i"
  by (induction db) (auto split: if_splits)

lemma get_row_in: "get_row rid db i = Some r \<Longrightarrow> r \<in> set db"
  by (induction db) (auto split: if_splits)

lemma get_row_None: "get_row rid db i = None \<longleftrightarrow> i \<notin> rid ` set db"
  by (induction db) auto

lemma get_row_unique:
  "distinct (map rid db) \<Longrightarrow> r \<in> set db \<Longrightarrow> get_row rid db (rid r) = Some r"
  by (induction db) (auto simp: rev_image_eqI)

lemma get_upd_row:
  "(\<And>r. rid (f r) = rid r) \<Longrightarrow>
     get_row rid (upd_row rid db i f) j =
       (if j = i then map_option f (get_row rid db j) else get_row rid db j)"
  by (induction db) (auto simp: upd_row_def)

lemma get_del_row: "get_row rid (del_row rid db i) j = (if j = i then None else get_row rid db j)"
  by (induction db) (auto simp: del_row_def)

lemma ids_upd_row [simp]: "(\<And>r. rid (f r) = rid r) \<Longrightarrow> map rid (upd_row rid db i f) = map rid db"
  by (induction db) (auto simp: upd_row_def)

lemma ids_del_row: "map rid (del_row rid db i) = filter (\<lambda>j. j \<noteq> i) (map rid db)"
  by (induction db) (auto simp: del_row_def)

lemma distinct_del_row: "distinct (map rid db) \<Longrightarrow> distinct (map rid (del_row rid db i))"
  by (simp add: ids_del_row)

lemma next_id_fresh: "r \<in> set db \<Longrightarrow> rid r < next_id rid db"
proof -
  assume "r \<in> set db"
  then have "rid r \<le> foldr (\<lambda>r. max (rid r)) db 0" by (induction db) auto
  then show ?thesis by (simp add: next_id_def)
qed

lemma get_next_id [simp]: "get_row rid db (next_id rid db) = None"
  using next_id_fresh [of _ db rid] by (force simp: get_row_None)

lemma get_row_append:
  "get_row rid (xs @ ys) i = (case get_row rid xs i of Some r \<Rightarrow> Some r | None \<Rightarrow> get_row rid ys i)"
  by (induction xs) auto

lemma upd_row_mem:
  "r \<in> set (upd_row rid db i f) \<Longrightarrow> \<exists>r' \<in> set db. r = (if rid r' = i then f r' else r')"
  by (auto simp: upd_row_def)

lemma set_del_row: "set (del_row rid db i) = {r \<in> set db. rid r \<noteq> i}"
  by (simp add: del_row_def)

text \<open>How the number of rows with a property changes.\<close>

lemma count_upd_row:
  "distinct (map rid db) \<Longrightarrow> get_row rid db i = Some t \<Longrightarrow>
     length (filter P (upd_row rid db i f)) + (if P t then 1 else 0) =
     length (filter P db) + (if P (f t) then 1 else 0)"
proof (induction db)
  case (Cons r db)
  have same: "upd_row rid db i f = db" if "i \<notin> rid ` set db"
    using that by (induction db) (auto simp: upd_row_def)
  show ?case
  proof (cases "rid r = i")
    case True
    with Cons.prems have "i \<notin> rid ` set db" "t = r" by auto
    with same True show ?thesis by (simp add: upd_row_def)
  next
    case False
    with Cons show ?thesis by (simp add: upd_row_def)
  qed
qed simp

lemma count_del_row:
  "distinct (map rid db) \<Longrightarrow> get_row rid db i = Some t \<Longrightarrow>
     length (filter P (del_row rid db i)) + (if P t then 1 else 0) = length (filter P db)"
proof (induction db)
  case (Cons r db)
  show ?case
  proof (cases "rid r = i")
    case True
    with Cons.prems have "i \<notin> rid ` set db" "t = r" by auto
    then have "del_row rid db i = db" by (auto simp: del_row_def filter_id_conv)
    with True \<open>t = r\<close> show ?thesis by (simp add: del_row_def)
  next
    case False
    with Cons show ?thesis by (simp add: del_row_def)
  qed
qed simp

section \<open>Images\<close>

record image =
  img_id :: nat
  img_name :: string
  img_filename :: string
  os_family :: string
  status :: string
  message :: string
  kernel_path :: string
  initrd_path :: string
  boot_args :: string
  enabled :: bool
  size_bytes :: nat
  display_order :: "int option"
  is_default :: bool
  img_source :: string
  variant :: string
  catalog_id :: string
  img_release :: string
  img_mirror :: string
  source_url :: string

text \<open>\<open>Image(name=..., filename=...)\<close>: a new row, its other columns at their defaults.\<close>

definition image_row :: "nat \<Rightarrow> string \<Rightarrow> string \<Rightarrow> image" where
  "image_row i name filename =
     \<lparr>img_id = i, img_name = name, img_filename = filename, os_family = ''linux'',
      status = ''pending'', message = [], kernel_path = [], initrd_path = [], boot_args = [],
      enabled = True, size_bytes = 0, display_order = None, is_default = False,
      img_source = ''iso'', variant = ''installer'', catalog_id = [], img_release = [],
      img_mirror = [], source_url = []\<rparr>"

type_synonym image_table = "image list"

abbreviation get_image :: "image_table \<Rightarrow> nat \<Rightarrow> image option" where
  "get_image \<equiv> get_row img_id"

abbreviation upd_image :: "image_table \<Rightarrow> nat \<Rightarrow> (image \<Rightarrow> image) \<Rightarrow> image_table" where
  "upd_image \<equiv> upd_row img_id"

abbreviation del_image :: "image_table \<Rightarrow> nat \<Rightarrow> image_table" where
  "del_image \<equiv> del_row img_id"

definition wf_images :: "image_table \<Rightarrow> bool" where
  "wf_images db \<longleftrightarrow> distinct (map img_id db)"

section \<open>Users\<close>

record user =
  user_id :: nat
  username :: string
  password_hash :: string
  role :: string
  session_epoch :: nat
  totp_secret :: "string option"
  totp_enabled :: bool
  api_token :: "string option"

type_synonym user_table = "user list"

definition is_admin :: "user \<Rightarrow> bool" where
  "is_admin u \<longleftrightarrow> role u = ''admin''"

definition user_row :: "nat \<Rightarrow> string \<Rightarrow> string \<Rightarrow> string \<Rightarrow> user" where
  "user_row i name pw_hash r =
     \<lparr>user_id = i, username = name, password_hash = pw_hash, role = r, session_epoch = 0,
      totp_secret = None, totp_enabled = False, api_token = None\<rparr>"

abbreviation get_user :: "user_table \<Rightarrow> nat \<Rightarrow> user option" where
  "get_user \<equiv> get_row user_id"

abbreviation upd_user :: "user_table \<Rightarrow> nat \<Rightarrow> (user \<Rightarrow> user) \<Rightarrow> user_table" where
  "upd_user \<equiv> upd_row user_id"

abbreviation del_user :: "user_table \<Rightarrow> nat \<Rightarrow> user_table" where
  "del_user \<equiv> del_row user_id"

text \<open>The unique columns of the table.\<close>

definition tokens_unique :: "user_table \<Rightarrow> bool" where
  "tokens_unique db \<longleftrightarrow>
     (\<forall>u \<in> set db. \<forall>v \<in> set db. api_token u \<noteq> None \<longrightarrow> api_token u = api_token v \<longrightarrow> u = v)"

definition wf_users :: "user_table \<Rightarrow> bool" where
  "wf_users db \<longleftrightarrow> distinct (map user_id db) \<and> distinct (map username db) \<and> tokens_unique db
     \<and> list_all (\<lambda>u. 0 < user_id u) db"

lemma tokens_uniqueD:
  "tokens_unique db \<Longrightarrow> u \<in> set db \<Longrightarrow> v \<in> set db \<Longrightarrow> api_token u = Some x \<Longrightarrow> api_token v = Some x \<Longrightarrow> u = v"
  unfolding tokens_unique_def by (metis option.distinct(1))

lemma tokens_uniqueI:
  "(\<And>u v x. u \<in> set db \<Longrightarrow> v \<in> set db \<Longrightarrow> api_token u = Some x \<Longrightarrow> api_token v = Some x \<Longrightarrow> u = v) \<Longrightarrow>
     tokens_unique db"
  unfolding tokens_unique_def by (metis not_None_eq)

section \<open>Menu order\<close>

text \<open>
  \<open>ORDER BY display_order IS NULL, display_order, lower(name)\<close>: SQLite's sort is a stable
  insertion here, and its \<open>lower\<close> folds ASCII letters only.
\<close>

definition ascii_lower :: "string \<Rightarrow> string" where
  "ascii_lower s = map (\<lambda>c. if is_upper c then char_of (code c + 32) else c) s"

fun str_le :: "string \<Rightarrow> string \<Rightarrow> bool" where
  "str_le [] ys = True"
| "str_le (x # xs) [] = False"
| "str_le (x # xs) (y # ys) = (code x < code y \<or> (x = y \<and> str_le xs ys))"

definition menu_le :: "image \<Rightarrow> image \<Rightarrow> bool" where
  "menu_le a b =
     (case (display_order a, display_order b) of
        (Some x, Some y) \<Rightarrow> x < y \<or> (x = y \<and> str_le (ascii_lower (img_name a)) (ascii_lower (img_name b)))
      | (Some _, None) \<Rightarrow> True
      | (None, Some _) \<Rightarrow> False
      | (None, None) \<Rightarrow> str_le (ascii_lower (img_name a)) (ascii_lower (img_name b)))"

fun insert_by :: "('a \<Rightarrow> 'a \<Rightarrow> bool) \<Rightarrow> 'a \<Rightarrow> 'a list \<Rightarrow> 'a list" where
  "insert_by le x [] = [x]"
| "insert_by le x (y # ys) = (if le x y then x # y # ys else y # insert_by le x ys)"

text \<open>A stable sort by the relation \<open>le\<close>.\<close>

fun sort_by :: "('a \<Rightarrow> 'a \<Rightarrow> bool) \<Rightarrow> 'a list \<Rightarrow> 'a list" where
  "sort_by le [] = []"
| "sort_by le (x # xs) = insert_by le x (sort_by le xs)"

lemma set_insert_by [simp]: "set (insert_by le x xs) = insert x (set xs)"
  by (induction xs) auto

lemma set_sort_by [simp]: "set (sort_by le xs) = set xs"
  by (induction xs) auto

lemma length_sort_by [simp]: "length (sort_by le xs) = length xs"
proof -
  have "length (insert_by le x ys) = Suc (length ys)" for x ys
    by (induction ys) auto
  then show ?thesis by (induction xs) auto
qed

lemma distinct_map_sort_by:
  "distinct (map f (sort_by le xs)) \<longleftrightarrow> distinct (map f xs)"
proof -
  have ins: "distinct (map f (insert_by le x ys)) \<longleftrightarrow> f x \<notin> f ` set ys \<and> distinct (map f ys)" for x ys
    by (induction ys) auto
  show ?thesis by (induction xs) (auto simp: ins)
qed

definition total_preorder :: "('a \<Rightarrow> 'a \<Rightarrow> bool) \<Rightarrow> bool" where
  "total_preorder le \<longleftrightarrow> (\<forall>x y. le x y \<or> le y x) \<and> (\<forall>x y z. le x y \<longrightarrow> le y z \<longrightarrow> le x z)"

lemma sorted_sort_by: "total_preorder le \<Longrightarrow> sorted_wrt le (sort_by le xs)"
proof (induction xs)
  case (Cons x xs)
  have "sorted_wrt le (insert_by le x ys)" if "sorted_wrt le ys" for ys
    using that Cons.prems
  proof (induction ys)
    case (Cons y ys)
    then show ?case by (auto simp: total_preorder_def; blast)
  qed simp
  with Cons show ?case by simp
qed simp

lemma str_le_total: "str_le x y \<or> str_le y x"
proof (induction x y rule: str_le.induct)
  case (3 x xs y ys)
  have "code x < code y \<or> x = y \<or> code y < code x"
    using of_char_eq_iff [of x y, where ?'a = nat] by auto
  with 3 show ?case by auto
qed auto

lemma str_le_trans: "str_le x y \<Longrightarrow> str_le y z \<Longrightarrow> str_le x z"
proof (induction x arbitrary: y z)
  case (Cons a x)
  then obtain b y' c z' where "y = b # y'" "z = c # z'"
    by (cases y; cases z) auto
  with Cons show ?case by auto
qed simp

lemma menu_le_total_preorder: "total_preorder menu_le"
  unfolding total_preorder_def menu_le_def
  by (auto simp: neq_iff split: option.splits dest: str_le_trans)
     (metis str_le_total)+

end
