(* ===== verification/Store.thy ===== *)
theory Store
  imports Prelude
begin

text \<open>
  The settings table (\<open>models.Setting\<close>, \<open>store.py\<close>): mutable server configuration as rows of a
  key and a value, in the order they were inserted, read through the defaults of \<open>config.py\<close>.

  The contract the rest of the console relies on is the locale \<open>settings_store\<close>: reading back
  what was written, and leaving every other key alone.
\<close>

section \<open>The interface\<close>

locale settings_store =
  fixes get :: "'db \<Rightarrow> 'k \<Rightarrow> 'v \<Rightarrow> 'v"
    and put :: "'db \<Rightarrow> 'k \<Rightarrow> 'v \<Rightarrow> 'db"
  assumes get_put: "get (put db k v) k d = v"
    and get_put_other: "k' \<noteq> k \<Longrightarrow> get (put db k v) k' d = get db k' d"
begin

text \<open>A sequence of writes, as the handlers make them.\<close>

definition puts :: "'db \<Rightarrow> ('k \<times> 'v) list \<Rightarrow> 'db" where
  "puts db kvs = foldl (\<lambda>s kv. put s (fst kv) (snd kv)) db kvs"

lemma puts_Nil [simp]: "puts db [] = db"
  by (simp add: puts_def)

lemma puts_Cons [simp]: "puts db ((k, v) # kvs) = puts (put db k v) kvs"
  by (simp add: puts_def)

lemma get_puts_other: "k \<notin> fst ` set kvs \<Longrightarrow> get (puts db kvs) k d = get db k d"
proof (induction kvs arbitrary: db)
  case (Cons kv kvs)
  then show ?case by (cases kv) (simp add: get_put_other)
qed simp

text \<open>The last write to a key is the one that is read.\<close>

lemma get_puts_last:
  "k \<notin> fst ` set kvs' \<Longrightarrow> get (puts db (kvs @ (k, v) # kvs')) k d = v"
proof (induction kvs arbitrary: db)
  case Nil
  then show ?case by (simp add: get_puts_other get_put)
next
  case (Cons kv kvs)
  then show ?case by (cases kv) simp
qed

lemma get_put_if: "get (put db k v) k' d = (if k' = k then v else get db k' d)"
  by (simp add: get_put get_put_other)

lemma put_swap: "k \<noteq> k' \<Longrightarrow> get (put (put db k v) k' v') j d = get (put (put db k' v') k v) j d"
  by (simp add: get_put_if)

end

section \<open>store.py\<close>

type_synonym settings = "(string \<times> string) list"

definition strip_control_chars :: "string \<Rightarrow> string" where
  "strip_control_chars value = filter (\<lambda>c. code CHR '' '' \<le> code c \<and> code c \<noteq> 127) value"

text \<open>\<open>config.DEFAULTS\<close> depends on the environment, so it is an argument.\<close>

definition get_setting :: "settings \<Rightarrow> settings \<Rightarrow> string \<Rightarrow> string option \<Rightarrow> string" where
  "get_setting DEFAULTS db key dflt =
     (case map_of db key of
        Some v \<Rightarrow> v
      | None \<Rightarrow> (case dflt of
            Some d \<Rightarrow> d
          | None \<Rightarrow> (case map_of DEFAULTS key of Some d \<Rightarrow> d | None \<Rightarrow> [])))"

fun update_row :: "settings \<Rightarrow> string \<Rightarrow> string \<Rightarrow> settings" where
  "update_row [] key value = []"
| "update_row ((k, v) # rows) key value =
     (if k = key then (k, value) # rows else (k, v) # update_row rows key value)"

definition set_setting :: "settings \<Rightarrow> string \<Rightarrow> string \<Rightarrow> settings" where
  "set_setting db key value =
     (case map_of db key of
        None \<Rightarrow> db @ [(key, value)]
      | Some _ \<Rightarrow> update_row db key value)"

text \<open>\<open>dict\<close> assignment keeps the position of a key already present.\<close>

definition dict_set :: "settings \<Rightarrow> string \<Rightarrow> string \<Rightarrow> settings" where
  "dict_set d key value =
     (if key \<in> fst ` set d then update_row d key value else d @ [(key, value)])"

definition all_settings :: "settings \<Rightarrow> settings \<Rightarrow> settings" where
  "all_settings DEFAULTS db = foldl (\<lambda>merged row. dict_set merged (fst row) (snd row)) DEFAULTS db"

text \<open>\<open>settings.get(key, default)\<close> on such a dict.\<close>

definition dict_get :: "settings \<Rightarrow> string \<Rightarrow> string \<Rightarrow> string" where
  "dict_get d key dflt = (case map_of d key of Some v \<Rightarrow> v | None \<Rightarrow> dflt)"

section \<open>Lemmas\<close>

lemma map_of_update_row:
  "map_of (update_row db key v) k =
     (if k = key then map_option (\<lambda>_. v) (map_of db key) else map_of db k)"
  by (induction db key v rule: update_row.induct) auto

lemma keys_update_row [simp]: "map fst (update_row db key v) = map fst db"
  by (induction db key v rule: update_row.induct) auto

lemma map_of_snoc_new: "map_of db key = None \<Longrightarrow> map_of (db @ [(key, v)]) = (map_of db)(key \<mapsto> v)"
  by (auto simp: fun_eq_iff map_add_def split: option.splits)

lemma map_of_set_setting: "map_of (set_setting db key v) = (map_of db)(key \<mapsto> v)"
proof (cases "map_of db key")
  case None
  then show ?thesis by (simp only: set_setting_def option.case map_of_snoc_new)
next
  case (Some w)
  then show ?thesis by (simp add: set_setting_def fun_eq_iff map_of_update_row)
qed

lemma distinct_set_setting:
  "distinct (map fst db) \<Longrightarrow> distinct (map fst (set_setting db key v))"
  by (simp add: set_setting_def map_of_eq_None_iff split: option.split)

lemma map_of_dict_set: "map_of (dict_set d key v) = (map_of d)(key \<mapsto> v)"
proof (cases "map_of d key")
  case None
  then have "key \<notin> fst ` set d" by (simp only: map_of_eq_None_iff not_False_eq_True)
  with None show ?thesis by (simp only: dict_set_def if_False map_of_snoc_new)
next
  case (Some w)
  then have "key \<in> fst ` set d" by (metis map_of_eq_None_iff option.distinct(1))
  with Some show ?thesis by (simp add: dict_set_def fun_eq_iff map_of_update_row)
qed

lemma map_of_all_settings:
  "distinct (map fst db) \<Longrightarrow> map_of (all_settings DEFAULTS db) = map_of DEFAULTS ++ map_of db"
proof (induction db rule: rev_induct)
  case (snoc row db)
  obtain k v where row: "row = (k, v)" by (cases row)
  from snoc.prems row have "map_of db k = None" by (simp add: map_of_eq_None_iff)
  with snoc row show ?case
    by (simp add: all_settings_def map_of_dict_set map_of_snoc_new fun_eq_iff map_add_def
        del: map_of_append)
qed (simp add: all_settings_def)

lemma dict_get_all_settings:
  "distinct (map fst db) \<Longrightarrow>
     dict_get (all_settings DEFAULTS db) key d =
       (case map_of db key of Some v \<Rightarrow> v | None \<Rightarrow> dict_get DEFAULTS key d)"
  by (simp add: dict_get_def map_of_all_settings map_add_def split: option.split)

interpretation kv: settings_store
  "\<lambda>db k d. get_setting DEFAULTS db k (Some d)" set_setting
  by unfold_locales (simp_all add: get_setting_def map_of_set_setting)

lemma strip_control_chars_iff:
  "c \<in> set (strip_control_chars s) \<longleftrightarrow> c \<in> set s \<and> \<not> is_control c"
  by (auto simp: strip_control_chars_def is_control_def)

lemma strip_control_chars_NL [simp, line_safe]: "NL \<notin> set (strip_control_chars s)"
  by (simp add: strip_control_chars_iff is_control_def)

lemma strip_control_chars_idem [simp]:
  "strip_control_chars (strip_control_chars s) = strip_control_chars s"
  by (simp add: strip_control_chars_def)

lemma strip_control_chars_id:
  "(\<And>c. c \<in> set s \<Longrightarrow> \<not> is_control c) \<Longrightarrow> strip_control_chars s = s"
  by (simp add: strip_control_chars_def is_control_def filter_id_conv not_less)

text \<open>What \<open>strip_control_chars\<close> is for: its results stay on their line.\<close>

interpretation ctl: line_cleaner strip_control_chars
  by unfold_locales simp

end
