(* ===== verification/Ipxe.thy ===== *)
theory Ipxe
  imports Models Store
begin

text \<open>
  \<open>services/ipxe.py\<close>: the boot menu \<open>boot.ipxe\<close>, rendered from the settings and the image table.

  Every value is cleaned by \<open>ipxe_safe\<close> before it is written on a command line of the menu.  The
  lemmas say what cleaning guarantees (no line break, no second command beyond the one exception
  that \<open>separators_survive\<close> pins down, no variable in display text), and the properties lift
  that to the whole file.
\<close>

section \<open>Cleaning a value\<close>

definition IPXE_SEPARATORS :: "string list" where
  "IPXE_SEPARATORS = [''||'', ''&&'', '';'']"

definition safe_word :: "bool \<Rightarrow> string \<Rightarrow> string" where
  "safe_word allow_settings word =
     (let word = (if prefix ''#'' word
                  then (let rest = lstrip_chars ''#'' word in if rest = [] then ''-'' else rest)
                  else word)
      in if allow_settings then word else replace ''${'' ''$ {'' word)"

definition ipxe_safe :: "bool \<Rightarrow> string \<Rightarrow> string" where
  "ipxe_safe allow_settings s =
     join '' '' (map (safe_word allow_settings)
       (filter (\<lambda>word. word \<notin> set IPXE_SEPARATORS) (words (strip_control_chars s))))"

definition ipxe_text :: "string \<Rightarrow> string" where
  "ipxe_text s = ipxe_safe False s"

section \<open>The menu's parts\<close>

definition ipxe_header :: "string \<Rightarrow> string \<Rightarrow> string" where
  "ipxe_header server_ip title =
     (let host = (if ipxe_text server_ip = [] then ''${next-server}'' else ipxe_text server_ip);
          title = ipxe_text title;
          host_url = ''http://'' @ host
      in unlines
        [''#!ipxe'',
         ''# GENERATED by the PXE web app. Do not edit by hand.'',
         '''',
         ''set boot-url '' @ host_url,
         ''# Used by NFS-netboot images: kernel cmdline references ${server-ip} for nfsroot.'',
         ''set server-ip '' @ host,
         ''set menu-title '' @ title])"

definition MENU_TOP :: string where
  "MENU_TOP = unlines
     ['''',
      ''imgfetch --name seen ${boot-url}/track/menu?mac=${net0/mac}&ip=${net0/ip} || goto start'',
      ''imgfree seen || goto start'',
      '''',
      '':start'',
      ''menu ${menu-title}'',
      ''item --gap -- ----------------------- Operating Systems -----------------------'']"

text \<open>The two footers differ in the \<open>choose\<close> line only.\<close>

definition menu_footer :: "string \<Rightarrow> string" where
  "menu_footer choose_line = unlines
     [''item --gap -- ----------------------------------------------------------------'',
      ''item shell        iPXE shell'',
      ''item reboot       Reboot'',
      ''item exit_ipxe    Continue local boot'',
      choose_line,
      '''',
      '':shell'',
      ''echo Type '' @ [CHR 0x27] @ ''exit'' @ [CHR 0x27] @ '' to return to the menu.'',
      ''shell'',
      ''goto start'',
      '''',
      '':reboot'',
      ''reboot'',
      '''',
      '':exit_ipxe'',
      ''exit'']"

definition MENU_FOOTER_TIMEOUT :: "string \<Rightarrow> string \<Rightarrow> string" where
  "MENU_FOOTER_TIMEOUT dflt timeout_ms =
     menu_footer (''choose --default '' @ dflt @ '' --timeout '' @ timeout_ms @ '' target && goto ${target}'')"

definition MENU_FOOTER_NO_TIMEOUT :: "string \<Rightarrow> string" where
  "MENU_FOOTER_NO_TIMEOUT dflt =
     menu_footer (''choose --default '' @ dflt @ '' target && goto ${target}'')"

definition ipxe_track :: "string \<Rightarrow> image \<Rightarrow> string \<Rightarrow> string" where
  "ipxe_track tag img base_url =
     (let url = base_url @ ''/track/'' @ show_nat (img_id img) @ ''?mac=${net0/mac}&ip=${net0/ip}''
      in unlines
        [''imgfetch --name track '' @ url @ '' || goto '' @ tag @ ''_boot'',
         ''imgfree track || goto '' @ tag @ ''_boot'',
         '':'' @ tag @ ''_boot''])"

definition xcpng_label :: "string \<Rightarrow> image \<Rightarrow> string \<Rightarrow> string" where
  "xcpng_label tag img base_url =
     (let img_dir = before_last (CHR ''/'') (ipxe_safe True (initrd_path img));
          grub = base_url @ ''/'' @ img_dir @ ''/bootx64.efi''
      in unlines ['':'' @ tag]
         @ ipxe_track tag img base_url
         @ unlines
            [''echo Booting '' @ ipxe_text (img_name img) @ '' (XCP-NG via GRUB) ...'',
             ''chain '' @ grub @ '' || goto start''])"

definition windows_label :: "string \<Rightarrow> image \<Rightarrow> string \<Rightarrow> string" where
  "windows_label tag img base_url =
     (let img_dir = before_last (CHR ''/'') (ipxe_safe True (kernel_path img))
      in unlines ['':'' @ tag]
         @ ipxe_track tag img base_url
         @ unlines
            [''echo Booting '' @ ipxe_text (img_name img) @ '' (Windows) ...'',
             ''kernel '' @ base_url @ ''/wimboot || goto start'',
             ''initrd '' @ base_url @ ''/'' @ img_dir @ ''/bootmgr   bootmgr  || goto start'',
             ''initrd '' @ base_url @ ''/'' @ img_dir @ ''/bcd       BCD      || goto start'',
             ''initrd '' @ base_url @ ''/'' @ img_dir @ ''/boot.sdi  boot.sdi || goto start'',
             ''initrd '' @ base_url @ ''/'' @ img_dir @ ''/boot.wim  boot.wim || goto start'',
             ''boot || goto start''])"

text \<open>The star of the default entry, in UTF-8.\<close>

definition star :: string where
  "star = '' '' @ [CHR 0xE2, CHR 0x98, CHR 0x85]"

definition os_tag :: "image \<Rightarrow> string" where
  "os_tag img = ''os_'' @ show_nat (img_id img)"

definition linux_label :: "string \<Rightarrow> image \<Rightarrow> string \<Rightarrow> string \<Rightarrow> string" where
  "linux_label tag img base_url args =
     (let kernel = base_url @ ''/'' @ ipxe_safe True (kernel_path img);
          initrd = base_url @ ''/'' @ ipxe_safe True (initrd_path img)
      in unlines ['':'' @ tag]
         @ ipxe_track tag img base_url
         @ unlines
            [''echo Booting '' @ ipxe_text (img_name img) @ '' ...'',
             ''kernel '' @ kernel @ '' '' @ args @ '' || goto start'',
             ''initrd '' @ initrd @ '' || goto start'',
             ''boot || goto start''])"

definition image_item :: "image \<Rightarrow> string" where
  "image_item img = ''item '' @ os_tag img @ ''        '' @ ipxe_text (img_name img)
                      @ (if is_default img then star else [])"

definition image_label :: "image \<Rightarrow> string" where
  "image_label img =
     (let tag = os_tag img; base_url = ''${boot-url}''; args = ipxe_safe True (boot_args img)
      in if os_family img = ''xcpng'' then xcpng_label tag img base_url
         else if os_family img = ''windows'' then windows_label tag img base_url
         else linux_label tag img base_url args)"

definition image_entries :: "image list \<Rightarrow> string \<times> string" where
  "image_entries images = (join [NL] (map image_item images), join [NL] (map image_label images))"

section \<open>Rendering\<close>

text \<open>\<open>str()\<close> of an integer of more than 4300 digits raises ValueError.\<close>

datatype render_error = IntTooLong

definition py_str :: "int \<Rightarrow> render_error + string" where
  "py_str i = (if max_str_digits < length (show_nat (nat \<bar>i\<bar>)) then Inl IntTooLong else Inr (show_int i))"

text \<open>The images the menu offers, in its order.\<close>

definition menu_images :: "image_table \<Rightarrow> image list" where
  "menu_images db = sort_by menu_le (filter (\<lambda>img. status img = ''ready'' \<and> enabled img) db)"

definition default_image :: "image list \<Rightarrow> image option" where
  "default_image images = List.find is_default images"

definition highlight :: "image list \<Rightarrow> string" where
  "highlight images =
     (case default_image images of
        Some img \<Rightarrow> os_tag img
      | None \<Rightarrow> (case images of [] \<Rightarrow> ''exit_ipxe'' | img # _ \<Rightarrow> os_tag img))"

definition timeout_secs :: "settings \<Rightarrow> image list \<Rightarrow> int" where
  "timeout_secs settings images =
     (case default_image images of
        None \<Rightarrow> 0
      | Some _ \<Rightarrow> (case py_int (dict_get settings ''boot_timeout'' ''30'') of
                     Some n \<Rightarrow> max 0 n
                   | None \<Rightarrow> 30))"

definition no_images :: string where
  "no_images = ''item --gap -- (no images uploaded yet '' @ [CHR 0xE2, CHR 0x80, CHR 0x94]
                 @ '' add one in the web UI)''"

text \<open>The text written to \<open>boot.ipxe\<close>, from the merged settings and the image table.\<close>

definition render_menu :: "settings \<Rightarrow> image_table \<Rightarrow> render_error + string" where
  "render_menu settings db =
     (let server_ip = dict_get settings ''server_ip'' [];
          title = dict_get settings ''menu_title'' ''Beacon'';
          images = menu_images db;
          (items, labels) = image_entries images;
          items = (if items = [] then no_images else items);
          dflt = highlight images;
          secs = timeout_secs settings images
      in rbind (if secs > 0
                then rbind (py_str (secs * 1000)) (\<lambda>ms. Inr (MENU_FOOTER_TIMEOUT dflt ms))
                else Inr (MENU_FOOTER_NO_TIMEOUT dflt))
           (\<lambda>footer. Inr (ipxe_header server_ip title @ MENU_TOP @ items @ [NL] @ footer @ [NL] @ labels)))"

definition ipxe_render :: "settings \<Rightarrow> settings \<Rightarrow> image_table \<Rightarrow> render_error + string" where
  "ipxe_render DEFAULTS db images = render_menu (all_settings DEFAULTS db) images"

section \<open>What cleaning guarantees\<close>

text \<open>Joining with spaces and splitting again takes every piece apart on its own.\<close>

lemma words_space: "words (a @ CHR '' '' # b) = words a @ words b"
proof -
  have "words_acc w (a @ CHR '' '' # b) = words_acc w a @ words_acc [] b" for w
    by (induction a arbitrary: w) auto
  then show ?thesis by (simp add: words_def)
qed

lemma words_join_concat: "words (join '' '' xs) = concat (map words xs)"
proof (induction "'' ''" xs rule: join.induct)
  case 1
  then show ?case by (simp add: words_def)
next
  case (3 x y zs)
  then show ?case using words_space [of x "join '' '' (y # zs)"] by simp
qed simp

lemma is_word_Cons: "is_word (c # cs) \<longleftrightarrow> \<not> py_space c \<and> (cs = [] \<or> is_word cs)"
  by (auto simp: is_word_def)

lemma is_word_append: "is_word a \<Longrightarrow> cs = [] \<or> is_word cs \<Longrightarrow> is_word (a @ cs)"
  by (auto simp: is_word_def)

text \<open>
  Taking a word apart at \<open>${\<close> leaves it whole, or leaves pieces that hold a dollar sign or a brace.
\<close>

lemma words_replace:
  "is_word p \<or> p = [] \<Longrightarrow> is_word w \<or> w = [] \<Longrightarrow>
     x \<in> set (words (p @ replace ''${'' ''$ {'' w)) \<Longrightarrow>
     x = p @ w \<or> CHR ''$'' \<in> set x \<or> CHR ''{'' \<in> set x"
proof (induction "''${''" "''$ {''" w arbitrary: p rule: replace.induct)
  case 1
  show ?case
  proof (cases "p = []")
    case True
    with 1 show ?thesis by (simp add: words_def)
  next
    case False
    with 1 have "words p = [p]" by (auto intro: words_single)
    with 1 show ?thesis by simp
  qed
next
  case (2 c cs)
  show ?case
  proof (cases "prefix ''${'' (c # cs)")
    case True
    then obtain v where v: "c # cs = ''${'' @ v" by (auto simp: prefix_def)
    then have word: "is_word v \<or> v = []" using "2.prems"(2) by (auto simp: is_word_def)
    have "words (p @ replace ''${'' ''$ {'' (c # cs)) =
          words (p @ ''$'') @ words (''{'' @ replace ''${'' ''$ {'' v)"
      using words_space [of "p @ ''$''" "CHR ''{'' # replace ''${'' ''$ {'' v"] v by simp
    moreover have "is_word (p @ ''$'')"
      using "2.prems"(1) by (auto simp: is_word_def py_space_def)
    then have "words (p @ ''$'') = [p @ ''$'']" by (rule words_single)
    moreover have "x \<in> set (words (''{'' @ replace ''${'' ''$ {'' v)) \<Longrightarrow>
        CHR ''$'' \<in> set x \<or> CHR ''{'' \<in> set x"
      using "2.hyps"(1) [of "''{''"] True v word by (auto simp: is_word_def py_space_def)
    ultimately show ?thesis using "2.prems"(3) by auto
  next
    case False
    then have "replace ''${'' ''$ {'' (c # cs) = c # replace ''${'' ''$ {'' cs"
      by auto
    then have "p @ replace ''${'' ''$ {'' (c # cs) = (p @ [c]) @ replace ''${'' ''$ {'' cs" by simp
    moreover have "is_word (p @ [c])" using "2.prems"(1,2) by (auto simp: is_word_def)
    moreover have "is_word cs \<or> cs = []" using "2.prems"(2) by (auto simp: is_word_def)
    ultimately show ?thesis
      using "2.hyps"(2) [of "p @ [c]"] False "2.prems"(3) by (auto simp del: replace.simps)
  qed
qed

lemma replace_none: "\<not> contains ''${'' (replace ''${'' ''$ {'' w)"
proof -
  have "\<not> contains ''${'' (replace ''${'' ''$ {'' w) \<and>
        (\<forall>t. replace ''${'' ''$ {'' w = CHR ''{'' # t \<longrightarrow> (\<exists>u. w = CHR ''{'' # u))"
  proof (induction "''${''" "''$ {''" w rule: replace.induct)
    case (2 c cs)
    show ?case
    proof (cases "prefix ''${'' (c # cs)")
      case True
      then obtain v where "c # cs = ''${'' @ v" by (auto simp: prefix_def)
      with 2 True show ?thesis by (auto simp: prefix_def)
    next
      case False
      with 2 show ?thesis by (auto simp: prefix_def)
    qed
  qed simp
  then show ?thesis ..
qed

lemma contains_space_sep:
  "contains ''${'' (a @ CHR '' '' # b) \<longleftrightarrow> contains ''${'' a \<or> contains ''${'' b"
proof (induction a)
  case (Cons c a)
  then show ?case by (cases a) auto
qed simp

lemma contains_join:
  "contains ''${'' (join '' '' xs) \<longleftrightarrow> (\<exists>x\<in>set xs. contains ''${'' x)"
proof (induction "'' ''" xs rule: join.induct)
  case (3 x y zs)
  then show ?case using contains_space_sep [of x "join '' '' (y # zs)"] by simp
qed simp_all

lemma lstrip_hash: "prefix ''#'' w \<Longrightarrow> lstrip_chars ''#'' w = dropWhile (\<lambda>c. c = CHR ''#'') w"
  by (simp add: lstrip_chars_def)

text \<open>The word that comes out for a word that goes in, before variables are masked.\<close>

lemma safe_word_True_is_word: "is_word w \<Longrightarrow> is_word (safe_word True w)"
  by (auto simp: safe_word_def Let_def is_word_def lstrip_chars_def list_all_iff py_space_def
      dest: set_dropWhileD)

lemma safe_word_False: "safe_word False w = replace ''${'' ''$ {'' (safe_word True w)"
  by (simp add: safe_word_def Let_def)

lemma words_ipxe_safe_True:
  "words (ipxe_safe True s) =
     map (safe_word True)
       (filter (\<lambda>w. w \<notin> set IPXE_SEPARATORS) (words (strip_control_chars s)))"
  unfolding ipxe_safe_def
  by (rule words_join) (auto simp: list_all_iff words_are_words safe_word_True_is_word)

lemma set_replace: "set (replace ''${'' ''$ {'' w) \<subseteq> insert (CHR '' '') (set w)"
proof (induction "''${''" "''$ {''" w rule: replace.induct)
  case (2 c cs)
  show ?case
  proof (cases "prefix ''${'' (c # cs)")
    case True
    then obtain v where "c # cs = ''${'' @ v" by (auto simp: prefix_def)
    with 2 True show ?thesis by (auto simp: prefix_def)
  next
    case False
    with 2 show ?thesis by auto
  qed
qed simp

lemma set_safe_word: "set (safe_word a w) \<subseteq> set w \<union> {CHR '' '', CHR ''-''}"
proof -
  have "set (safe_word True w) \<subseteq> set w \<union> {CHR ''-''}"
    by (auto simp: safe_word_def Let_def lstrip_chars_def dest: set_dropWhileD)
  with set_replace [of "safe_word True w"] show ?thesis
    by (cases a) (auto simp: safe_word_False)
qed

lemma set_words: "x \<in> set (words s) \<Longrightarrow> set x \<subseteq> set s"
proof -
  have "x \<in> set (words_acc w s) \<Longrightarrow> set x \<subseteq> set w \<union> set s" for w
  proof (induction s arbitrary: w)
    case (Cons c s)
    show ?case
    proof (cases "py_space c")
      case True
      with Cons.prems Cons.IH [of "[]"] show ?thesis by (auto split: if_splits)
    next
      case False
      with Cons.prems Cons.IH [of "c # w"] show ?thesis by auto
    qed
  qed (auto split: if_splits)
  then show "x \<in> set (words s) \<Longrightarrow> set x \<subseteq> set s" unfolding words_def by fastforce
qed

lemma ipxe_safe_no_control: "c \<in> set (ipxe_safe a s) \<Longrightarrow> \<not> is_control c"
proof -
  assume c: "c \<in> set (ipxe_safe a s)"
  show ?thesis
  proof (cases "c = CHR '' '' \<or> c = CHR ''-''")
    case True
    then show ?thesis by (auto simp: is_control_def)
  next
    case False
    then have "c \<notin> set '' ''" by simp
    from join_mem [OF c [unfolded ipxe_safe_def] this] obtain w where
      w: "w \<in> set (words (strip_control_chars s))" "c \<in> set (safe_word a w)" by auto
    with False set_safe_word have "c \<in> set w" by fastforce
    with set_words [OF w(1)] have "c \<in> set (strip_control_chars s)" by blast
    then show ?thesis by (simp add: strip_control_chars_iff)
  qed
qed

lemma ipxe_safe_NL [simp, line_safe]: "NL \<notin> set (ipxe_safe a s)"
  using ipxe_safe_no_control by (fastforce simp: is_control_def)

lemma ipxe_text_NL [simp, line_safe]: "NL \<notin> set (ipxe_text s)"
  by (simp add: ipxe_text_def)

text \<open>A separator comes out only where one went in behind hash signs.\<close>

lemma safe_word_separator:
  assumes "w \<notin> set IPXE_SEPARATORS" "is_word w"
  shows "safe_word True w \<in> set IPXE_SEPARATORS \<longleftrightarrow>
         prefix ''#'' w \<and> dropWhile (\<lambda>c. c = CHR ''#'') w \<in> set IPXE_SEPARATORS"
proof (cases "prefix ''#'' w")
  case True
  have "''-'' \<notin> set IPXE_SEPARATORS" and "[] \<notin> set IPXE_SEPARATORS"
    by (simp_all add: IPXE_SEPARATORS_def)
  moreover have "safe_word True w = (let rest = dropWhile (\<lambda>c. c = CHR ''#'') w
      in if rest = [] then ''-'' else rest)"
    using True by (simp add: safe_word_def Let_def lstrip_chars_def)
  ultimately show ?thesis
    using True by (cases "dropWhile (\<lambda>c. c = CHR ''#'') w") (simp_all add: Let_def del: dropWhile_eq_Nil_conv)
next
  case False
  with assms show ?thesis by (simp add: safe_word_def)
qed

lemma separator_no_brace:
  "x \<in> set IPXE_SEPARATORS \<Longrightarrow> CHR ''$'' \<notin> set x \<and> CHR ''{'' \<notin> set x"
  by (auto simp: IPXE_SEPARATORS_def)

lemma replace_separator: "x \<in> set IPXE_SEPARATORS \<Longrightarrow> replace ''${'' ''$ {'' x = x"
  by (auto simp: IPXE_SEPARATORS_def prefix_def)

lemma words_safe_word_separator:
  assumes "is_word w" "x \<in> set IPXE_SEPARATORS"
  shows "x \<in> set (words (safe_word a w)) \<longleftrightarrow> safe_word True w = x"
proof (cases a)
  case True
  with assms(1) show ?thesis by (auto simp: words_single safe_word_True_is_word)
next
  case False
  have word: "is_word (safe_word True w)" using assms(1) by (rule safe_word_True_is_word)
  show ?thesis
  proof
    assume "x \<in> set (words (safe_word a w))"
    with words_replace [of "[]" "safe_word True w" x] word False separator_no_brace [OF assms(2)]
    show "safe_word True w = x" by (auto simp: safe_word_False)
  next
    assume eq: "safe_word True w = x"
    with False have "safe_word a w = x" by (simp add: safe_word_False replace_separator assms(2))
    with word eq show "x \<in> set (words (safe_word a w))" by (simp add: words_single)
  qed
qed

section \<open>Lines\<close>

lemma breaks_show_nat [simp]: "breaks (show_nat n) = 0"
  by (simp add: breaks_free)

interpretation menu: line_cleaner "ipxe_safe a"
  by unfold_locales simp

lemma breaks_ipxe_safe [simp]: "breaks (ipxe_safe a s) = 0"
  by (rule menu.breaks_clean)

lemma breaks_ipxe_text [simp]: "breaks (ipxe_text s) = 0"
  by (simp add: breaks_free)

lemma set_tl_subset: "set (tl l) \<subseteq> set l"
  by (cases l) auto

lemma set_before_last: "set (before_last c s) \<subseteq> set s"
proof -
  have "set (tl (dropWhile (\<lambda>x. x \<noteq> c) (rev s))) \<subseteq> set (dropWhile (\<lambda>x. x \<noteq> c) (rev s))"
    by (rule set_tl_subset)
  also have "\<dots> \<subseteq> set s" using set_dropWhileD [of _ "\<lambda>x. x \<noteq> c" "rev s"] by auto
  finally show ?thesis by (simp add: before_last_def)
qed

lemma breaks_before_last: "NL \<notin> set s \<Longrightarrow> breaks (before_last c s) = 0"
  by (rule breaks_free) (use set_before_last in fastforce)

lemma breaks_os_tag [simp]: "breaks (os_tag img) = 0"
  by (simp add: os_tag_def)

lemma breaks_track [simp]:
  "breaks (ipxe_track tag img base) = 3 + 3 * breaks tag + breaks base"
  by (simp add: ipxe_track_def Let_def)

definition label_lines :: "image \<Rightarrow> nat" where
  "label_lines img =
     (if os_family img = ''xcpng'' then 6 else if os_family img = ''windows'' then 11 else 8)"

lemma breaks_label: "breaks (image_label img) = label_lines img"
  by (simp add: image_label_def Let_def xcpng_label_def windows_label_def linux_label_def
      label_lines_def breaks_before_last)

lemma breaks_item: "breaks (image_item img) = 0"
  by (simp add: image_item_def star_def)

lemma breaks_header: "breaks (ipxe_header ip title) = 7"
  by (simp add: ipxe_header_def Let_def)

lemma breaks_footer: "breaks (menu_footer c) = 16 + breaks c"
  by (simp add: menu_footer_def)

lemma breaks_top: "breaks MENU_TOP = 7"
  by (simp add: MENU_TOP_def)

lemma breaks_show_int [simp]: "breaks (show_int i) = 0"
  by (simp add: show_int_def)

lemma breaks_no_images: "breaks no_images = 0"
  by (simp add: no_images_def)

lemma item_not_empty [simp]: "image_item img \<noteq> []"
  by (simp add: image_item_def)

lemma join_items_ne: "images \<noteq> [] \<Longrightarrow> join [NL] (map image_item images) \<noteq> []"
  by (cases images) (auto simp: image_item_def join_Cons_head)

section \<open>The rendered file, line by line\<close>

text \<open>A line that neither asks for the choice nor is the label of an image.\<close>

definition other_row :: "string \<Rightarrow> bool" where
  "other_row l \<longleftrightarrow> NL \<notin> set l \<and> \<not> prefix ''choose '' l \<and> \<not> prefix '':os_'' l"

lemma split_rows: "list_all other_row ls \<Longrightarrow> split_on NL (unlines ls @ t) = ls @ split_on NL t"
  by (rule split_unlines) (auto simp: other_row_def list_all_iff)

lemma other_rows_filter:
  "list_all other_row ls \<Longrightarrow> filter (prefix ''choose '') ls = [] \<and> filter (prefix '':os_'') ls = []"
  by (auto simp: other_row_def list_all_iff filter_empty_conv)

lemma header_rows: "\<exists>ls. ipxe_header ip title = unlines ls \<and> list_all other_row ls"
  unfolding ipxe_header_def Let_def
  by (rule exI conjI refl)+ (simp add: other_row_def)

lemma top_rows: "\<exists>ls. MENU_TOP = unlines ls \<and> list_all other_row ls"
  unfolding MENU_TOP_def by (rule exI conjI refl)+ (simp add: other_row_def)

lemma footer_rows:
  "\<exists>fs gs. menu_footer c = unlines (fs @ c # gs) \<and> list_all other_row fs \<and> list_all other_row gs"
proof -
  let ?fs = "[''item --gap -- ----------------------------------------------------------------'',
      ''item shell        iPXE shell'', ''item reboot       Reboot'',
      ''item exit_ipxe    Continue local boot'']"
  let ?gs = "['''', '':shell'',
      ''echo Type '' @ [CHR 0x27] @ ''exit'' @ [CHR 0x27] @ '' to return to the menu.'', ''shell'',
      ''goto start'', '''', '':reboot'', ''reboot'', '''', '':exit_ipxe'', ''exit'']"
  have "menu_footer c = unlines (?fs @ c # ?gs)" by (simp add: menu_footer_def)
  moreover have "list_all other_row ?fs" "list_all other_row ?gs"
    by (simp_all add: other_row_def)
  ultimately show ?thesis by blast
qed

text \<open>The label of an image opens with its tag, and closes its tracking block with a second label.\<close>

lemma os_tag_NL [simp, line_safe]: "NL \<notin> set (os_tag img)"
  by (simp add: os_tag_def)

lemma before_last_NL [line_safe]: "NL \<notin> set s \<Longrightarrow> NL \<notin> set (before_last c s)"
  using set_before_last by fastforce

lemma boot_rows:
  "\<exists>gs. image_label img = unlines [CHR '':'' # os_tag img]
      @ ipxe_track (os_tag img) img ''${boot-url}'' @ unlines gs \<and> list_all other_row gs"
proof -
  consider "os_family img = ''xcpng''" | "os_family img = ''windows''"
    | "os_family img \<noteq> ''xcpng''" "os_family img \<noteq> ''windows''" by blast
  then show ?thesis
    by cases (simp_all add: image_label_def Let_def xcpng_label_def windows_label_def linux_label_def,
        (rule exI conjI refl | simp add: other_row_def before_last_NL)+)
qed

lemma label_rows:
  "\<exists>fs gs. image_label img = unlines ((CHR '':'' # os_tag img) # fs @ (CHR '':'' # os_tag img @ ''_boot'') # gs)
     \<and> list_all other_row fs \<and> list_all other_row gs"
proof -
  let ?fs = "[''imgfetch --name track '' @ ''${boot-url}'' @ ''/track/'' @ show_nat (img_id img)
          @ ''?mac=${net0/mac}&ip=${net0/ip}'' @ '' || goto '' @ os_tag img @ ''_boot'',
        ''imgfree track || goto '' @ os_tag img @ ''_boot'']"
  obtain gs where gs: "list_all other_row gs"
    "image_label img = unlines [CHR '':'' # os_tag img]
      @ ipxe_track (os_tag img) img ''${boot-url}'' @ unlines gs"
    using boot_rows by blast
  have "ipxe_track (os_tag img) img ''${boot-url}'' =
      unlines (?fs @ [CHR '':'' # os_tag img @ ''_boot''])"
    by (simp add: ipxe_track_def Let_def)
  with gs(2) have "image_label img =
      unlines ((CHR '':'' # os_tag img) # ?fs @ (CHR '':'' # os_tag img @ ''_boot'') # gs)"
    by (simp add: unlines_def)
  moreover have "list_all other_row ?fs" by (simp add: other_row_def)
  ultimately show ?thesis using gs(1) by blast
qed

text \<open>What is left of a text when only its choice and image labels are kept.\<close>

definition key_rows :: "string list \<Rightarrow> string list" where
  "key_rows = filter (\<lambda>l. prefix ''choose '' l \<or> prefix '':os_'' l)"

lemma key_rows_simps [simp]:
  "key_rows [] = []"
  "key_rows (xs @ ys) = key_rows xs @ key_rows ys"
  "list_all other_row ls \<Longrightarrow> key_rows ls = []"
  "key_rows (l # ls) = (if prefix ''choose '' l \<or> prefix '':os_'' l then [l] else []) @ key_rows ls"
  by (auto simp: key_rows_def other_row_def list_all_iff filter_empty_conv)

lemma key_label:
  "key_rows (split_on NL (image_label img @ t)) =
     [CHR '':'' # os_tag img, CHR '':'' # os_tag img @ ''_boot''] @ key_rows (split_on NL t)"
proof -
  obtain fs gs where l: "image_label img =
      unlines ((CHR '':'' # os_tag img) # fs @ (CHR '':'' # os_tag img @ ''_boot'') # gs)"
    and ok: "list_all other_row fs" "list_all other_row gs"
    using label_rows by blast
  have "list_all (\<lambda>l. NL \<notin> set l)
      ((CHR '':'' # os_tag img) # fs @ (CHR '':'' # os_tag img @ ''_boot'') # gs)"
    using ok by (auto simp: other_row_def list_all_iff)
  from split_unlines [OF this, of t] ok l show ?thesis by (simp add: os_tag_def)
qed

lemma key_labels:
  "key_rows (split_on NL (join [NL] (map image_label images))) =
     concat (map (\<lambda>img. [CHR '':'' # os_tag img, CHR '':'' # os_tag img @ ''_boot'']) images)"
proof (induction images)
  case (Cons img images)
  show ?case
  proof (cases "images = []")
    case True
    then show ?thesis using key_label [of img "[]"] by simp
  next
    case False
    have "split_on NL (NL # join [NL] (map image_label images)) =
        [] # split_on NL (join [NL] (map image_label images))" by simp
    with False Cons show ?thesis by (simp add: join_Cons key_label)
  qed
qed simp

lemma other_item: "other_row (image_item img)"
  by (simp add: other_row_def image_item_def star_def)

lemma key_items:
  "key_rows (split_on NL (join [NL] (map image_item images) @ NL # t)) = key_rows (split_on NL t)"
proof -
  have ok: "NL \<notin> set (image_item img)" "\<not> prefix ''choose '' (image_item img)"
    "\<not> prefix '':os_'' (image_item img)" for img
    using other_item [of img] by (simp_all add: other_row_def)
  show ?thesis
  proof (induction images)
    case (Cons img images)
    then show ?case
      by (cases "images = []") (simp_all add: join_Cons split_on_append_sep ok)
  qed simp
qed

lemma key_no_images: "key_rows (split_on NL (no_images @ NL # t)) = key_rows (split_on NL t)"
  using split_on_append_sep [of NL no_images t] by (simp add: no_images_def)

lemma key_footer:
  assumes "NL \<notin> set c" "prefix ''choose '' c"
  shows "key_rows (split_on NL (menu_footer c @ NL # t)) = c # key_rows (split_on NL t)"
proof -
  obtain fs gs where f: "menu_footer c = unlines (fs @ c # gs)"
    "list_all other_row fs" "list_all other_row gs"
    using footer_rows by blast
  have "list_all (\<lambda>l. NL \<notin> set l) (fs @ c # gs)"
    using f assms by (auto simp: other_row_def list_all_iff)
  from split_unlines [OF this, of "NL # t"] f assms(2) show ?thesis by simp
qed

definition choose_line :: "settings \<Rightarrow> image list \<Rightarrow> string" where
  "choose_line settings images =
     ''choose --default '' @ highlight images
       @ (if timeout_secs settings images > 0
          then '' --timeout '' @ show_int (timeout_secs settings images * 1000) else [])
       @ '' target && goto ${target}''"

lemma highlight_NL [simp]: "NL \<notin> set (highlight images)"
  by (auto simp: highlight_def split: option.splits list.splits)

lemma render_menu_eq:
  "render_menu settings db = Inr t \<Longrightarrow>
     t = ipxe_header (dict_get settings ''server_ip'' []) (dict_get settings ''menu_title'' ''Beacon'')
         @ MENU_TOP @ (if menu_images db = [] then no_images else join [NL] (map image_item (menu_images db)))
         @ [NL] @ menu_footer (choose_line settings (menu_images db)) @ [NL]
         @ join [NL] (map image_label (menu_images db))"
  by (auto simp: render_menu_def image_entries_def Let_def rbind_eq_Inr py_str_def choose_line_def
      MENU_FOOTER_TIMEOUT_def MENU_FOOTER_NO_TIMEOUT_def join_items_ne split: if_splits)

lemma render_key_rows:
  assumes "render_menu settings db = Inr t"
  shows "key_rows (split_on NL t) = choose_line settings (menu_images db) #
           concat (map (\<lambda>img. [CHR '':'' # os_tag img, CHR '':'' # os_tag img @ ''_boot''])
             (menu_images db))"
proof -
  obtain hs ts where h:
    "ipxe_header (dict_get settings ''server_ip'' []) (dict_get settings ''menu_title'' ''Beacon'') = unlines hs"
    "list_all other_row hs" and ts: "MENU_TOP = unlines ts" "list_all other_row ts"
    using header_rows top_rows by meson
  have choose: "NL \<notin> set (choose_line settings (menu_images db))"
    "prefix ''choose '' (choose_line settings (menu_images db))"
    by (simp_all add: choose_line_def)
  note t = render_menu_eq [OF assms]
  show ?thesis
    using key_footer [OF choose, of "[]"]
    by (cases "menu_images db = []")
      (simp_all add: t h ts split_rows key_no_images key_items key_footer [OF choose] key_labels)
qed

section \<open>Properties of the menu\<close>

text \<open>
  A word that iPXE would read as the end of a command reaches the menu from a setting or an image
  field exactly when the field has a word made of hash signs in front of that separator: everything
  else that could start a second command is dropped.
\<close>

theorem separators_survive:
  assumes "sep \<in> set IPXE_SEPARATORS"
  shows "sep \<in> set (words (ipxe_safe a s)) \<longleftrightarrow>
         (\<exists>w \<in> set (words (strip_control_chars s)).
            prefix ''#'' w \<and> dropWhile (\<lambda>c. c = CHR ''#'') w = sep)"
proof -
  let ?ws = "filter (\<lambda>w. w \<notin> set IPXE_SEPARATORS) (words (strip_control_chars s))"
  have "sep \<in> set (words (safe_word a w)) \<longleftrightarrow> safe_word True w = sep" if "w \<in> set ?ws" for w
    by (rule words_safe_word_separator [OF words_are_words [of _ "strip_control_chars s"] assms])
      (use that in simp)
  moreover have "sep \<in> set (words (ipxe_safe a s)) \<longleftrightarrow>
      (\<exists>w \<in> set ?ws. sep \<in> set (words (safe_word a w)))"
    unfolding ipxe_safe_def words_join_concat by (simp add: Bex_def del: set_filter)
  ultimately have "sep \<in> set (words (ipxe_safe a s)) \<longleftrightarrow> (\<exists>w \<in> set ?ws. safe_word True w = sep)"
    by (metis (no_types, lifting))
  also have "\<dots> \<longleftrightarrow> (\<exists>w \<in> set (words (strip_control_chars s)).
            prefix ''#'' w \<and> dropWhile (\<lambda>c. c = CHR ''#'') w = sep)"
  proof -
    have sep: "sep \<noteq> ''-''" "sep \<noteq> []" using assms by (auto simp: IPXE_SEPARATORS_def)
    have "prefix ''#'' w \<Longrightarrow> w \<notin> set IPXE_SEPARATORS" for w
      by (auto simp: IPXE_SEPARATORS_def prefix_def)
    moreover have "safe_word True w = (let rest = dropWhile (\<lambda>c. c = CHR ''#'') w
        in if rest = [] then ''-'' else rest)" if "prefix ''#'' w" for w
      using that by (simp add: safe_word_def Let_def lstrip_chars_def)
    moreover have "safe_word True w = w" if "\<not> prefix ''#'' w" for w
      using that by (simp add: safe_word_def)
    ultimately show ?thesis using assms sep by (auto simp: Let_def) (metis list.discI)+
  qed
  finally show ?thesis .
qed

text \<open>
  No text of an administrator, an imported catalog or a backup can add a line to the boot menu: the
  number of lines of \<open>boot.ipxe\<close> is fixed by how many images are offered and by their families.
\<close>

theorem menu_line_count:
  assumes "render_menu settings db = Inr t"
  shows "breaks t = 32 + (length (menu_images db) - 1) * 2 + sum_list (map label_lines (menu_images db))"
proof -
  have items: "breaks (join [NL] (map image_item images)) = length images - 1" for images
    by (cases images) (simp_all add: breaks_join breaks_item o_def)
  have labels: "breaks (join [NL] (map image_label images)) =
      length images - 1 + sum_list (map label_lines images)" for images
    by (cases images) (simp_all add: breaks_join breaks_label o_def)
  have "breaks (choose_line settings (menu_images db)) = 0"
    by (rule breaks_free) (simp add: choose_line_def)
  with render_menu_eq [OF assms] show ?thesis
    by (simp add: breaks_header breaks_top breaks_footer breaks_no_images items labels)
qed

lemma default_image_SomeD: "default_image images = Some img \<Longrightarrow> img \<in> set images \<and> is_default img"
  by (auto simp: default_image_def find_Some_iff)

lemma highlight_offered:
  "highlight images \<in> set (map os_tag images) \<or> images = [] \<and> highlight images = ''exit_ipxe''"
proof (cases "default_image images")
  case None
  then show ?thesis by (cases images) (simp_all add: highlight_def)
next
  case (Some img)
  then show ?thesis by (simp add: highlight_def default_image_SomeD)
qed


text \<open>A number has more than \<open>k\<close> digits exactly when it reaches the power \<open>k\<close> of ten.\<close>

lemma length_show_nat: "0 < k \<Longrightarrow> k < length (show_nat n) \<longleftrightarrow> 10 ^ k \<le> n"
proof (induction n arbitrary: k rule: show_nat.induct)
  case (1 n)
  show ?case
  proof (cases "n < 10")
    case True
    have "10 ^ 1 \<le> (10 :: nat) ^ k" using "1.prems" by (intro power_increasing) auto
    with True 1 show ?thesis by (subst show_nat.simps) auto
  next
    case False
    show ?thesis
    proof (cases "k = 1")
      case True
      with False show ?thesis by (subst show_nat.simps) simp
    next
      case k: False
      then obtain j where j: "k = Suc j" "0 < j" using "1.prems" by (cases k) auto
      have "10 ^ j \<le> n div 10 \<longleftrightarrow> 10 ^ k \<le> n"
        by (simp add: j(1) less_eq_div_iff_mult_less_eq mult.commute)
      with 1(1) [OF False j(2)] False j show ?thesis by (subst show_nat.simps) simp
    qed
  qed
qed

text \<open>
  Rendering fails for one kind of input only: an offered default image and a boot timeout whose
  value in milliseconds has more digits than Python prints.
\<close>

theorem render_fails_iff:
  "(\<exists>e. render_menu settings db = Inl e) \<longleftrightarrow>
     10 ^ max_str_digits \<le> timeout_secs settings (menu_images db) * 1000"
proof -
  have "10 ^ max_str_digits \<le> i \<longleftrightarrow> max_str_digits < length (show_nat (nat \<bar>i\<bar>))" if "0 \<le> i" for i :: int
  proof -
    have "10 ^ max_str_digits \<le> i \<longleftrightarrow> 10 ^ max_str_digits \<le> nat i"
      using that by (simp add: nat_le_iff le_nat_iff)
    also have "\<dots> \<longleftrightarrow> max_str_digits < length (show_nat (nat i))"
      by (rule length_show_nat [symmetric]) (simp add: max_str_digits_def)
    finally show ?thesis using that by simp
  qed
  moreover have "0 \<le> timeout_secs settings is" for "is"
    by (simp add: timeout_secs_def split: option.splits)
  moreover have "\<not> 10 ^ max_str_digits \<le> (0 :: int)" by (simp add: not_le)
  ultimately show ?thesis
    by (auto simp: render_menu_def Let_def image_entries_def py_str_def rbind_eq_Inl not_less
        simp del: abs_mult split: if_splits)
qed

section \<open>Witnesses\<close>

text \<open>Two offered images, one of them the default, with line breaks and separators in their text.\<close>

definition hostile_images :: image_table where
  "hostile_images =
     [(image_row 1 (''Debian'' @ [NL] @ '':os_7 ; chain x'') ''deb.iso'')
        \<lparr>status := ''ready'', kernel_path := ''os/1/linux'', initrd_path := ''os/1/initrd''\<rparr>,
      (image_row 2 ''Windows 11'' ''win.iso'')
        \<lparr>status := ''ready'', os_family := ''windows'', kernel_path := ''os/2/bootmgr'', is_default := True\<rparr>]"

definition hostile_settings :: settings where
  "hostile_settings = [(''menu_title'', ''Boot'' @ [NL] @ ''choose --default os_9 target''), (''boot_timeout'', ''15'')]"

lemma hostile_menu: "menu_images hostile_images = hostile_images"
  by code_simp

lemma hostile_tags: "map os_tag hostile_images = [''os_1'', ''os_2'']"
proof -
  have "show_nat 1 = ''1''" "show_nat 2 = ''2''" by (simp_all add: show_nat.simps)
  then show ?thesis by (simp add: hostile_images_def image_row_def os_tag_def)
qed

lemma hostile_timeout: "timeout_secs hostile_settings (menu_images hostile_images) = 15"
  by code_simp

lemma show_15000: "show_nat 15000 = ''15000''"
  by (simp add: show_nat.simps)

lemma hostile_renders: "\<exists>t. render_menu hostile_settings hostile_images = Inr t"
  by (simp add: render_menu_def Let_def hostile_timeout py_str_def show_15000 max_str_digits_def
      split: prod.splits)

theorem separators_survive_witness:
  "'';'' \<in> set (words (ipxe_safe False ''Foo #; chain http://elsewhere/x''))"
proof -
  have "'';'' \<in> set IPXE_SEPARATORS" by (simp add: IPXE_SEPARATORS_def)
  moreover have "\<exists>w \<in> set (words (strip_control_chars ''Foo #; chain http://elsewhere/x'')).
      prefix ''#'' w \<and> dropWhile (\<lambda>c. c = CHR ''#'') w = '';''"
    by code_simp
  ultimately show ?thesis using separators_survive by blast
qed

theorem menu_line_count_witness:
  "\<exists>t. render_menu hostile_settings hostile_images = Inr t \<and> breaks t = 53"
proof -
  have "32 + (length (menu_images hostile_images) - 1) * 2
      + sum_list (map label_lines (menu_images hostile_images)) = 53"
    by code_simp
  with hostile_renders menu_line_count show ?thesis by metis
qed


end
