(* ===== verification/Dnsmasq.thy ===== *)
theory Dnsmasq
  imports Store
begin

text \<open>
  \<open>services/dnsmasq.py\<close>: the configuration of the DHCP and TFTP server, rendered from the merged
  settings.

  The specification is \<open>expected_directives\<close>: what dnsmasq is told, as a list, without the comments
  and blank lines around it.  \<open>config_directives\<close> shows that the rendered text holds exactly these
  directives, whatever the settings contain.
\<close>

section \<open>The file's parts\<close>

definition QUOT :: string where
  "QUOT = [CHR 0x22]"

definition dnsmasq_HEADER :: string where
  "dnsmasq_HEADER = unlines
     [''# GENERATED by the PXE web app. Do not edit by hand.'',
      ''port=0'',
      ''log-dhcp'',
      ''# Log DHCP/PXE activity to a file on the shared volume so the web app can show'',
      ''# recent clients on the dashboard (works in proxyDHCP, which has no lease file).'',
      ''log-facility=/dnsmasq/dnsmasq.log'']"

definition ARCH_DETECT :: string where
  "ARCH_DETECT = unlines
     ['''',
      ''# --- Architecture detection (BIOS vs UEFI) ---'',
      ''dhcp-match=set:efi32,option:client-arch,6'',
      ''dhcp-match=set:efi64,option:client-arch,7'',
      ''dhcp-match=set:efibc,option:client-arch,9'',
      '''',
      ''# iPXE identifies itself (so we serve the binary to raw firmware, but the HTTP'',
      ''# menu to iPXE) via user-class and the encapsulated iPXE option (175).'',
      ''dhcp-userclass=set:ipxe,iPXE'',
      ''dhcp-match=set:ipxe,175'']"

definition tftp_block :: string where
  "tftp_block = join [NL]
     [''# --- TFTP: serves the iPXE binaries ---'', ''enable-tftp'', ''tftp-root=/tftp'']"

definition boot_block :: "string \<Rightarrow> bool \<Rightarrow> string" where
  "boot_block server_ip tftp_enabled =
     (let menu_host = (if server_ip = [] then ''127.0.0.1'' else server_ip)
      in join [NL]
        ((if tftp_enabled
          then [''# Raw firmware (not yet iPXE): chainload the matching iPXE binary.'',
                ''pxe-prompt='' @ QUOT @ ''Loading iPXE...'' @ QUOT @ '',1'',
                ''pxe-service=tag:!ipxe,x86PC,'' @ QUOT @ ''iPXE (BIOS)'' @ QUOT @ '',undionly.kpxe'',
                ''pxe-service=tag:!ipxe,X86-64_EFI,'' @ QUOT @ ''iPXE (UEFI)'' @ QUOT @ '',ipxe.efi'',
                ''pxe-service=tag:!ipxe,BC_EFI,'' @ QUOT @ ''iPXE (UEFI)'' @ QUOT @ '',ipxe.efi'',
                '''']
          else [])
         @ [''# iPXE clients: load the HTTP boot menu.'',
            ''dhcp-boot=tag:ipxe,http://'' @ menu_host @ ''/boot.ipxe'']))"

definition external_block :: "string \<Rightarrow> string" where
  "external_block server_ip = join [NL]
     [''# --- External DHCP: your own DHCP server drives the boot ---'',
      ''# This box answers no DHCP whatsoever; it only serves the iPXE'',
      ''# binaries over TFTP. Point your DHCP server at:'',
      ''#     next-server = '' @ (if server_ip = [] then ''<this server IP>'' else server_ip),
      ''#     filename    = ipxe.efi        (UEFI clients)'',
      ''#     filename    = undionly.kpxe   (legacy BIOS clients)'']"

text \<open>A field the settings do not have prints as \<open>None\<close>.\<close>

definition full_dhcp_block :: "settings \<Rightarrow> string" where
  "full_dhcp_block settings = join [NL]
     [''# --- Full DHCP: this server assigns IP addresses ---'',
      ''dhcp-range='' @ dict_get settings ''dhcp_range_start'' ''None'' @ '',''
        @ dict_get settings ''dhcp_range_end'' ''None'' @ '',''
        @ dict_get settings ''dhcp_subnet_mask'' ''None'' @ '',12h'',
      ''dhcp-option=option:router,'' @ dict_get settings ''dhcp_gateway'' ''None'',
      ''dhcp-option=option:dns-server,'' @ dict_get settings ''dhcp_dns'' ''None'']"

definition proxy_block :: "string \<Rightarrow> string" where
  "proxy_block server_ip = join [NL]
     [''# --- proxyDHCP: runs beside your existing DHCP server ---'',
      ''dhcp-range='' @ (if server_ip = [] then ''0.0.0.0'' else server_ip) @ '',proxy'']"

definition disabled_block :: string where
  "disabled_block = join [NL]
     [''# DHCP service disabled in Server Settings. TFTP above (if enabled)'',
      ''# still serves the iPXE binaries, so an external DHCP server can'',
      ''# boot clients by pointing next-server/filename at this box.'']"

section \<open>The configuration\<close>

definition clean_settings :: "settings \<Rightarrow> settings" where
  "clean_settings settings = map (\<lambda>(k, v). (k, strip_control_chars v)) settings"

definition config_parts :: "settings \<Rightarrow> string list" where
  "config_parts settings =
     (let server_ip = dict_get settings ''server_ip'' [];
          iface = dict_get settings ''boot_interface'' ''eth0'';
          dhcp_on = (dict_get settings ''svc_dhcp'' ''1'' = ''1'');
          tftp_on = (dict_get settings ''svc_tftp'' ''1'' = ''1'');
          mode = dict_get settings ''dhcp_mode'' ''proxy''
      in [dnsmasq_HEADER]
         @ (if iface = [] then [] else [''interface='' @ iface, ''bind-interfaces'', ''except-interface=lo''])
         @ [ARCH_DETECT]
         @ (if tftp_on then [tftp_block] else [])
         @ (if mode = ''external'' then [external_block server_ip]
            else if dhcp_on then
              [if mode = ''full'' then full_dhcp_block settings else proxy_block server_ip,
               boot_block server_ip tftp_on]
            else [disabled_block]))"

definition build_config :: "settings \<Rightarrow> string" where
  "build_config settings = join [NL] (config_parts (clean_settings settings)) @ [NL]"

text \<open>
  \<open>render\<close>: the text it returns and the file it leaves, which is written only when it does not
  hold that text already.
\<close>

definition dnsmasq_render :: "settings \<Rightarrow> settings \<Rightarrow> string option \<Rightarrow> string \<times> string option" where
  "dnsmasq_render DEFAULTS db out =
     (let text = build_config (all_settings DEFAULTS db)
      in (text, if out = None \<or> out \<noteq> Some text then Some text else out))"

section \<open>What dnsmasq reads\<close>

definition directive :: "string \<Rightarrow> bool" where
  "directive l \<longleftrightarrow> l \<noteq> [] \<and> \<not> prefix ''#'' l"

definition directives :: "string \<Rightarrow> string list" where
  "directives text = filter directive (split_on NL text)"

definition cleaned :: "settings \<Rightarrow> string \<Rightarrow> string \<Rightarrow> string" where
  "cleaned settings key dflt =
     (case map_of settings key of Some v \<Rightarrow> strip_control_chars v | None \<Rightarrow> dflt)"

definition answers_dhcp :: "settings \<Rightarrow> bool" where
  "answers_dhcp settings \<longleftrightarrow>
     cleaned settings ''dhcp_mode'' ''proxy'' \<noteq> ''external'' \<and> cleaned settings ''svc_dhcp'' ''1'' = ''1''"

definition serves_tftp :: "settings \<Rightarrow> bool" where
  "serves_tftp settings \<longleftrightarrow> cleaned settings ''svc_tftp'' ''1'' = ''1''"

definition expected_range :: "settings \<Rightarrow> string list" where
  "expected_range settings =
     (if cleaned settings ''dhcp_mode'' ''proxy'' = ''full'' then
        [''dhcp-range='' @ cleaned settings ''dhcp_range_start'' ''None'' @ '',''
           @ cleaned settings ''dhcp_range_end'' ''None'' @ '',''
           @ cleaned settings ''dhcp_subnet_mask'' ''None'' @ '',12h'',
         ''dhcp-option=option:router,'' @ cleaned settings ''dhcp_gateway'' ''None'',
         ''dhcp-option=option:dns-server,'' @ cleaned settings ''dhcp_dns'' ''None'']
      else [''dhcp-range='' @ (if cleaned settings ''server_ip'' [] = [] then ''0.0.0.0''
                               else cleaned settings ''server_ip'' []) @ '',proxy''])"

definition expected_boot :: "settings \<Rightarrow> string list" where
  "expected_boot settings =
     (if serves_tftp settings then
        [''pxe-prompt='' @ QUOT @ ''Loading iPXE...'' @ QUOT @ '',1'',
         ''pxe-service=tag:!ipxe,x86PC,'' @ QUOT @ ''iPXE (BIOS)'' @ QUOT @ '',undionly.kpxe'',
         ''pxe-service=tag:!ipxe,X86-64_EFI,'' @ QUOT @ ''iPXE (UEFI)'' @ QUOT @ '',ipxe.efi'',
         ''pxe-service=tag:!ipxe,BC_EFI,'' @ QUOT @ ''iPXE (UEFI)'' @ QUOT @ '',ipxe.efi'']
      else [])
     @ [''dhcp-boot=tag:ipxe,http://'' @ (if cleaned settings ''server_ip'' [] = [] then ''127.0.0.1''
          else cleaned settings ''server_ip'' []) @ ''/boot.ipxe'']"

definition expected_directives :: "settings \<Rightarrow> string list" where
  "expected_directives settings =
     [''port=0'', ''log-dhcp'', ''log-facility=/dnsmasq/dnsmasq.log'']
     @ (if cleaned settings ''boot_interface'' ''eth0'' = [] then []
        else [''interface='' @ cleaned settings ''boot_interface'' ''eth0'', ''bind-interfaces'',
              ''except-interface=lo''])
     @ [''dhcp-match=set:efi32,option:client-arch,6'', ''dhcp-match=set:efi64,option:client-arch,7'',
        ''dhcp-match=set:efibc,option:client-arch,9'', ''dhcp-userclass=set:ipxe,iPXE'',
        ''dhcp-match=set:ipxe,175'']
     @ (if serves_tftp settings then [''enable-tftp'', ''tftp-root=/tftp''] else [])
     @ (if answers_dhcp settings then expected_range settings @ expected_boot settings else [])"

section \<open>Lemmas\<close>

lemma map_of_clean: "map_of (clean_settings settings) k = map_option strip_control_chars (map_of settings k)"
  by (induction settings) (auto simp: clean_settings_def)

lemma get_clean: "dict_get (clean_settings settings) k d = cleaned settings k d"
  by (simp add: dict_get_def cleaned_def map_of_clean split: option.split)

lemma cleaned_NL [simp, line_safe]: "NL \<notin> set d \<Longrightarrow> NL \<notin> set (cleaned settings k d)"
  by (simp add: cleaned_def split: option.split)

lemma directives_parts:
  "ps \<noteq> [] \<Longrightarrow> directives (join [NL] ps @ [NL]) = concat (map directives ps)"
proof -
  assume "ps \<noteq> []"
  then have "join [NL] ps @ [NL] = join [NL] (ps @ [[]])"
    by (induction "[NL]" ps rule: join.induct) auto
  then show ?thesis
    by (simp add: directives_def [abs_def] split_join_parts filter_concat o_def directive_def)
qed

lemma directives_rows:
  "ls \<noteq> [] \<Longrightarrow> list_all (\<lambda>l. NL \<notin> set l) ls \<Longrightarrow> directives (join [NL] ls) = filter directive ls"
  unfolding directives_def by (subst split_on_join) (auto simp: list_all_iff)

lemma directives_unlines:
  "list_all (\<lambda>l. NL \<notin> set l) ls \<Longrightarrow> directives (unlines ls) = filter directive ls"
  unfolding directives_def using split_unlines [of ls "[]"] by (simp add: directive_def)

lemma directives_line: "NL \<notin> set l \<Longrightarrow> directives l = (if directive l then [l] else [])"
  by (simp add: directives_def split_on_no_sep)

lemma directives_header:
  "directives dnsmasq_HEADER = [''port=0'', ''log-dhcp'', ''log-facility=/dnsmasq/dnsmasq.log'']"
  by (simp add: dnsmasq_HEADER_def directives_unlines directive_def)

lemma directives_arch:
  "directives ARCH_DETECT =
     [''dhcp-match=set:efi32,option:client-arch,6'', ''dhcp-match=set:efi64,option:client-arch,7'',
      ''dhcp-match=set:efibc,option:client-arch,9'', ''dhcp-userclass=set:ipxe,iPXE'',
      ''dhcp-match=set:ipxe,175'']"
  by (simp add: ARCH_DETECT_def directives_unlines directive_def)

lemma directives_blocks:
  "directives tftp_block = [''enable-tftp'', ''tftp-root=/tftp'']"
  "NL \<notin> set ip \<Longrightarrow> directives (external_block ip) = []"
  "directives disabled_block = []"
  "NL \<notin> set ip \<Longrightarrow> directives (proxy_block ip) =
     [''dhcp-range='' @ (if ip = [] then ''0.0.0.0'' else ip) @ '',proxy'']"
  unfolding tftp_block_def external_block_def disabled_block_def proxy_block_def
  by (subst directives_rows; simp add: directive_def)+

lemma directives_full:
  "directives (full_dhcp_block (clean_settings settings)) =
     [''dhcp-range='' @ cleaned settings ''dhcp_range_start'' ''None'' @ '',''
        @ cleaned settings ''dhcp_range_end'' ''None'' @ '',''
        @ cleaned settings ''dhcp_subnet_mask'' ''None'' @ '',12h'',
      ''dhcp-option=option:router,'' @ cleaned settings ''dhcp_gateway'' ''None'',
      ''dhcp-option=option:dns-server,'' @ cleaned settings ''dhcp_dns'' ''None'']"
  unfolding full_dhcp_block_def get_clean by (subst directives_rows; simp add: directive_def)

lemma directives_boot:
  "directives (boot_block (cleaned settings ''server_ip'' []) (serves_tftp settings)) = expected_boot settings"
  unfolding boot_block_def Let_def expected_boot_def
  by (subst directives_rows; simp add: directive_def QUOT_def)

lemma directives_build_config: "directives (build_config settings) = expected_directives settings"
proof -
  have "directives (build_config settings) = concat (map directives (config_parts (clean_settings settings)))"
    unfolding build_config_def by (rule directives_parts) (simp add: config_parts_def Let_def)
  also have "\<dots> = expected_directives settings"
  proof -
    have "cleaned settings ''boot_interface'' ''eth0'' \<noteq> [] \<Longrightarrow>
        concat (map directives [''interface='' @ cleaned settings ''boot_interface'' ''eth0'',
          ''bind-interfaces'', ''except-interface=lo'']) =
        [''interface='' @ cleaned settings ''boot_interface'' ''eth0'', ''bind-interfaces'', ''except-interface=lo'']"
      by (simp add: directives_line directive_def)
    moreover note directives_boot [of settings]
    ultimately show ?thesis
      by (simp add: config_parts_def Let_def get_clean expected_directives_def answers_dhcp_def
          serves_tftp_def expected_range_def directives_header directives_arch directives_blocks
          directives_full)
  qed
  finally show ?thesis .
qed

text \<open>The directives that make dnsmasq answer DHCP requests.\<close>

definition dhcp_directive :: "string \<Rightarrow> bool" where
  "dhcp_directive l \<longleftrightarrow> prefix ''dhcp-range='' l \<or> prefix ''dhcp-option='' l \<or> prefix ''dhcp-boot='' l
     \<or> prefix ''pxe-'' l"

lemma dhcp_in_expected: "list_ex dhcp_directive (expected_directives settings) \<longleftrightarrow> answers_dhcp settings"
proof -
  have "list_ex dhcp_directive (expected_range settings)"
    by (simp add: expected_range_def dhcp_directive_def)
  moreover have "\<not> list_ex dhcp_directive [''port=0'', ''log-dhcp'', ''log-facility=/dnsmasq/dnsmasq.log'']"
    "\<not> list_ex dhcp_directive [''interface='' @ i, ''bind-interfaces'', ''except-interface=lo'']"
    "\<not> list_ex dhcp_directive [''dhcp-match=set:efi32,option:client-arch,6'',
       ''dhcp-match=set:efi64,option:client-arch,7'', ''dhcp-match=set:efibc,option:client-arch,9'',
       ''dhcp-userclass=set:ipxe,iPXE'', ''dhcp-match=set:ipxe,175'']"
    "\<not> list_ex dhcp_directive [''enable-tftp'', ''tftp-root=/tftp'']" for i
    by (simp_all add: dhcp_directive_def)
  ultimately show ?thesis
    unfolding expected_directives_def list_ex_append by simp
qed

lemma tftp_in_expected: "''enable-tftp'' \<in> set (expected_directives settings) \<longleftrightarrow> serves_tftp settings"
  by (simp add: expected_directives_def expected_range_def expected_boot_def)

section \<open>Properties of the configuration\<close>

text \<open>
  C2. What dnsmasq is told is exactly the list \<open>expected_directives\<close> for any settings: a line break in
  a value, from a form or from a restored backup, never becomes a directive of its own, and no value
  removes or reorders one.
\<close>

theorem config_directives: "directives (build_config settings) = expected_directives settings"
  by (rule directives_build_config)

text \<open>
  The box answers DHCP (a range, an option, a boot or PXE directive) exactly when the DHCP service is
  on and the mode is not external: no other text of the settings can make it answer.  It serves TFTP
  exactly when that service is on, in every mode.
\<close>

theorem config_answers_dhcp:
  "(list_ex dhcp_directive (directives (build_config settings)) \<longleftrightarrow> answers_dhcp settings) \<and>
   (''enable-tftp'' \<in> set (directives (build_config settings)) \<longleftrightarrow> serves_tftp settings)"
  by (simp only: directives_build_config dhcp_in_expected tftp_in_expected simp_thms)

end
