(* ===== verification/Net.thy ===== *)
theory Net
  imports Store "HOL-Library.Word"
begin

text \<open>
  \<open>net.py\<close> and \<open>config._parse_trusted_proxies\<close>: which address a request is throttled under.  The
  first section is the part of Python's \<open>ipaddress\<close> they use: parsing of addresses and networks, and
  membership, on 32- and 128-bit words.
\<close>

unbundle bit_operations_syntax

section \<open>ipaddress\<close>

datatype ip = V4 "32 word" | V6 "128 word"

text \<open>Network address and net mask.\<close>

datatype network = Net4 "32 word" "32 word" | Net6 "128 word" "128 word"

definition parse_octet :: "string \<Rightarrow> nat option" where
  "parse_octet s =
     (if s = [] \<or> \<not> list_all is_digit s \<or> 3 < length s \<or> (s \<noteq> ''0'' \<and> prefix ''0'' s)
      then None
      else if 255 < nat_of_digits s then None else Some (nat_of_digits s))"

definition parse_ipv4 :: "string \<Rightarrow> 32 word option" where
  "parse_ipv4 s =
     (case map parse_octet (split_on CHR ''.'' s) of
        [Some a, Some b, Some c, Some d] \<Rightarrow>
          Some (word_of_nat (((a * 256 + b) * 256 + c) * 256 + d))
      | _ \<Rightarrow> None)"

definition hex_val :: "char \<Rightarrow> nat option" where
  "hex_val c = (if is_digit c then Some (digit_val c)
     else if chr_in CHR ''a'' CHR ''f'' c then Some (code c - 87)
     else if chr_in CHR ''A'' CHR ''F'' c then Some (code c - 55)
     else None)"

fun hex_digits :: "nat \<Rightarrow> string \<Rightarrow> nat option" where
  "hex_digits n [] = Some n"
| "hex_digits n (c # cs) = (case hex_val c of None \<Rightarrow> None | Some d \<Rightarrow> hex_digits (16 * n + d) cs)"

definition parse_hextet :: "string \<Rightarrow> nat option" where
  "parse_hextet s = (if s = [] \<or> 4 < length s then None else hex_digits 0 s)"

fun hextets :: "128 word \<Rightarrow> string list \<Rightarrow> 128 word option" where
  "hextets w [] = Some w"
| "hextets w (s # ss) = (case parse_hextet s of None \<Rightarrow> None
     | Some h \<Rightarrow> hextets (push_bit 16 w OR word_of_nat h) ss)"

fun show_hex :: "nat \<Rightarrow> string" where
  "show_hex n = (let d = n mod 16; c = char_of (if d < 10 then 48 + d else 87 + d)
     in if n < 16 then [c] else show_hex (n div 16) @ [c])"

declare show_hex.simps [simp del]

text \<open>A dotted quad in the last place stands for two groups.\<close>

definition split_groups :: "string \<Rightarrow> string list option" where
  "split_groups s =
     (let parts = split_on CHR '':'' s
      in if length parts < 3 then None
         else if CHR ''.'' \<in> set (last parts) then
           (case parse_ipv4 (last parts) of None \<Rightarrow> None
            | Some w \<Rightarrow> Some (butlast parts @ [show_hex (unat w div 65536), show_hex (unat w mod 65536)]))
         else Some parts)"

definition empty_inner :: "string list \<Rightarrow> nat list" where
  "empty_inner parts = filter (\<lambda>i. parts ! i = []) [1..<length parts - 1]"

definition parse_groups :: "string list \<Rightarrow> 128 word option" where
  "parse_groups parts =
     (if 9 < length parts then None
      else case empty_inner parts of
        [] \<Rightarrow> if length parts \<noteq> 8 then None else hextets 0 parts
      | [skip] \<Rightarrow>
          (let parts_hi = (if hd parts = [] then skip - 1 else skip);
               parts_lo = (if last parts = [] then length parts - skip - 2 else length parts - skip - 1)
           in if hd parts = [] \<and> 0 < parts_hi then None
              else if last parts = [] \<and> 0 < parts_lo then None
              else if 8 < parts_hi + parts_lo + 1 then None
              else (case hextets 0 (take parts_hi parts) of None \<Rightarrow> None
                    | Some w \<Rightarrow> hextets (push_bit (16 * (8 - (parts_hi + parts_lo))) w)
                                 (drop (length parts - parts_lo) parts)))
      | _ \<Rightarrow> None)"

text \<open>A zone after a per cent sign is not part of the number.\<close>

definition split_scope :: "string \<Rightarrow> string option" where
  "split_scope s =
     (let (addr, found, scope) = partition_at CHR ''%'' s
      in if \<not> found then Some s
         else if scope = [] \<or> CHR ''%'' \<in> set scope then None else Some addr)"

definition parse_ipv6 :: "string \<Rightarrow> 128 word option" where
  "parse_ipv6 s = (case split_scope s of None \<Rightarrow> None | Some a \<Rightarrow>
     (case split_groups a of None \<Rightarrow> None | Some parts \<Rightarrow> parse_groups parts))"

text \<open>\<open>ipaddress.ip_address\<close>; None is ValueError.\<close>

definition ip_address :: "string \<Rightarrow> ip option" where
  "ip_address s =
     (if CHR ''/'' \<in> set s then None
      else case parse_ipv4 s of Some w \<Rightarrow> Some (V4 w)
           | None \<Rightarrow> map_option V6 (parse_ipv6 s))"

definition netmask4 :: "nat \<Rightarrow> 32 word" where
  "netmask4 p = (-1) XOR drop_bit p (-1)"

definition netmask6 :: "nat \<Rightarrow> 128 word" where
  "netmask6 p = (-1) XOR drop_bit p (-1)"

definition prefix_string :: "nat \<Rightarrow> string \<Rightarrow> nat option" where
  "prefix_string mx s =
     (if s = [] \<or> \<not> list_all is_digit s \<or> max_str_digits < length s \<or> mx < nat_of_digits s then None
      else Some (nat_of_digits s))"

text \<open>An IPv4 mask may also be written out, as a net mask or as a host mask.\<close>

definition prefix_of_mask :: "32 word \<Rightarrow> nat option" where
  "prefix_of_mask w = List.find (\<lambda>p. netmask4 p = w) [0..<33]"

definition make_netmask4 :: "string \<Rightarrow> nat option" where
  "make_netmask4 s =
     (case prefix_string 32 s of
        Some p \<Rightarrow> Some p
      | None \<Rightarrow> (case parse_ipv4 s of None \<Rightarrow> None
          | Some w \<Rightarrow> (case prefix_of_mask w of Some p \<Rightarrow> Some p
              | None \<Rightarrow> prefix_of_mask (w XOR (-1)))))"

text \<open>\<open>ipaddress.ip_network(s, strict=False)\<close>.\<close>

definition network4 :: "string \<Rightarrow> string option \<Rightarrow> network option" where
  "network4 addr m =
     (case parse_ipv4 addr of None \<Rightarrow> None
      | Some w \<Rightarrow> (case (case m of None \<Rightarrow> Some 32 | Some s \<Rightarrow> make_netmask4 s) of None \<Rightarrow> None
          | Some p \<Rightarrow> Some (Net4 (w AND netmask4 p) (netmask4 p))))"

definition network6 :: "string \<Rightarrow> string option \<Rightarrow> network option" where
  "network6 addr m =
     (case parse_ipv6 addr of None \<Rightarrow> None
      | Some w \<Rightarrow> (case (case m of None \<Rightarrow> Some 128 | Some s \<Rightarrow> prefix_string 128 s) of None \<Rightarrow> None
          | Some p \<Rightarrow> Some (Net6 (w AND netmask6 p) (netmask6 p))))"

definition ip_network :: "string \<Rightarrow> network option" where
  "ip_network s =
     (case split_on CHR ''/'' s of
        [a] \<Rightarrow> (case network4 a None of Some n \<Rightarrow> Some n | None \<Rightarrow> network6 a None)
      | [a, m] \<Rightarrow> (case network4 a (Some m) of Some n \<Rightarrow> Some n | None \<Rightarrow> network6 a (Some m))
      | _ \<Rightarrow> None)"

definition in_network :: "ip \<Rightarrow> network \<Rightarrow> bool" where
  "in_network addr net =
     (case (addr, net) of
        (V4 a, Net4 n m) \<Rightarrow> a AND m = n
      | (V6 a, Net6 n m) \<Rightarrow> a AND m = n
      | _ \<Rightarrow> False)"

section \<open>net.py\<close>

definition parse_trusted_proxies :: "string \<Rightarrow> string list" where
  "parse_trusted_proxies raw =
     filter (\<lambda>tok. ip_network tok \<noteq> None) (words (map (\<lambda>c. if c = CHR '','' then CHR '' '' else c) raw))"

text \<open>The networks were all parsed once already, when the environment was read.\<close>

definition peer_is_trusted :: "string list \<Rightarrow> string \<Rightarrow> bool" where
  "peer_is_trusted TRUSTED_PROXIES peer =
     (if TRUSTED_PROXIES = [] then False
      else case ip_address peer of
        None \<Rightarrow> False
      | Some addr \<Rightarrow> list_ex (\<lambda>net. case ip_network net of None \<Rightarrow> False | Some n \<Rightarrow> in_network addr n)
                       TRUSTED_PROXIES)"

definition forwarded_hops :: "string \<Rightarrow> string list" where
  "forwarded_hops xff = filter (\<lambda>h. h \<noteq> []) (map strip (split_on CHR '','' xff))"

text \<open>\<open>client_ip\<close>, from the socket peer (None when there is none) and the X-Forwarded-For header.\<close>

definition client_ip :: "string list \<Rightarrow> string option \<Rightarrow> string option \<Rightarrow> string" where
  "client_ip TRUSTED_PROXIES client xff_header =
     (let peer = (case client of None \<Rightarrow> [] | Some h \<Rightarrow> h);
          socket = (if peer = [] then ''unknown'' else peer)
      in if peer \<noteq> [] \<and> peer_is_trusted TRUSTED_PROXIES peer then
           (let hops = forwarded_hops (case xff_header of None \<Rightarrow> [] | Some h \<Rightarrow> h)
            in if hops \<noteq> [] \<and> ip_address (last hops) \<noteq> None then last hops else socket)
         else socket)"

section \<open>Lemmas\<close>

text \<open>Two addresses agree under a net mask of length \<open>p\<close> when their \<open>p\<close> leading bits do.\<close>

lemma and_netmask:
  fixes a b :: "'a::len word"
  assumes "p \<le> LENGTH('a)"
  shows "a AND ((-1) XOR drop_bit p (-1)) = b AND ((-1) XOR drop_bit p (-1)) \<longleftrightarrow>
         drop_bit (LENGTH('a) - p) a = drop_bit (LENGTH('a) - p) b"
proof -
  have mask: "bit ((-1 :: 'a word) XOR drop_bit p (-1)) i \<longleftrightarrow> i < LENGTH('a) \<and> LENGTH('a) - p \<le> i" for i
    by (auto simp: bit_simps)
  show ?thesis
  proof
    assume eq: "a AND ((-1) XOR drop_bit p (-1)) = b AND ((-1) XOR drop_bit p (-1))"
    show "drop_bit (LENGTH('a) - p) a = drop_bit (LENGTH('a) - p) b"
    proof (rule bit_word_eqI)
      fix j assume "j < LENGTH('a)"
      have "bit (a AND ((-1) XOR drop_bit p (-1))) (LENGTH('a) - p + j) \<longleftrightarrow>
            bit (b AND ((-1) XOR drop_bit p (-1))) (LENGTH('a) - p + j)"
        by (simp only: eq)
      then have "LENGTH('a) - p + j < LENGTH('a) \<Longrightarrow>
          bit a (LENGTH('a) - p + j) \<longleftrightarrow> bit b (LENGTH('a) - p + j)"
        by (simp only: bit_and_iff mask) simp
      moreover have "\<not> LENGTH('a) - p + j < LENGTH('a) \<Longrightarrow>
          \<not> bit a (LENGTH('a) - p + j) \<and> \<not> bit b (LENGTH('a) - p + j)"
        using bit_imp_le_length by blast
      ultimately show "bit (drop_bit (LENGTH('a) - p) a) j \<longleftrightarrow> bit (drop_bit (LENGTH('a) - p) b) j"
        by (auto simp: bit_drop_bit_eq)
    qed
  next
    assume eq: "drop_bit (LENGTH('a) - p) a = drop_bit (LENGTH('a) - p) b"
    show "a AND ((-1) XOR drop_bit p (-1)) = b AND ((-1) XOR drop_bit p (-1))"
    proof (rule bit_word_eqI)
      fix i assume i: "i < LENGTH('a)"
      have "bit a i \<longleftrightarrow> bit b i" if "LENGTH('a) - p \<le> i"
        using arg_cong [OF eq, of "\<lambda>w. bit w (i - (LENGTH('a) - p))"] that
        by (simp add: bit_drop_bit_eq)
      then show "bit (a AND ((-1) XOR drop_bit p (-1))) i \<longleftrightarrow> bit (b AND ((-1) XOR drop_bit p (-1))) i"
        by (simp only: bit_and_iff mask) (use i in auto)
    qed
  qed
qed

lemma in_network4:
  "p \<le> 32 \<Longrightarrow> in_network (V4 a) (Net4 (w AND netmask4 p) (netmask4 p)) \<longleftrightarrow>
     drop_bit (32 - p) a = drop_bit (32 - p) w"
  using and_netmask [of p a w] by (simp add: in_network_def netmask4_def)

lemma in_network6:
  "p \<le> 128 \<Longrightarrow> in_network (V6 a) (Net6 (w AND netmask6 p) (netmask6 p)) \<longleftrightarrow>
     drop_bit (128 - p) a = drop_bit (128 - p) w"
  using and_netmask [of p a w] by (simp add: in_network_def netmask6_def)

lemma in_network_versions [simp]:
  "\<not> in_network (V4 a) (Net6 n m)" "\<not> in_network (V6 b) (Net4 n' m')"
  by (simp_all add: in_network_def)

text \<open>Characters an address can hold, so that it survives \<open>strip()\<close> and the comma split.\<close>

lemma split_on_snoc_field:
  "c \<notin> set v \<Longrightarrow> split_on c (u @ c # v) = split_on c u @ [v]"
proof -
  assume v: "c \<notin> set v"
  have "split_on c (u @ c # v) = split_on c u @ split_on c v"
    by (induction u) (auto split: list.splits)
  with v show ?thesis by (simp add: split_on_no_sep)
qed

lemma last_hop:
  assumes "CHR '','' \<notin> set hop" "strip hop \<noteq> []"
  shows "last (forwarded_hops (pre @ CHR '','' # hop)) = strip hop"
    and "forwarded_hops (pre @ CHR '','' # hop) \<noteq> []"
  using assms by (simp_all add: forwarded_hops_def split_on_snoc_field)

section \<open>Properties\<close>

text \<open>
  C33. Behind a trusted proxy the throttle key is the address the proxy appended to X-Forwarded-For:
  whatever the client itself put into the header in front of it changes nothing.  From any other
  peer the header is ignored and the key is the peer.
\<close>

theorem client_ip_not_spoofable:
  assumes "peer \<noteq> []" "CHR '','' \<notin> set hop" "ip_address (strip hop) \<noteq> None"
  shows "client_ip nets (Some peer) (Some (spoofed @ CHR '','' # hop)) =
         (if peer_is_trusted nets peer then strip hop else peer)"
proof -
  have "ip_address [] = None" by code_simp
  with assms(3) have "strip hop \<noteq> []" by metis
  with last_hop [OF assms(2) this] assms show ?thesis by (simp add: client_ip_def Let_def)
qed

theorem client_ip_not_spoofable_witness:
  "client_ip [''10.0.0.0/8''] (Some ''10.1.2.3'') (Some (''6.6.6.6, ::1'' @ CHR '','' # '' 192.168.1.20'')) = ''192.168.1.20''"
proof -
  have "peer_is_trusted [''10.0.0.0/8''] ''10.1.2.3''" by code_simp
  moreover have "ip_address (strip '' 192.168.1.20'') \<noteq> None" by code_simp
  moreover have "strip '' 192.168.1.20'' = ''192.168.1.20''" by code_simp
  ultimately show ?thesis
    using client_ip_not_spoofable [of "''10.1.2.3''" "'' 192.168.1.20''" "[''10.0.0.0/8'']" "''6.6.6.6, ::1''"]
    by simp
qed

lemma prefix_string_le: "prefix_string mx s = Some p \<Longrightarrow> p \<le> mx"
  by (auto simp: prefix_string_def split: if_splits)

lemma prefix_of_mask_le: "prefix_of_mask w = Some p \<Longrightarrow> p \<le> 32"
proof -
  assume "prefix_of_mask w = Some p"
  then obtain i where i: "i < 33" "p = [0..<33] ! i"
    by (auto simp: prefix_of_mask_def find_Some_iff)
  have "[0..<33] ! i = 0 + i" using i(1) by (intro nth_upt) simp
  with i show "p \<le> 32" by simp
qed

lemma make_netmask4_le: "make_netmask4 s = Some p \<Longrightarrow> p \<le> 32"
  by (auto simp: make_netmask4_def dest: prefix_string_le prefix_of_mask_le split: option.splits)

lemma network4_form:
  "network4 a m = Some n \<Longrightarrow> \<exists>w p. p \<le> 32 \<and> n = Net4 (w AND netmask4 p) (netmask4 p)"
  by (auto simp: network4_def dest: make_netmask4_le split: option.splits)

lemma network6_form:
  "network6 a m = Some n \<Longrightarrow> \<exists>w p. p \<le> 128 \<and> n = Net6 (w AND netmask6 p) (netmask6 p)"
  by (auto simp: network6_def dest: prefix_string_le split: option.splits)

lemma ip_network_form:
  "ip_network s = Some n \<Longrightarrow>
     (\<exists>w p. p \<le> 32 \<and> n = Net4 (w AND netmask4 p) (netmask4 p)) \<or>
     (\<exists>w p. p \<le> 128 \<and> n = Net6 (w AND netmask6 p) (netmask6 p))"
  by (auto simp: ip_network_def dest!: network4_form network6_form split: list.splits option.splits)

text \<open>The specification of membership: an address and a network of the same version share a prefix.\<close>

definition same_prefix :: "ip \<Rightarrow> network \<Rightarrow> bool" where
  "same_prefix addr n \<longleftrightarrow>
     (\<exists>a w p. addr = V4 a \<and> p \<le> 32 \<and> n = Net4 (w AND netmask4 p) (netmask4 p) \<and>
        drop_bit (32 - p) a = drop_bit (32 - p) w) \<or>
     (\<exists>a w p. addr = V6 a \<and> p \<le> 128 \<and> n = Net6 (w AND netmask6 p) (netmask6 p) \<and>
        drop_bit (128 - p) a = drop_bit (128 - p) w)"

lemma in_network_same_prefix:
  assumes "ip_network s = Some n"
  shows "in_network addr n \<longleftrightarrow> same_prefix addr n"
proof
  assume "same_prefix addr n"
  then show "in_network addr n" by (auto simp: same_prefix_def in_network4 in_network6)
next
  assume mem: "in_network addr n"
  from ip_network_form [OF assms] show "same_prefix addr n"
  proof
    assume "\<exists>w p. p \<le> 32 \<and> n = Net4 (w AND netmask4 p) (netmask4 p)"
    then obtain w p where n: "p \<le> 32" "n = Net4 (w AND netmask4 p) (netmask4 p)" by blast
    with mem show ?thesis
      unfolding same_prefix_def by (cases addr) (simp_all add: in_network4, blast)
  next
    assume "\<exists>w p. p \<le> 128 \<and> n = Net6 (w AND netmask6 p) (netmask6 p)"
    then obtain w p where n: "p \<le> 128" "n = Net6 (w AND netmask6 p) (netmask6 p)" by blast
    with mem show ?thesis
      unfolding same_prefix_def by (cases addr) (simp_all add: in_network6, blast)
  qed
qed

text \<open>
  C8. A peer is trusted exactly when it is a valid address that agrees with one of the configured
  networks, of its own version, on the leading bits that the network's prefix counts.
\<close>

theorem peer_is_trusted_iff:
  "peer_is_trusted nets peer \<longleftrightarrow>
     (\<exists>addr. ip_address peer = Some addr \<and>
        list_ex (\<lambda>net. \<exists>n. ip_network net = Some n \<and> same_prefix addr n) nets)"
proof (cases "ip_address peer")
  case None
  then show ?thesis by (simp add: peer_is_trusted_def)
next
  case (Some addr)
  have "(case ip_network net of None \<Rightarrow> False | Some n \<Rightarrow> in_network addr n) \<longleftrightarrow>
      (\<exists>n. ip_network net = Some n \<and> same_prefix addr n)" for net
    using in_network_same_prefix [of net] by (auto split: option.split)
  with Some show ?thesis by (cases nets) (simp_all add: peer_is_trusted_def)
qed

end
