(* ===== verification/Ratelimit.thy ===== *)
theory Ratelimit
  imports Prelude Complex_Main
begin

text \<open>
  \<open>services/ratelimit.py\<close>: the login throttle kept in the \<open>login_lockouts\<close> table
  (\<open>models.LoginLockout\<close>) and the in-memory sliding window that bounds the tracking endpoints.

  Times are Unix or monotonic clock readings, modelled as reals; the clock is read once per call
  and passed in as \<open>now\<close>.  The table maps a key to its row.

  The sign-in handlers rely on the contract \<open>throttle\<close>: a locked key stays refused until its
  lockout ends, five failures within the window lock, and a reset or another key's failures
  never do.
\<close>

section \<open>The login throttle\<close>

record lockout =
  fail_count :: nat
  locked_until :: "real option"
  last_fail :: "real option"

type_synonym lockouts = "string \<rightharpoonup> lockout"

definition MAX_FAILURES :: nat where "MAX_FAILURES = 5"
definition WINDOW_SECONDS :: real where "WINDOW_SECONDS = 300"
definition LOCKOUT_SECONDS :: real where "LOCKOUT_SECONDS = 900"

text \<open>A column that is NULL or 0.0 is false in \<open>row.locked_until and ...\<close>.\<close>

definition truthy :: "real option \<Rightarrow> bool" where
  "truthy x = (case x of None \<Rightarrow> False | Some t \<Rightarrow> t \<noteq> 0)"

text \<open>\<open>int(x) + 1\<close>, with \<open>int\<close> truncating towards zero.\<close>

definition retry_after :: "string \<Rightarrow> real \<Rightarrow> lockouts \<Rightarrow> int \<times> lockouts" where
  "retry_after key now db =
     (case db key of
        None \<Rightarrow> (0, db)
      | Some row \<Rightarrow>
          if truthy (locked_until row) \<and> the (locked_until row) > now
          then (\<lfloor>the (locked_until row) - now\<rfloor> + 1, db)
          else if truthy (last_fail row) \<and> now - the (last_fail row) \<ge> WINDOW_SECONDS
          then (0, db(key := None))
          else (0, db))"

definition fresh_row :: lockout where
  "fresh_row = \<lparr>fail_count = 0, locked_until = None, last_fail = None\<rparr>"

definition outside_window :: "real \<Rightarrow> lockout \<Rightarrow> bool" where
  "outside_window now row =
     (case last_fail row of None \<Rightarrow> False | Some t \<Rightarrow> now - t \<ge> WINDOW_SECONDS)"

definition failed_row :: "real \<Rightarrow> lockout \<Rightarrow> lockout" where
  "failed_row now row =
     (let n = (if outside_window now row then 0 else fail_count row) + 1
      in if n \<ge> MAX_FAILURES
         then row\<lparr>fail_count := 0, last_fail := Some now, locked_until := Some (now + LOCKOUT_SECONDS)\<rparr>
         else row\<lparr>fail_count := n, last_fail := Some now\<rparr>)"

definition record_failure :: "string \<Rightarrow> real \<Rightarrow> lockouts \<Rightarrow> lockouts" where
  "record_failure key now db =
     db(key \<mapsto> failed_row now (case db key of None \<Rightarrow> fresh_row | Some row \<Rightarrow> row))"

definition reset :: "string \<Rightarrow> lockouts \<Rightarrow> lockouts" where
  "reset key db = (case db key of None \<Rightarrow> db | Some _ \<Rightarrow> db(key := None))"

subsection \<open>The contract\<close>

text \<open>
  \<open>wait\<close> is the answer a handler gets, \<open>checked\<close> the table after asking, \<open>fail\<close> and \<open>clear\<close>
  the two reports it makes.
\<close>

locale throttle =
  fixes wait :: "'k \<Rightarrow> 't::linorder \<Rightarrow> 'db \<Rightarrow> int"
    and checked :: "'k \<Rightarrow> 't \<Rightarrow> 'db \<Rightarrow> 'db"
    and fail :: "'k \<Rightarrow> 't \<Rightarrow> 'db \<Rightarrow> 'db"
    and clear :: "'k \<Rightarrow> 'db \<Rightarrow> 'db"
  assumes wait_nonneg: "0 \<le> wait k t db"
    and wait_clear: "wait k t (clear k db) = 0"
    and wait_checked: "wait k t (checked k t db) = wait k t db"
    and other_fail: "k' \<noteq> k \<Longrightarrow> wait k' t' (fail k t db) = wait k' t' db"
    and other_clear: "k' \<noteq> k \<Longrightarrow> wait k' t' (clear k db) = wait k' t' db"
    and other_checked: "k' \<noteq> k \<Longrightarrow> wait k' t' (checked k t db) = wait k' t' db"
    and checked_locked: "wait k t db \<noteq> 0 \<Longrightarrow> checked k t db = db"
    and locked_before: "wait k t db \<noteq> 0 \<Longrightarrow> t' \<le> t \<Longrightarrow> wait k t' db \<noteq> 0"
begin

text \<open>An attempt as both sign-in steps make it: refused while locked, else judged by \<open>ok\<close>.\<close>

definition attempt :: "'k \<Rightarrow> 't \<Rightarrow> bool \<Rightarrow> 'db \<Rightarrow> bool \<times> 'db" where
  "attempt k t ok db =
     (if wait k t db \<noteq> 0 then (False, checked k t db)
      else if ok then (True, clear k (checked k t db))
      else (False, fail k t (checked k t db)))"

lemma attempt_locked: "wait k t db \<noteq> 0 \<Longrightarrow> attempt k t ok db = (False, db)"
  by (simp add: attempt_def checked_locked)

lemma attempt_succeeds: "fst (attempt k t ok db) \<longleftrightarrow> wait k t db = 0 \<and> ok"
  by (simp add: attempt_def)

lemma attempt_success_unlocks:
  "fst (attempt k t ok db) \<Longrightarrow> wait k t' (snd (attempt k t ok db)) = 0"
  by (simp add: attempt_def wait_clear split: if_splits)

lemma attempt_other: "k' \<noteq> k \<Longrightarrow> wait k' t' (snd (attempt k t ok db)) = wait k' t' db"
  by (simp add: attempt_def other_fail other_clear other_checked)

text \<open>No sequence of attempts under other keys locks or unlocks a key.\<close>

lemma attempts_other:
  "k' \<notin> fst ` set as \<Longrightarrow>
     wait k' t' (foldl (\<lambda>db (k, t, ok). snd (attempt k t ok db)) db as) = wait k' t' db"
proof (induction as arbitrary: db)
  case (Cons a as)
  obtain k t ok where a: "a = (k, t, ok)" by (cases a)
  from Cons.prems a have k: "k' \<noteq> k" and as: "k' \<notin> fst ` set as" by auto
  from Cons.IH [OF as] a show ?case by (simp add: attempt_other [OF k])
qed simp

text \<open>While a key is locked every attempt is refused, whatever is presented, and changes nothing.\<close>

lemma locked_refuses_all:
  "wait k t db \<noteq> 0 \<Longrightarrow> list_all (\<lambda>(t', ok). t' \<le> t) as \<Longrightarrow>
     foldl (\<lambda>db (t', ok). snd (attempt k t' ok db)) db as = db \<and>
     list_all (\<lambda>(t', ok). \<not> fst (attempt k t' ok db)) as"
proof (induction as)
  case (Cons a as)
  obtain t' ok where a: "a = (t', ok)" by (cases a)
  with Cons.prems have "wait k t' db \<noteq> 0" using locked_before by auto
  with Cons a show ?case by (simp add: attempt_locked)
qed simp

end

subsection \<open>The table keeps the contract\<close>

lemma retry_after_nonneg: "0 \<le> fst (retry_after k t db)"
  by (auto simp: retry_after_def split: option.splits)

lemma retry_after_zero_iff:
  "fst (retry_after key now db) = 0 \<longleftrightarrow>
     (\<forall>row. db key = Some row \<longrightarrow> \<not> (truthy (locked_until row) \<and> the (locked_until row) > now))"
proof (cases "db key")
  case (Some row)
  have "\<lfloor>the (locked_until row) - now\<rfloor> + 1 \<noteq> 0" if "the (locked_until row) > now"
    using that by (simp add: algebra_simps) linarith
  with Some show ?thesis by (auto simp: retry_after_def)
qed (simp add: retry_after_def)

lemma retry_after_row:
  "db k = db' k \<Longrightarrow> fst (retry_after k t db) = fst (retry_after k t db')"
  by (auto simp: retry_after_def split: option.splits)

lemma snd_retry_after_other: "k' \<noteq> k \<Longrightarrow> snd (retry_after k t db) k' = db k'"
  by (auto simp: retry_after_def split: option.splits)

interpretation login: throttle
  "\<lambda>k t db. fst (retry_after k t db)" "\<lambda>k t db. snd (retry_after k t db)" record_failure reset
proof (unfold_locales, goal_cases)
  case (1 k t db)
  show ?case by (rule retry_after_nonneg)
next
  case (2 k t db)
  show ?case by (auto simp: retry_after_def reset_def split: option.splits)
next
  case (3 k t db)
  show ?case by (cases "db k") (auto simp: retry_after_def)
next
  case (4 k' k t' t db)
  then show ?case by (intro retry_after_row) (simp add: record_failure_def)
next
  case (5 k' k t' db)
  then show ?case by (intro retry_after_row) (simp add: reset_def split: option.split)
next
  case (6 k' k t' t db)
  then show ?case by (intro retry_after_row) (simp add: snd_retry_after_other)
next
  case (7 k t db)
  then show ?case by (auto simp: retry_after_def split: option.splits if_splits)
next
  case (8 k t db t')
  then show ?case by (auto simp: retry_after_zero_iff)
qed

subsection \<open>When the throttle locks\<close>

text \<open>
  A run of failures under one key: each is reported after the previous one, and the gaps between
  them are what the window is compared with.
\<close>

fun failures :: "string \<Rightarrow> real list \<Rightarrow> lockouts \<Rightarrow> lockouts" where
  "failures k [] db = db"
| "failures k (t # ts) db = failures k ts (record_failure k t db)"

fun close_gaps :: "real \<Rightarrow> real list \<Rightarrow> bool" where
  "close_gaps t0 [] = True"
| "close_gaps t0 (t # ts) = (t - t0 < WINDOW_SECONDS \<and> close_gaps t ts)"

lemma failures_count:
  "db k = Some row \<Longrightarrow> last_fail row = Some u \<Longrightarrow> close_gaps u ts \<Longrightarrow>
     fail_count row + length ts < MAX_FAILURES \<Longrightarrow>
     \<exists>row'. failures k ts db k = Some row' \<and> fail_count row' = fail_count row + length ts \<and>
       locked_until row' = locked_until row \<and> last_fail row' = Some (last (u # ts))"
proof (induction ts arbitrary: db row u)
  case (Cons t ts)
  let ?row = "failed_row t row"
  have in_window: "\<not> outside_window t row"
    using Cons.prems by (simp add: outside_window_def)
  have row': "fail_count ?row = Suc (fail_count row)" "last_fail ?row = Some t"
    "locked_until ?row = locked_until row"
    using Cons.prems(4) in_window by (simp_all add: failed_row_def Let_def)
  have db': "record_failure k t db k = Some ?row"
    using Cons.prems(1) by (simp add: record_failure_def)
  from Cons.IH [where db = "record_failure k t db" and row = ?row and u = t] db' row' Cons.prems
  show ?case by auto
qed auto

lemma failed_row_trips:
  "\<not> outside_window now row \<Longrightarrow> Suc (fail_count row) \<ge> MAX_FAILURES \<Longrightarrow>
     locked_until (failed_row now row) = Some (now + LOCKOUT_SECONDS)"
  by (simp add: failed_row_def Let_def)

lemma failures_snoc: "failures k (ts @ [t]) db = record_failure k t (failures k ts db)"
  by (induction ts arbitrary: db) auto

section \<open>The in-memory sliding window\<close>

type_synonym events = "(string \<times> real list) list"

definition ev_get :: "events \<Rightarrow> string \<Rightarrow> real list" where
  "ev_get ev key = (case map_of ev key of None \<Rightarrow> [] | Some ts \<Rightarrow> ts)"

fun ev_set :: "events \<Rightarrow> string \<Rightarrow> real list \<Rightarrow> events" where
  "ev_set [] key ts = [(key, ts)]"
| "ev_set ((k, v) # ev) key ts = (if k = key then (k, ts) # ev else (k, v) # ev_set ev key ts)"

definition allow :: "string \<Rightarrow> nat \<Rightarrow> real \<Rightarrow> real \<Rightarrow> events \<Rightarrow> bool \<times> events" where
  "allow key limit window now ev =
     (let recent = filter (\<lambda>t. now - t < window) (ev_get ev key)
      in if length recent \<ge> limit then (False, ev_set ev key recent)
         else let ev' = ev_set ev key (recent @ [now])
              in if length ev' > 4096
                 then (True, filter (\<lambda>(k, v). list_ex (\<lambda>t. now - t < window) v) ev')
                 else (True, ev'))"

lemma map_of_ev_set: "map_of (ev_set ev key ts) = (map_of ev)(key \<mapsto> ts)"
  by (induction ev key ts rule: ev_set.induct) auto

lemma ev_get_set: "ev_get (ev_set ev key ts) k = (if k = key then ts else ev_get ev k)"
  by (simp add: ev_get_def map_of_ev_set)

lemma keys_ev_set: "fst ` set (ev_set ev key ts) = insert key (fst ` set ev)"
  by (induction ev key ts rule: ev_set.induct) auto

lemma distinct_ev_set: "distinct (map fst ev) \<Longrightarrow> distinct (map fst (ev_set ev key ts))"
proof (induction ev key ts rule: ev_set.induct)
  case (2 k v ev key ts)
  then show ?case by (cases "k = key") (simp_all add: keys_ev_set)
qed simp

lemma map_of_filter_value:
  "distinct (map fst ev) \<Longrightarrow>
     map_of (filter (\<lambda>(k, v). P v) ev) k =
       (case map_of ev k of None \<Rightarrow> None | Some v \<Rightarrow> if P v then Some v else None)"
proof (induction ev)
  case (Cons e ev)
  obtain k' v' where e: "e = (k', v')" by (cases e)
  have "map_of ev k' = None" using Cons.prems e by (simp add: map_of_eq_None_iff)
  with Cons e show ?case by (auto split: option.splits)
qed simp

text \<open>
  \<open>recent k\<close>: the recorded times that still count at \<open>now\<close>.  Dropping a key during the cleanup
  does not change it for any key.
\<close>

definition recent :: "real \<Rightarrow> real \<Rightarrow> events \<Rightarrow> string \<Rightarrow> real list" where
  "recent window now ev k = filter (\<lambda>t. now - t < window) (ev_get ev k)"

lemma recent_cleanup:
  "distinct (map fst ev) \<Longrightarrow>
     recent window now (filter (\<lambda>(k, v). list_ex (\<lambda>t. now - t < window) v) ev) k =
     recent window now ev k"
  by (simp add: recent_def ev_get_def map_of_filter_value list_ex_iff filter_empty_conv
      split: option.split)

lemma distinct_filter_keys: "distinct (map fst ev) \<Longrightarrow> distinct (map fst (filter P ev))"
  by (induction ev) auto

lemma allow_accepts:
  "fst (allow key limit window now ev) \<longleftrightarrow> length (recent window now ev key) < limit"
  by (simp add: allow_def recent_def Let_def not_le)

lemma allow_distinct:
  "distinct (map fst ev) \<Longrightarrow> distinct (map fst (snd (allow key limit window now ev)))"
  by (simp add: allow_def Let_def distinct_ev_set distinct_filter_keys)

lemma allow_recent:
  "distinct (map fst ev) \<Longrightarrow> 0 < window \<Longrightarrow>
     recent window now (snd (allow key limit window now ev)) k =
       (if k = key \<and> fst (allow key limit window now ev)
        then recent window now ev k @ [now] else recent window now ev k)"
  by (auto simp: allow_def Let_def recent_cleanup distinct_ev_set)
     (auto simp: recent_def ev_get_set)

lemma recent_later:
  "now \<le> now' \<Longrightarrow> recent window now' ev k = filter (\<lambda>t. now' - t < window) (recent window now ev k)"
  by (auto simp: recent_def intro!: filter_cong)

text \<open>A run of calls, each with its key and clock reading; the result lists the accepted ones.\<close>

fun allow_run :: "nat \<Rightarrow> real \<Rightarrow> (string \<times> real) list \<Rightarrow> events \<Rightarrow> (string \<times> real) list" where
  "allow_run limit window [] ev = []"
| "allow_run limit window ((key, now) # calls) ev =
     (case allow key limit window now ev of
        (ok, ev') \<Rightarrow> (if ok then [(key, now)] else []) @ allow_run limit window calls ev')"

definition times_of :: "string \<Rightarrow> (string \<times> real) list \<Rightarrow> real list" where
  "times_of k acc = map snd (filter (\<lambda>c. fst c = k) acc)"

text \<open>Any \<open>limit + 1\<close> consecutive times of the list span at least the window.\<close>

definition spaced :: "nat \<Rightarrow> real \<Rightarrow> real list \<Rightarrow> bool" where
  "spaced limit window T \<longleftrightarrow> (\<forall>i. i + limit < length T \<longrightarrow> window \<le> T ! (i + limit) - T ! i)"

lemma spaced_snoc:
  assumes T: "spaced limit window T" "sorted T" "\<And>t. t \<in> set T \<Longrightarrow> t \<le> now"
    and few: "length (filter (\<lambda>t. now - t < window) T) < limit"
  shows "spaced limit window (T @ [now])"
  unfolding spaced_def
proof (intro allI impI)
  fix i assume i: "i + limit < length (T @ [now])"
  show "window \<le> (T @ [now]) ! (i + limit) - (T @ [now]) ! i"
  proof (cases "i + limit < length T")
    case True
    with T(1) show ?thesis by (simp add: spaced_def nth_append)
  next
    case False
    with i have eq: "i + limit = length T" by simp
    have "window \<le> now - T ! i"
    proof (rule ccontr)
      assume near: "\<not> window \<le> now - T ! i"
      have "now - t < window" if t: "t \<in> set (drop i T)" for t
      proof -
        from t obtain j where "j < length (drop i T)" "t = drop i T ! j"
          by (auto simp: in_set_conv_nth)
        then have "T ! i \<le> t" using T(2) by (simp add: sorted_nth_mono)
        with near show ?thesis by simp
      qed
      then have "filter (\<lambda>t. now - t < window) (drop i T) = drop i T" by simp
      then have "length (drop i T) \<le> length (filter (\<lambda>t. now - t < window) T)"
        by (metis append_take_drop_id filter_append le_add2 length_append)
      with few eq show False by simp
    qed
    with eq few show ?thesis by (cases "i < length T") (auto simp: nth_append)
  qed
qed

lemma allow_run_spaced:
  "sorted (map snd calls) \<Longrightarrow> (\<And>c. c \<in> set calls \<Longrightarrow> now0 \<le> snd c) \<Longrightarrow>
     distinct (map fst ev) \<Longrightarrow> 0 < window \<Longrightarrow> sorted T \<Longrightarrow> (\<And>t. t \<in> set T \<Longrightarrow> t \<le> now0) \<Longrightarrow>
     recent window now0 ev k = filter (\<lambda>t. now0 - t < window) T \<Longrightarrow> spaced limit window T \<Longrightarrow>
     spaced limit window (T @ times_of k (allow_run limit window calls ev))"
proof (induction calls arbitrary: now0 ev T)
  case Nil
  then show ?case by (simp add: times_of_def)
next
  case (Cons call calls)
  obtain key now where call: "call = (key, now)" by (cases call)
  obtain ok ev' where step: "allow key limit window now ev = (ok, ev')" by fastforce
  define T' where "T' = (if key = k \<and> ok then T @ [now] else T)"
  have later: "now0 \<le> now" using Cons.prems(2) [of call] call by simp
  then have le: "\<And>t. t \<in> set T \<Longrightarrow> t \<le> now" using Cons.prems(6) by (meson order_trans)
  have rec: "recent window now ev k = filter (\<lambda>t. now - t < window) T"
    using later Cons.prems(7) by (subst recent_later [OF later]) (auto intro!: filter_cong)
  have "spaced limit window T'"
    using Cons.prems(8) spaced_snoc [OF Cons.prems(8) Cons.prems(5) le]
      allow_accepts [of key limit window now ev] step rec by (auto simp: T'_def)
  moreover have "recent window now ev' k = filter (\<lambda>t. now - t < window) T'"
    using allow_recent [OF Cons.prems(3,4), of now key limit k] step rec Cons.prems(4)
    by (auto simp: T'_def)
  moreover have "sorted T'" "\<And>t. t \<in> set T' \<Longrightarrow> t \<le> now"
    using Cons.prems(5) le by (auto simp: T'_def sorted_append split: if_splits)
  moreover have "distinct (map fst ev')"
    using allow_distinct [OF Cons.prems(3)] step by (metis snd_conv)
  ultimately have "spaced limit window (T' @ times_of k (allow_run limit window calls ev'))"
    using Cons.prems(1,4) call by (intro Cons.IH) auto
  then show ?case by (auto simp: call step T'_def times_of_def)
qed

section \<open>Properties\<close>



text \<open>C5. The throttle of the unauthenticated endpoints holds its bound at every moment: whatever calls
  arrive under whatever keys, among the calls accepted for one key any \<open>limit + 1\<close> consecutive
  ones are spread over at least the window, also across the cleanup that drops idle keys.\<close>

theorem allow_bounds_rate:
  assumes "sorted (map snd calls)" and "0 < window"
  shows "spaced limit window (times_of k (allow_run limit window calls []))"
proof (cases calls)
  case Nil
  then show ?thesis by (simp add: times_of_def spaced_def)
next
  case (Cons c cs)
  have "spaced limit window ([] @ times_of k (allow_run limit window calls []))"
    using assms Cons by (intro allow_run_spaced [of _ "snd c"])
      (auto simp: recent_def ev_get_def spaced_def)
  then show ?thesis by simp
qed

theorem allow_bounds_rate_witness:
  "spaced 2 60 (times_of ''a'' (allow_run 2 60
     [(''a'', 0), (''a'', 1), (''a'', 2), (''b'', 3), (''a'', 61)] []))"
  by (rule allow_bounds_rate) simp_all

text \<open>A throttled key is not a lever on anyone else: no sequence of sign-in attempts under other
  keys, failed or successful, changes how long a key has to wait.\<close>

theorem other_keys_do_not_lock:
  assumes "k' \<notin> fst ` set attempts"
  shows "fst (retry_after k' now (foldl (\<lambda>db (k, t, ok). snd (login.attempt k t ok db)) db attempts))
           = fst (retry_after k' now db)"
  using login.attempts_other [OF assms] by simp

theorem other_keys_do_not_lock_witness:
  "fst (retry_after ''b'' 9 (foldl (\<lambda>db (k, t, ok). snd (login.attempt k t ok db)) Map.empty
     [(''a'', 1, False), (''a'', 2, True), (''c'', 3, False)])) = fst (retry_after ''b'' 9 Map.empty)"
  by (rule other_keys_do_not_lock) simp

end
