(* ===== verification/Auth.thy ===== *)
theory Auth
  imports Models Ratelimit
begin

text \<open>
  Accounts and sign-in: \<open>auth.py\<close>, \<open>deps.py\<close>, \<open>services/totp.py\<close>, \<open>routers/auth.py\<close> and
  \<open>routers/users.py\<close>.

  The state a request sees is the user table, the login throttle's table and the signed session
  cookie of the browser that sends it.  bcrypt (\<open>checkpw\<close>, \<open>hashpw\<close>), pyotp (\<open>totp\<close>) and the
  random generators are arguments: \<open>checkpw\<close> is None where bcrypt raises ValueError, \<open>hashpw\<close>
  has the salt of this call applied.
\<close>

section \<open>Passwords\<close>

definition utf8_chr :: "char \<Rightarrow> nat list" where
  "utf8_chr c = (if code c < 128 then [code c] else [192 + code c div 64, 128 + code c mod 64])"

definition utf8 :: "string \<Rightarrow> nat list" where
  "utf8 s = concat (map utf8_chr s)"

definition BCRYPT_MAX_BYTES :: nat where "BCRYPT_MAX_BYTES = 72"

definition secret :: "string \<Rightarrow> nat list" where
  "secret password = take BCRYPT_MAX_BYTES (utf8 password)"

definition hash_password :: "(nat list \<Rightarrow> string) \<Rightarrow> string \<Rightarrow> string" where
  "hash_password hashpw password = hashpw (secret password)"

text \<open>Encoding a damaged hash as ASCII may fail too; either way no password matches it.\<close>

definition verify_password :: "(nat list \<Rightarrow> string \<Rightarrow> bool option) \<Rightarrow> string \<Rightarrow> string \<Rightarrow> bool" where
  "verify_password checkpw password hash =
     (if \<not> list_all (\<lambda>c. code c < 128) hash then False
      else case checkpw (secret password) hash of None \<Rightarrow> False | Some ok \<Rightarrow> ok)"

definition MIN_PASSWORD_LENGTH :: nat where "MIN_PASSWORD_LENGTH = 12"
definition MAX_PASSWORD_BYTES :: nat where "MAX_PASSWORD_BYTES = 72"

definition password_error :: "string \<Rightarrow> string option" where
  "password_error password =
     (if length password < MIN_PASSWORD_LENGTH
      then Some (''Password must be at least '' @ show_nat MIN_PASSWORD_LENGTH @ '' characters.'')
      else if MAX_PASSWORD_BYTES < length (utf8 password) then Some ''Password is too long (max 72 bytes).''
      else None)"

definition get_user_by_name :: "user_table \<Rightarrow> string \<Rightarrow> user option" where
  "get_user_by_name db name = List.find (\<lambda>u. username u = name) db"

text \<open>The verification against a dummy hash, for its time only, has no result.\<close>

definition authenticate ::
  "(nat list \<Rightarrow> string \<Rightarrow> bool option) \<Rightarrow> user_table \<Rightarrow> string \<Rightarrow> string \<Rightarrow> user option" where
  "authenticate checkpw db name password =
     (case get_user_by_name db name of
        None \<Rightarrow> None
      | Some u \<Rightarrow> if verify_password checkpw password (password_hash u) then Some u else None)"

text \<open>\<open>totp.verify\<close>; pyotp's check of a code against a secret at the time of the call is \<open>totp\<close>.\<close>

definition totp_verify :: "(string \<Rightarrow> string \<Rightarrow> bool) \<Rightarrow> string \<Rightarrow> string \<Rightarrow> bool" where
  "totp_verify totp sec codestr =
     (if sec = [] \<or> codestr = [] then False else totp sec (strip codestr))"

section \<open>Sessions\<close>

text \<open>The session cookie is a dict; these are the keys the console writes.\<close>

record session =
  s_uid :: "nat option"
  s_ep :: "nat option"
  s_totp_uid :: "nat option"
  s_totp_pending :: "string option"

definition empty_session :: session where
  "empty_session = \<lparr>s_uid = None, s_ep = None, s_totp_uid = None, s_totp_pending = None\<rparr>"

definition truthy_id :: "nat option \<Rightarrow> bool" where
  "truthy_id i \<longleftrightarrow> i \<noteq> None \<and> i \<noteq> Some 0"

record web =
  users :: user_table
  lockouts :: lockouts
  session :: session

datatype response = Page string string | Redirect string | Forbidden string | ServerError

definition user_by_token :: "user_table \<Rightarrow> string option \<Rightarrow> user option" where
  "user_by_token db authorization =
     (case authorization of
        None \<Rightarrow> None
      | Some a \<Rightarrow>
          if \<not> prefix ''Bearer '' a then None
          else let token = drop (length ''Bearer '') a
               in if token = [] then None else List.find (\<lambda>u. api_token u = Some token) db)"

text \<open>\<open>current_user\<close>: the user, and the session cookie it leaves.\<close>

definition current_user :: "string option \<Rightarrow> web \<Rightarrow> user option \<times> web" where
  "current_user authorization w =
     (case user_by_token (users w) authorization of
        Some u \<Rightarrow> (Some u, w)
      | None \<Rightarrow>
          if \<not> truthy_id (s_uid (session w)) then (None, w)
          else case get_user (users w) (the (s_uid (session w))) of
                 None \<Rightarrow> (None, w\<lparr>session := empty_session\<rparr>)
               | Some u \<Rightarrow>
                   if s_ep (session w) \<noteq> Some (session_epoch u) then (None, w\<lparr>session := empty_session\<rparr>)
                   else (Some u, w))"

definition require_user :: "string option \<Rightarrow> web \<Rightarrow> (response + user) \<times> web" where
  "require_user authorization w =
     (case current_user authorization w of
        (None, w') \<Rightarrow> (Inl (Redirect ''/login''), w')
      | (Some u, w') \<Rightarrow> (Inr u, w'))"

definition require_admin :: "string option \<Rightarrow> web \<Rightarrow> (response + user) \<times> web" where
  "require_admin authorization w =
     (case require_user authorization w of
        (Inl r, w') \<Rightarrow> (Inl r, w')
      | (Inr u, w') \<Rightarrow> if is_admin u then (Inr u, w') else (Inl (Forbidden ''Admin privileges required''), w'))"

text \<open>A route that depends on one of them.\<close>

definition guarded ::
  "(web \<Rightarrow> (response + user) \<times> web) \<Rightarrow> (user \<Rightarrow> web \<Rightarrow> response \<times> web) \<Rightarrow> web \<Rightarrow> response \<times> web" where
  "guarded require handler w =
     (case require w of (Inl r, w') \<Rightarrow> (r, w') | (Inr u, w') \<Rightarrow> handler u w')"

section \<open>Signing in and out\<close>

definition lockout_message :: "int \<Rightarrow> string" where
  "lockout_message wait =
     (let mins = (wait + 59) div 60
      in ''Too many failed attempts. Try again in '' @ show_int mins @ '' minute''
         @ (if mins \<noteq> 1 then ''s'' else []) @ ''.'')"

definition start_session :: "user \<Rightarrow> session \<Rightarrow> session" where
  "start_session u s = s\<lparr>s_uid := Some (user_id u), s_ep := Some (session_epoch u)\<rparr>"

definition login_submit ::
  "(nat list \<Rightarrow> string \<Rightarrow> bool option) \<Rightarrow> string \<Rightarrow> real \<Rightarrow> string \<Rightarrow> string \<Rightarrow> web \<Rightarrow> response \<times> web" where
  "login_submit checkpw key now name password w =
     (let (wait, db) = retry_after key now (lockouts w); w = w\<lparr>lockouts := db\<rparr>
      in if wait \<noteq> 0 then (Page ''login.html'' (lockout_message wait), w)
         else case authenticate checkpw (users w) name password of
           None \<Rightarrow> (Page ''login.html'' ''Invalid username or password.'',
                    w\<lparr>lockouts := record_failure key now (lockouts w)\<rparr>)
         | Some u \<Rightarrow>
             (let w = w\<lparr>lockouts := reset key (lockouts w)\<rparr>
              in if totp_enabled u
                 then (Redirect ''/login/totp'', w\<lparr>session := (session w)\<lparr>s_totp_uid := Some (user_id u)\<rparr>\<rparr>)
                 else (Redirect ''/'', w\<lparr>session := start_session u (session w)\<rparr>)))"

definition totp_key :: "nat \<Rightarrow> string" where
  "totp_key uid = ''totp:'' @ show_nat uid"

definition totp_submit ::
  "(string \<Rightarrow> string \<Rightarrow> bool) \<Rightarrow> real \<Rightarrow> string \<Rightarrow> web \<Rightarrow> response \<times> web" where
  "totp_submit totp now codestr w =
     (if \<not> truthy_id (s_totp_uid (session w)) then (Redirect ''/login'', w)
      else case get_user (users w) (the (s_totp_uid (session w))) of
        None \<Rightarrow> (Redirect ''/login'', w\<lparr>session := empty_session\<rparr>)
      | Some u \<Rightarrow>
          if \<not> totp_enabled u then (Redirect ''/login'', w\<lparr>session := empty_session\<rparr>)
          else
            (let key = totp_key (user_id u);
                 (wait, db) = retry_after key now (lockouts w); w = w\<lparr>lockouts := db\<rparr>
             in if wait \<noteq> 0 then (Page ''login_totp.html'' (lockout_message wait), w)
                else if \<not> totp_verify totp (case totp_secret u of None \<Rightarrow> [] | Some x \<Rightarrow> x) codestr
                then (Page ''login_totp.html'' ''Invalid code. Please try again.'',
                      w\<lparr>lockouts := record_failure key now (lockouts w)\<rparr>)
                else (Redirect ''/'',
                      w\<lparr>lockouts := reset key (lockouts w),
                        session := start_session u ((session w)\<lparr>s_totp_uid := None\<rparr>)\<rparr>)))"

definition logout :: "web \<Rightarrow> response \<times> web" where
  "logout w = (Redirect ''/login'', w\<lparr>session := empty_session\<rparr>)"

section \<open>Managing users\<close>

definition admin_count :: "user_table \<Rightarrow> nat" where
  "admin_count db = length (filter is_admin db)"

definition users_page :: "string \<Rightarrow> response" where
  "users_page err = Page ''users.html'' err"

definition create_user ::
  "(nat list \<Rightarrow> string) \<Rightarrow> string \<Rightarrow> string \<Rightarrow> string \<Rightarrow> user \<Rightarrow> web \<Rightarrow> response \<times> web" where
  "create_user hashpw name password r u w =
     (let name = strip name; r = (if r = ''admin'' then ''admin'' else ''user'')
      in if name = [] \<or> password = [] then (users_page ''Username and password required.'', w)
         else case password_error password of
           Some err \<Rightarrow> (users_page err, w)
         | None \<Rightarrow>
             if get_user_by_name (users w) name \<noteq> None
             then (users_page ''That username already exists.'', w)
             else (Redirect ''/users'',
                   w\<lparr>users := users w @ [user_row (next_id user_id (users w)) name
                                            (hash_password hashpw password) r]\<rparr>))"

definition new_password :: "(nat list \<Rightarrow> string) \<Rightarrow> string \<Rightarrow> user \<Rightarrow> user" where
  "new_password hashpw password u =
     u\<lparr>password_hash := hash_password hashpw password, session_epoch := session_epoch u + 1\<rparr>"

definition reset_password ::
  "(nat list \<Rightarrow> string) \<Rightarrow> nat \<Rightarrow> string \<Rightarrow> user \<Rightarrow> web \<Rightarrow> response \<times> web" where
  "reset_password hashpw uid password u w =
     (case get_user (users w) uid of
        None \<Rightarrow> (Redirect ''/users'', w)
      | Some target \<Rightarrow>
          if password = [] then (Redirect ''/users'', w)
          else case password_error password of
            Some err \<Rightarrow> (users_page err, w)
          | None \<Rightarrow>
              (let w = w\<lparr>users := upd_user (users w) uid (new_password hashpw password)\<rparr>
               in (Redirect ''/users'',
                   if user_id target = user_id u
                   then w\<lparr>session := (session w)\<lparr>s_ep := Some (session_epoch target + 1)\<rparr>\<rparr>
                   else w)))"

definition change_role :: "nat \<Rightarrow> string \<Rightarrow> user \<Rightarrow> web \<Rightarrow> response \<times> web" where
  "change_role uid r u w =
     (case get_user (users w) uid of
        None \<Rightarrow> (Redirect ''/users'', w)
      | Some target \<Rightarrow>
          (let new_role = (if r = ''admin'' then ''admin'' else ''user'')
           in if role target = ''admin'' \<and> new_role = ''user'' \<and> admin_count (users w) \<le> 1
              then (users_page ''Cannot demote the last remaining admin.'', w)
              else (Redirect ''/users'', w\<lparr>users := upd_user (users w) uid (\<lambda>t. t\<lparr>role := new_role\<rparr>)\<rparr>)))"

definition delete_user :: "nat \<Rightarrow> user \<Rightarrow> web \<Rightarrow> response \<times> web" where
  "delete_user uid u w =
     (case get_user (users w) uid of
        None \<Rightarrow> (Redirect ''/users'', w)
      | Some target \<Rightarrow>
          if user_id target = user_id u then (users_page ''You cannot delete your own account.'', w)
          else if role target = ''admin'' \<and> admin_count (users w) \<le> 1
          then (users_page ''Cannot delete the last admin.'', w)
          else (Redirect ''/users'', w\<lparr>users := del_user (users w) uid\<rparr>))"

section \<open>The own profile\<close>

definition profile_page :: "string \<Rightarrow> response" where
  "profile_page msg = Page ''profile.html'' msg"

definition change_own_password ::
  "(nat list \<Rightarrow> string \<Rightarrow> bool option) \<Rightarrow> (nat list \<Rightarrow> string) \<Rightarrow> string \<Rightarrow> string \<Rightarrow> user \<Rightarrow> web \<Rightarrow> response \<times> web" where
  "change_own_password checkpw hashpw current_pw new_pw u w =
     (if \<not> verify_password checkpw current_pw (password_hash u)
      then (profile_page ''Current password is incorrect.'', w)
      else case password_error new_pw of
        Some err \<Rightarrow> (profile_page err, w)
      | None \<Rightarrow>
          (profile_page ''Password updated.'',
           w\<lparr>users := upd_user (users w) (user_id u) (new_password hashpw new_pw),
             session := (session w)\<lparr>s_ep := Some (session_epoch u + 1)\<rparr>\<rparr>))"

definition totp_setup_start :: "string \<Rightarrow> user \<Rightarrow> web \<Rightarrow> response \<times> web" where
  "totp_setup_start new_secret u w =
     (profile_page [], w\<lparr>session := (session w)\<lparr>s_totp_pending := Some new_secret\<rparr>\<rparr>)"

definition totp_setup_confirm :: "(string \<Rightarrow> string \<Rightarrow> bool) \<Rightarrow> string \<Rightarrow> user \<Rightarrow> web \<Rightarrow> response \<times> web" where
  "totp_setup_confirm totp codestr u w =
     (let sec = (case s_totp_pending (session w) of None \<Rightarrow> [] | Some x \<Rightarrow> x)
      in if sec = [] then (profile_page ''Setup session expired. Please start again.'', w)
         else if \<not> totp_verify totp sec codestr then (profile_page ''Code did not match. Try again.'', w)
         else (profile_page ''Two-factor authentication enabled.'',
               w\<lparr>users := upd_user (users w) (user_id u) (\<lambda>t. t\<lparr>totp_secret := Some sec, totp_enabled := True\<rparr>),
                 session := (session w)\<lparr>s_totp_pending := None\<rparr>\<rparr>))"

definition totp_disable ::
  "(nat list \<Rightarrow> string \<Rightarrow> bool option) \<Rightarrow> string \<Rightarrow> user \<Rightarrow> web \<Rightarrow> response \<times> web" where
  "totp_disable checkpw current_pw u w =
     (if \<not> verify_password checkpw current_pw (password_hash u)
      then (profile_page ''Current password is incorrect.'', w)
      else (profile_page ''Two-factor authentication disabled.'',
            w\<lparr>users := upd_user (users w) (user_id u) (\<lambda>t. t\<lparr>totp_secret := None, totp_enabled := False\<rparr>)\<rparr>))"

text \<open>The column is unique: a token another account has makes the commit fail.\<close>

definition generate_token :: "string \<Rightarrow> user \<Rightarrow> web \<Rightarrow> response \<times> web" where
  "generate_token token u w =
     (if list_ex (\<lambda>v. user_id v \<noteq> user_id u \<and> api_token v = Some token) (users w) then (ServerError, w)
      else (profile_page ''New API token generated.'',
            w\<lparr>users := upd_user (users w) (user_id u) (\<lambda>t. t\<lparr>api_token := Some token\<rparr>)\<rparr>))"

definition revoke_token :: "user \<Rightarrow> web \<Rightarrow> response \<times> web" where
  "revoke_token u w =
     (profile_page ''API token revoked.'',
      w\<lparr>users := upd_user (users w) (user_id u) (\<lambda>t. t\<lparr>api_token := None\<rparr>)\<rparr>)"

section \<open>The requests of the console\<close>

datatype request =
    Login string real string string
  | Totp real string
  | Logout
  | CreateUser string string string
  | ResetPassword nat string
  | ChangeRole nat string
  | DeleteUser nat
  | ChangeOwnPassword string string
  | TotpStart string
  | TotpConfirm string
  | TotpDisable string
  | GenerateToken string
  | RevokeToken

text \<open>
  The routes with their dependencies.  The first argument is the Authorization header; a login names
  its throttle key and the time, the random secrets of the requests that draw one are given with them.
\<close>

fun handle ::
  "(nat list \<Rightarrow> string \<Rightarrow> bool option) \<Rightarrow> (nat list \<Rightarrow> string) \<Rightarrow> (string \<Rightarrow> string \<Rightarrow> bool) \<Rightarrow>
   string option \<Rightarrow> request \<Rightarrow> web \<Rightarrow> response \<times> web" where
  "handle checkpw hashpw totp auth (Login key now name password) w = login_submit checkpw key now name password w"
| "handle checkpw hashpw totp auth (Totp now codestr) w = totp_submit totp now codestr w"
| "handle checkpw hashpw totp auth Logout w = logout w"
| "handle checkpw hashpw totp auth (CreateUser name password r) w =
     guarded (require_admin auth) (create_user hashpw name password r) w"
| "handle checkpw hashpw totp auth (ResetPassword uid password) w =
     guarded (require_admin auth) (reset_password hashpw uid password) w"
| "handle checkpw hashpw totp auth (ChangeRole uid r) w = guarded (require_admin auth) (change_role uid r) w"
| "handle checkpw hashpw totp auth (DeleteUser uid) w = guarded (require_admin auth) (delete_user uid) w"
| "handle checkpw hashpw totp auth (ChangeOwnPassword current_pw new_pw) w =
     guarded (require_user auth) (change_own_password checkpw hashpw current_pw new_pw) w"
| "handle checkpw hashpw totp auth (TotpStart new_secret) w = guarded (require_user auth) (totp_setup_start new_secret) w"
| "handle checkpw hashpw totp auth (TotpConfirm codestr) w = guarded (require_user auth) (totp_setup_confirm totp codestr) w"
| "handle checkpw hashpw totp auth (TotpDisable current_pw) w = guarded (require_user auth) (totp_disable checkpw current_pw) w"
| "handle checkpw hashpw totp auth (GenerateToken token) w = guarded (require_user auth) (generate_token token) w"
| "handle checkpw hashpw totp auth RevokeToken w = guarded (require_user auth) revoke_token w"

lemmas auth_steps = login_submit_def totp_submit_def logout_def create_user_def reset_password_def
  change_role_def delete_user_def change_own_password_def totp_setup_start_def totp_setup_confirm_def
  totp_disable_def generate_token_def revoke_token_def

section \<open>Lemmas on passwords\<close>

lemma utf8_chr_inj: "utf8_chr c = utf8_chr d \<Longrightarrow> c = d"
proof -
  assume eq: "utf8_chr c = utf8_chr d"
  have "code c = code d \<or> (code c div 64 = code d div 64 \<and> code c mod 64 = code d mod 64)"
    using eq by (auto simp: utf8_chr_def split: if_splits)
  then have "code c = code d" by (metis div_mult_mod_eq)
  then show ?thesis by simp
qed

text \<open>No character's encoding is a prefix of another's, so the encoding of a string can be read back.\<close>

lemma utf8_head:
  "utf8_chr c @ xs = utf8_chr d @ ys \<Longrightarrow> c = d \<and> xs = ys"
proof -
  assume eq: "utf8_chr c @ xs = utf8_chr d @ ys"
  have len: "length (utf8_chr e) = (if hd (utf8_chr e) < 128 then 1 else 2)" for e
    by (simp add: utf8_chr_def)
  have "hd (utf8_chr c) = hd (utf8_chr d)"
    using arg_cong [OF eq, of hd] by (simp add: utf8_chr_def split: if_splits)
  then have "length (utf8_chr c) = length (utf8_chr d)" by (simp add: len)
  with eq have "utf8_chr c = utf8_chr d \<and> xs = ys" by simp
  then show ?thesis using utf8_chr_inj by blast
qed

lemma utf8_inj: "utf8 s = utf8 t \<Longrightarrow> s = t"
proof (induction s arbitrary: t)
  case Nil
  then show ?case by (cases t) (auto simp: utf8_def utf8_chr_def split: if_splits)
next
  case (Cons c s)
  show ?case
  proof (cases t)
    case Nil
    with Cons.prems show ?thesis by (simp add: utf8_def utf8_chr_def split: if_splits)
  next
    case t: (Cons d t')
    with Cons.prems have "utf8_chr c @ utf8 s = utf8_chr d @ utf8 t'" by (simp add: utf8_def)
    with utf8_head Cons.IH t show ?thesis by blast
  qed
qed

lemma secret_eq_iff:
  assumes "length (utf8 p) < BCRYPT_MAX_BYTES"
  shows "secret q = secret p \<longleftrightarrow> q = p"
proof
  assume eq: "secret q = secret p"
  have p: "secret p = utf8 p" using assms by (simp add: secret_def)
  then have "length (take BCRYPT_MAX_BYTES (utf8 q)) < BCRYPT_MAX_BYTES"
    using eq assms by (simp only: secret_def [of q, symmetric])
  then have "secret q = utf8 q" by (simp add: secret_def)
  with eq p show "q = p" using utf8_inj by metis
qed simp

lemma get_user_by_name_iff:
  "distinct (map username db) \<Longrightarrow>
     get_user_by_name db name = Some u \<longleftrightarrow> u \<in> set db \<and> username u = name"
  by (induction db) (auto simp: get_user_by_name_def)

lemma get_user_by_name_None: "get_user_by_name db name = None \<longleftrightarrow> name \<notin> username ` set db"
  by (auto simp: get_user_by_name_def find_None_iff)

section \<open>Lemmas on sessions\<close>

lemma current_user_web: "snd (current_user auth w) = w \<or> snd (current_user auth w) = w\<lparr>session := empty_session\<rparr>"
  by (auto simp: current_user_def split: option.splits)

lemma current_user_tables:
  "current_user auth w = (u, w') \<Longrightarrow>
     users w' = users w \<and> lockouts w' = lockouts w \<and> (session w' = session w \<or> session w' = empty_session)"
  by (auto simp: current_user_def split: option.splits if_splits)

lemma current_user_Some_same: "current_user auth w = (Some u, w') \<Longrightarrow> w' = w"
  by (auto simp: current_user_def split: option.splits if_splits)

lemma find_SomeD: "List.find P xs = Some x \<Longrightarrow> x \<in> set xs \<and> P x"
  by (auto simp: find_Some_iff)

lemma current_user_in: "current_user auth w = (Some u, w') \<Longrightarrow> u \<in> set (users w)"
  by (auto simp: current_user_def user_by_token_def Let_def
      dest!: get_row_in find_SomeD split: option.splits if_splits)

lemma require_user_Inr: "require_user auth w = (Inr u, w') \<longleftrightarrow> current_user auth w = (Some u, w')"
  by (auto simp: require_user_def split: prod.splits option.splits)

lemma require_admin_Inr:
  "require_admin auth w = (Inr u, w') \<longleftrightarrow> current_user auth w = (Some u, w') \<and> is_admin u"
  by (auto simp: require_admin_def require_user_def split: prod.splits option.splits sum.splits)

lemma require_user_Inl:
  "require_user auth w = (Inl r, w') \<Longrightarrow>
     r = Redirect ''/login'' \<and> users w' = users w \<and> lockouts w' = lockouts w \<and>
     (session w' = session w \<or> session w' = empty_session)"
  by (auto simp: require_user_def dest: current_user_tables split: prod.splits option.splits)

lemma require_admin_Inl:
  "require_admin auth w = (Inl r, w') \<Longrightarrow>
     users w' = users w \<and> lockouts w' = lockouts w \<and> (session w' = session w \<or> session w' = empty_session)"
  by (auto simp: require_admin_def require_user_def dest: current_user_tables
      split: prod.splits option.splits sum.splits if_splits)

text \<open>What a guarded route does: either it turns the request away, or its handler runs on the same state.\<close>

lemma guarded_user_cases:
  obtains (refused) "users (snd (guarded (require_user auth) h w)) = users w"
      "lockouts (snd (guarded (require_user auth) h w)) = lockouts w"
      "session (snd (guarded (require_user auth) h w)) \<in> {session w, empty_session}"
      "fst (current_user auth w) = None"
  | (allowed) u where "current_user auth w = (Some u, w)" "guarded (require_user auth) h w = h u w"
proof (cases "require_user auth w")
  case (Pair res w')
  show ?thesis
  proof (cases res)
    case (Inl r)
    with Pair have no: "fst (current_user auth w) = None"
      by (auto simp: require_user_def split: prod.splits option.splits)
    from require_user_Inl [OF Pair [unfolded Inl]] Pair Inl no show ?thesis
      by (intro refused) (auto simp: guarded_def)
  next
    case (Inr u)
    with Pair have "current_user auth w = (Some u, w')" by (simp add: require_user_Inr)
    with current_user_Some_same Pair Inr show ?thesis by (intro allowed) (auto simp: guarded_def)
  qed
qed

lemma guarded_admin_cases:
  obtains (refused) "users (snd (guarded (require_admin auth) h w)) = users w"
      "lockouts (snd (guarded (require_admin auth) h w)) = lockouts w"
      "session (snd (guarded (require_admin auth) h w)) \<in> {session w, empty_session}"
      "\<forall>u. fst (current_user auth w) = Some u \<longrightarrow> \<not> is_admin u"
  | (allowed) u where "current_user auth w = (Some u, w)" "is_admin u" "guarded (require_admin auth) h w = h u w"
proof (cases "require_admin auth w")
  case (Pair res w')
  show ?thesis
  proof (cases res)
    case (Inl r)
    with Pair have no: "\<forall>u. fst (current_user auth w) = Some u \<longrightarrow> \<not> is_admin u"
      by (auto simp: require_admin_def require_user_def split: prod.splits option.splits sum.splits if_splits)
    from require_admin_Inl [OF Pair [unfolded Inl]] Pair Inl no show ?thesis
      by (intro refused) (auto simp: guarded_def)
  next
    case (Inr u)
    with Pair have "current_user auth w = (Some u, w')" "is_admin u" by (simp_all add: require_admin_Inr)
    with current_user_Some_same Pair Inr show ?thesis by (intro allowed) (auto simp: guarded_def)
  qed
qed

section \<open>What a session cookie proves\<close>

text \<open>
  The evidence a request presents, judged apart from what the handlers do with it: the password of
  an account (and whether the account asked for a code at that time), and a code of the account the
  cookie names as pending.
\<close>

datatype evidence = PasswordOf nat bool | CodeOf nat

fun evidence_of ::
  "(nat list \<Rightarrow> string \<Rightarrow> bool option) \<Rightarrow> (string \<Rightarrow> string \<Rightarrow> bool) \<Rightarrow> request \<Rightarrow> web \<Rightarrow> evidence set" where
  "evidence_of checkpw totp (Login key now name password) w =
     (case authenticate checkpw (users w) name password of
        None \<Rightarrow> {} | Some u \<Rightarrow> {PasswordOf (user_id u) (totp_enabled u)})"
| "evidence_of checkpw totp (Totp now codestr) w =
     (case s_totp_uid (session w) of None \<Rightarrow> {}
      | Some i \<Rightarrow> (case get_user (users w) i of None \<Rightarrow> {}
          | Some u \<Rightarrow> if totp_verify totp (case totp_secret u of None \<Rightarrow> [] | Some x \<Rightarrow> x) codestr
                      then {CodeOf i} else {}))"
| "evidence_of checkpw totp _ w = {}"

text \<open>
  The console over time, with every cookie it ever signed: a request may present any of them, in any
  order, with any Authorization header.
\<close>

inductive history ::
  "(nat list \<Rightarrow> string \<Rightarrow> bool option) \<Rightarrow> (nat list \<Rightarrow> string) \<Rightarrow> (string \<Rightarrow> string \<Rightarrow> bool) \<Rightarrow>
   user_table \<Rightarrow> lockouts \<Rightarrow> session set \<Rightarrow> evidence set \<Rightarrow> bool"
  for checkpw hashpw totp where
  start: "history checkpw hashpw totp us lk {empty_session} {}"
| request: "history checkpw hashpw totp us lk cookies ev \<Longrightarrow> c \<in> cookies \<Longrightarrow>
     w = \<lparr>users = us, lockouts = lk, session = c\<rparr> \<Longrightarrow>
     handle checkpw hashpw totp auth req w = (r, w') \<Longrightarrow>
     history checkpw hashpw totp (users w') (lockouts w') (insert (session w') cookies)
       (ev \<union> evidence_of checkpw totp req w)"

definition backed :: "evidence set \<Rightarrow> session \<Rightarrow> bool" where
  "backed ev c \<longleftrightarrow>
     (\<forall>i. s_uid c = Some i \<longrightarrow> PasswordOf i False \<in> ev \<or> PasswordOf i True \<in> ev \<and> CodeOf i \<in> ev) \<and>
     (\<forall>i. s_totp_uid c = Some i \<longrightarrow> PasswordOf i True \<in> ev)"

lemma backed_empty [simp]: "backed ev empty_session"
  by (simp add: backed_def empty_session_def)

lemma backed_mono: "backed ev c \<Longrightarrow> ev \<subseteq> ev' \<Longrightarrow> backed ev' c"
  unfolding backed_def by blast

lemma backed_same:
  "backed ev c \<Longrightarrow> s_uid c' = s_uid c \<Longrightarrow> s_totp_uid c' = s_totp_uid c \<Longrightarrow> backed ev c'"
  by (simp add: backed_def)

lemma backed_login:
  assumes "backed ev (session w)"
  shows "backed (ev \<union> evidence_of checkpw totp (Login key now name password) w)
           (session (snd (login_submit checkpw key now name password w)))"
  using assms
  by (auto simp: login_submit_def Let_def backed_def start_session_def split: option.splits prod.splits)

lemma backed_totp:
  assumes "backed ev (session w)"
  shows "backed (ev \<union> evidence_of checkpw totp (Totp now codestr) w)
           (session (snd (totp_submit totp now codestr w)))"
  using assms
  by (auto simp: totp_submit_def Let_def backed_def start_session_def truthy_id_def empty_session_def
      dest: get_row_id split: option.splits prod.splits)

text \<open>The other handlers keep the account a cookie names.\<close>

definition same_account :: "session \<Rightarrow> session \<Rightarrow> bool" where
  "same_account c c' \<longleftrightarrow> c' = empty_session \<or> s_uid c' = s_uid c \<and> s_totp_uid c' = s_totp_uid c"

lemma same_account_guarded:
  "(\<And>u. same_account (session w) (session (snd (h u w)))) \<Longrightarrow>
     same_account (session w) (session (snd (guarded (require_user auth) h w)))"
  by (cases rule: guarded_user_cases [of auth h w]) (auto simp: same_account_def)

lemma same_account_guarded_admin:
  "(\<And>u. same_account (session w) (session (snd (h u w)))) \<Longrightarrow>
     same_account (session w) (session (snd (guarded (require_admin auth) h w)))"
  by (cases rule: guarded_admin_cases [of auth h w]) (auto simp: same_account_def)

lemma same_account_handlers:
  "same_account (session w) (session (snd (logout w)))"
  "same_account (session w) (session (snd (create_user hashpw name password r u w)))"
  "same_account (session w) (session (snd (reset_password hashpw uid password u w)))"
  "same_account (session w) (session (snd (change_role uid r u w)))"
  "same_account (session w) (session (snd (delete_user uid u w)))"
  "same_account (session w) (session (snd (change_own_password checkpw hashpw password new_pw u w)))"
  "same_account (session w) (session (snd (totp_setup_start sec u w)))"
  "same_account (session w) (session (snd (totp_setup_confirm totp codestr u w)))"
  "same_account (session w) (session (snd (totp_disable checkpw password u w)))"
  "same_account (session w) (session (snd (generate_token token u w)))"
  "same_account (session w) (session (snd (revoke_token u w)))"
  by (auto simp: auth_steps same_account_def Let_def split: option.split)

lemma handle_same_account:
  assumes "\<And>key now name password. req \<noteq> Login key now name password" "\<And>now codestr. req \<noteq> Totp now codestr"
  shows "same_account (session w) (session (snd (handle checkpw hashpw totp auth req w)))"
  using assms
  by (cases req)
    (auto intro!: same_account_guarded same_account_guarded_admin same_account_handlers)

lemma backed_handle:
  assumes "backed ev (session w)"
  shows "backed (ev \<union> evidence_of checkpw totp req w) (session (snd (handle checkpw hashpw totp auth req w)))"
proof -
  have other: ?thesis if "\<And>key now name password. req \<noteq> Login key now name password"
    "\<And>now codestr. req \<noteq> Totp now codestr"
    using handle_same_account [OF that, of w checkpw hashpw totp auth] assms
    by (auto simp: same_account_def intro: backed_mono backed_same)
  show ?thesis
  proof (cases req)
    case (Login key now name password)
    then show ?thesis using backed_login [OF assms] by simp
  next
    case (Totp now codestr)
    then show ?thesis using backed_totp [OF assms] by simp
  qed (rule other; simp)+
qed

section \<open>The user table\<close>

definition users_ok :: "user_table \<Rightarrow> bool" where
  "users_ok db \<longleftrightarrow> wf_users db \<and> 1 \<le> admin_count db"

lemma username_upd_row [simp]:
  "(\<And>u. username (f u) = username u) \<Longrightarrow> map username (upd_user db i f) = map username db"
  by (induction db) (auto simp: upd_row_def)

lemma ids_positive_upd:
  "list_all (\<lambda>u. 0 < user_id u) db \<Longrightarrow> (\<And>u. user_id (f u) = user_id u) \<Longrightarrow>
     list_all (\<lambda>u. 0 < user_id u) (upd_user db i f)"
  by (auto simp: list_all_iff upd_row_def)

text \<open>
  Writing to one row keeps tokens unique when the value written, if any, is new to the other rows.
\<close>

lemma tokens_unique_upd:
  assumes "tokens_unique db"
    and inj: "\<And>u v. u \<in> set db \<Longrightarrow> v \<in> set db \<Longrightarrow> user_id u = user_id v \<Longrightarrow> u = v"
    and fresh: "\<And>u v x. u \<in> set db \<Longrightarrow> user_id u = i \<Longrightarrow> api_token (f u) = Some x \<Longrightarrow>
      v \<in> set db \<Longrightarrow> api_token v = Some x \<Longrightarrow> user_id v = i"
  shows "tokens_unique (upd_user db i f)"
proof (rule tokens_uniqueI)
  fix u v x
  assume u: "u \<in> set (upd_user db i f)" and v: "v \<in> set (upd_user db i f)"
    and x: "api_token u = Some x" "api_token v = Some x"
  obtain u' where u': "u' \<in> set db" "u = (if user_id u' = i then f u' else u')"
    using u by (auto dest!: upd_row_mem)
  obtain v' where v': "v' \<in> set db" "v = (if user_id v' = i then f v' else v')"
    using v by (auto dest!: upd_row_mem)
  show "u = v"
  proof (cases "user_id u' = i")
    case u_i: True
    show ?thesis
    proof (cases "user_id v' = i")
      case True
      then have "u' = v'" using inj u'(1) v'(1) u_i by simp
      with u' v' show ?thesis by simp
    next
      case False
      with u' v' u_i x have "user_id v' = i" by (intro fresh [of u' x v']) simp_all
      with False show ?thesis ..
    qed
  next
    case u_other: False
    show ?thesis
    proof (cases "user_id v' = i")
      case True
      with u' v' u_other x have "user_id u' = i" by (intro fresh [of v' x u']) simp_all
      with u_other show ?thesis ..
    next
      case False
      with u_other u' v' x tokens_uniqueD [OF assms(1)] show ?thesis by simp
    qed
  qed
qed

lemma wf_users_inj: "wf_users db \<Longrightarrow> u \<in> set db \<Longrightarrow> v \<in> set db \<Longrightarrow> user_id u = user_id v \<Longrightarrow> u = v"
  by (auto simp: wf_users_def distinct_map inj_on_def)

lemma wf_upd_user:
  assumes "wf_users db" "\<And>u. user_id (f u) = user_id u" "\<And>u. username (f u) = username u"
    and fresh: "\<And>u v x. u \<in> set db \<Longrightarrow> user_id u = i \<Longrightarrow> api_token (f u) = Some x \<Longrightarrow>
      v \<in> set db \<Longrightarrow> api_token v = Some x \<Longrightarrow> user_id v = i"
  shows "wf_users (upd_user db i f)"
proof -
  have parts: "distinct (map user_id db)" "distinct (map username db)" "tokens_unique db"
    "list_all (\<lambda>u. 0 < user_id u) db"
    using assms(1) by (simp_all add: wf_users_def)
  have "tokens_unique (upd_user db i f)"
    by (rule tokens_unique_upd [OF parts(3)]) (rule wf_users_inj [OF assms(1)] fresh; assumption)+
  moreover have "list_all (\<lambda>u. 0 < user_id u) (upd_user db i f)"
    by (rule ids_positive_upd [OF parts(4) assms(2)])
  moreover have "distinct (map user_id (upd_user db i f))" "distinct (map username (upd_user db i f))"
    using parts by (simp_all add: assms(2,3))
  ultimately show ?thesis by (simp only: wf_users_def simp_thms)
qed

lemma wf_upd_keep_token:
  assumes "wf_users db" "\<And>u. user_id (f u) = user_id u" "\<And>u. username (f u) = username u"
    "\<And>u. api_token (f u) = api_token u"
  shows "wf_users (upd_user db i f)"
proof (rule wf_upd_user [OF assms(1,2,3)])
  fix u v x
  assume "u \<in> set db" "user_id u = i" "api_token (f u) = Some x" "v \<in> set db" "api_token v = Some x"
  with assms(4) have "u = v"
    using tokens_uniqueD [of db u v x] assms(1) by (simp add: wf_users_def)
  with \<open>user_id u = i\<close> show "user_id v = i" by simp
qed

lemma wf_drop_token: "wf_users db \<Longrightarrow> wf_users (upd_user db i (\<lambda>t. t\<lparr>api_token := None\<rparr>))"
  by (rule wf_upd_user) simp_all

lemma wf_new_token:
  "wf_users db \<Longrightarrow> \<not> list_ex (\<lambda>v. user_id v \<noteq> i \<and> api_token v = Some token) db \<Longrightarrow>
     wf_users (upd_user db i (\<lambda>t. t\<lparr>api_token := Some token\<rparr>))"
  by (rule wf_upd_user) (auto simp: list_ex_iff)

lemma wf_del_user: "wf_users db \<Longrightarrow> wf_users (del_user db i)"
  unfolding wf_users_def tokens_unique_def
  by (auto simp: distinct_del_row set_del_row list_all_iff)
     (simp add: del_row_def distinct_map_filter)

lemma wf_new_user:
  assumes "wf_users db" "get_user_by_name db name = None"
  shows "wf_users (db @ [user_row (next_id user_id db) name h r])"
proof -
  have "next_id user_id db \<notin> user_id ` set db" using next_id_fresh [of _ db user_id] by force
  moreover have "name \<notin> username ` set db" using assms(2) by (simp only: get_user_by_name_None not_False_eq_True)
  moreover have "tokens_unique (db @ [user_row (next_id user_id db) name h r])"
    using assms(1) by (intro tokens_uniqueI) (auto simp: user_row_def wf_users_def dest: tokens_uniqueD)
  ultimately show ?thesis
    using assms(1) by (simp add: wf_users_def user_row_def next_id_def)
qed

lemma admin_count_upd:
  assumes "users_ok db" "get_user db i = Some t"
  shows "admin_count (upd_user db i f) + (if is_admin t then 1 else 0) =
         admin_count db + (if is_admin (f t) then 1 else 0)"
  using assms by (simp add: admin_count_def users_ok_def wf_users_def count_upd_row)

lemma admin_count_missing: "get_user db i = None \<Longrightarrow> upd_user db i f = db"
  unfolding get_row_None upd_row_def by (rule map_idI) auto

lemma admin_count_keep_role:
  "users_ok db \<Longrightarrow> (\<And>u. role (f u) = role u) \<Longrightarrow> admin_count (upd_user db i f) = admin_count db"
  using admin_count_upd [of db i _ f]
  by (cases "get_user db i") (fastforce simp: admin_count_missing is_admin_def)+

lemma ok_keep:
  assumes "users_ok db" "\<And>u. user_id (f u) = user_id u" "\<And>u. username (f u) = username u"
    "\<And>u. api_token (f u) = api_token u" "\<And>u. role (f u) = role u"
  shows "users_ok (upd_user db i f)"
  using assms wf_upd_keep_token [of db f i] admin_count_keep_role [of db f i] by (simp add: users_ok_def)

lemma ok_password: "users_ok db \<Longrightarrow> users_ok (upd_user db i (new_password hashpw pw))"
  by (rule ok_keep) (simp_all add: new_password_def)

lemma ok_role:
  assumes "users_ok db" "get_user db i = Some t"
    "\<not> (role t = ''admin'' \<and> r \<noteq> ''admin'' \<and> admin_count db \<le> 1)"
  shows "users_ok (upd_user db i (\<lambda>t. t\<lparr>role := r\<rparr>))"
proof -
  have "wf_users (upd_user db i (\<lambda>t. t\<lparr>role := r\<rparr>))"
    using assms(1) by (intro wf_upd_keep_token) (simp_all add: users_ok_def)
  moreover have "1 \<le> admin_count (upd_user db i (\<lambda>t. t\<lparr>role := r\<rparr>))"
    using admin_count_upd [OF assms(1,2), of "\<lambda>t. t\<lparr>role := r\<rparr>"] assms(1,3)
    by (auto simp: is_admin_def users_ok_def split: if_splits)
  ultimately show ?thesis by (simp add: users_ok_def)
qed

lemma ok_delete:
  assumes "users_ok db" "get_user db i = Some t" "\<not> (role t = ''admin'' \<and> admin_count db \<le> 1)"
  shows "users_ok (del_user db i)"
proof -
  have "admin_count (del_user db i) + (if is_admin t then 1 else 0) = admin_count db"
    using assms(1,2) by (simp add: admin_count_def users_ok_def wf_users_def count_del_row)
  with assms(1,3) have "1 \<le> admin_count (del_user db i)"
    by (auto simp: is_admin_def users_ok_def split: if_splits)
  with assms(1) show ?thesis by (simp add: users_ok_def wf_del_user)
qed

lemma ok_create:
  "users_ok db \<Longrightarrow> get_user_by_name db name = None \<Longrightarrow>
     users_ok (db @ [user_row (next_id user_id db) name h r])"
  by (simp add: users_ok_def wf_new_user admin_count_def)

lemma ok_token:
  assumes "users_ok db" "\<not> list_ex (\<lambda>v. user_id v \<noteq> i \<and> api_token v = Some token) db"
  shows "users_ok (upd_user db i (\<lambda>t. t\<lparr>api_token := Some token\<rparr>))"
proof -
  have "admin_count (upd_user db i (\<lambda>t. t\<lparr>api_token := Some token\<rparr>)) = admin_count db"
    by (rule admin_count_keep_role [OF assms(1)]) simp
  with assms show ?thesis by (simp add: users_ok_def wf_new_token)
qed

lemma ok_no_token:
  assumes "users_ok db"
  shows "users_ok (upd_user db i (\<lambda>t. t\<lparr>api_token := None\<rparr>))"
proof -
  have "admin_count (upd_user db i (\<lambda>t. t\<lparr>api_token := None\<rparr>)) = admin_count db"
    by (rule admin_count_keep_role [OF assms]) simp
  with assms show ?thesis by (simp add: users_ok_def wf_drop_token)
qed

text \<open>No handler breaks the table, whoever it runs for.\<close>

lemma ok_handlers:
  assumes "users_ok (users w)"
  shows "users_ok (users (snd (login_submit checkpw key now name password w)))"
    "users_ok (users (snd (totp_submit totp now codestr w)))"
    "users_ok (users (snd (logout w)))"
    "users_ok (users (snd (create_user hashpw name password r u w)))"
    "users_ok (users (snd (reset_password hashpw uid password u w)))"
    "users_ok (users (snd (change_role uid r u w)))"
    "users_ok (users (snd (delete_user uid u w)))"
    "users_ok (users (snd (change_own_password checkpw hashpw password new_pw u w)))"
    "users_ok (users (snd (totp_setup_start sec u w)))"
    "users_ok (users (snd (totp_setup_confirm totp codestr u w)))"
    "users_ok (users (snd (totp_disable checkpw password u w)))"
    "users_ok (users (snd (generate_token token u w)))"
    "users_ok (users (snd (revoke_token u w)))"
  using assms
  by (auto simp: auth_steps Let_def ok_password ok_role ok_delete ok_create ok_token ok_no_token
      intro!: ok_keep split: option.split prod.split)

lemma ok_guarded:
  assumes "users_ok (users w)" "\<And>u. users_ok (users (snd (h u w)))"
  shows "users_ok (users (snd (guarded (require_user auth) h w)))"
    and "users_ok (users (snd (guarded (require_admin auth) h w)))"
  using assms
  by (cases rule: guarded_user_cases [of auth h w]; simp)
     (cases rule: guarded_admin_cases [of auth h w]; simp add: assms)

lemma ok_handle: "users_ok (users w) \<Longrightarrow> users_ok (users (snd (handle checkpw hashpw totp auth req w)))"
  by (cases req) (auto intro!: ok_guarded ok_handlers)

text \<open>A request arrives with a cookie and a header.\<close>

definition serve ::
  "(nat list \<Rightarrow> string \<Rightarrow> bool option) \<Rightarrow> (nat list \<Rightarrow> string) \<Rightarrow> (string \<Rightarrow> string \<Rightarrow> bool) \<Rightarrow>
   session \<times> string option \<times> request \<Rightarrow> web \<Rightarrow> web" where
  "serve checkpw hashpw totp e w =
     (case e of (c, auth, req) \<Rightarrow> snd (handle checkpw hashpw totp auth req (w\<lparr>session := c\<rparr>)))"

interpretation accounts: machine "serve checkpw hashpw totp" "\<lambda>w. users_ok (users w)"
  by unfold_locales (auto simp: serve_def intro!: ok_handle split: prod.split)

section \<open>Epochs\<close>

text \<open>A user's epoch, and the relation between two tables in which nobody's has fallen.\<close>

definition epoch :: "user_table \<Rightarrow> nat \<Rightarrow> nat option" where
  "epoch db i = map_option session_epoch (get_user db i)"

definition not_lowered :: "nat \<Rightarrow> user_table \<Rightarrow> user_table \<Rightarrow> bool" where
  "not_lowered i db db' \<longleftrightarrow> (\<forall>e. epoch db i = Some e \<longrightarrow> (\<exists>e'. epoch db' i = Some e' \<and> e \<le> e'))"

lemma not_lowered_refl [simp]: "not_lowered i db db"
  by (simp add: not_lowered_def)

lemma not_lowered_trans: "not_lowered i a b \<Longrightarrow> not_lowered i b c \<Longrightarrow> not_lowered i a c"
  unfolding not_lowered_def by (meson order_trans)

lemma not_lowered_upd:
  "(\<And>u. user_id (f u) = user_id u) \<Longrightarrow> (\<And>u. session_epoch u \<le> session_epoch (f u)) \<Longrightarrow>
     not_lowered i db (upd_user db j f)"
  by (auto simp: not_lowered_def epoch_def get_upd_row)

lemma not_lowered_del: "i \<noteq> j \<Longrightarrow> not_lowered i db (del_user db j)"
  by (auto simp: not_lowered_def epoch_def get_del_row)

lemma not_lowered_append: "not_lowered i db (db @ us)"
  by (simp add: not_lowered_def epoch_def get_row_append split: option.split)

lemma epoch_handlers:
  "not_lowered i (users w) (users (snd (login_submit checkpw key now name password w)))"
  "not_lowered i (users w) (users (snd (totp_submit totp now codestr w)))"
  "not_lowered i (users w) (users (snd (logout w)))"
  "not_lowered i (users w) (users (snd (create_user hashpw name password r u w)))"
  "not_lowered i (users w) (users (snd (reset_password hashpw uid password u w)))"
  "not_lowered i (users w) (users (snd (change_role uid r u w)))"
  "i \<noteq> uid \<Longrightarrow> not_lowered i (users w) (users (snd (delete_user uid u w)))"
  "not_lowered i (users w) (users (snd (change_own_password checkpw hashpw password new_pw u w)))"
  "not_lowered i (users w) (users (snd (totp_setup_start sec u w)))"
  "not_lowered i (users w) (users (snd (totp_setup_confirm totp codestr u w)))"
  "not_lowered i (users w) (users (snd (totp_disable checkpw password u w)))"
  "not_lowered i (users w) (users (snd (generate_token token u w)))"
  "not_lowered i (users w) (users (snd (revoke_token u w)))"
  by (auto simp: auth_steps Let_def new_password_def not_lowered_del not_lowered_append
      intro!: not_lowered_upd split: option.split prod.split)

lemma epoch_guarded:
  assumes "\<And>u. not_lowered i (users w) (users (snd (h u w)))"
  shows "not_lowered i (users w) (users (snd (guarded (require_user auth) h w)))"
    and "not_lowered i (users w) (users (snd (guarded (require_admin auth) h w)))"
  using assms
  by (cases rule: guarded_user_cases [of auth h w]; simp)
     (cases rule: guarded_admin_cases [of auth h w]; simp add: assms)

lemma epoch_handle:
  "req \<noteq> DeleteUser i \<Longrightarrow> not_lowered i (users w) (users (snd (handle checkpw hashpw totp auth req w)))"
  by (cases req) (auto intro!: epoch_guarded epoch_handlers)

lemma epoch_history:
  "list_all (\<lambda>(c, auth, req). req \<noteq> DeleteUser i) es \<Longrightarrow>
     not_lowered i (users w) (users (fold (serve checkpw hashpw totp) es w))"
proof (induction es arbitrary: w)
  case (Cons e es)
  obtain c auth req where e: "e = (c, auth, req)" by (cases e)
  with Cons.prems have "not_lowered i (users w) (users (serve checkpw hashpw totp e w))"
    using epoch_handle [of req i "w\<lparr>session := c\<rparr>"] by (simp add: serve_def)
  moreover have "not_lowered i (users (serve checkpw hashpw totp e w))
      (users (fold (serve checkpw hashpw totp) es (serve checkpw hashpw totp e w)))"
    using Cons by simp
  ultimately show ?case using not_lowered_trans by auto
qed simp

lemma stale_cookie_rejected:
  assumes "epoch (users w) i = Some e" "s_uid (session w) = Some i" "s_ep (session w) \<noteq> Some e"
  shows "current_user None w \<in> {(None, w), (None, w\<lparr>session := empty_session\<rparr>)}"
  using assms by (auto simp: current_user_def user_by_token_def epoch_def truthy_id_def)

section \<open>The throttle in front of a sign-in\<close>

text \<open>A sign-in moves the throttle's table as the contract's \<open>attempt\<close> does.\<close>

lemma login_attempt:
  "lockouts (snd (login_submit checkpw key now name password w)) =
     snd (login.attempt key now (authenticate checkpw (users w) name password \<noteq> None) (lockouts w))"
  by (auto simp: login_submit_def Let_def login.attempt_def split: prod.split option.split)

lemma login_locked:
  assumes "fst (retry_after key now (lockouts w)) \<noteq> 0"
  shows "login_submit checkpw key now name password w =
           (Page ''login.html'' (lockout_message (fst (retry_after key now (lockouts w)))), w)"
proof -
  have "snd (retry_after key now (lockouts w)) = lockouts w"
    using login.checked_locked [OF assms] .
  with assms show ?thesis
    by (cases "retry_after key now (lockouts w)") (simp add: login_submit_def)
qed

text \<open>A request turned away: it changed neither the accounts nor the throttle.\<close>

definition turned_away :: "response \<times> web \<Rightarrow> web \<Rightarrow> bool" where
  "turned_away result w \<longleftrightarrow>
     fst result \<in> {Redirect ''/login'', Forbidden ''Admin privileges required''} \<and>
     users (snd result) = users w \<and> lockouts (snd result) = lockouts w"

lemma guarded_user_anonymous:
  "fst (current_user auth w) = None \<Longrightarrow> turned_away (guarded (require_user auth) h w) w"
  by (cases "current_user auth w")
    (auto simp: turned_away_def guarded_def require_user_def dest: current_user_tables)

lemma guarded_admin_refused:
  "\<forall>u. fst (current_user auth w) = Some u \<longrightarrow> \<not> is_admin u \<Longrightarrow>
     turned_away (guarded (require_admin auth) h w) w"
  by (cases "current_user auth w")
    (auto simp: turned_away_def guarded_def require_admin_def require_user_def
      dest: current_user_tables split: option.split)

text \<open>The requests that need no sign-in, and those that need an administrator.\<close>

fun open_request :: "request \<Rightarrow> bool" where
  "open_request (Login _ _ _ _) = True"
| "open_request (Totp _ _) = True"
| "open_request Logout = True"
| "open_request _ = False"

fun admin_request :: "request \<Rightarrow> bool" where
  "admin_request (CreateUser _ _ _) = True"
| "admin_request (ResetPassword _ _) = True"
| "admin_request (ChangeRole _ _) = True"
| "admin_request (DeleteUser _) = True"
| "admin_request _ = False"

section \<open>Properties\<close>

text \<open>
  C1. Nobody is signed in without the credentials: in every history of requests, with any of the
  cookies ever issued presented again at any time, a cookie names an account only after that account's
  password was verified in some request, and, when the account had two-factor authentication on at
  that time, one of its codes as well.
\<close>

theorem session_needs_credentials:
  assumes "history checkpw hashpw totp us lk cookies ev" "c \<in> cookies" "s_uid c = Some i"
  shows "PasswordOf i False \<in> ev \<or> PasswordOf i True \<in> ev \<and> CodeOf i \<in> ev"
proof -
  have "\<forall>c \<in> cookies. backed ev c"
    using assms(1)
  proof (induction rule: history.induct)
    case (start us lk)
    then show ?case by simp
  next
    case (request us lk cookies ev c w auth req r w')
    then have "backed (ev \<union> evidence_of checkpw totp req w) (session w')"
      using backed_handle [of ev w checkpw totp req hashpw auth] by simp
    with request show ?case by (auto intro: backed_mono)
  qed
  with assms(2,3) show ?thesis by (auto simp: backed_def)
qed


text \<open>
  C3. The console can never lock every administrator out of user management: any sequence of requests,
  by anyone, leaves at least one administrator in the table, with unique ids, names and tokens.
\<close>

theorem users_keep_an_admin:
  assumes "users_ok (users w)"
  shows "users_ok (users (fold (serve checkpw hashpw totp) es w))"
  using assms by (rule accounts.history_keeps)

text \<open>
  A request that is not a sign-in, from someone the console does not know, is sent to the login page
  and changes no account; the requests that manage users change nothing either when the user is no
  administrator.
\<close>

theorem unauthorized_changes_nothing:
  assumes "\<not> open_request req"
    and "fst (current_user auth w) = None \<or>
         admin_request req \<and> (\<forall>u. fst (current_user auth w) = Some u \<longrightarrow> \<not> is_admin u)"
  shows "turned_away (handle checkpw hashpw totp auth req w) w"
  using assms guarded_user_anonymous [of auth w] guarded_admin_refused [of auth w]
  by (cases req) auto

text \<open>
  While an address is locked out its sign-ins are refused without looking at the password: however
  many follow until the lockout ends, right or wrong, none signs in and none touches the accounts,
  the lockout or a session.
\<close>

theorem locked_logins_refused:
  assumes "fst (retry_after key t (lockouts w)) \<noteq> 0"
    and "list_all (\<lambda>(now, name, password). now \<le> t) attempts"
  shows "list_all (\<lambda>(now, name, password).
           login_submit checkpw key now name password w =
             (Page ''login.html'' (lockout_message (fst (retry_after key now (lockouts w)))), w)) attempts"
  using assms login.locked_before [OF assms(1)] by (auto simp: list_all_iff login_locked)

text \<open>
  A password set through the console (so at most 72 bytes long) is accepted later exactly for the
  texts whose first 72 bytes are those of the password: for a shorter password, for that text alone.
  bcrypt is assumed to accept a secret for the hash of that secret and of no other.
\<close>

theorem accepted_password_iff:
  assumes "\<And>a b. checkpw a (hashpw b) = Some (a = b)" "\<And>b. list_all (\<lambda>c. code c < 128) (hashpw b)"
    and "distinct (map username db)" "u \<in> set db" "password_error p = None"
    and "password_hash u = hash_password hashpw p"
  shows "(authenticate checkpw db (username u) q = Some u \<longleftrightarrow> take 72 (utf8 q) = utf8 p) \<and>
         (length (utf8 p) < 72 \<longrightarrow> (authenticate checkpw db (username u) q = Some u \<longleftrightarrow> q = p))"
proof -
  have "secret p = utf8 p"
    using assms(5) by (simp add: password_error_def secret_def MAX_PASSWORD_BYTES_def BCRYPT_MAX_BYTES_def
        split: if_splits)
  moreover have "authenticate checkpw db (username u) q = Some u \<longleftrightarrow> secret q = secret p"
    using assms(1,2,3,4,6) get_user_by_name_iff [of db "username u" u]
    by (simp add: authenticate_def verify_password_def hash_password_def)
  ultimately show ?thesis
    using secret_eq_iff [of p q] by (auto simp: secret_def BCRYPT_MAX_BYTES_def)
qed

text \<open>
  A session outlives its account: SQLite gives a new account the id of a deleted one when that was
  the largest, and both start at epoch 0, so the cookie of the deleted user signs its holder in as
  the new one.
\<close>

theorem deleted_cookie_opens_successor:
  assumes "users w = us @ [old]" "user_id old = next_id user_id us" "session_epoch old = 0"
    and "user_id u \<noteq> user_id old" "\<not> is_admin old" "c = start_session old empty_session"
    and "get_user_by_name us (strip name) = None" "strip name \<noteq> []" "password_error password = None"
  shows "fst (current_user None
           ((snd (create_user hashpw name password r u (snd (delete_user (user_id old) u w))))\<lparr>session := c\<rparr>)) =
         Some (user_row (user_id old) (strip name) (hash_password hashpw password)
                (if r = ''admin'' then ''admin'' else ''user''))"
proof -
  have others: "v \<in> set us \<Longrightarrow> user_id v \<noteq> user_id old" for v
    using next_id_fresh [of v us user_id] assms(2) by simp
  then have "get_user us (user_id old) = None" by (force simp: get_row_None)
  then have "users (snd (delete_user (user_id old) u w)) = us"
    using assms(1,4,5) others
    by (auto simp: delete_user_def get_row_append is_admin_def del_row_def filter_id_conv)
  moreover have "password \<noteq> []"
    using assms(9) by (auto simp: password_error_def MIN_PASSWORD_LENGTH_def)
  moreover have "0 < user_id old" using assms(2) by (simp add: next_id_def)
  ultimately show ?thesis
    using assms(2,3,6,7,8,9) \<open>get_user us (user_id old) = None\<close>
    by (simp add: create_user_def Let_def current_user_def user_by_token_def start_session_def
        empty_session_def truthy_id_def get_row_append user_row_def)
qed

text \<open>
  An API token can renew another account's expired session: a password change made with the token of
  account \<open>a\<close> writes \<open>a\<close>'s new epoch into the cookie it came with, whoever that names.  A stale
  cookie of \<open>b\<close> is then valid again when the two epochs meet.
\<close>

theorem token_renews_stale_cookie:
  assumes "user_by_token (users w) auth = Some a" "verify_password checkpw old_pw (password_hash a)"
    and "password_error new_pw = None"
    and "get_user (users w) (user_id b) = Some b" "user_id a \<noteq> user_id b" "0 < user_id b"
    and "s_uid (session w) = Some (user_id b)" "s_ep (session w) \<noteq> Some (session_epoch b)"
    and "session_epoch b = session_epoch a + 1"
  shows "fst (current_user None w) = None \<and>
         fst (current_user None (snd (handle checkpw hashpw totp auth (ChangeOwnPassword old_pw new_pw) w))) = Some b"
proof -
  let ?w = "w\<lparr>users := upd_user (users w) (user_id a) (new_password hashpw new_pw),
              session := (session w)\<lparr>s_ep := Some (session_epoch a + 1)\<rparr>\<rparr>"
  have "current_user auth w = (Some a, w)" using assms(1) by (simp add: current_user_def)
  then have "snd (handle checkpw hashpw totp auth (ChangeOwnPassword old_pw new_pw) w) = ?w"
    using assms(2,3) by (simp add: guarded_def require_user_def change_own_password_def)
  moreover have "get_user (users ?w) (user_id b) = Some b"
    using assms(4,5) by (simp add: get_upd_row new_password_def)
  ultimately show ?thesis
    using assms(4,6,7,8,9) by (simp add: current_user_def user_by_token_def truthy_id_def)
qed

section \<open>Witnesses\<close>

text \<open>A stand-in for bcrypt that keeps its contract: each byte in unary.\<close>

definition unary_hash :: "nat list \<Rightarrow> string" where
  "unary_hash bs = concat (map (\<lambda>n. replicate n CHR ''x'' @ '','') bs)"

definition unary_check :: "nat list \<Rightarrow> string \<Rightarrow> bool option" where
  "unary_check bs h = Some (unary_hash bs = h)"

definition code_check :: "string \<Rightarrow> string \<Rightarrow> bool" where
  "code_check sec codestr \<longleftrightarrow> codestr = ''123456''"

lemma unary_hash_ascii: "list_all (\<lambda>c. code c < 128) (unary_hash bs)"
  by (auto simp: unary_hash_def list_all_iff)

lemma unary_hash_inj: "unary_hash a = unary_hash b \<longleftrightarrow> a = b"
proof
  have head: "replicate m CHR ''x'' @ CHR '','' # s = replicate n CHR ''x'' @ CHR '','' # t \<Longrightarrow> m = n \<and> s = t"
    for m n s t
  proof -
    assume eq: "replicate m CHR ''x'' @ CHR '','' # s = replicate n CHR ''x'' @ CHR '','' # t"
    have "length (takeWhile (\<lambda>c. c = CHR ''x'') (replicate k CHR ''x'' @ CHR '','' # u)) = k" for k u
      by (induction k) auto
    from this [of m s] this [of n t] eq have "m = n" by simp
    with eq show "m = n \<and> s = t" by simp
  qed
  show "unary_hash a = unary_hash b \<Longrightarrow> a = b"
  proof (induction a arbitrary: b)
    case Nil
    then show ?case by (cases b) (simp_all add: unary_hash_def)
  next
    case (Cons n a)
    then obtain m b' where b: "b = m # b'" by (cases b) (auto simp: unary_hash_def)
    with Cons.prems have "replicate n CHR ''x'' @ CHR '','' # unary_hash a =
        replicate m CHR ''x'' @ CHR '','' # unary_hash b'"
      by (simp add: unary_hash_def)
    with head b Cons.IH show ?case by blast
  qed
qed simp

lemma unary_contract: "unary_check a (unary_hash b) = Some (a = b)"
  by (auto simp: unary_check_def unary_hash_inj)

definition root_password :: string where
  "root_password = ''correct horse battery''"

definition root_user :: user where
  "root_user = user_row 1 ''root'' (hash_password unary_hash root_password) ''admin''"

lemma root_row:
  "user_id root_user = 1" "username root_user = ''root''" "role root_user = ''admin''"
  "password_hash root_user = hash_password unary_hash root_password"
  "session_epoch root_user = 0" "api_token root_user = None" "\<not> totp_enabled root_user"
  by (simp_all add: root_user_def user_row_def)

definition root_console :: web where
  "root_console = \<lparr>users = [root_user], lockouts = Map.empty, session = empty_session\<rparr>"

lemma root_authenticates: "authenticate unary_check [root_user] ''root'' root_password = Some root_user"
  by (simp add: authenticate_def get_user_by_name_def root_user_def user_row_def verify_password_def
      hash_password_def unary_hash_ascii unary_check_def)

lemma root_login:
  "handle unary_check unary_hash code_check None (Login ''10.0.0.1'' 0 ''root'' root_password) root_console =
     (Redirect ''/'', root_console\<lparr>session := start_session root_user empty_session\<rparr>)"
proof -
  have "\<not> totp_enabled root_user" by (simp add: root_user_def user_row_def)
  then show ?thesis
    by (simp add: login_submit_def root_console_def retry_after_def root_authenticates reset_def)
qed

theorem session_needs_credentials_witness:
  "\<exists>us lk cookies ev c. history unary_check unary_hash code_check us lk cookies ev \<and> c \<in> cookies \<and>
     s_uid c = Some 1 \<and> (PasswordOf 1 False \<in> ev \<or> PasswordOf 1 True \<in> ev \<and> CodeOf 1 \<in> ev)"
proof -
  let ?c = "start_session root_user empty_session"
  have "history unary_check unary_hash code_check [root_user] Map.empty {empty_session} {}"
    by (rule history.start)
  then have hist: "history unary_check unary_hash code_check
      (users (root_console\<lparr>session := ?c\<rparr>)) (lockouts (root_console\<lparr>session := ?c\<rparr>))
      (insert (session (root_console\<lparr>session := ?c\<rparr>)) {empty_session})
      ({} \<union> evidence_of unary_check code_check (Login ''10.0.0.1'' 0 ''root'' root_password) root_console)"
    by (rule history.request [OF _ _ _ root_login]) (simp_all add: root_console_def)
  have uid: "s_uid ?c = Some 1" by (simp add: start_session_def root_user_def user_row_def)
  have mem: "?c \<in> insert (session (root_console\<lparr>session := ?c\<rparr>)) {empty_session}" by simp
  show ?thesis
    by (intro exI conjI) (rule hist, rule mem, rule uid, rule session_needs_credentials [OF hist mem uid])
qed


lemma root_table_ok: "users_ok (users root_console)"
  by (simp add: users_ok_def wf_users_def tokens_unique_def root_console_def root_user_def user_row_def
      admin_count_def is_admin_def)

theorem users_keep_an_admin_witness:
  "users_ok (users (fold (serve unary_check unary_hash code_check)
     [(start_session root_user empty_session, None, DeleteUser 1),
      (start_session root_user empty_session, None, ChangeRole 1 ''user'')] root_console))"
  by (rule users_keep_an_admin [OF root_table_ok])

theorem unauthorized_changes_nothing_witness:
  "turned_away (handle unary_check unary_hash code_check None (ChangeRole 1 ''user'') root_console) root_console"
  by (rule unauthorized_changes_nothing)
    (simp_all add: current_user_def user_by_token_def root_console_def empty_session_def truthy_id_def)

theorem locked_logins_refused_witness:
  "list_all (\<lambda>(now, name, password).
     login_submit unary_check ''10.0.0.9'' now name password
       (root_console\<lparr>lockouts := [''10.0.0.9'' \<mapsto> \<lparr>fail_count = 0, locked_until = Some 1900, last_fail = Some 1000\<rparr>]\<rparr>) =
     (Page ''login.html'' (lockout_message (fst (retry_after ''10.0.0.9'' now
        [''10.0.0.9'' \<mapsto> \<lparr>fail_count = 0, locked_until = Some 1900, last_fail = Some 1000\<rparr>]))),
      root_console\<lparr>lockouts := [''10.0.0.9'' \<mapsto> \<lparr>fail_count = 0, locked_until = Some 1900, last_fail = Some 1000\<rparr>]\<rparr>))
     [(1200, ''root'', root_password), (1800, ''root'', ''guess'')]"
proof -
  let ?w = "root_console\<lparr>lockouts := [''10.0.0.9'' \<mapsto> \<lparr>fail_count = 0, locked_until = Some 1900, last_fail = Some 1000\<rparr>]\<rparr>"
  have "fst (retry_after ''10.0.0.9'' 1800 (lockouts ?w)) \<noteq> 0"
    by (simp add: retry_after_def truthy_def)
  from locked_logins_refused [OF this, of "[(1200, ''root'', root_password), (1800, ''root'', ''guess'')]" unary_check]
  show ?thesis by simp
qed

theorem accepted_password_iff_witness:
  "\<forall>q. (authenticate unary_check [root_user] (username root_user) q = Some root_user \<longleftrightarrow>
        take 72 (utf8 q) = utf8 root_password) \<and>
     (length (utf8 root_password) < 72 \<longrightarrow>
       (authenticate unary_check [root_user] (username root_user) q = Some root_user \<longleftrightarrow> q = root_password))"
proof
  have "password_error root_password = None" by code_simp
  then show "(authenticate unary_check [root_user] (username root_user) q = Some root_user \<longleftrightarrow>
        take 72 (utf8 q) = utf8 root_password) \<and>
     (length (utf8 root_password) < 72 \<longrightarrow>
       (authenticate unary_check [root_user] (username root_user) q = Some root_user \<longleftrightarrow> q = root_password))" for q
    by (intro accepted_password_iff [where hashpw = unary_hash])
      (simp_all add: unary_contract unary_hash_ascii root_row)
qed

text \<open>The second account of a small console, deleted and followed by a new administrator.\<close>

definition leaver :: user where
  "leaver = user_row 2 ''leaver'' (hash_password unary_hash ''long forgotten'') ''user''"

theorem deleted_cookie_opens_successor_witness:
  "fst (current_user None
     ((snd (create_user unary_hash ''boss'' ''passphrase of boss'' ''admin'' root_user
        (snd (delete_user 2 root_user (root_console\<lparr>users := [root_user, leaver]\<rparr>)))))
      \<lparr>session := start_session leaver empty_session\<rparr>)) =
   Some (user_row 2 ''boss'' (hash_password unary_hash ''passphrase of boss'') ''admin'')"
proof -
  have ids: "user_id leaver = 2" "user_id root_user = 1" "session_epoch leaver = 0" "role leaver = ''user''"
    "username root_user = ''root''"
    by (simp_all add: leaver_def root_user_def user_row_def)
  have name: "strip ''boss'' = ''boss''" by code_simp
  have password: "password_error ''passphrase of boss'' = None" by code_simp
  show ?thesis
    using deleted_cookie_opens_successor [of "root_console\<lparr>users := [root_user, leaver]\<rparr>" "[root_user]" leaver
        root_user "start_session leaver empty_session" "''boss''" "''passphrase of boss''" unary_hash "''admin''"]
    by (simp add: ids name password next_id_def is_admin_def get_user_by_name_def)
qed

theorem token_renews_stale_cookie_witness:
  "\<exists>w a b. fst (current_user None w) = None \<and> is_admin b \<and> \<not> is_admin a \<and>
     fst (current_user None (snd (handle unary_check unary_hash code_check (Some ''Bearer t'')
       (ChangeOwnPassword ''long forgotten'' ''long remembered'') w))) = Some b"
proof -
  let ?a = "leaver\<lparr>api_token := Some ''t''\<rparr>"
  let ?b = "root_user\<lparr>session_epoch := 1\<rparr>"
  let ?w = "\<lparr>users = [?b, ?a], lockouts = Map.empty, session = start_session root_user empty_session\<rparr>"
  have rows: "user_id leaver = 2" "user_id root_user = 1" "session_epoch leaver = 0" "session_epoch root_user = 0"
    "role leaver = ''user''" "role root_user = ''admin''" "api_token root_user = None"
    "password_hash leaver = hash_password unary_hash ''long forgotten''"
    by (simp_all add: leaver_def root_user_def user_row_def)
  have token: "user_by_token (users ?w) (Some ''Bearer t'') = Some ?a"
    by (simp add: user_by_token_def rows)
  have verified: "verify_password unary_check ''long forgotten'' (password_hash ?a)"
    by (simp add: rows verify_password_def hash_password_def unary_hash_ascii unary_check_def)
  have password: "password_error ''long remembered'' = None" by code_simp
  have "fst (current_user None ?w) = None \<and>
      fst (current_user None (snd (handle unary_check unary_hash code_check (Some ''Bearer t'')
        (ChangeOwnPassword ''long forgotten'' ''long remembered'') ?w))) = Some ?b"
    by (rule token_renews_stale_cookie [OF token verified password])
      (simp_all add: rows start_session_def)
  moreover have "is_admin ?b" "\<not> is_admin ?a" by (simp_all add: is_admin_def rows)
  ultimately show ?thesis by blast
qed

end
