(* ===== verification/Regex.thy ===== *)
theory Regex
  imports Prelude
begin

text \<open>
  The part of Python's \<open>re\<close> module the console uses.  A compiled pattern is a value of
  \<open>rx\<close>; the matcher explores it in the module's order (leftmost, greedy, backtracking) and
  returns the list of its successes, the first of which is the match \<open>re\<close> reports.

  Against it stands a relational semantics, \<open>mat\<close>, that says which text a pattern matches
  between a left and a right context.  \<open>m_iff_mat\<close> shows that the two agree, so that a
  component can reason about a pattern through \<open>mat\<close> and still evaluate it.
\<close>

datatype rx =
    Eps
  | Cls "char \<Rightarrow> bool"          \<comment> \<open>one character of a class\<close>
  | Seq rx rx
  | Alt rx rx                   \<comment> \<open>left branch first\<close>
  | Star rx                     \<comment> \<open>greedy\<close>
  | Grp nat rx                  \<comment> \<open>capturing group\<close>
  | AtStart                     \<comment> \<open>\<open>^\<close>\<close>
  | AtEnd                       \<comment> \<open>\<open>$\<close>: at the end, or before a final newline\<close>
  | WordB                       \<comment> \<open>\<open>\b\<close>\<close>
  | NotBehind "char \<Rightarrow> bool"    \<comment> \<open>\<open>(?<![...])\<close>\<close>

subsection \<open>Derived patterns\<close>

fun lit :: "string \<Rightarrow> rx" where
  "lit [] = Eps"
| "lit (c # cs) = Seq (Cls (\<lambda>d. d = c)) (lit cs)"

text \<open>A literal under \<open>re.IGNORECASE\<close>.\<close>

fun lit_ci :: "string \<Rightarrow> rx" where
  "lit_ci [] = Eps"
| "lit_ci (c # cs) = Seq (Cls (\<lambda>d. lower_chr d = lower_chr c)) (lit_ci cs)"

definition opt :: "rx \<Rightarrow> rx" where "opt r = Alt r Eps"
definition plus1 :: "rx \<Rightarrow> rx" where "plus1 r = Seq r (Star r)"

fun exactly :: "nat \<Rightarrow> rx \<Rightarrow> rx" where
  "exactly 0 r = Eps"
| "exactly (Suc n) r = Seq r (exactly n r)"

text \<open>\<open>r{0,n}\<close>, greedy.\<close>

fun upto_n :: "nat \<Rightarrow> rx \<Rightarrow> rx" where
  "upto_n 0 r = Eps"
| "upto_n (Suc n) r = Alt (Seq r (upto_n n r)) Eps"

definition any_chr :: rx where "any_chr = Cls (\<lambda>c. c \<noteq> NL)"
definition digit_rx :: rx where "digit_rx = Cls is_digit"

subsection \<open>The matcher\<close>

text \<open>
  The state of a match: the text already consumed, reversed, the text ahead, and the groups
  captured so far (latest first).
\<close>

type_synonym mstate = "string \<times> string \<times> (nat \<times> string) list"

definition ahead :: "mstate \<Rightarrow> nat" where
  "ahead s = length (fst (snd s))"

text \<open>
  Greedy repetition of a matcher: only iterations that consume something are repeated, and each
  of them shortens the text ahead, so its length bounds their number.
\<close>

fun star_run :: "nat \<Rightarrow> (mstate \<Rightarrow> mstate list) \<Rightarrow> mstate \<Rightarrow> mstate list" where
  "star_run 0 f s = [s]"
| "star_run (Suc n) f s =
     concat (map (star_run n f) (filter (\<lambda>t. ahead t < ahead s) (f s))) @ [s]"

definition at_word_boundary :: "string \<Rightarrow> string \<Rightarrow> bool" where
  "at_word_boundary pre post \<longleftrightarrow>
     ((case pre of [] \<Rightarrow> False | c # _ \<Rightarrow> py_word c) \<noteq>
      (case post of [] \<Rightarrow> False | c # _ \<Rightarrow> py_word c))"

definition not_behind :: "(char \<Rightarrow> bool) \<Rightarrow> string \<Rightarrow> bool" where
  "not_behind P pre \<longleftrightarrow> (case pre of [] \<Rightarrow> True | c # _ \<Rightarrow> \<not> P c)"

fun m :: "rx \<Rightarrow> mstate \<Rightarrow> mstate list" where
  "m Eps s = [s]"
| "m (Cls P) (pre, post, g) =
     (case post of [] \<Rightarrow> [] | c # cs \<Rightarrow> if P c then [(c # pre, cs, g)] else [])"
| "m (Seq a b) s = concat (map (m b) (m a s))"
| "m (Alt a b) s = m a s @ m b s"
| "m (Star r) s = star_run (ahead s) (m r) s"
| "m (Grp k r) (pre, post, g) =
     map (\<lambda>(pre', post', g'). (pre', post', (k, rev (take (length pre' - length pre) pre')) # g'))
       (m r (pre, post, g))"
| "m AtStart (pre, post, g) = (if pre = [] then [(pre, post, g)] else [])"
| "m AtEnd (pre, post, g) = (if post = [] \<or> post = [NL] then [(pre, post, g)] else [])"
| "m WordB (pre, post, g) = (if at_word_boundary pre post then [(pre, post, g)] else [])"
| "m (NotBehind P) (pre, post, g) = (if not_behind P pre then [(pre, post, g)] else [])"

subsection \<open>The module's entry points\<close>

text \<open>A match object: its text, what follows it, and its groups.\<close>

type_synonym rmatch = "string \<times> string \<times> (nat \<times> string) list"

definition to_match :: "nat \<Rightarrow> mstate \<Rightarrow> rmatch" where
  "to_match start s = (case s of (pre, post, g) \<Rightarrow> (rev (take (length pre - start) pre), post, g))"

definition group :: "nat \<Rightarrow> rmatch \<Rightarrow> string option" where
  "group k x = map_of (snd (snd x)) k"

definition re_match :: "rx \<Rightarrow> string \<Rightarrow> rmatch option" where
  "re_match r s = (case m r ([], s, []) of [] \<Rightarrow> None | t # _ \<Rightarrow> Some (to_match 0 t))"

definition re_fullmatch :: "rx \<Rightarrow> string \<Rightarrow> rmatch option" where
  "re_fullmatch r s =
     (case filter (\<lambda>t. fst (snd t) = []) (m r ([], s, [])) of
        [] \<Rightarrow> None | t # _ \<Rightarrow> Some (to_match 0 t))"

text \<open>\<open>re.search\<close> from a position: \<open>pre\<close> is the reversed text before it.\<close>

fun search_from :: "rx \<Rightarrow> string \<Rightarrow> string \<Rightarrow> (nat \<times> mstate) option" where
  "search_from r pre [] =
     (case m r (pre, [], []) of [] \<Rightarrow> None | t # _ \<Rightarrow> Some (length pre, t))"
| "search_from r pre (c # cs) =
     (case m r (pre, c # cs, []) of
        t # _ \<Rightarrow> Some (length pre, t)
      | [] \<Rightarrow> search_from r (c # pre) cs)"

definition re_search :: "rx \<Rightarrow> string \<Rightarrow> rmatch option" where
  "re_search r s = map_option (\<lambda>(k, t). to_match k t) (search_from r [] s)"

text \<open>
  \<open>re.finditer\<close>: non-overlapping matches, left to right.  The patterns given to it all consume
  something; a match of nothing advances by one character.
\<close>

fun finditer_fuel :: "nat \<Rightarrow> rx \<Rightarrow> string \<Rightarrow> string \<Rightarrow> rmatch list" where
  "finditer_fuel 0 r pre post = []"
| "finditer_fuel (Suc n) r pre post =
     (case search_from r pre post of
        None \<Rightarrow> []
      | Some (k, t) \<Rightarrow>
          to_match k t #
          (case t of (pre', post', g) \<Rightarrow>
             if length pre' = k then
               (case post' of [] \<Rightarrow> [] | c # cs \<Rightarrow> finditer_fuel n r (c # pre') cs)
             else finditer_fuel n r pre' post'))"

definition re_finditer :: "rx \<Rightarrow> string \<Rightarrow> rmatch list" where
  "re_finditer r s = finditer_fuel (Suc (length s)) r [] s"

text \<open>\<open>re.sub\<close> of a one-or-more class by a fixed text: every maximal run is replaced.\<close>

function sub_runs :: "(char \<Rightarrow> bool) \<Rightarrow> string \<Rightarrow> string \<Rightarrow> string" where
  "sub_runs P new [] = []"
| "sub_runs P new (c # cs) =
     (if P c then new @ sub_runs P new (dropWhile P cs) else c # sub_runs P new cs)"
  by pat_completeness auto
termination
  by (relation "measure (\<lambda>(P, new, s). length s)") (auto simp: length_dropWhile_le le_imp_less_Suc)

section \<open>What a pattern matches\<close>

text \<open>
  \<open>mat r pre w post\<close>: the pattern \<open>r\<close> matches the text \<open>w\<close> standing after the (reversed) text
  \<open>pre\<close> and before the text \<open>post\<close>.
\<close>

inductive mat :: "rx \<Rightarrow> string \<Rightarrow> string \<Rightarrow> string \<Rightarrow> bool" where
  eps: "mat Eps pre [] post"
| cls: "P c \<Longrightarrow> mat (Cls P) pre [c] post"
| seq: "mat a pre u (v @ post) \<Longrightarrow> mat b (rev u @ pre) v post \<Longrightarrow> mat (Seq a b) pre (u @ v) post"
| alt1: "mat a pre w post \<Longrightarrow> mat (Alt a b) pre w post"
| alt2: "mat b pre w post \<Longrightarrow> mat (Alt a b) pre w post"
| star0: "mat (Star r) pre [] post"
| starS: "mat r pre u (v @ post) \<Longrightarrow> u \<noteq> [] \<Longrightarrow> mat (Star r) (rev u @ pre) v post \<Longrightarrow>
            mat (Star r) pre (u @ v) post"
| grp: "mat r pre w post \<Longrightarrow> mat (Grp k r) pre w post"
| at_start: "mat AtStart [] [] post"
| at_end: "post = [] \<or> post = [NL] \<Longrightarrow> mat AtEnd pre [] post"
| word_b: "at_word_boundary pre post \<Longrightarrow> mat WordB pre [] post"
| not_beh: "not_behind P pre \<Longrightarrow> mat (NotBehind P) pre [] post"

inductive_simps mat_simps:
  "mat Eps pre w post" "mat (Cls P) pre w post" "mat (Seq a b) pre w post"
  "mat (Alt a b) pre w post" "mat (Grp k r) pre w post" "mat AtStart pre w post"
  "mat AtEnd pre w post" "mat WordB pre w post" "mat (NotBehind P) pre w post"

inductive_simps mat_star_simps: "mat (Star r) pre w post"

subsection \<open>The matcher finds exactly that\<close>

lemma star_run_fuel:
  "ahead s \<le> n \<Longrightarrow> ahead s \<le> k \<Longrightarrow> star_run n f s = star_run k f s"
proof (induction n arbitrary: k s)
  case 0
  then show ?case by (cases k) simp_all
next
  case (Suc n)
  show ?case
  proof (cases k)
    case 0
    with Suc.prems show ?thesis by simp
  next
    case (Suc k')
    have "star_run n f t = star_run k' f t" if "ahead t < ahead s" for t
      using that Suc.IH [of t k'] Suc.prems \<open>k = Suc k'\<close> by simp
    then have "map (star_run n f) (filter (\<lambda>t. ahead t < ahead s) (f s)) =
               map (star_run k' f) (filter (\<lambda>t. ahead t < ahead s) (f s))"
      by (intro map_cong) auto
    then show ?thesis by (simp only: \<open>k = Suc k'\<close> star_run.simps)
  qed
qed

lemma star_run_sound:
  assumes f: "\<And>pre post g pre' post' g'. (pre', post', g') \<in> set (f (pre, post, g)) \<Longrightarrow>
                \<exists>u. pre' = rev u @ pre \<and> post = u @ post' \<and> mat r pre u post'"
  shows "(pre', post', g') \<in> set (star_run n f (pre, post, g)) \<Longrightarrow>
           \<exists>u. pre' = rev u @ pre \<and> post = u @ post' \<and> mat (Star r) pre u post'"
proof (induction n arbitrary: pre post g)
  case 0
  then show ?case by (auto intro: mat.star0)
next
  case (Suc n)
  show ?case
  proof (cases "(pre', post', g') = (pre, post, g)")
    case True
    then show ?thesis by (auto intro: mat.star0)
  next
    case False
    with Suc.prems obtain p1 q1 g1 where t: "(p1, q1, g1) \<in> set (f (pre, post, g))"
      and lt: "ahead (p1, q1, g1) < ahead (pre, post, g)"
      and in_run: "(pre', post', g') \<in> set (star_run n f (p1, q1, g1))"
      by auto
    from f [OF t] obtain u where u: "p1 = rev u @ pre" "post = u @ q1" "mat r pre u q1"
      by blast
    from Suc.IH [OF in_run] obtain v where
      v: "pre' = rev v @ p1" "q1 = v @ post'" "mat (Star r) p1 v post'"
      by blast
    have "u \<noteq> []" using lt u by (auto simp: ahead_def)
    with u v have "mat (Star r) pre (u @ v) post'" by (auto intro: mat.starS)
    with u v show ?thesis by (intro exI [of _ "u @ v"]) simp
  qed
qed

lemma m_sound:
  "(pre', post', g') \<in> set (m r (pre, post, g)) \<Longrightarrow>
     \<exists>u. pre' = rev u @ pre \<and> post = u @ post' \<and> mat r pre u post'"
proof (induction r arbitrary: pre post g pre' post' g')
  case (Cls P)
  then show ?case by (auto split: list.splits if_splits intro: mat.cls)
next
  case (Seq a b)
  from Seq.prems obtain p1 q1 g1 where 1: "(p1, q1, g1) \<in> set (m a (pre, post, g))"
    and 2: "(pre', post', g') \<in> set (m b (p1, q1, g1))" by auto
  from Seq.IH(1) [OF 1] Seq.IH(2) [OF 2] show ?case
    by (auto intro!: mat.seq)
next
  case (Star r)
  then show ?case using star_run_sound [of "m r" r] by simp
next
  case (Grp k r)
  then show ?case by (fastforce intro: mat.grp)
next
  case (Alt a b)
  then show ?case by (fastforce intro: mat.alt1 mat.alt2)
qed (auto intro: mat.intros split: if_splits)

lemma m_complete:
  "mat r pre w post \<Longrightarrow> \<exists>g'. (rev w @ pre, post, g') \<in> set (m r (pre, w @ post, g))"
proof (induction arbitrary: g rule: mat.induct)
  case (seq a pre u v post b)
  from seq.IH(1) obtain g1 where 1: "(rev u @ pre, v @ post, g1) \<in> set (m a (pre, u @ v @ post, g))"
    by auto
  from seq.IH(2) obtain g2 where
    "(rev v @ rev u @ pre, post, g2) \<in> set (m b (rev u @ pre, v @ post, g1))" by blast
  with 1 show ?case by force
next
  case (starS r pre u v post)
  from starS.IH(1) obtain g1 where 1: "(rev u @ pre, v @ post, g1) \<in> set (m r (pre, u @ v @ post, g))"
    by auto
  from starS.IH(2) obtain g2 where
    2: "(rev v @ rev u @ pre, post, g2) \<in> set (m (Star r) (rev u @ pre, v @ post, g1))" by blast
  from \<open>u \<noteq> []\<close> obtain k where k: "length (u @ v @ post) = Suc k" "length (v @ post) \<le> k"
    by (cases u) auto
  have "star_run k (m r) (rev u @ pre, v @ post, g1) = m (Star r) (rev u @ pre, v @ post, g1)"
    using star_run_fuel [of "(rev u @ pre, v @ post, g1)" k "length (v @ post)" "m r"] k(2)
    by (simp add: ahead_def)
  with 2 have "(rev v @ rev u @ pre, post, g2) \<in> set (star_run k (m r) (rev u @ pre, v @ post, g1))"
    by simp
  with 1 \<open>u \<noteq> []\<close> have
    "(rev v @ rev u @ pre, post, g2) \<in> set (star_run (Suc k) (m r) (pre, u @ v @ post, g))"
    by (force simp: ahead_def)
  with k(1) show ?case by (auto simp: ahead_def simp del: star_run.simps)
next
  case (star0 r pre post)
  then show ?case by (cases "ahead (pre, post, g)") auto
next
  case (grp r pre w post k)
  then obtain g1 where "(rev w @ pre, post, g1) \<in> set (m r (pre, w @ post, g))" by blast
  then show ?case by force
qed auto

lemma m_iff_mat:
  "(\<exists>g'. (rev w @ pre, post, g') \<in> set (m r (pre, w @ post, g))) \<longleftrightarrow> mat r pre w post"
proof
  assume "\<exists>g'. (rev w @ pre, post, g') \<in> set (m r (pre, w @ post, g))"
  then obtain g' where "(rev w @ pre, post, g') \<in> set (m r (pre, w @ post, g))" ..
  from m_sound [OF this] show "mat r pre w post" by auto
qed (rule m_complete)

lemma fullmatch_iff: "re_fullmatch r s \<noteq> None \<longleftrightarrow> mat r [] s []"
proof -
  have "re_fullmatch r s \<noteq> None \<longleftrightarrow> (\<exists>t \<in> set (m r ([], s, [])). fst (snd t) = [])"
    by (cases "filter (\<lambda>t. fst (snd t) = []) (m r ([], s, []))")
      (auto simp: re_fullmatch_def filter_empty_conv filter_eq_Cons_iff simp del: not_None_eq)
  also have "\<dots> \<longleftrightarrow> mat r [] s []"
  proof
    assume "\<exists>t \<in> set (m r ([], s, [])). fst (snd t) = []"
    then obtain p g where "(p, [], g) \<in> set (m r ([], s, []))" by force
    from m_sound [OF this] show "mat r [] s []" by auto
  next
    assume "mat r [] s []"
    from m_complete [OF this, of "[]"] show "\<exists>t \<in> set (m r ([], s, [])). fst (snd t) = []"
      by force
  qed
  finally show ?thesis .
qed

lemma match_iff: "re_match r s \<noteq> None \<longleftrightarrow> (\<exists>u v. s = u @ v \<and> mat r [] u v)"
proof -
  have "re_match r s \<noteq> None \<longleftrightarrow> m r ([], s, []) \<noteq> []"
    by (cases "m r ([], s, [])") (simp_all add: re_match_def)
  also have "\<dots> \<longleftrightarrow> (\<exists>u v. s = u @ v \<and> mat r [] u v)"
  proof
    assume "m r ([], s, []) \<noteq> []"
    then obtain p q g where "(p, q, g) \<in> set (m r ([], s, []))"
      by (metis list.set_intros(1) neq_Nil_conv prod_cases3)
    from m_sound [OF this] show "\<exists>u v. s = u @ v \<and> mat r [] u v" by auto
  next
    assume "\<exists>u v. s = u @ v \<and> mat r [] u v"
    then obtain u v where "s = u @ v" "mat r [] u v" by blast
    with m_complete [of r "[]" u v "[]"] show "m r ([], s, []) \<noteq> []" by auto
  qed
  finally show ?thesis .
qed

lemma search_from_iff:
  "search_from r pre s \<noteq> None \<longleftrightarrow> (\<exists>u v w. s = u @ v @ w \<and> mat r (rev u @ pre) v w)"
proof (induction s arbitrary: pre)
  case Nil
  have "m r (pre, [], []) \<noteq> [] \<longleftrightarrow> mat r pre [] []"
  proof
    assume "m r (pre, [], []) \<noteq> []"
    then obtain p q g where "(p, q, g) \<in> set (m r (pre, [], []))"
      by (metis list.set_intros(1) neq_Nil_conv prod_cases3)
    from m_sound [OF this] show "mat r pre [] []" by auto
  next
    assume "mat r pre [] []"
    from m_complete [OF this, of "[]"] show "m r (pre, [], []) \<noteq> []" by auto
  qed
  then show ?case by (auto split: list.splits)
next
  case (Cons c s)
  show ?case
  proof (cases "m r (pre, c # s, [])")
    case Nil
    have no: "\<not> mat r pre v w" if "c # s = v @ w" for v w
      using m_complete [of r pre v w "[]"] that Nil by auto
    have "(\<exists>u v w. c # s = u @ v @ w \<and> mat r (rev u @ pre) v w) \<longleftrightarrow>
          (\<exists>u v w. s = u @ v @ w \<and> mat r (rev u @ c # pre) v w)"
    proof
      assume "\<exists>u v w. c # s = u @ v @ w \<and> mat r (rev u @ pre) v w"
      then obtain u v w where uvw: "c # s = u @ v @ w" "mat r (rev u @ pre) v w" by blast
      with no have "u \<noteq> []" by auto
      with uvw show "\<exists>u v w. s = u @ v @ w \<and> mat r (rev u @ c # pre) v w"
        by (cases u) auto
    next
      assume "\<exists>u v w. s = u @ v @ w \<and> mat r (rev u @ c # pre) v w"
      then obtain u v w where "s = u @ v @ w" "mat r (rev (c # u) @ pre) v w" by auto
      then show "\<exists>u v w. c # s = u @ v @ w \<and> mat r (rev u @ pre) v w"
        by (metis append_Cons)
    qed
    with Nil Cons.IH show ?thesis by simp
  next
    case (Cons t ts)
    obtain p q g where t: "t = (p, q, g)" by (cases t)
    with Cons have "(p, q, g) \<in> set (m r (pre, c # s, []))" by simp
    from m_sound [OF this] have "\<exists>v w. c # s = v @ w \<and> mat r pre v w" by blast
    then have "\<exists>u v w. c # s = u @ v @ w \<and> mat r (rev u @ pre) v w"
      by (metis append_Nil rev.simps(1))
    with Cons show ?thesis by simp
  qed
qed

lemma search_iff: "re_search r s \<noteq> None \<longleftrightarrow> (\<exists>u v w. s = u @ v @ w \<and> mat r (rev u) v w)"
  using search_from_iff [of r "[]" s] by (simp add: re_search_def)

subsection \<open>Rules for the derived patterns\<close>

lemma mat_lit [simp]: "mat (lit s) pre w post \<longleftrightarrow> w = s"
  by (induction s arbitrary: pre w post) (auto simp: mat_simps)

lemma mat_seq_cls:
  "mat (Seq (Cls P) r) pre w post \<longleftrightarrow> (\<exists>c cs. w = c # cs \<and> P c \<and> mat r (c # pre) cs post)"
proof
  assume "mat (Seq (Cls P) r) pre w post"
  then show "\<exists>c cs. w = c # cs \<and> P c \<and> mat r (c # pre) cs post"
    by (auto simp: mat_simps)
next
  assume "\<exists>c cs. w = c # cs \<and> P c \<and> mat r (c # pre) cs post"
  then obtain c cs where w: "w = c # cs" "P c" "mat r (c # pre) cs post" by blast
  then have "mat (Seq (Cls P) r) pre ([c] @ cs) post"
    by (intro mat.seq mat.cls) simp_all
  with w show "mat (Seq (Cls P) r) pre w post" by simp
qed

lemma mat_opt: "mat (opt r) pre w post \<longleftrightarrow> mat r pre w post \<or> w = []"
  by (auto simp: opt_def mat_simps)

lemma mat_star_cls: "mat (Star (Cls P)) pre w post \<longleftrightarrow> list_all P w"
proof
  show "mat (Star (Cls P)) pre w post \<Longrightarrow> list_all P w"
    by (induction "Star (Cls P)" pre w post rule: mat.induct) (auto simp: mat_simps)
next
  show "list_all P w \<Longrightarrow> mat (Star (Cls P)) pre w post"
  proof (induction w arbitrary: pre)
    case (Cons c w)
    then have "mat (Star (Cls P)) pre ([c] @ w) post"
      by (intro mat.starS mat.cls) simp_all
    then show ?case by simp
  qed (rule mat.star0)
qed

lemma mat_plus_cls: "mat (plus1 (Cls P)) pre w post \<longleftrightarrow> w \<noteq> [] \<and> list_all P w"
  unfolding plus1_def by (cases w) (auto simp: mat_seq_cls mat_star_cls)

lemma mat_upto_cls: "mat (upto_n n (Cls P)) pre w post \<longleftrightarrow> length w \<le> n \<and> list_all P w"
proof (induction n arbitrary: pre w)
  case 0
  then show ?case by (auto simp: mat_simps)
next
  case (Suc n)
  then show ?case by (cases w) (auto simp: mat_seq_cls mat_simps(4) mat_simps(1))
qed

lemma mat_exactly_cls: "mat (exactly n (Cls P)) pre w post \<longleftrightarrow> length w = n \<and> list_all P w"
proof (induction n arbitrary: pre w)
  case 0
  then show ?case by (auto simp: mat_simps)
next
  case (Suc n)
  then show ?case by (cases w) (auto simp: mat_seq_cls)
qed

lemmas mat_rules = mat_seq_cls mat_opt mat_star_cls mat_plus_cls mat_upto_cls mat_exactly_cls

subsection \<open>Replacing runs\<close>

lemma sub_runs_keeps:
  "x \<in> set (sub_runs P new s) \<Longrightarrow> x \<in> set new \<or> (x \<in> set s \<and> \<not> P x)"
proof (induction P new s rule: sub_runs.induct)
  case (2 P new c cs)
  then show ?case by (auto split: if_splits dest: set_dropWhileD)
qed simp

subsection \<open>Running a pattern\<close>

text \<open>
  Lemmas that follow the matcher on texts of a known shape: a run of class characters, closed by one
  outside the class.  \<open>whole\<close> keeps the successes that consume everything, as \<open>fullmatch\<close> does.
\<close>

definition whole :: "mstate list \<Rightarrow> mstate list" where
  "whole ts = filter (\<lambda>t. fst (snd t) = []) ts"

lemma whole_simps [simp]:
  "whole [] = []" "whole (s @ t) = whole s @ whole t" "whole (concat ss) = concat (map whole ss)"
  "whole ((p, q, g) # ts) = (if q = [] then [(p, q, g)] else []) @ whole ts"
  by (simp_all add: whole_def [abs_def] filter_concat)

lemma fullmatch_whole:
  "re_fullmatch r s = (case whole (m r ([], s, [])) of [] \<Rightarrow> None | t # _ \<Rightarrow> Some (to_match 0 t))"
  by (simp add: re_fullmatch_def whole_def)

text \<open>The successes of \<open>P*\<close> on a run of \<open>P\<close>: longest first.\<close>

definition runs :: "nat \<Rightarrow> string \<Rightarrow> string \<Rightarrow> string \<Rightarrow> (nat \<times> string) list \<Rightarrow> mstate list" where
  "runs lo pre w post g =
     map (\<lambda>k. (rev (take k w) @ pre, drop k w @ post, g)) (rev [lo..<Suc (length w)])"

lemma runs_Cons:
  "runs 0 pre (c # w) post g = runs 0 (c # pre) w post g @ [(pre, c # w @ post, g)]"
proof -
  have "[0..<Suc (Suc (length w))] = 0 # map Suc [0..<Suc (length w)]"
    using upt_conv_Cons [of 0 "Suc (Suc (length w))"] map_Suc_upt [of 0 "Suc (length w)"] by simp
  then have ks: "rev [0..<Suc (length (c # w))] = map Suc (rev [0..<Suc (length w)]) @ [0]"
    by (simp only: list.size(4) add_0_right add_Suc_right rev.simps rev_map)
  show ?thesis unfolding runs_def ks map_append map_map by (simp del: upt_Suc add: comp_def)
qed

lemma m_star_run:
  assumes "list_all P w" "post = [] \<or> \<not> P (hd post)"
  shows "m (Star (Cls P)) (pre, w @ post, g) = runs 0 pre w post g"
  using assms(1)
proof (induction w arbitrary: pre)
  case Nil
  have "star_run n (m (Cls P)) (pre, post, g) = [(pre, post, g)]" for n
    using assms(2) by (cases n; cases post) auto
  then show ?case by (simp add: runs_def)
next
  case (Cons c w)
  then have "star_run (ahead (c # pre, w @ post, g)) (m (Cls P)) (c # pre, w @ post, g) = runs 0 (c # pre) w post g"
    by simp
  with Cons.prems show ?case by (simp add: ahead_def runs_Cons)
qed

lemma m_plus_run:
  assumes "list_all P w" "w \<noteq> []" "post = [] \<or> \<not> P (hd post)"
  shows "m (plus1 (Cls P)) (pre, w @ post, g) = runs 1 pre w post g"
proof -
  obtain c v where w: "w = c # v" using assms(2) by (cases w) auto
  have "m (plus1 (Cls P)) (pre, w @ post, g) = m (Star (Cls P)) (c # pre, v @ post, g)"
    using assms(1) by (simp add: plus1_def w)
  also have "\<dots> = runs 0 (c # pre) v post g"
    using assms(1,3) w by (intro m_star_run) simp_all
  also have "\<dots> = runs 1 pre w post g"
  proof -
    have "[1..<Suc (Suc (length v))] = map Suc [0..<Suc (length v)]" by (simp only: map_Suc_upt One_nat_def)
    then show ?thesis by (simp add: runs_def w rev_map del: upt_Suc)
  qed
  finally show ?thesis .
qed

lemma runs_first: "lo \<le> length w \<Longrightarrow> runs lo pre w post g = (rev w @ pre, post, g) #
    map (\<lambda>k. (rev (take k w) @ pre, drop k w @ post, g)) (rev [lo..<length w])"
  by (simp add: runs_def)

text \<open>A captured run followed by \<open>r\<close>, where \<open>r\<close> cannot finish the text from inside the run.\<close>

lemma whole_run_then:
  assumes "list_all P w" "w \<noteq> []" "post = [] \<or> \<not> P (hd post)"
    and stuck: "\<And>p c cs g. P c \<Longrightarrow> whole (m r (p, c # cs, g)) = []"
  shows "whole (m (Seq (Grp k (plus1 (Cls P))) r) (pre, w @ post, g)) =
         whole (m r (rev w @ pre, post, (k, w) # g))"
proof -
  let ?grp = "\<lambda>(pre', post', g'). (pre', post', (k, rev (take (length pre' - length pre) pre')) # g')"
  have inner: "whole (m r (?grp (rev (take j w) @ pre, drop j w @ post, g))) = []" if "j < length w" for j
  proof -
    have "drop j w = w ! j # drop (Suc j) w" using that by (simp add: Cons_nth_drop_Suc)
    moreover have "P (w ! j)" using that assms(1) by (simp add: list_all_length)
    ultimately show ?thesis using stuck by simp
  qed
  have "m (Grp k (plus1 (Cls P))) (pre, w @ post, g) = map ?grp (runs 1 pre w post g)"
    using m_plus_run [OF assms(1-3)] by simp
  also have "\<dots> = (rev w @ pre, post, (k, w) # g) #
      map (\<lambda>j. ?grp (rev (take j w) @ pre, drop j w @ post, g)) (rev [1..<length w])"
    using assms(2) by (simp add: runs_first Suc_le_eq)
  finally have grp: "m (Grp k (plus1 (Cls P))) (pre, w @ post, g) = (rev w @ pre, post, (k, w) # g) #
      map (\<lambda>j. ?grp (rev (take j w) @ pre, drop j w @ post, g)) (rev [1..<length w])" .
  have "concat (map (\<lambda>j. whole (m r (?grp (rev (take j w) @ pre, drop j w @ post, g)))) (rev [1..<length w])) = []"
    using inner by (simp only: concat_eq_Nil_conv) auto
  with grp show ?thesis by (simp add: comp_def)
qed

lemma whole_run_last:
  assumes "list_all P w" "w \<noteq> []"
  shows "whole (m (Grp k (plus1 (Cls P))) (pre, w, g)) = [(rev w @ pre, [], (k, w) # g)]"
proof -
  have "concat (map (m Eps) ts) = ts" for ts by (induction ts) auto
  then have "m (Seq r Eps) s = m r s" for r s by (simp only: m.simps)
  with whole_run_then [OF assms, of "[]" Eps k pre g] show ?thesis by (simp del: m.simps(3,6))
qed

lemma m_lit: "m (lit s) (pre, s @ post, g) = [(rev s @ pre, post, g)]"
  by (induction s arbitrary: pre) auto

text \<open>A pattern without anchors does not look at what was consumed before it.\<close>

fun plain :: "rx \<Rightarrow> bool" where
  "plain Eps = True"
| "plain (Cls P) = True"
| "plain (Seq a b) = (plain a \<and> plain b)"
| "plain (Alt a b) = (plain a \<and> plain b)"
| "plain (Star r) = plain r"
| "plain (Grp k r) = plain r"
| "plain _ = False"

definition under :: "string \<Rightarrow> mstate \<Rightarrow> mstate" where
  "under ctx t = (case t of (pre, post, g) \<Rightarrow> (pre @ ctx, post, g))"

lemma ahead_under [simp]: "ahead (under ctx t) = ahead t"
  by (cases t) (simp add: ahead_def under_def)

lemma star_run_under:
  "(\<And>t. f (under ctx t) = map (under ctx) (f t)) \<Longrightarrow>
     star_run n f (under ctx s) = map (under ctx) (star_run n f s)"
proof (induction n arbitrary: s)
  case (Suc n)
  have "filter (\<lambda>t. ahead t < ahead s) (map (under ctx) ts) = map (under ctx) (filter (\<lambda>t. ahead t < ahead s) ts)" for ts
    by (induction ts) auto
  with Suc show ?case by (simp add: map_concat comp_def)
qed simp

lemma m_under: "plain r \<Longrightarrow> m r (under ctx s) = map (under ctx) (m r s)"
proof (induction r arbitrary: s)
  case (Cls P)
  then show ?case by (cases s) (auto simp: under_def split: list.split)
next
  case (Seq a b)
  then show ?case by (simp add: map_concat comp_def)
next
  case (Star r)
  then show ?case by (simp add: star_run_under)
next
  case (Grp k r)
  obtain pre post g where s: "s = (pre, post, g)" by (cases s)
  have "m r (under ctx (pre, post, g)) = map (under ctx) (m r (pre, post, g))"
    using Grp by simp
  then have "m r (pre @ ctx, post, g) = map (under ctx) (m r (pre, post, g))"
    by (simp add: under_def)
  then show ?case by (auto simp: s under_def)
qed auto

end
