(* ===== verification/Clock.thy ===== *)
theory Clock
  imports Prelude
begin

text \<open>
  Wall-clock times and their text: what the console uses of \<open>datetime\<close>.  A time is its number of
  microseconds since 1970-01-01 UTC.  \<open>isoformat\<close> prints the times the console records (all after
  1970), \<open>fromisoformat\<close> reads a date, an optional time of day and an optional offset in the extended
  format, which is the only one the console writes.  \<open>clock_roundtrip\<close> shows that a recorded time
  is read back.
\<close>

section \<open>The calendar\<close>

definition leap :: "nat \<Rightarrow> bool" where
  "leap y \<longleftrightarrow> 4 dvd y \<and> (\<not> 100 dvd y \<or> 400 dvd y)"

definition year_days :: "nat \<Rightarrow> nat" where
  "year_days y = (if leap y then 366 else 365)"

definition month_lengths :: "nat \<Rightarrow> nat list" where
  "month_lengths y = [31, if leap y then 29 else 28, 31, 30, 31, 30, 31, 31, 30, 31, 30, 31]"

text \<open>Days from the start of year 1 to the start of year \<open>y\<close>.\<close>

definition days_before_year :: "nat \<Rightarrow> nat" where
  "days_before_year y = 365 * (y - 1) + (y - 1) div 4 - (y - 1) div 100 + (y - 1) div 400"

definition epoch_days :: nat where
  "epoch_days = 719162"

lemma year_days_pos: "0 < year_days y"
  by (simp add: year_days_def)

text \<open>The year that holds day \<open>d\<close> counted from the start of year \<open>y\<close>, and the day in it.\<close>

function year_of :: "nat \<Rightarrow> nat \<Rightarrow> nat \<times> nat" where
  "year_of y d = (if d < year_days y then (y, d) else year_of (Suc y) (d - year_days y))"
  by auto
termination
  by (relation "measure snd") (auto simp: not_less intro!: diff_less year_days_pos less_le_trans [OF year_days_pos])

declare year_of.simps [simp del]

fun month_of :: "nat \<Rightarrow> nat list \<Rightarrow> nat \<Rightarrow> nat \<times> nat" where
  "month_of k [] d = (k, d)"
| "month_of k (l # ls) d = (if d < l then (k, d) else month_of (Suc k) ls (d - l))"

section \<open>isoformat\<close>

definition pad :: "nat \<Rightarrow> nat \<Rightarrow> string" where
  "pad k n = replicate (k - length (show_nat n)) CHR ''0'' @ show_nat n"

definition date_text :: "nat \<Rightarrow> string" where
  "date_text days =
     (let (y, d) = year_of 1970 days; (mo, dd) = month_of 0 (month_lengths y) d
      in pad 4 y @ ''-'' @ pad 2 (mo + 1) @ ''-'' @ pad 2 (dd + 1))"

definition time_text :: "nat \<Rightarrow> string" where
  "time_text us =
     (let s = us div 1000000; f = us mod 1000000
      in pad 2 (s div 3600) @ '':'' @ pad 2 (s div 60 mod 60) @ '':'' @ pad 2 (s mod 60)
         @ (if f = 0 then [] else ''.'' @ pad 6 f))"

definition day_us :: nat where
  "day_us = 86400000000"

definition isoformat :: "nat \<Rightarrow> string" where
  "isoformat t = date_text (t div day_us) @ ''T'' @ time_text (t mod day_us) @ ''+00:00''"

section \<open>fromisoformat\<close>

text \<open>A time with an offset is absolute; one without cannot be compared with the current time.\<close>

datatype stamp = Aware int | Naive int

definition digits_at :: "nat \<Rightarrow> nat \<Rightarrow> string \<Rightarrow> nat option" where
  "digits_at i k s =
     (let t = take k (drop i s)
      in if length t = k \<and> list_all is_digit t then Some (nat_of_digits t) else None)"

definition parse_date :: "string \<Rightarrow> int option" where
  "parse_date s =
     (if length s \<noteq> 10 \<or> s ! 4 \<noteq> CHR ''-'' \<or> s ! 7 \<noteq> CHR ''-'' then None
      else case (digits_at 0 4 s, digits_at 5 2 s, digits_at 8 2 s) of
        (Some y, Some mo, Some d) \<Rightarrow>
          if y = 0 \<or> mo = 0 \<or> 12 < mo \<or> d = 0 \<or> month_lengths y ! (mo - 1) < d then None
          else Some (int (days_before_year y + sum_list (take (mo - 1) (month_lengths y)) + (d - 1))
                     - int epoch_days)
      | _ \<Rightarrow> None)"

definition parse_fraction :: "string \<Rightarrow> nat option" where
  "parse_fraction s =
     (if s = [] then Some 0
      else if hd s \<noteq> CHR ''.'' \<or> (length s \<noteq> 4 \<and> length s \<noteq> 7) \<or> \<not> list_all is_digit (tl s) then None
      else Some (nat_of_digits (tl s) * (if length s = 4 then 1000 else 1)))"

definition parse_clock :: "string \<Rightarrow> nat option" where
  "parse_clock s =
     (if length s < 8 \<or> s ! 2 \<noteq> CHR '':'' \<or> s ! 5 \<noteq> CHR '':'' then None
      else case (digits_at 0 2 s, digits_at 3 2 s, digits_at 6 2 s, parse_fraction (drop 8 s)) of
        (Some h, Some mi, Some sec, Some f) \<Rightarrow>
          if 23 < h \<or> 59 < mi \<or> 59 < sec then None
          else Some (((h * 60 + mi) * 60 + sec) * 1000000 + f)
      | _ \<Rightarrow> None)"

text \<open>\<open>+HH:MM\<close> or \<open>-HH:MM\<close> at the end, as microseconds.\<close>

definition parse_offset :: "string \<Rightarrow> int option" where
  "parse_offset s =
     (if length s \<noteq> 6 \<or> s ! 3 \<noteq> CHR '':'' \<or> (hd s \<noteq> CHR ''+'' \<and> hd s \<noteq> CHR ''-'') then None
      else case (digits_at 1 2 s, digits_at 4 2 s) of
        (Some h, Some mi) \<Rightarrow>
          if 23 < h \<or> 59 < mi then None
          else Some ((if hd s = CHR ''-'' then -1 else 1) * (int (h * 60 + mi) * 60000000))
      | _ \<Rightarrow> None)"

definition split_offset :: "string \<Rightarrow> string \<times> string" where
  "split_offset s = (takeWhile (\<lambda>c. c \<noteq> CHR ''+'' \<and> c \<noteq> CHR ''-'') s, dropWhile (\<lambda>c. c \<noteq> CHR ''+'' \<and> c \<noteq> CHR ''-'') s)"

definition fromisoformat :: "string \<Rightarrow> stamp option" where
  "fromisoformat s =
     (case parse_date (take 10 s) of None \<Rightarrow> None
      | Some days \<Rightarrow>
          if length s = 10 then Some (Naive (days * int day_us))
          else (case split_offset (drop 11 s) of (clock, off) \<Rightarrow>
            (case parse_clock clock of None \<Rightarrow> None
             | Some us \<Rightarrow>
                 if off = [] then Some (Naive (days * int day_us + int us))
                 else (case parse_offset off of None \<Rightarrow> None
                       | Some o' \<Rightarrow> Some (Aware (days * int day_us + int us - o'))))))"

section \<open>The round trip\<close>

lemma days_before_Suc: "1 \<le> y \<Longrightarrow> days_before_year (Suc y) = days_before_year y + year_days y"
proof -
  assume "1 \<le> y"
  then obtain n where n: "y = Suc n" by (cases y) auto
  have step: "Suc n div k = n div k + (if k dvd Suc n then 1 else 0)" for k
    by (simp add: div_Suc dvd_eq_mod_eq_0)
  have le: "n div 100 \<le> n div 4" by (rule div_le_mono2) simp_all
  have dvds: "4 dvd Suc n" if "100 dvd Suc n" by (rule dvd_trans [OF _ that]) simp
  have dvds': "100 dvd Suc n" if "400 dvd Suc n" by (rule dvd_trans [OF _ that]) simp
  obtain c where c: "n div 4 = n div 100 + c" using le le_iff_add by blast
  have days: "days_before_year (Suc (Suc n)) = 365 + 365 * n + c + (if 4 dvd Suc n then 1 else 0)
      - (if 100 dvd Suc n then 1 else 0) + (n div 400 + (if 400 dvd Suc n then 1 else 0))"
    by (simp add: days_before_year_def step c)
  have days': "days_before_year (Suc n) = 365 * n + c + n div 400"
    by (simp add: days_before_year_def c)
  show ?thesis
    unfolding n days days' year_days_def leap_def
    using dvds dvds' by (cases "400 dvd Suc n"; cases "100 dvd Suc n"; cases "4 dvd Suc n") simp_all
qed

lemma year_of_correct:
  "1 \<le> y \<Longrightarrow> year_of y d = (y', d') \<Longrightarrow>
     days_before_year y + d = days_before_year y' + d' \<and> d' < year_days y' \<and> y \<le> y'"
proof (induction y d arbitrary: y' d' rule: year_of.induct)
  case (1 y d)
  show ?case
  proof (cases "d < year_days y")
    case True
    with "1.prems" show ?thesis by (simp add: year_of.simps)
  next
    case False
    with "1.prems"(2) have "year_of (Suc y) (d - year_days y) = (y', d')"
      by (subst (asm) year_of.simps) simp
    with 1 False days_before_Suc [of y] show ?thesis by fastforce
  qed
qed

lemma month_of_correct:
  "d < sum_list ls \<Longrightarrow> month_of k ls d = (k', d') \<Longrightarrow>
     k \<le> k' \<and> k' - k < length ls \<and> d = sum_list (take (k' - k) ls) + d' \<and> d' < ls ! (k' - k)"
proof (induction ls arbitrary: k d)
  case (Cons l ls)
  show ?case
  proof (cases "d < l")
    case True
    with Cons.prems show ?thesis by auto
  next
    case False
    with Cons.prems have "d - l < sum_list ls" "month_of (Suc k) ls (d - l) = (k', d')" by simp_all
    note ih = Cons.IH [OF this]
    then have "Suc k \<le> k'" ..
    then have "k' - k = Suc (k' - Suc k)" by arith
    moreover have "d = l + (d - l)" using False by simp
    ultimately show ?thesis using ih by (auto simp del: add_diff_inverse_nat)
  qed
qed simp

lemma sum_month_lengths: "sum_list (month_lengths y) = year_days y"
  by (simp add: month_lengths_def year_days_def)

lemma nat_of_digits_zeros: "nat_of_digits (replicate k CHR ''0'' @ s) = nat_of_digits s"
proof (induction k)
  case (Suc k)
  have "nat_of_digits (CHR ''0'' # u) = nat_of_digits u" for u
    by (simp add: nat_of_digits_def digit_val_def)
  with Suc show ?case by simp
qed simp

lemma nat_of_digits_pad [simp]: "nat_of_digits (pad k n) = n"
  by (simp add: pad_def nat_of_digits_zeros)

lemma pad_digits: "list_all is_digit (pad k n)"
proof -
  have "is_digit CHR ''0''" by (simp add: chr_in_def)
  then show ?thesis by (auto simp: pad_def list_all_iff dest: show_nat_digits)
qed

lemma length_show_nat_le: "0 < k \<Longrightarrow> n < 10 ^ k \<Longrightarrow> length (show_nat n) \<le> k"
proof (induction k arbitrary: n)
  case (Suc k)
  show ?case
  proof (cases "n < 10")
    case True
    then show ?thesis by (subst show_nat.simps) simp
  next
    case False
    then have "0 < k" using Suc.prems by (cases k) auto
    moreover have "n div 10 < 10 ^ k" using Suc.prems by (simp add: less_mult_imp_div_less mult.commute)
    ultimately show ?thesis using Suc.IH [of "n div 10"] False by (subst show_nat.simps) simp
  qed
qed simp

lemma length_pad: "0 < k \<Longrightarrow> n < 10 ^ k \<Longrightarrow> length (pad k n) = k"
  using length_show_nat_le [of k n] by (simp add: pad_def)

text \<open>A padded field is read back at its place.\<close>

lemma digits_at_pad:
  "length u = i \<Longrightarrow> 0 < k \<Longrightarrow> n < 10 ^ k \<Longrightarrow> digits_at i k (u @ pad k n @ v) = Some n"
  by (simp add: digits_at_def length_pad pad_digits)

lemma date_parts:
  assumes "year_of 1970 days = (y, d)" "month_of 0 (month_lengths y) d = (mo, dd)"
  shows "1970 \<le> y" "mo < 12" "dd < month_lengths y ! mo"
    "days + epoch_days = days_before_year y + sum_list (take mo (month_lengths y)) + dd"
proof -
  have y: "days_before_year 1970 + days = days_before_year y + d \<and> d < year_days y \<and> 1970 \<le> y"
    using year_of_correct [OF _ assms(1)] by simp
  then have "d < sum_list (month_lengths y)" by (simp add: sum_month_lengths)
  from month_of_correct [OF this assms(2)]
  have mo: "mo < length (month_lengths y)" "d = sum_list (take mo (month_lengths y)) + dd"
    "dd < month_lengths y ! mo" by simp_all
  show "1970 \<le> y" using y by simp
  show "mo < 12" using mo(1) by (simp add: month_lengths_def)
  show "dd < month_lengths y ! mo" by (rule mo(3))
  have "days_before_year 1970 = epoch_days" by code_simp
  with y mo(2) show "days + epoch_days = days_before_year y + sum_list (take mo (month_lengths y)) + dd"
    by simp
qed

lemma parse_date_text:
  assumes "fst (year_of 1970 days) \<le> 9999"
  shows "parse_date (date_text days) = Some (int days)" "length (date_text days) = 10"
proof -
  obtain y d where y: "year_of 1970 days = (y, d)" by (cases "year_of 1970 days")
  obtain mo dd where mo: "month_of 0 (month_lengths y) d = (mo, dd)" by (cases "month_of 0 (month_lengths y) d")
  note p = date_parts [OF y mo]
  have "dd < 31"
  proof -
    have all: "\<forall>l \<in> set (month_lengths y). l \<le> 31" by (simp add: month_lengths_def)
    have "length (month_lengths y) = 12" by (simp add: month_lengths_def)
    then have "month_lengths y ! mo \<in> set (month_lengths y)" using p(2) by (intro nth_mem) simp
    with all p(3) show ?thesis by (meson less_le_trans)
  qed
  have dt: "date_text days = pad 4 y @ ''-'' @ pad 2 (mo + 1) @ ''-'' @ pad 2 (dd + 1)"
    by (simp add: date_text_def y mo)
  have lens: "length (pad 4 y) = 4" "length (pad 2 (mo + 1)) = 2" "length (pad 2 (dd + 1)) = 2"
    using assms y p(2) \<open>dd < 31\<close> by (simp_all add: length_pad)
  have y_at: "digits_at 0 4 (date_text days) = Some y"
    unfolding dt using assms y by (intro digits_at_pad [of "[]", simplified]) simp_all
  have mo_at: "digits_at 5 2 (date_text days) = Some (mo + 1)"
    unfolding dt using p(2) lens digits_at_pad [of "pad 4 y @ ''-''" 5 2 "mo + 1" "''-'' @ pad 2 (dd + 1)"] by simp
  have dd_at: "digits_at 8 2 (date_text days) = Some (dd + 1)"
    unfolding dt using \<open>dd < 31\<close> lens
      digits_at_pad [of "pad 4 y @ ''-'' @ pad 2 (mo + 1) @ ''-''" 8 2 "dd + 1" "[]"] by simp
  show len: "length (date_text days) = 10" using lens by (simp add: dt)
  have dashes: "date_text days ! 4 = CHR ''-''" "date_text days ! 7 = CHR ''-''"
    using lens by (simp_all add: dt nth_append)
  have "int (days_before_year y + sum_list (take mo (month_lengths y)) + dd) - int epoch_days = int days"
    using p(4) by linarith
  moreover have "\<not> (y = 0 \<or> mo + 1 = 0 \<or> 12 < mo + 1 \<or> dd + 1 = 0 \<or> month_lengths y ! (mo + 1 - 1) < dd + 1)"
    using p(1,2,3) by simp
  ultimately show "parse_date (date_text days) = Some (int days)"
    by (simp only: parse_date_def len dashes y_at mo_at dd_at prod.case option.case if_False simp_thms
        diff_add_inverse2)
qed

lemma pad_no_sign: "c \<in> set (pad k n) \<Longrightarrow> c \<noteq> CHR ''+'' \<and> c \<noteq> CHR ''-''"
proof -
  assume "c \<in> set (pad k n)"
  then have "is_digit c" using pad_digits [of k n] by (auto simp: list_all_iff)
  then show ?thesis by (auto simp: chr_in_def)
qed

lemma parse_clock_fields:
  assumes "h < 24" "mi < 60" "x < 60" "parse_fraction frac = Some f"
  shows "parse_clock (pad 2 h @ '':'' @ pad 2 mi @ '':'' @ pad 2 x @ frac) =
         Some (((h * 60 + mi) * 60 + x) * 1000000 + f)"
proof -
  let ?s = "pad 2 h @ '':'' @ pad 2 mi @ '':'' @ pad 2 x @ frac"
  have lens: "length (pad 2 h) = 2" "length (pad 2 mi) = 2" "length (pad 2 x) = 2"
    using assms by (simp_all add: length_pad)
  have h_at: "digits_at 0 2 ?s = Some h"
    using assms by (intro digits_at_pad [of "[]", simplified]) simp_all
  have m_at: "digits_at 3 2 ?s = Some mi"
    using lens assms digits_at_pad [of "pad 2 h @ '':''" 3 2 mi "'':'' @ pad 2 x @ frac"] by simp
  have x_at: "digits_at 6 2 ?s = Some x"
    using lens assms digits_at_pad [of "pad 2 h @ '':'' @ pad 2 mi @ '':''" 6 2 x frac] by simp
  have frac: "parse_fraction (drop 8 ?s) = Some f" using lens assms(4) by simp
  have "\<not> (length ?s < 8 \<or> ?s ! 2 \<noteq> CHR '':'' \<or> ?s ! 5 \<noteq> CHR '':'')"
    using lens by (simp add: nth_append)
  moreover have "\<not> (23 < h \<or> 59 < mi \<or> 59 < x)" using assms by auto
  ultimately show ?thesis
    by (simp only: parse_clock_def h_at m_at x_at frac prod.case option.case if_False)
qed

lemma parse_time_text:
  assumes "us < day_us"
  shows "parse_clock (time_text us) = Some us"
proof -
  let ?s = "us div 1000000" and ?f = "us mod 1000000"
  let ?h = "?s div 3600" and ?m = "?s div 60 mod 60" and ?x = "?s mod 60"
  have "?s < 86400" using assms by (simp add: day_us_def less_mult_imp_div_less)
  then have h: "?h < 24" by (simp add: less_mult_imp_div_less)
  have "parse_fraction (if ?f = 0 then [] else ''.'' @ pad 6 ?f) = Some ?f"
    using pad_digits [of 6 ?f] by (simp add: parse_fraction_def length_pad)
  then have "parse_clock (time_text us) = Some (((?h * 60 + ?m) * 60 + ?x) * 1000000 + ?f)"
    unfolding time_text_def Let_def by (intro parse_clock_fields) (simp_all add: h)
  moreover have "?h * 60 + ?m = ?s div 60"
    using div_mult_mod_eq [of "?s div 60" 60] by (simp add: div_mult2_eq [symmetric])
  moreover have "?s div 60 * 60 + ?x = ?s" by (rule div_mult_mod_eq)
  moreover have "?s * 1000000 + ?f = us" by (rule div_mult_mod_eq)
  ultimately show ?thesis by simp
qed

lemma time_text_no_sign: "c \<in> set (time_text us) \<Longrightarrow> c \<noteq> CHR ''+'' \<and> c \<noteq> CHR ''-''"
  by (auto simp: time_text_def Let_def dest: pad_no_sign split: if_splits)

text \<open>A recorded time is read back, up to the end of year 9999.\<close>

lemma clock_roundtrip:
  assumes "fst (year_of 1970 (t div day_us)) \<le> 9999"
  shows "fromisoformat (isoformat t) = Some (Aware (int t))"
proof -
  let ?d = "date_text (t div day_us)" and ?c = "time_text (t mod day_us)"
  have day: "0 < day_us" by (simp add: day_us_def)
  have date: "parse_date ?d = Some (int (t div day_us))" "length ?d = 10"
    using parse_date_text [OF assms] by simp_all
  have whole: "isoformat t = ?d @ ''T'' @ ?c @ ''+00:00''" by (simp add: isoformat_def)
  have clock: "parse_clock ?c = Some (t mod day_us)" by (rule parse_time_text) (simp add: day)
  have off: "parse_offset ''+00:00'' = Some 0" by code_simp
  have split: "split_offset (?c @ ''+00:00'') = (?c, ''+00:00'')"
    using time_text_no_sign by (simp add: split_offset_def takeWhile_append2 dropWhile_append2)
  have parts: "take 10 (isoformat t) = ?d" "drop 11 (isoformat t) = ?c @ ''+00:00''" "length (isoformat t) \<noteq> 10"
    using date(2) by (simp_all add: whole)
  have "int (t div day_us) * int day_us + int (t mod day_us) - 0 = int t"
    by (simp flip: of_nat_mult of_nat_add)
  then show ?thesis
    by (simp add: fromisoformat_def parts date(1) split clock off)
qed

end
