(* ===== verification/Updates.thy ===== *)
theory Updates
  imports Store Regex Clock
begin

text \<open>
  \<open>services/updates.py\<close> and \<open>routers/updates.py\<close>: is a newer build published than the one
  running, and the bookkeeping of an update while containers are replaced.

  Everything the module remembers is in the settings table.  The answers of GitHub, the registry and
  the docker client are arguments, as is the current time.  An exception that leaves a function is
  an \<open>Inl\<close> beside the table as it was committed up to there.
\<close>

datatype py_error = ValueError | TypeError

record beacon_config =
  BEACON_TAG :: string
  BEACON_VERSION :: string
  BEACON_COMMIT :: string
  COMPOSE_PROJECT_DIR :: string

text \<open>\<open>get_setting(db, key, default)\<close>; with a default, \<open>config.DEFAULTS\<close> is not read.\<close>

definition setting :: "settings \<Rightarrow> string \<Rightarrow> string \<Rightarrow> string" where
  "setting db key dflt = get_setting [] db key (Some dflt)"

definition flag :: "bool \<Rightarrow> string" where
  "flag b = (if b then ''1'' else ''0'')"

section \<open>Channels\<close>

definition beta_enabled :: "settings \<Rightarrow> bool" where
  "beta_enabled db \<longleftrightarrow> setting db ''update_beta'' ''0'' = ''1''"

definition set_beta :: "settings \<Rightarrow> bool \<Rightarrow> settings" where
  "set_beta db enabled = set_setting db ''update_beta'' (flag enabled)"

definition include_betas :: "beacon_config \<Rightarrow> settings \<Rightarrow> bool" where
  "include_betas cfg db \<longleftrightarrow> beta_enabled db \<or> BEACON_TAG cfg = ''beta''"

definition target_channel :: "beacon_config \<Rightarrow> settings \<Rightarrow> string" where
  "target_channel cfg db =
     (if \<not> include_betas cfg db then BEACON_TAG cfg
      else let pick = setting db ''update_beta_target'' ''beta''
           in if pick = ''beta'' \<or> pick = ''stable'' then pick else ''beta'')"

definition IMAGE_PREFIX :: string where
  "IMAGE_PREFIX = ''ghcr.io/acebmxer/beacon-web:''"

definition image_ref :: "beacon_config \<Rightarrow> settings \<Rightarrow> string option \<Rightarrow> string" where
  "image_ref cfg db channel =
     IMAGE_PREFIX @ (case channel of Some c \<Rightarrow> if c = [] then target_channel cfg db else c
                     | None \<Rightarrow> target_channel cfg db)"

text \<open>\<open>ref\<close> is what docker names as the web container's image.\<close>

definition running_channel :: "beacon_config \<Rightarrow> string option \<Rightarrow> string" where
  "running_channel cfg ref =
     (let ref = (case ref of None \<Rightarrow> [] | Some r \<Rightarrow> r); rest = drop (length IMAGE_PREFIX) ref
      in if prefix IMAGE_PREFIX ref \<and> rest \<noteq> [] then rest else BEACON_TAG cfg)"

definition version_label :: "beacon_config \<Rightarrow> string" where
  "version_label cfg =
     (let ver = BEACON_VERSION cfg; short = take 7 (BEACON_COMMIT cfg)
      in if ver = ''dev'' then (if short = [] then ''dev build'' else ''dev build ('' @ short @ '')'')
         else if py_isdigit_chr (hd ver) then ''v'' @ ver
         else if short = [] then ver else ver @ '' ('' @ short @ '')'')"

definition is_dev_build :: "beacon_config \<Rightarrow> bool" where
  "is_dev_build cfg \<longleftrightarrow> BEACON_VERSION cfg = ''dev''"

section \<open>Versions\<close>

text \<open>The version numbers and the beta number, compared in that order.\<close>

datatype rank = Rank nat nat nat nat

fun beta_of :: "rank \<Rightarrow> nat" where
  "beta_of (Rank a b c n) = n"

instantiation rank :: linorder
begin

fun less_eq_rank :: "rank \<Rightarrow> rank \<Rightarrow> bool" where
  "less_eq_rank (Rank a b c n) (Rank a' b' c' n') \<longleftrightarrow>
     a < a' \<or> a = a' \<and> (b < b' \<or> b = b' \<and> (c < c' \<or> c = c' \<and> n \<le> n'))"

definition less_rank :: "rank \<Rightarrow> rank \<Rightarrow> bool" where
  "less_rank r s \<longleftrightarrow> r \<le> s \<and> \<not> s \<le> r"

instance
proof
  fix x y z :: rank
  show "x \<le> x" by (cases x) simp
  show "x < y \<longleftrightarrow> x \<le> y \<and> \<not> y \<le> x" by (simp add: less_rank_def)
  show "x \<le> y \<Longrightarrow> y \<le> z \<Longrightarrow> x \<le> z" by (cases x; cases y; cases z) auto
  show "x \<le> y \<Longrightarrow> y \<le> x \<Longrightarrow> x = y" by (cases x; cases y) auto
  show "x \<le> y \<or> y \<le> x" by (cases x; cases y) auto
qed

end

definition RELEASE_RANK :: nat where
  "RELEASE_RANK = 2 ^ 62"

definition suffix_chr :: "char \<Rightarrow> bool" where
  "suffix_chr c \<longleftrightarrow> is_alnum c \<or> c = CHR ''.'' \<or> c = CHR ''-''"

definition VERSION_RE :: rx where
  "VERSION_RE =
     Seq (opt (lit ''v''))
      (Seq (Grp 1 (plus1 digit_rx)) (Seq (lit ''.'')
      (Seq (Grp 2 (plus1 digit_rx)) (Seq (lit ''.'')
      (Seq (Grp 3 (plus1 digit_rx))
      (Seq (opt (Seq (lit ''-'') (Grp 4 (plus1 (Cls suffix_chr)))))
           (opt (Seq (lit ''+'') (plus1 (Cls suffix_chr))))))))))"

definition BETA_RE :: rx where
  "BETA_RE = Seq (lit ''beta.'') (Grp 1 (plus1 digit_rx))"

text \<open>\<open>int()\<close> of a group of digits.\<close>

definition int_group :: "nat \<Rightarrow> rmatch \<Rightarrow> py_error + nat" where
  "int_group k mt =
     (let s = (case group k mt of Some s \<Rightarrow> s | None \<Rightarrow> [])
      in if max_str_digits < length s then Inl ValueError else Inr (nat_of_digits s))"

definition parse_release :: "string \<Rightarrow> py_error + rank option" where
  "parse_release tag =
     (case re_fullmatch VERSION_RE (strip tag) of
        None \<Rightarrow> Inr None
      | Some mt \<Rightarrow>
          rbind (int_group 1 mt) (\<lambda>a. rbind (int_group 2 mt) (\<lambda>b. rbind (int_group 3 mt) (\<lambda>c.
            case group 4 mt of
              None \<Rightarrow> Inr (Some (Rank a b c RELEASE_RANK))
            | Some sfx \<Rightarrow>
                (case re_fullmatch BETA_RE sfx of
                   None \<Rightarrow> Inr (Some (Rank a b c 0))
                 | Some bm \<Rightarrow> rbind (int_group 1 bm) (\<lambda>n. Inr (Some (Rank a b c n))))))))"

definition running_rank :: "beacon_config \<Rightarrow> py_error + rank option" where
  "running_rank cfg = parse_release (BEACON_VERSION cfg)"

text \<open>The JSON GitHub sends: a list, or one release; a release may lack its tag or be a draft.\<close>

datatype gh_release = NoObject | Release bool "string option"
datatype gh_doc = GhList "gh_release list" | GhOne gh_release

definition gh_releases :: "gh_doc \<Rightarrow> gh_release list" where
  "gh_releases doc = (case doc of GhList rs \<Rightarrow> rs | GhOne r \<Rightarrow> [r])"

fun best_release :: "(rank \<times> string) option \<Rightarrow> gh_release list \<Rightarrow> py_error + (rank \<times> string) option" where
  "best_release best [] = Inr best"
| "best_release best (Release False (Some tag) # rels) =
     rbind (parse_release tag) (\<lambda>rank.
       best_release
         (case rank of
            None \<Rightarrow> best
          | Some r \<Rightarrow> (case best of
                None \<Rightarrow> Some (r, removeprefix ''v'' (strip tag))
              | Some (b, _) \<Rightarrow> if r > b then Some (r, removeprefix ''v'' (strip tag)) else best))
         rels)"
| "best_release best (_ # rels) = best_release best rels"

text \<open>None stands for any failure of the request.\<close>

definition newest_release :: "gh_doc option \<Rightarrow> py_error + (rank \<times> string) option" where
  "newest_release doc = (case doc of None \<Rightarrow> Inr None | Some d \<Rightarrow> best_release None (gh_releases d))"

section \<open>Results\<close>

definition set_result :: "nat \<Rightarrow> settings \<Rightarrow> string \<Rightarrow> settings" where
  "set_result now db v =
     set_setting (set_setting db ''update_last_result'' v) ''update_last_result_at'' (isoformat now)"

definition SUCCESS_TTL :: int where "SUCCESS_TTL = 1800 * 1000000"
definition RECREATE_TIMEOUT :: int where "RECREATE_TIMEOUT = 300 * 1000000"

text \<open>
  The age of a recorded time: None when the text is no time; subtracting a time without an offset
  raises TypeError.
\<close>

definition age_of :: "nat \<Rightarrow> string \<Rightarrow> py_error + int option" where
  "age_of now stamped =
     (case fromisoformat stamped of
        None \<Rightarrow> Inr None
      | Some (Naive _) \<Rightarrow> Inl TypeError
      | Some (Aware t) \<Rightarrow> Inr (Some (int now - t)))"

definition current_result :: "nat \<Rightarrow> settings \<Rightarrow> py_error + string" where
  "current_result now db =
     (let result = setting db ''update_last_result'' []
      in if result \<noteq> ''success'' then Inr result
         else let stamped = setting db ''update_last_result_at'' []
              in if stamped = [] then Inr []
                 else rbind (age_of now stamped) (\<lambda>age. case age of
                        None \<Rightarrow> Inr []
                      | Some a \<Rightarrow> Inr (if a < SUCCESS_TTL then result else [])))"

definition clear_result :: "nat \<Rightarrow> settings \<Rightarrow> settings" where
  "clear_result now db = set_result now db []"

section \<open>Checking\<close>

text \<open>
  What docker says of the running web container: the id of its image, and that image's RepoDigests
  (None when there is no answer or it is no JSON).
\<close>

record docker_view =
  web_image :: "string option"
  repo_digests :: "string list option"

definition DIGEST_PREFIX :: string where
  "DIGEST_PREFIX = ''ghcr.io/acebmxer/beacon-web@''"

definition deployed_digests :: "docker_view \<Rightarrow> string list option" where
  "deployed_digests d =
     (if web_image d = None \<or> web_image d = Some [] then None
      else case repo_digests d of
        None \<Rightarrow> None
      | Some entries \<Rightarrow>
          (let digests = map (drop (length DIGEST_PREFIX)) (filter (prefix DIGEST_PREFIX) entries)
           in if digests = [] then None else Some digests))"

text \<open>The digest comparison, for builds without a version.\<close>

definition check_digest ::
  "beacon_config \<Rightarrow> (string \<Rightarrow> string option) \<Rightarrow> docker_view \<Rightarrow> settings \<Rightarrow> settings \<times> (py_error + bool)" where
  "check_digest cfg latest_digest docker db =
     (let db = set_setting db ''update_available_version'' []
      in case latest_digest (target_channel cfg db) of
           None \<Rightarrow> (db, Inr (setting db ''update_available'' ''0'' = ''1''))
         | Some digest \<Rightarrow>
             (let db = set_setting db ''update_remote_digest'' digest
              in case deployed_digests docker of
                   Some deployed \<Rightarrow>
                     (let available = (digest \<notin> set deployed);
                          db = (if available then db else set_setting db ''update_known_digest'' digest)
                      in (set_setting db ''update_available'' (flag available), Inr available))
                 | None \<Rightarrow>
                     (let known = setting db ''update_known_digest'' [];
                          known = (if known = ''channel-switched'' then [] else known)
                      in if known = []
                         then (set_setting (set_setting db ''update_known_digest'' digest)
                                 ''update_available'' ''0'', Inr False)
                         else (set_setting db ''update_available'' (flag (digest \<noteq> known)),
                               Inr (digest \<noteq> known)))))"

definition check_for_updates ::
  "beacon_config \<Rightarrow> nat \<Rightarrow> (bool \<Rightarrow> gh_doc option) \<Rightarrow> (string \<Rightarrow> string option) \<Rightarrow> docker_view \<Rightarrow>
   settings \<Rightarrow> settings \<times> (py_error + bool)" where
  "check_for_updates cfg now releases latest_digest docker db =
     (let db = set_setting db ''update_last_checked'' (isoformat now);
          betas = include_betas cfg db
      in case running_rank cfg of
        Inl e \<Rightarrow> (db, Inl e)
      | Inr running \<Rightarrow>
          if betas \<or> (running \<noteq> None \<and> BEACON_TAG cfg = ''stable'') then
            (case newest_release (releases betas) of
               Inl e \<Rightarrow> (db, Inl e)
             | Inr None \<Rightarrow> (db, Inr (setting db ''update_available'' ''0'' = ''1''))
             | Inr (Some (rank, version)) \<Rightarrow>
                 (let db = (if betas
                            then set_setting db ''update_beta_target''
                                   (if beta_of rank = RELEASE_RANK then ''stable'' else ''beta'')
                            else db)
                  in case running of
                       Some r \<Rightarrow>
                         (let available = (rank > r);
                              db = set_setting db ''update_available_version'' (if available then version else []);
                              db = set_setting db ''update_remote_digest'' [];
                              db = set_setting db ''update_available'' (flag available)
                          in (db, Inr available))
                     | None \<Rightarrow> check_digest cfg latest_digest docker db))
          else check_digest cfg latest_digest docker db)"

definition refresh_available :: "beacon_config \<Rightarrow> docker_view \<Rightarrow> settings \<Rightarrow> settings \<times> (py_error + unit)" where
  "refresh_available cfg docker db =
     (if setting db ''update_in_progress'' ''0'' = ''1'' then (db, Inr ())
      else if setting db ''update_available'' ''0'' \<noteq> ''1'' then (db, Inr ())
      else case parse_release (setting db ''update_available_version'' []) of
        Inl e \<Rightarrow> (db, Inl e)
      | Inr offered \<Rightarrow>
         (case running_rank cfg of
            Inl e \<Rightarrow> (db, Inl e)
          | Inr running \<Rightarrow>
              if offered \<noteq> None \<and> running \<noteq> None \<and> the running \<ge> the offered
              then (set_setting (set_setting db ''update_available'' ''0'') ''update_available_version'' [], Inr ())
              else (let remote = setting db ''update_remote_digest'' []
                    in if remote = [] then (db, Inr ())
                       else (case deployed_digests docker of
                               None \<Rightarrow> (db, Inr ())
                             | Some deployed \<Rightarrow>
                                 if remote \<in> set deployed
                                 then (set_setting (set_setting db ''update_available'' ''0'')
                                         ''update_known_digest'' remote, Inr ())
                                 else (db, Inr ())))))"

section \<open>Running an update\<close>

text \<open>
  A docker command either ends with a code and its two outputs, outlives its time limit, or fails to
  start with a message.  A TimeoutExpired or any other exception that leaves \<open>run_update\<close>'s body is
  a \<open>run_exn\<close>.
\<close>

datatype call = Done int string string | TimedOut | CallFailed string
datatype run_exn = TimeoutExpired | OtherExn string

definition call_result :: "call \<Rightarrow> run_exn + (int \<times> string \<times> string)" where
  "call_result c = (case c of Done rc out err \<Rightarrow> Inr (rc, out, err)
     | TimedOut \<Rightarrow> Inl TimeoutExpired | CallFailed msg \<Rightarrow> Inl (OtherExn msg))"

text \<open>\<open>a or b or "unknown error"\<close>.\<close>

definition either_output :: "string \<Rightarrow> string \<Rightarrow> string" where
  "either_output err out = (if err \<noteq> [] then err else if out \<noteq> [] then out else ''unknown error'')"

text \<open>What the commands of one run return, in the order they are run.\<close>

record run_env =
  pull_call :: call
  running_id :: "string option"
  pulled_id :: "string option"
  rm_old_call :: call
  launch_call :: call
  wait_call :: call
  rm_done_call :: call
  logs_call :: call

definition spawn_recreator :: "run_env \<Rightarrow> run_exn + string option" where
  "spawn_recreator env =
     rbind (call_result (rm_old_call env)) (\<lambda>_.
       rbind (call_result (launch_call env)) (\<lambda>(rc, out, err).
         Inr (if rc \<noteq> 0 then Some (take 300 (strip (either_output err out))) else None)))"

text \<open>The command the throwaway container is started with.\<close>

definition recreator_command :: "string \<Rightarrow> string \<Rightarrow> string \<Rightarrow> string list" where
  "recreator_command img project_dir channel =
     [''docker'', ''run'', ''--detach'', ''--name'', ''beacon_updater'',
      ''-v'', ''/var/run/docker.sock:/var/run/docker.sock'',
      ''-v'', project_dir @ '':'' @ project_dir,
      ''-w'', project_dir,
      ''-e'', ''BEACON_TAG='' @ channel,
      img,
      ''docker'', ''compose'', ''up'', ''-d'', ''--remove-orphans'']"

definition fail_run :: "nat \<Rightarrow> settings \<Rightarrow> string \<Rightarrow> settings" where
  "fail_run now db msg = set_setting (set_result now db msg) ''update_in_progress'' ''0''"

definition succeed_run :: "nat \<Rightarrow> settings \<Rightarrow> settings" where
  "succeed_run now db =
     set_result now (set_setting (set_setting db ''update_available'' ''0'') ''update_in_progress'' ''0'') ''success''"

text \<open>What \<open>run_update\<close> records before its first command.\<close>

definition begin_update :: "nat \<Rightarrow> settings \<Rightarrow> settings" where
  "begin_update now db =
     set_result now
       (set_setting (set_setting db ''update_in_progress'' ''1'') ''update_started_at'' (isoformat now)) []"

definition watch_recreator :: "nat \<Rightarrow> run_env \<Rightarrow> settings \<Rightarrow> settings \<times> (run_exn + unit)" where
  "watch_recreator now env db =
     (case wait_call env of
        TimedOut \<Rightarrow>
          (fail_run now db (''recreate_failed: the recreation is still running after 300s. ''
             @ ''Check `docker logs beacon_updater` on the host.''), Inr ())
      | CallFailed msg \<Rightarrow> (db, Inl (OtherExn msg))
      | Done rc out err \<Rightarrow>
          (let code = strip out
           in if rc = 0 \<and> code = ''0'' then
                (case call_result (rm_done_call env) of
                   Inl e \<Rightarrow> (db, Inl e)
                 | Inr _ \<Rightarrow> (succeed_run now db, Inr ()))
              else
                (case call_result (logs_call env) of
                   Inl e \<Rightarrow> (db, Inl e)
                 | Inr (_, lout, lerr) \<Rightarrow>
                     (let detail = strip (lerr @ lout);
                          detail = (if detail \<noteq> [] then detail
                                    else ''updater exit code '' @ (if code \<noteq> [] then code else show_int rc))
                      in (fail_run now db (''recreate_failed: '' @ take 300 detail), Inr ())))))"

definition PROJECT_DIR_missing :: string where
  "PROJECT_DIR_missing = ''recreate_failed: PROJECT_DIR is not set in .env, so the update ''
     @ ''cannot recreate containers. Add it (see .env.example) and run ''
     @ ''`docker compose up -d` on the host.''"

definition perform_update ::
  "beacon_config \<Rightarrow> nat \<Rightarrow> run_env \<Rightarrow> settings \<Rightarrow> settings \<times> (run_exn + unit)" where
  "perform_update cfg now env db =
     (case call_result (pull_call env) of
        Inl e \<Rightarrow> (db, Inl e)
      | Inr (rc, out, err) \<Rightarrow>
          if rc \<noteq> 0 then (fail_run now db (''pull_failed: '' @ take 400 (either_output err out)), Inr ())
          else if COMPOSE_PROJECT_DIR cfg = [] then (fail_run now db PROJECT_DIR_missing, Inr ())
          else
            (let web_unchanged = (case (running_id env, pulled_id env) of
                   (Some r, Some p) \<Rightarrow> r \<noteq> [] \<and> r = p | _ \<Rightarrow> False)
             in case spawn_recreator env of
                  Inl e \<Rightarrow> (db, Inl e)
                | Inr error \<Rightarrow>
                    if error \<noteq> None \<and> error \<noteq> Some []
                    then (fail_run now db (''recreate_failed: '' @ the error), Inr ())
                    else if web_unchanged then watch_recreator now env db
                    else (db, Inr ())))"

text \<open>\<open>run_update\<close>, started at one time and recording its outcome at another.\<close>

definition run_update :: "beacon_config \<Rightarrow> nat \<Rightarrow> nat \<Rightarrow> run_env \<Rightarrow> settings \<Rightarrow> settings" where
  "run_update cfg start fin env db =
     (case perform_update cfg fin env (begin_update start db) of
        (db, Inr _) \<Rightarrow> db
      | (db, Inl TimeoutExpired) \<Rightarrow> fail_run fin db ''timeout: a docker command took too long''
      | (db, Inl (OtherExn msg)) \<Rightarrow> fail_run fin db (''error: '' @ take 200 msg))"

definition finish_pending_update :: "nat \<Rightarrow> settings \<Rightarrow> settings" where
  "finish_pending_update now db =
     (if setting db ''update_in_progress'' ''0'' \<noteq> ''1'' then db else succeed_run now db)"

definition STALLED :: string where
  "STALLED = ''recreate_failed: images were pulled but the containers were not ''
     @ ''recreated. Run `docker compose up -d` on the host to finish.''"

definition reap_stalled_update :: "nat \<Rightarrow> settings \<Rightarrow> settings \<times> (py_error + unit)" where
  "reap_stalled_update now db =
     (if setting db ''update_in_progress'' ''0'' \<noteq> ''1'' then (db, Inr ())
      else let started = setting db ''update_started_at'' []
           in if started = [] then (db, Inr ())
              else case age_of now started of
                Inl e \<Rightarrow> (db, Inl e)
              | Inr None \<Rightarrow> (db, Inr ())
              | Inr (Some age) \<Rightarrow>
                  if age < RECREATE_TIMEOUT then (db, Inr ())
                  else (set_result now (set_setting db ''update_in_progress'' ''0'') STALLED, Inr ()))"

section \<open>The endpoints\<close>

datatype answer = Conflict | Started | Beta bool bool

definition apply_update :: "settings \<Rightarrow> answer" where
  "apply_update db = (if setting db ''update_in_progress'' ''0'' = ''1'' then Conflict else Started)"

definition set_beta_route ::
  "beacon_config \<Rightarrow> nat \<Rightarrow> (bool \<Rightarrow> gh_doc option) \<Rightarrow> (string \<Rightarrow> string option) \<Rightarrow> docker_view \<Rightarrow> bool \<Rightarrow>
   settings \<Rightarrow> settings \<times> (py_error + answer)" where
  "set_beta_route cfg now releases latest_digest docker enabled db =
     (if setting db ''update_in_progress'' ''0'' = ''1'' then (db, Inr Conflict)
      else case check_for_updates cfg now releases latest_digest docker (set_beta db enabled) of
             (db, res) \<Rightarrow> (db, rbind res (\<lambda>available. Inr (Beta enabled available))))"

record status_view =
  v_available :: bool
  v_version :: string
  v_in_progress :: bool
  v_last_checked :: string
  v_last_result :: string
  v_channel :: string
  v_target :: string
  v_base :: string
  v_beta :: bool
  v_image :: string
  v_label :: string
  v_dev :: bool

definition update_status ::
  "beacon_config \<Rightarrow> nat \<Rightarrow> string option \<Rightarrow> docker_view \<Rightarrow> settings \<Rightarrow> settings \<times> (py_error + status_view)" where
  "update_status cfg now ref docker db =
     (case reap_stalled_update now db of
        (db, Inl e) \<Rightarrow> (db, Inl e)
      | (db, Inr _) \<Rightarrow>
         (case refresh_available cfg docker db of
            (db, Inl e) \<Rightarrow> (db, Inl e)
          | (db, Inr _) \<Rightarrow>
              (let available = (setting db ''update_available'' ''0'' = ''1'')
               in (db, rbind (current_result now db) (\<lambda>result. Inr
                   \<lparr>v_available = available,
                    v_version = (if available then setting db ''update_available_version'' [] else []),
                    v_in_progress = (setting db ''update_in_progress'' ''0'' = ''1''),
                    v_last_checked = setting db ''update_last_checked'' [],
                    v_last_result = result,
                    v_channel = running_channel cfg ref,
                    v_target = target_channel cfg db,
                    v_base = BEACON_TAG cfg,
                    v_beta = beta_enabled db,
                    v_image = image_ref cfg db None,
                    v_label = version_label cfg,
                    v_dev = is_dev_build cfg\<rparr>)))))"

section \<open>Lemmas on versions\<close>

definition TAIL_RE :: rx where
  "TAIL_RE = Seq (opt (Seq (lit ''-'') (Grp 4 (plus1 (Cls suffix_chr)))))
                 (opt (Seq (lit ''+'') (plus1 (Cls suffix_chr))))"

definition NUMBERS_RE :: rx where
  "NUMBERS_RE = Seq (Grp 1 (plus1 digit_rx)) (Seq (lit ''.'') (Seq (Grp 2 (plus1 digit_rx))
     (Seq (lit ''.'') (Seq (Grp 3 (plus1 digit_rx)) TAIL_RE))))"

lemma VERSION_RE_split: "VERSION_RE = Seq (opt (lit ''v'')) NUMBERS_RE"
  by (simp add: VERSION_RE_def NUMBERS_RE_def TAIL_RE_def)

lemma digit_facts: "is_digit c \<Longrightarrow> c \<noteq> CHR ''.'' \<and> c \<noteq> CHR ''-'' \<and> c \<noteq> CHR ''+'' \<and> c \<noteq> CHR ''v''"
  by (auto simp: chr_in_def)

lemma dot_stuck: "is_digit c \<Longrightarrow> m (Seq (lit ''.'') r) (p, c # cs, g) = []"
  using digit_facts [of c] by simp

lemma tail_on_digit: "is_digit c \<Longrightarrow> m TAIL_RE (p, c # cs, g) = [(p, c # cs, g)]"
  using digit_facts [of c] by (simp add: TAIL_RE_def opt_def)

lemma tail_at_end: "m TAIL_RE (p, [], g) = [(p, [], g)]"
  by (simp add: TAIL_RE_def opt_def)

lemma number_then:
  assumes "post = [] \<or> \<not> is_digit (hd post)" "\<And>p c cs g. is_digit c \<Longrightarrow> whole (m r (p, c # cs, g)) = []"
  shows "whole (m (Seq (Grp k (plus1 digit_rx)) r) (pre, show_nat n @ post, g)) =
         whole (m r (rev (show_nat n) @ pre, post, (k, show_nat n) # g))"
  unfolding digit_rx_def
  by (rule whole_run_then) (use assms show_nat_digits in \<open>auto simp: list_all_iff\<close>)

lemma dot_then: "m (Seq (lit ''.'') r) (pre, CHR ''.'' # post, g) = m r (CHR ''.'' # pre, post, g)"
  by simp

lemma numbers_whole:
  assumes "post = [] \<or> hd post = CHR ''-''"
  shows "whole (m NUMBERS_RE (pre, show_nat a @ ''.'' @ show_nat b @ ''.'' @ show_nat c @ post, [])) =
         whole (m TAIL_RE (rev (show_nat a @ ''.'' @ show_nat b @ ''.'' @ show_nat c) @ pre, post,
           [(3, show_nat c), (2, show_nat b), (1, show_nat a)]))"
proof -
  have nd: "\<not> is_digit CHR ''.''" "\<not> is_digit CHR ''-''" by (simp_all add: chr_in_def)
  have post: "post = [] \<or> \<not> is_digit (hd post)" using assms nd by auto
  show ?thesis
    unfolding NUMBERS_RE_def
    by (simp add: number_then dot_then dot_stuck tail_on_digit nd post del: m.simps lit.simps)
qed

lemma suffix_digit: "is_digit c \<Longrightarrow> suffix_chr c"
  by (simp add: suffix_chr_def is_alnum_def)

lemma tail_beta:
  assumes "list_all suffix_chr s" "s \<noteq> []"
  shows "whole (m TAIL_RE (pre, CHR ''-'' # s, g)) = [(rev s @ CHR ''-'' # pre, [], (4, s) # g)]"
proof -
  let ?plus = "opt (Seq (lit ''+'') (plus1 (Cls suffix_chr)))"
  have stuck: "whole (m ?plus (p, c # cs, g')) = []" if "suffix_chr c" for p c cs g'
  proof -
    have "c \<noteq> CHR ''+''" using that by (auto simp: suffix_chr_def is_alnum_def is_lower_def is_upper_def chr_in_def)
    then show ?thesis by (simp add: opt_def)
  qed
  have "whole (m (Seq (Grp 4 (plus1 (Cls suffix_chr))) ?plus) (CHR ''-'' # pre, s @ [], g)) =
        whole (m ?plus (rev s @ CHR ''-'' # pre, [], (4, s) # g))"
    by (rule whole_run_then) (use assms stuck in auto)
  also have "\<dots> = [(rev s @ CHR ''-'' # pre, [], (4, s) # g)]" by (simp add: opt_def)
  finally have main: "whole (m (Seq (Grp 4 (plus1 (Cls suffix_chr))) ?plus) (CHR ''-'' # pre, s, g)) =
        [(rev s @ CHR ''-'' # pre, [], (4, s) # g)]" by simp
  have "m TAIL_RE (pre, CHR ''-'' # s, g) =
      m (Seq (Grp 4 (plus1 (Cls suffix_chr))) ?plus) (CHR ''-'' # pre, s, g) @ [(pre, CHR ''-'' # s, g)]"
    by (simp add: TAIL_RE_def opt_def)
  with main show ?thesis by simp
qed

text \<open>A leading \<open>v\<close> changes nothing.\<close>

lemma version_v:
  "whole (m VERSION_RE ([], CHR ''v'' # s, [])) = map (under ''v'') (whole (m NUMBERS_RE ([], s, [])))"
proof -
  have no: "m NUMBERS_RE (p, CHR ''v'' # t, g) = []" for p t g
    by (simp add: NUMBERS_RE_def plus1_def digit_rx_def chr_in_def)
  have "plain NUMBERS_RE"
    by (simp add: NUMBERS_RE_def TAIL_RE_def plus1_def digit_rx_def opt_def)
  from m_under [OF this, of "''v''" "([], s, [])"]
  have "m NUMBERS_RE (''v'', s, []) = map (under ''v'') (m NUMBERS_RE ([], s, []))"
    by (simp add: under_def)
  moreover have "m VERSION_RE ([], CHR ''v'' # s, []) = m NUMBERS_RE (''v'', s, []) @ m NUMBERS_RE ([], CHR ''v'' # s, [])"
    by (simp add: VERSION_RE_split opt_def)
  moreover have "whole (map (under ''v'') ts) = map (under ''v'') (whole ts)" for ts
    by (induction ts) (auto simp: under_def)
  ultimately show ?thesis by (simp add: no)
qed

lemma version_no_v:
  "hd s \<noteq> CHR ''v'' \<Longrightarrow> m VERSION_RE ([], s, []) = m NUMBERS_RE ([], s, [])"
  by (cases s) (simp_all add: VERSION_RE_split opt_def)

text \<open>How a rank is written, and that it is read back.\<close>

definition show_version :: "nat \<Rightarrow> nat \<Rightarrow> nat \<Rightarrow> string" where
  "show_version a b c = show_nat a @ ''.'' @ show_nat b @ ''.'' @ show_nat c"

fun show_rank :: "rank \<Rightarrow> string" where
  "show_rank (Rank a b c n) =
     show_version a b c @ (if n = RELEASE_RANK then [] else ''-beta.'' @ show_nat n)"

definition short :: "nat \<Rightarrow> bool" where
  "short n \<longleftrightarrow> length (show_nat n) \<le> max_str_digits"

fun short_rank :: "rank \<Rightarrow> bool" where
  "short_rank (Rank a b c n) \<longleftrightarrow> short a \<and> short b \<and> short c \<and> short n"

lemma show_nat_word: "list_all (\<lambda>c. \<not> py_space c) (show_nat n)"
  by (auto simp: list_all_iff dest: show_nat_plain)

lemma show_nat_hd: "is_digit (hd (show_nat n))"
  by (rule show_nat_digits [of _ n]) simp

lemma suffix_beta: "list_all suffix_chr (''beta.'' @ show_nat n)"
proof -
  have "list_all suffix_chr ''beta.''"
    by (simp add: suffix_chr_def is_alnum_def is_lower_def is_upper_def chr_in_def)
  then show ?thesis by (auto simp: list_all_iff dest: show_nat_digits intro: suffix_digit)
qed

lemma beta_fullmatch:
  "re_fullmatch BETA_RE (''beta.'' @ show_nat n) = Some (to_match 0 (rev (''beta.'' @ show_nat n), [], [(1, show_nat n)]))"
proof -
  have "m BETA_RE ([], ''beta.'' @ show_nat n, []) = m (Grp 1 (plus1 digit_rx)) (rev ''beta.'', show_nat n, [])"
    unfolding BETA_RE_def m.simps(3) m_lit by simp
  moreover have "whole (m (Grp 1 (plus1 digit_rx)) (rev ''beta.'', show_nat n, [])) =
      [(rev (show_nat n) @ rev ''beta.'', [], (1, show_nat n) # [])]"
    unfolding digit_rx_def by (rule whole_run_last) (auto simp: list_all_iff show_nat_digits)
  ultimately show ?thesis by (simp add: fullmatch_whole)
qed

lemma int_group_show:
  "short n \<Longrightarrow> group k mt = Some (show_nat n) \<Longrightarrow> int_group k mt = Inr n"
  by (simp add: int_group_def short_def)

lemma int_group_last: "short n \<Longrightarrow> int_group (Suc 0) (s, t, [(Suc 0, show_nat n)]) = Inr n"
  by (rule int_group_show) (simp_all add: group_def)

lemma parse_numbers:
  assumes "whole (m VERSION_RE ([], s, [])) = [(p, [], g @ [(3, show_nat c), (2, show_nat b), (1, show_nat a)])]"
    and "strip s = s" "short a" "short b" "short c"
    and "map_of g 1 = None" "map_of g 2 = None" "map_of g 3 = None"
  shows "parse_release s =
     (case map_of g 4 of
        None \<Rightarrow> Inr (Some (Rank a b c RELEASE_RANK))
      | Some sfx \<Rightarrow> (case re_fullmatch BETA_RE sfx of
           None \<Rightarrow> Inr (Some (Rank a b c 0))
         | Some bm \<Rightarrow> rbind (int_group 1 bm) (\<lambda>n. Inr (Some (Rank a b c n)))))"
proof -
  let ?mt = "to_match 0 (p, [], g @ [(3, show_nat c), (2, show_nat b), (1, show_nat a)])"
  have mt: "re_fullmatch VERSION_RE (strip s) = Some ?mt"
    using assms(1,2) by (simp add: fullmatch_whole)
  have "group 1 ?mt = Some (show_nat a)" "group 2 ?mt = Some (show_nat b)" "group 3 ?mt = Some (show_nat c)"
    "group 4 ?mt = map_of g 4"
    using assms(6,7,8) by (simp_all add: group_def to_match_def map_of_append map_add_def split: option.split)
  with mt assms(3,4,5) show ?thesis
    by (simp add: parse_release_def int_group_show)
qed

lemma version_word: "list_all (\<lambda>c. \<not> py_space c) (v @ show_rank r)" if "v = [] \<or> v = ''v''"
  using that show_nat_word by (cases r) (auto simp: show_version_def py_space_def)

lemma numbers_rank:
  "whole (m NUMBERS_RE ([], show_rank (Rank a b c n), [])) =
     [(rev (show_rank (Rank a b c n)), [],
       (if n = RELEASE_RANK then [] else [(4, ''beta.'' @ show_nat n)])
         @ [(3, show_nat c), (2, show_nat b), (1, show_nat a)])]"
proof (cases "n = RELEASE_RANK")
  case True
  with numbers_whole [of "[]" "[]" a b c] show ?thesis
    by (simp add: show_version_def tail_at_end)
next
  case False
  have "whole (m NUMBERS_RE ([], show_nat a @ ''.'' @ show_nat b @ ''.'' @ show_nat c @ CHR ''-'' # ''beta.'' @ show_nat n, [])) =
      whole (m TAIL_RE (rev (show_nat a @ ''.'' @ show_nat b @ ''.'' @ show_nat c) @ [], CHR ''-'' # ''beta.'' @ show_nat n,
        [(3, show_nat c), (2, show_nat b), (1, show_nat a)]))"
    by (rule numbers_whole) simp
  also have "\<dots> = [(rev (''beta.'' @ show_nat n) @ CHR ''-'' # rev (show_nat a @ ''.'' @ show_nat b @ ''.'' @ show_nat c) @ [], [],
      (4, ''beta.'' @ show_nat n) # [(3, show_nat c), (2, show_nat b), (1, show_nat a)])]"
    by (rule tail_beta [OF suffix_beta]) simp
  finally show ?thesis using False by (simp add: show_version_def)
qed

lemma parse_show_rank:
  assumes "short_rank r" "v = [] \<or> v = ''v''"
  shows "parse_release (v @ show_rank r) = Inr (Some r)"
proof -
  obtain a b c n where r: "r = Rank a b c n" by (cases r)
  let ?g = "if n = RELEASE_RANK then [] else [(4, ''beta.'' @ show_nat n)]"
  have hd: "hd (show_rank r) \<noteq> CHR ''v''"
    using digit_facts [OF show_nat_hd [of a]] by (simp add: r show_version_def)
  have "\<exists>p. whole (m VERSION_RE ([], v @ show_rank r, [])) =
      [(p, [], ?g @ [(3, show_nat c), (2, show_nat b), (1, show_nat a)])]"
    using assms(2) numbers_rank [of a b c n] version_no_v [OF hd] version_v [of "show_rank r"]
    by (auto simp: r under_def)
  then obtain p where "whole (m VERSION_RE ([], v @ show_rank r, [])) =
      [(p, [], ?g @ [(3, show_nat c), (2, show_nat b), (1, show_nat a)])]" ..
  from parse_numbers [OF this] assms version_word [OF assms(2), of r] show ?thesis
    by (cases "n = RELEASE_RANK")
      (simp_all add: r strip_all beta_fullmatch [simplified] int_group_last to_match_def)
qed

text \<open>
  The version the check records, the tag without its \<open>v\<close>, has the rank of the tag.
\<close>

lemma numbers_need_digit: "m NUMBERS_RE (p, s, g) \<noteq> [] \<Longrightarrow> s \<noteq> [] \<and> is_digit (hd s)"
  by (cases s) (auto simp: NUMBERS_RE_def plus1_def digit_rx_def split: if_splits)

lemma group_under_v:
  "group k (to_match 0 (under ''v'' t)) = group k (to_match 0 t)"
  by (cases t) (simp add: group_def to_match_def under_def)

lemma int_group_under_v: "int_group k (to_match 0 (under ''v'' t)) = int_group k (to_match 0 t)"
  by (simp only: int_group_def group_under_v)

lemma parse_release_bare:
  assumes "parse_release tag = Inr (Some r)"
  shows "parse_release (removeprefix ''v'' (strip tag)) = Inr (Some r)"
proof (cases "prefix ''v'' (strip tag)")
  case False
  with assms show ?thesis by (simp add: removeprefix_def parse_release_def)
next
  case True
  then obtain s where s: "strip tag = CHR ''v'' # s" by (cases "strip tag") auto
  have ne: "whole (m NUMBERS_RE ([], s, [])) \<noteq> []"
    using assms version_v [of s] by (auto simp: parse_release_def fullmatch_whole s)
  then have "m NUMBERS_RE ([], s, []) \<noteq> []" by (cases "m NUMBERS_RE ([], s, [])") auto
  then have digit: "s \<noteq> []" "is_digit (hd s)"
    using numbers_need_digit [of "[]" s "[]"] by simp_all
  have "strip s = s"
    using strip_ends [of tag] digit is_digit_plain [OF digit(2)] by (intro strip_fixed) (simp_all add: s)
  moreover have "m VERSION_RE ([], s, []) = m NUMBERS_RE ([], s, [])"
    using digit_facts [OF digit(2)] by (intro version_no_v) simp
  moreover obtain t ts where "whole (m NUMBERS_RE ([], s, [])) = t # ts" using ne by (cases "whole (m NUMBERS_RE ([], s, []))") auto
  moreover have "removeprefix ''v'' (strip tag) = s" by (simp add: removeprefix_def s)
  ultimately show ?thesis
    using assms version_v [of s]
    by (simp add: parse_release_def fullmatch_whole s int_group_under_v group_under_v)
qed

section \<open>Lemmas on the recorded settings\<close>

lemma setting_set: "setting (set_setting db k v) k' d = (if k' = k then v else setting db k' d)"
  unfolding setting_def by (rule kv.get_put_if)

lemma flag_one [simp]: "flag b = ''1'' \<longleftrightarrow> b"
  by (simp add: flag_def)

lemma include_betas_checked [simp]:
  "k \<noteq> ''update_beta'' \<Longrightarrow> include_betas cfg (set_setting db k v) = include_betas cfg db"
  by (simp add: include_betas_def beta_enabled_def setting_set)

lemma fail_run_settings [simp]:
  "setting (fail_run now db msg) ''update_in_progress'' d = ''0''"
  "setting (fail_run now db msg) ''update_last_result'' d = msg"
  by (simp_all add: fail_run_def set_result_def setting_set)

lemma succeed_run_settings [simp]:
  "setting (succeed_run now db) ''update_in_progress'' d = ''0''"
  "setting (succeed_run now db) ''update_last_result'' d = ''success''"
  "setting (succeed_run now db) ''update_available'' d = ''0''"
  by (simp_all add: succeed_run_def set_result_def setting_set)

lemma begin_update_settings [simp]:
  "setting (begin_update now db) ''update_in_progress'' d = ''1''"
  "setting (begin_update now db) ''update_started_at'' d = isoformat now"
  "setting (begin_update now db) ''update_last_result'' d = []"
  by (simp_all add: begin_update_def set_result_def setting_set)

text \<open>The body of a run leaves the table as it is, or ends the run in it.\<close>

definition ended :: "settings \<Rightarrow> bool" where
  "ended db \<longleftrightarrow> setting db ''update_in_progress'' ''0'' = ''0'' \<and> setting db ''update_last_result'' [] \<noteq> []"

lemma ended_fail [simp]: "msg \<noteq> [] \<Longrightarrow> ended (fail_run now db msg)"
  by (simp add: ended_def)

lemma ended_succeed [simp]: "ended (succeed_run now db)"
  by (simp add: ended_def)

lemma watch_outcome:
  "watch_recreator now env db = (db', res) \<Longrightarrow> ended db' \<and> res = Inr () \<or> db' = db \<and> isl res"
  by (auto simp: watch_recreator_def Let_def split: call.splits sum.splits if_splits)

lemma perform_outcome:
  "perform_update cfg now env db = (db', res) \<Longrightarrow> ended db' \<and> res = Inr () \<or> db' = db"
  by (auto simp: perform_update_def PROJECT_DIR_missing_def Let_def dest: watch_outcome
      split: sum.splits if_splits option.splits prod.splits)

lemma run_update_outcome:
  "ended (run_update cfg start fin env db) \<or> run_update cfg start fin env db = begin_update start db"
proof -
  obtain db' res where p: "perform_update cfg fin env (begin_update start db) = (db', res)"
    by (cases "perform_update cfg fin env (begin_update start db)")
  from perform_outcome [OF p] p show ?thesis
    by (auto simp: run_update_def split: sum.splits run_exn.splits)
qed

lemma age_recorded:
  "fst (year_of 1970 (start div day_us)) \<le> 9999 \<Longrightarrow>
     age_of now (isoformat start) = Inr (Some (int now - int start))"
  by (simp add: age_of_def clock_roundtrip)

lemma isoformat_ne [simp]: "isoformat t \<noteq> []"
  by (simp add: isoformat_def)

text \<open>What the search for the newest release finds, started from a candidate.\<close>

definition versioned :: "gh_release list \<Rightarrow> string \<Rightarrow> rank \<Rightarrow> bool" where
  "versioned rels tag r \<longleftrightarrow> Release False (Some tag) \<in> set rels \<and> parse_release tag = Inr (Some r)"

lemma best_release_found:
  "best_release best rels = Inr (Some (r, version)) \<Longrightarrow>
     (best = Some (r, version) \<or> (\<exists>tag. versioned rels tag r \<and> version = removeprefix ''v'' (strip tag))) \<and>
     (\<forall>b w. best = Some (b, w) \<longrightarrow> b \<le> r) \<and> (\<forall>tag r'. versioned rels tag r' \<longrightarrow> r' \<le> r)"
proof (induction best rels rule: best_release.induct)
  case (1 best)
  then show ?case by (simp add: versioned_def)
next
  case (2 best tag rels)
  then obtain pr where pr: "parse_release tag = Inr pr" by (cases "parse_release tag") auto
  let ?best = "case pr of None \<Rightarrow> best
     | Some s \<Rightarrow> (case best of None \<Rightarrow> Some (s, removeprefix ''v'' (strip tag))
         | Some (b, _) \<Rightarrow> if s > b then Some (s, removeprefix ''v'' (strip tag)) else best)"
  have "best_release ?best rels = Inr (Some (r, version))" using "2.prems" pr by simp
  note ih = "2.IH" [OF pr this]
  have mem: "versioned (Release False (Some tag) # rels) t s \<longleftrightarrow>
      t = tag \<and> pr = Some s \<or> versioned rels t s" for t s
    using pr by (auto simp: versioned_def)
  show ?case
  proof (cases pr)
    case None
    with ih mem show ?thesis by auto
  next
    case (Some s)
    show ?thesis
    proof (cases best)
      case None
      with ih mem Some show ?thesis by auto
    next
      case b: (Some bw)
      then obtain b w where bw: "best = Some (b, w)" by (cases bw) auto
      show ?thesis
      proof (cases "s > b")
        case True
        with ih mem Some bw show ?thesis by auto
      next
        case False
        with ih mem Some bw show ?thesis by (auto simp: not_less)
      qed
    qed
  qed
qed (auto simp: versioned_def)

lemma best_release_none:
  "best_release best rels = Inr None \<Longrightarrow> best = None \<and> (\<forall>tag r. \<not> versioned rels tag r)"
proof (induction best rels rule: best_release.induct)
  case (2 best tag rels)
  then obtain pr where pr: "parse_release tag = Inr pr" by (cases "parse_release tag") auto
  with 2 show ?case by (auto simp: versioned_def split: option.splits if_splits)
qed (auto simp: versioned_def)

text \<open>The table and the answer of a check by version.\<close>

lemma check_by_version:
  assumes "running_rank cfg = Inr (Some running)"
    and "include_betas cfg db \<or> BEACON_TAG cfg = ''stable''"
    and "newest_release (releases (include_betas cfg db)) = Inr (Some (rank, version))"
  shows "check_for_updates cfg now releases latest_digest docker db =
     (set_setting (set_setting (set_setting
        (if include_betas cfg db
         then set_setting (set_setting db ''update_last_checked'' (isoformat now)) ''update_beta_target''
                (if beta_of rank = RELEASE_RANK then ''stable'' else ''beta'')
         else set_setting db ''update_last_checked'' (isoformat now))
        ''update_available_version'' (if rank > running then version else []))
        ''update_remote_digest'' []) ''update_available'' (flag (rank > running)), Inr (rank > running))"
  using assms by (simp add: check_for_updates_def Let_def)

section \<open>Properties\<close>

text \<open>
  Every version the publishing workflow writes, with or without its \<open>v\<close>, is read back as the rank
  it was written from, and ranks compare as releases do: by the three numbers, then a release above
  every beta of its version, then by beta number.
\<close>

theorem parse_release_roundtrip:
  assumes "short_rank r" "v = [] \<or> v = ''v''"
  shows "parse_release (v @ show_rank r) = Inr (Some r) \<and>
         (n < RELEASE_RANK \<longrightarrow> Rank a b c n < Rank a b c RELEASE_RANK) \<and>
         (n < n' \<longrightarrow> Rank a b c n < Rank a b c n')"
  using parse_show_rank [OF assms] by (simp add: less_rank_def)

theorem parse_release_roundtrip_witness:
  "parse_release ''v0.8.0-beta.6'' = Inr (Some (Rank 0 8 0 6)) \<and>
   Rank 0 8 0 6 < Rank 0 8 0 RELEASE_RANK \<and> Rank 0 8 0 6 < Rank 0 8 0 7"
proof -
  have "show_rank (Rank 0 8 0 6) = ''0.8.0-beta.6''"
    by (simp add: show_version_def show_nat.simps RELEASE_RANK_def)
  moreover have "short_rank (Rank 0 8 0 6)"
    by (simp add: short_def show_nat.simps max_str_digits_def)
  ultimately show ?thesis
    using parse_release_roundtrip [of "Rank 0 8 0 6" "''v''" 6 0 8 0 7] by (simp add: RELEASE_RANK_def)
qed

text \<open>
  The release found is a published, versioned one of the largest rank in GitHub's answer: drafts and
  tags that are no version never win, whatever the order of the list.
\<close>

theorem newest_release_is_maximal:
  assumes "newest_release (Some doc) = Inr best"
  shows "(case best of
            None \<Rightarrow> \<forall>tag r. \<not> versioned (gh_releases doc) tag r
          | Some (r, version) \<Rightarrow>
              (\<exists>tag. versioned (gh_releases doc) tag r \<and> version = removeprefix ''v'' (strip tag)) \<and>
              (\<forall>tag r'. versioned (gh_releases doc) tag r' \<longrightarrow> r' \<le> r))"
proof (cases best)
  case None
  with assms best_release_none [of None "gh_releases doc"] show ?thesis by (simp add: newest_release_def)
next
  case (Some rv)
  obtain r version where "rv = (r, version)" by (cases rv)
  with Some assms best_release_found [of None "gh_releases doc" r version] show ?thesis
    by (auto simp: newest_release_def)
qed


text \<open>
  An offer made by version stands until it is installed: the status page of the build that was
  offered it leaves it alone, and the first status page of a build at least as new retracts it,
  without asking the network or docker.
\<close>

theorem offer_retracted_when_installed:
  assumes "newest_release (releases (include_betas cfg db)) = Inr (Some (rank, version))"
    and "running_rank cfg = Inr (Some running)" "rank > running"
    and "include_betas cfg db \<or> BEACON_TAG cfg = ''stable''"
    and "check_for_updates cfg now releases latest_digest docker db = (db', res)"
    and "setting db ''update_in_progress'' ''0'' = ''0''"
    and "running_rank cfg' = Inr (Some running')"
  shows "setting (fst (refresh_available cfg' docker' db')) ''update_available'' ''0'' = flag (rank > running')"
proof -
  let ?db = "fst (check_for_updates cfg now releases latest_digest docker db)"
  have db': "db' = ?db" using assms(5) by simp
  have state: "setting ?db ''update_available'' ''0'' = ''1''" "setting ?db ''update_available_version'' [] = version"
    "setting ?db ''update_remote_digest'' [] = []" "setting ?db ''update_in_progress'' ''0'' = ''0''"
    unfolding check_by_version [where releases = releases, OF assms(2,4,1)] using assms(3,6) by (simp_all add: setting_set)
  obtain doc where "best_release None (gh_releases doc) = Inr (Some (rank, version))"
    using assms(1) by (auto simp: newest_release_def split: option.splits)
  then obtain tag where "parse_release tag = Inr (Some rank)" "version = removeprefix ''v'' (strip tag)"
    using best_release_found [of None] by (fastforce simp: versioned_def)
  then have "parse_release version = Inr (Some rank)" using parse_release_bare by simp
  then show ?thesis
    by (auto simp: db' refresh_available_def state assms(7) setting_set flag_def not_less)
qed

text \<open>
  Refreshing is one-directional: it never reports an update that the last check did not.
\<close>

theorem refresh_never_raises:
  assumes "setting (fst (refresh_available cfg docker db)) ''update_available'' ''0'' = ''1''"
  shows "setting db ''update_available'' ''0'' = ''1'' \<and> fst (refresh_available cfg docker db) = db"
  using assms
  by (auto simp: refresh_available_def Let_def setting_set split: sum.splits option.splits if_splits)



text \<open>
  The five minutes run from the start of the update, not from the end of its pull (which may take
  ten): a status page during a pull of more than five minutes already declares that the images were
  pulled and the containers not recreated, and a second update can be started beside the first.
\<close>

theorem reaped_while_pulling:
  fixes start now :: nat
  assumes "fst (year_of 1970 (start div day_us)) \<le> 9999" "start + 300 * 1000000 \<le> now"
  shows "apply_update (begin_update start db) = Conflict \<and>
         setting (fst (reap_stalled_update now (begin_update start db))) ''update_last_result'' [] = STALLED \<and>
         apply_update (fst (reap_stalled_update now (begin_update start db))) = Started"
  using assms
  by (simp add: apply_update_def reap_stalled_update_def age_recorded RECREATE_TIMEOUT_def
      set_result_def setting_set)

section \<open>Witnesses\<close>

definition sample_config :: beacon_config where
  "sample_config = \<lparr>BEACON_TAG = ''stable'', BEACON_VERSION = ''0.8.0'', BEACON_COMMIT = ''abc1234def'',
     COMPOSE_PROJECT_DIR = ''/opt/beacon''\<rparr>"

definition sample_doc :: gh_doc where
  "sample_doc = GhList [Release True (Some ''v9.0.0''), Release False (Some ''nightly''),
     Release False (Some ''v0.8.1''), NoObject, Release False (Some ''v0.8.1-beta.2''), Release False None]"

lemma sample_versions:
  "parse_release ''nightly'' = Inr None"
  "parse_release ''v0.8.1'' = Inr (Some (Rank 0 8 1 RELEASE_RANK))"
  "parse_release ''v0.8.1-beta.2'' = Inr (Some (Rank 0 8 1 2))"
  "parse_release ''0.8.0'' = Inr (Some (Rank 0 8 0 RELEASE_RANK))"
  "removeprefix ''v'' (strip ''v0.8.1'') = ''0.8.1''"
  by code_simp+

lemma sample_newest: "newest_release (Some sample_doc) = Inr (Some (Rank 0 8 1 RELEASE_RANK, ''0.8.1''))"
  by (simp add: newest_release_def sample_doc_def gh_releases_def sample_versions less_rank_def RELEASE_RANK_def)

lemma sample_running: "running_rank sample_config = Inr (Some (Rank 0 8 0 RELEASE_RANK))"
  by (simp add: running_rank_def sample_config_def sample_versions)

lemma sample_newer: "Rank 0 8 1 RELEASE_RANK > Rank 0 8 0 RELEASE_RANK"
  by (simp add: less_rank_def)

definition sample_check :: "settings \<times> (py_error + bool)" where
  "sample_check = check_for_updates sample_config 1700000000000000 (\<lambda>_. Some sample_doc) (\<lambda>_. None)
     \<lparr>web_image = None, repo_digests = None\<rparr> []"

theorem newest_release_is_maximal_witness:
  "versioned (gh_releases sample_doc) ''v0.8.1-beta.2'' (Rank 0 8 1 2) \<and> Rank 0 8 1 2 \<le> Rank 0 8 1 RELEASE_RANK"
proof -
  have beta: "versioned (gh_releases sample_doc) ''v0.8.1-beta.2'' (Rank 0 8 1 2)"
    by (simp add: versioned_def gh_releases_def sample_doc_def sample_versions)
  have "\<forall>tag r'. versioned (gh_releases sample_doc) tag r' \<longrightarrow> r' \<le> Rank 0 8 1 RELEASE_RANK"
    using newest_release_is_maximal [OF sample_newest] by simp
  with beta show ?thesis by blast
qed


theorem offer_retracted_when_installed_witness:
  "setting (fst (refresh_available (sample_config\<lparr>BEACON_VERSION := ''v0.8.1''\<rparr>)
     \<lparr>web_image = None, repo_digests = None\<rparr> (fst sample_check))) ''update_available'' ''0'' = ''0''"
proof -
  let ?cfg = "sample_config\<lparr>BEACON_VERSION := ''v0.8.1''\<rparr>"
  have "include_betas sample_config [] \<or> BEACON_TAG sample_config = ''stable''"
    by (simp add: sample_config_def)
  moreover have "running_rank ?cfg = Inr (Some (Rank 0 8 1 RELEASE_RANK))"
    by (simp add: running_rank_def sample_versions)
  moreover have "setting [] ''update_in_progress'' ''0'' = ''0''" by (simp add: setting_def get_setting_def)
  moreover obtain db' res where c: "sample_check = (db', res)" by (cases sample_check)
  ultimately have "setting (fst (refresh_available ?cfg \<lparr>web_image = None, repo_digests = None\<rparr> db'))
      ''update_available'' ''0'' = flag (Rank 0 8 1 RELEASE_RANK > Rank 0 8 1 RELEASE_RANK)"
    by (intro offer_retracted_when_installed [where releases = "\<lambda>_. Some sample_doc", OF sample_newest
          sample_running sample_newer _ c [unfolded sample_check_def]])
  then show ?thesis by (simp add: c flag_def)
qed

theorem refresh_never_raises_witness:
  "fst (refresh_available sample_config \<lparr>web_image = None, repo_digests = None\<rparr> [(''update_available'', ''1'')])
     = [(''update_available'', ''1'')]"
proof -
  have "setting (fst (refresh_available sample_config \<lparr>web_image = None, repo_digests = None\<rparr>
      [(''update_available'', ''1'')])) ''update_available'' ''0'' = ''1''"
    by code_simp
  from refresh_never_raises [OF this] show ?thesis by simp
qed

lemma sample_year: "fst (year_of 1970 (1700000000000000 div day_us)) \<le> 9999"
  by code_simp

definition sample_env :: run_env where
  "sample_env = \<lparr>pull_call = Done 0 [] [], running_id = Some ''sha256:a'', pulled_id = Some ''sha256:b'',
     rm_old_call = Done 1 [] ''no such container'', launch_call = Done 0 ''id'' [], wait_call = TimedOut,
     rm_done_call = Done 0 [] [], logs_call = Done 0 [] []\<rparr>"


theorem reaped_while_pulling_witness:
  "apply_update (begin_update 1700000000000000 []) = Conflict \<and>
   setting (fst (reap_stalled_update 1700000301000000 (begin_update 1700000000000000 []))) ''update_last_result'' [] = STALLED \<and>
   apply_update (fst (reap_stalled_update 1700000301000000 (begin_update 1700000000000000 []))) = Started"
  by (rule reaped_while_pulling [OF sample_year]) simp

end
