(* ===== verification/Names.thy ===== *)
theory Names
  imports Prelude Regex
begin

text \<open>
  Names that nothing else uses.  The console numbers a name that is taken (\<open>x-2.iso\<close>, \<open>x-3.iso\<close>, ...)
  until one is free, for uploaded files and for catalog entries.  The contract of such a numbering is
  the locale \<open>numbering\<close>: different numbers from two on give different names, so the loop ends.
\<close>

section \<open>The loop\<close>

text \<open>
  \<open>while taken(candidate): n += 1\<close>, with a bound on the rounds: the n-th candidate is tried first, and
  None stands for a loop that has not ended by then.
\<close>

fun first_free :: "nat \<Rightarrow> (nat \<Rightarrow> 'a) \<Rightarrow> ('a \<Rightarrow> bool) \<Rightarrow> nat \<Rightarrow> 'a option" where
  "first_free 0 cand taken n = None"
| "first_free (Suc fuel) cand taken n =
     (if taken (cand n) then first_free fuel cand taken (Suc n) else Some (cand n))"

lemma first_free_None:
  "first_free fuel cand taken n = None \<longleftrightarrow> (\<forall>k \<in> {n..<n + fuel}. taken (cand k))"
proof (induction fuel arbitrary: n)
  case (Suc fuel)
  have "{n..<n + Suc fuel} = insert n {Suc n..<Suc n + fuel}" by auto
  with Suc show ?case by simp
qed simp

lemma first_free_Some:
  "first_free fuel cand taken n = Some x \<Longrightarrow>
     \<exists>k. n \<le> k \<and> k < n + fuel \<and> x = cand k \<and> \<not> taken x \<and> (\<forall>j \<in> {n..<k}. taken (cand j))"
proof (induction fuel arbitrary: n)
  case (Suc fuel)
  show ?case
  proof (cases "taken (cand n)")
    case True
    with Suc.prems have "first_free fuel cand taken (Suc n) = Some x" by simp
    from Suc.IH [OF this] obtain k where k: "Suc n \<le> k" "k < Suc n + fuel" "x = cand k" "\<not> taken x"
      "\<forall>j \<in> {Suc n..<k}. taken (cand j)" by blast
    have "\<forall>j \<in> {n..<k}. taken (cand j)"
    proof
      fix j assume "j \<in> {n..<k}"
      with True k(5) show "taken (cand j)" by (cases "j = n") auto
    qed
    with k show ?thesis by (intro exI [of _ k]) auto
  next
    case False
    with Suc.prems show ?thesis by (intro exI [of _ n]) auto
  qed
qed simp

locale numbering =
  fixes cand :: "'p \<Rightarrow> nat \<Rightarrow> 'a"
  assumes numbered: "2 \<le> i \<Longrightarrow> 2 \<le> j \<Longrightarrow> cand p i = cand p j \<Longrightarrow> i = j"
begin

text \<open>With more rounds than names in use there is a free one.\<close>

lemma free_exists:
  assumes "set used = {x. taken x}" "length used + 2 \<le> fuel"
  shows "\<exists>x. first_free fuel (cand p) taken 1 = Some x"
proof (rule ccontr)
  assume "\<not> ?thesis"
  then have all: "\<forall>k \<in> {1..<1 + fuel}. taken (cand p k)"
    unfolding first_free_None [symmetric] by (cases "first_free fuel (cand p) taken 1") auto
  have "inj_on (cand p) {2..<1 + fuel}" using numbered by (auto simp: inj_on_def)
  then have "card (cand p ` {2..<1 + fuel}) = fuel - 1" by (simp add: card_image)
  moreover have "cand p ` {2..<1 + fuel} \<subseteq> set used" using all assms(1) by auto
  then have "card (cand p ` {2..<1 + fuel}) \<le> card (set used)" by (simp add: card_mono)
  moreover have "card (set used) \<le> length used" by (rule card_length)
  ultimately show False using assms(2) by simp
qed

lemma free_name:
  assumes "set used = {x. taken x}" "length used + 2 \<le> fuel"
  shows "\<exists>x k. first_free fuel (cand p) taken 1 = Some x \<and> \<not> taken x \<and> x = cand p k \<and> 1 \<le> k
    \<and> (\<forall>j \<in> {1..<k}. taken (cand p j))"
proof -
  from free_exists [OF assms] obtain x where x: "first_free fuel (cand p) taken 1 = Some x" ..
  from first_free_Some [OF x] obtain k where "1 \<le> k" "x = cand p k" "\<not> taken x" "\<forall>j \<in> {1..<k}. taken (cand p j)"
    by blast
  with x show ?thesis by blast
qed

end

section \<open>File names\<close>

text \<open>\<open>_safe_filename\<close>: runs of other characters become one underscore.\<close>

definition safe_chr :: "char \<Rightarrow> bool" where
  "safe_chr c \<longleftrightarrow> is_alnum c \<or> c = CHR ''.'' \<or> c = CHR ''_'' \<or> c = CHR ''-''"

definition safe_filename :: "string \<Rightarrow> string" where
  "safe_filename name =
     (let s = rstrip_chars ''_'' (lstrip_chars ''_'' (sub_runs (\<lambda>c. \<not> safe_chr c) ''_'' name))
      in if s = [] then ''image.iso'' else s)"

text \<open>\<open>s.rpartition(".")\<close>: the parts before and after the last dot, the first empty without one.\<close>

definition rpartition_dot :: "string \<Rightarrow> string \<times> string \<times> string" where
  "rpartition_dot s =
     (if CHR ''.'' \<in> set s
      then (let ext = after_last CHR ''.'' s in (take (length s - length ext - 1) s, ''.'', ext))
      else ([], [], s))"

definition file_candidate :: "string \<Rightarrow> nat \<Rightarrow> string" where
  "file_candidate filename n =
     (if n = 1 then filename
      else case rpartition_dot filename of (stem, dot, ext) \<Rightarrow> stem @ ''-'' @ show_nat n @ dot @ ext)"

interpretation file_names: numbering file_candidate
  by unfold_locales (auto simp: file_candidate_def split: prod.splits)

definition unused_filename :: "string list \<Rightarrow> string \<Rightarrow> string option" where
  "unused_filename used filename =
     first_free (length used + 2) (file_candidate filename) (\<lambda>x. x \<in> set used) 1"

section \<open>Catalog entry ids\<close>

definition entry_candidate :: "string \<Rightarrow> nat \<Rightarrow> string" where
  "entry_candidate base n =
     (if n = 1 then base
      else (let sfx = ''-'' @ show_nat n in take (32 - length sfx) base @ sfx))"

lemma after_dash: "after_last CHR ''-'' (u @ CHR ''-'' # show_nat n) = show_nat n"
proof -
  have "CHR ''-'' \<notin> set (show_nat n)" using show_nat_digits [of "CHR ''-''" n] by (auto simp: chr_in_def)
  then have "takeWhile (\<lambda>x. x \<noteq> CHR ''-'') (rev (show_nat n) @ CHR ''-'' # rev u) = rev (show_nat n)"
    by (simp add: takeWhile_tail) (metis set_rev takeWhile_eq_all_conv)
  then show ?thesis by (simp add: after_last_def)
qed

interpretation entry_ids: numbering entry_candidate
proof
  fix i n :: nat and base :: string
  assume "2 \<le> i" "2 \<le> n" "entry_candidate base i = entry_candidate base n"
  then have "after_last CHR ''-'' (entry_candidate base i) = after_last CHR ''-'' (entry_candidate base n)" by simp
  with \<open>2 \<le> i\<close> \<open>2 \<le> n\<close> show "i = n" by (simp add: entry_candidate_def Let_def after_dash)
qed

definition free_entry_id :: "string list \<Rightarrow> string \<Rightarrow> string option" where
  "free_entry_id used base =
     first_free (length used + 2) (entry_candidate base) (\<lambda>x. x \<in> set used) 1"

section \<open>Properties\<close>

text \<open>C40. An uploaded file always gets a name: with finitely many names in use the numbering loop
  ends, at the first candidate nothing else has, so no upload overwrites another image's ISO.\<close>

theorem upload_name_found:
  "\<exists>x k. unused_filename used filename = Some x \<and> x \<notin> set used \<and> x = file_candidate filename k
     \<and> {file_candidate filename j |j. 1 \<le> j \<and> j < k} \<subseteq> set used"
proof -
  have "set used = {x. x \<in> set used}" by simp
  from file_names.free_name [OF this order_refl, of filename] obtain x k where
    "first_free (length used + 2) (file_candidate filename) (\<lambda>x. x \<in> set used) 1 = Some x"
    "x \<notin> set used" "x = file_candidate filename k" "\<forall>j \<in> {1..<k}. file_candidate filename j \<in> set used" by blast
  then show ?thesis unfolding unused_filename_def by (intro exI [of _ x] exI [of _ k]) auto
qed

lemma show_nat_length: "n < 10 ^ d \<Longrightarrow> 0 < d \<Longrightarrow> length (show_nat n) \<le> d"
proof (induction n arbitrary: d rule: show_nat.induct)
  case (1 n)
  show ?case
  proof (cases "n < 10")
    case True
    with 1 show ?thesis by (subst show_nat.simps) simp
  next
    case False
    with 1(2,3) have "1 < d" by (cases "d = 1") auto
    then obtain e where e: "d = Suc e" "0 < e" by (cases d) auto
    with 1(2) have "n div 10 < 10 ^ e" by (simp add: less_mult_imp_div_less mult.commute)
    with 1(1) [OF False] e have "length (show_nat (n div 10)) \<le> e" by blast
    with False e show ?thesis by (subst show_nat.simps) simp
  qed
qed

text \<open>A custom catalog entry always gets an id nothing else has, and it stays within the 32 characters of
  an id whose base does: the loop that cuts the base and numbers it ends, within two rounds more than
  there are ids.\<close>

theorem entry_id_found:
  assumes "length base \<le> 32" "length used < 10 ^ 30"
  shows "\<exists>x. free_entry_id used base = Some x \<and> x \<notin> set used \<and> length x \<le> 32"
proof -
  have "set used = {x. x \<in> set used}" by simp
  from entry_ids.free_exists [OF this order_refl, of base] obtain x where
    x: "first_free (length used + 2) (entry_candidate base) (\<lambda>x. x \<in> set used) 1 = Some x" ..
  from first_free_Some [OF x] obtain k where k: "k < 1 + (length used + 2)" "x = entry_candidate base k" "x \<notin> set used" by blast
  from k(1) assms(2) have "k < 10 ^ 31" by simp
  then have "length (show_nat k) \<le> 31" by (rule show_nat_length) simp
  with k(2) assms(1) have "length x \<le> 32" by (auto simp: entry_candidate_def Let_def min_def)
  with x k(3) show ?thesis unfolding free_entry_id_def by blast
qed

theorem entry_id_found_witness:
  "\<exists>x. free_entry_id [''fedora'', ''fedora-2''] ''fedora'' = Some x \<and> x \<notin> {''fedora'', ''fedora-2''} \<and> length x \<le> 32"
proof -
  have "length ''fedora'' \<le> 32" "length [''fedora'', ''fedora-2''] < 10 ^ 30" by simp_all
  from entry_id_found [OF this] show ?thesis by simp
qed

end
