(* ===== verification/Media.thy ===== *)
theory Media
  imports Models Store Regex
begin

text \<open>
  The first half of \<open>services/images.py\<close>: what an uploaded ISO is and how it will boot.  From the
  listing of an ISO's members: its family, the kernel and initrd to extract, the way its root file
  system reaches the client, the files that must then be on disk; and the texts of the GRUB
  configuration and of the scripts put into a Windows boot image.

  Running the archive tools is not modelled: their listings are arguments, and what they extract
  is named by the results.
\<close>

section \<open>Paths\<close>

definition EXTRACT_SUBDIR :: string where "EXTRACT_SUBDIR = ''os''"

text \<open>\<open>Path(s).name\<close>: the last component, where empty ones and dots are no components.\<close>

definition path_name :: "string \<Rightarrow> string" where
  "path_name s =
     (let parts = filter (\<lambda>p. p \<noteq> [] \<and> p \<noteq> ''.'') (split_on CHR ''/'' s)
      in if parts = [] then [] else last parts)"

text \<open>\<open>dir / name\<close>: an absolute second operand replaces the first.\<close>

definition path_join :: "string \<Rightarrow> string \<Rightarrow> string" where
  "path_join d p = (if prefix ''/'' p then p else d @ ''/'' @ p)"

record dirs =
  BOOTROOT_DIR :: string
  IMAGE_DIR :: string
  NFS_DIR :: string
  SMB_DIR :: string

definition iso_name :: "string \<Rightarrow> string" where
  "iso_name filename =
     (let name = path_name filename
      in if name = [] \<or> name = ''.'' \<or> name = ''..'' then ''invalid-name'' else name)"

definition iso_path :: "dirs \<Rightarrow> string \<Rightarrow> string" where
  "iso_path D filename = path_join (IMAGE_DIR D) (iso_name filename)"

definition dest_dir :: "dirs \<Rightarrow> nat \<Rightarrow> string" where
  "dest_dir D i = path_join (path_join (BOOTROOT_DIR D) EXTRACT_SUBDIR) (show_nat i)"

section \<open>Listings\<close>

text \<open>\<open>out\<close> is the output of \<open>7z -slt l\<close>.\<close>

definition list_7z :: "string \<Rightarrow> string \<Rightarrow> string list" where
  "list_7z path out =
     filter (\<lambda>member. member \<noteq> [] \<and> member \<noteq> path)
       (map (\<lambda>line. strip (drop (length ''Path = '') line))
         (filter (prefix ''Path = '') (splitlines out)))"

text \<open>
  \<open>out\<close> is the output of \<open>bsdtar -tf\<close> (whose failure is the caller's), \<open>out7z\<close> that of 7z or None when
  it fails.
\<close>

definition list_iso :: "string \<Rightarrow> string \<Rightarrow> string option \<Rightarrow> string list" where
  "list_iso path out out7z =
     (let entries = filter (\<lambda>l. l \<noteq> []) (map strip (splitlines out));
          real = filter (\<lambda>e. rstrip_chars ''/'' (lstrip_chars ''./'' e) \<noteq> []) entries
      in if length real \<le> 3
         then (case out7z of Some o7 \<Rightarrow> list_7z path o7 | None \<Rightarrow> entries)
         else entries)"

definition bare :: "string \<Rightarrow> string" where
  "bare entry = lstrip_chars ''./'' entry"

section \<open>Finding files\<close>

text \<open>Patterns are compiled with \<open>IGNORECASE\<close> and an end anchor, and must match the whole name.\<close>

definition dots :: rx where "dots = Star any_chr"
definition segment :: rx where "segment = plus1 (Cls (\<lambda>c. c \<noteq> CHR ''/''))"

definition KERNEL_PATTERNS :: "rx list" where
  "KERNEL_PATTERNS =
     [lit_ci ''casper/vmlinuz'',
      Seq (lit_ci ''live/vmlinuz'') dots,
      lit_ci ''images/pxeboot/vmlinuz'',
      Seq (lit_ci ''isolinux/vmlinuz'') dots,
      Seq (lit_ci ''arch/boot/x86_64/vmlinuz'') dots,
      Seq (lit_ci ''boot/'') (Seq segment (lit_ci ''/loader/linux'')),
      Seq (lit_ci ''boot/vmlinuz'') dots,
      lit_ci ''kernel/vmlinuz'',
      Seq dots (Seq (lit_ci ''/vmlinuz'') dots),
      Seq dots (lit_ci ''/bzimage'')]"

definition INITRD_PATTERNS :: "rx list" where
  "INITRD_PATTERNS =
     [Seq (lit_ci ''casper/initrd'') dots,
      Seq (lit_ci ''live/initrd'') dots,
      Seq (lit_ci ''images/pxeboot/initrd'') dots,
      Seq (lit_ci ''isolinux/initrd'') dots,
      Seq (lit_ci ''arch/boot/x86_64/initramfs'') dots,
      Seq (lit_ci ''boot/'') (Seq segment (lit_ci ''/loader/initrd'')),
      Seq (lit_ci ''boot/initramfs'') dots,
      Seq (lit_ci ''boot/initrd'') dots,
      Seq dots (Seq (lit_ci ''/initrd'') dots),
      Seq dots (Seq (lit_ci ''/initramfs'') dots)]"

fun match_entry :: "string list \<Rightarrow> rx list \<Rightarrow> string option" where
  "match_entry entries [] = None"
| "match_entry entries (pat # pats) =
     (case List.find (\<lambda>e. re_fullmatch (Seq pat AtEnd) (bare e) \<noteq> None) entries of
        Some e \<Rightarrow> Some e
      | None \<Rightarrow> match_entry entries pats)"

definition base_name :: "string \<Rightarrow> string" where
  "base_name entry = after_last CHR ''/'' (bare entry)"

definition PAIR_RE :: rx where
  "PAIR_RE = Seq (lit_ci ''vmlinuz'') (Seq (Grp 1 (Seq (lit ''-'') (plus1 any_chr))) AtEnd)"

definition initrd_rx :: "string \<Rightarrow> rx" where
  "initrd_rx sfx = Seq (lit_ci ''initramfs'') (Seq (lit_ci sfx) (Seq (opt (lit_ci ''.img'')) AtEnd))"

definition pair_initrd :: "string \<Rightarrow> string \<Rightarrow> string list \<Rightarrow> string" where
  "pair_initrd kern initrd entries =
     (case re_match PAIR_RE (base_name kern) of
        None \<Rightarrow> initrd
      | Some mt \<Rightarrow>
          (let sfx = (case group 1 mt of Some s \<Rightarrow> s | None \<Rightarrow> [])
           in case List.find (\<lambda>e. re_fullmatch (initrd_rx sfx) (base_name e) \<noteq> None) entries of
                Some e \<Rightarrow> e
              | None \<Rightarrow> initrd))"

section \<open>Families\<close>

definition norm_entry :: "string \<Rightarrow> string" where
  "norm_entry e = rstrip_chars ''/'' (lstrip_chars ''./'' (lower e))"

definition detect_family :: "string list \<Rightarrow> string" where
  "detect_family entries =
     (let norm = map norm_entry entries
      in if (''boot/xen.gz'' \<in> set norm \<or> ''boot/xen.gz.'' \<in> set norm) \<and> ''install.img'' \<in> set norm
         then ''xcpng''
         else if list_ex (\<lambda>el. el = ''sources/boot.wim'' \<or> el = ''sources/install.wim'' \<or>
                ((after_last CHR ''/'' el = ''bootmgr'' \<or> after_last CHR ''/'' el = ''bootmgr.efi'')
                 \<and> CHR ''/'' \<notin> set el)) norm
         then ''windows''
         else ''linux'')"

definition WINDOWS_FILES :: "(rx \<times> string) list" where
  "WINDOWS_FILES =
     [(lit_ci ''bootmgr'', ''bootmgr''), (lit_ci ''boot/bcd'', ''bcd''),
      (lit_ci ''boot/boot.sdi'', ''boot.sdi''), (lit_ci ''sources/boot.wim'', ''boot.wim'')]"

section \<open>How a live ISO netboots\<close>

record plan =
  needs_nfs :: bool
  http_files :: "(string \<times> string) list"
  plan_args :: string

definition squashfs_rx :: rx where
  "squashfs_rx = Seq (lit_ci ''liveos/squashfs'') (Seq any_chr (lit_ci ''img''))"

definition airootfs_rx :: "string \<Rightarrow> rx" where
  "airootfs_rx ext = Seq (lit_ci ''arch/'') (Seq segment (Seq (lit_ci ''/airootfs'') (Seq any_chr (lit_ci ext))))"

definition netboot_plan :: "string list \<Rightarrow> nat \<Rightarrow> plan" where
  "netboot_plan entries i =
     (let nfsroot = ''${server-ip}:/nfs/'' @ show_nat i;
          base = ''${boot-url}/'' @ EXTRACT_SUBDIR @ ''/'' @ show_nat i;
          joined = join '' '' (map lower entries)
      in if contains ''casper/'' joined then
           \<lparr>needs_nfs = True, http_files = [],
            plan_args = ''boot=casper netboot=nfs nfsroot='' @ nfsroot @ '' ip=dhcp''\<rparr>
         else if contains ''live/'' joined then
           \<lparr>needs_nfs = True, http_files = [],
            plan_args = ''boot=live netboot=nfs nfsroot='' @ nfsroot @ '' ip=dhcp''\<rparr>
         else if contains ''images/pxeboot/'' joined then
           (if contains ''repodata/'' joined
            then \<lparr>needs_nfs = True, http_files = [], plan_args = ''inst.repo=nfs:'' @ nfsroot @ '' ip=dhcp''\<rparr>
            else \<lparr>needs_nfs = True, http_files = [], plan_args = ''inst.stage2=nfs:'' @ nfsroot @ '' ip=dhcp''\<rparr>)
         else case match_entry entries [squashfs_rx] of
           Some squashfs \<Rightarrow>
             \<lparr>needs_nfs = False, http_files = [(squashfs, ''squashfs.img'')],
              plan_args = ''root=live:'' @ base @ ''/squashfs.img rd.live.image ip=dhcp''\<rparr>
         | None \<Rightarrow>
            (case match_entry entries [airootfs_rx ''sfs''] of
               Some sfs \<Rightarrow>
                 (let basedir = hd (split_on CHR ''/'' (bare sfs));
                      sha = (case match_entry entries [airootfs_rx ''sha512''] of
                               Some s \<Rightarrow> [(s, bare s)] | None \<Rightarrow> [])
                  in \<lparr>needs_nfs = False, http_files = (sfs, bare sfs) # sha,
                      plan_args = ''archiso_http_srv='' @ base @ ''/ archisobasedir='' @ basedir
                        @ '' BOOTIF=01-${net0/mac:hexhyp} ip=dhcp''\<rparr>)
             | None \<Rightarrow> \<lparr>needs_nfs = False, http_files = [], plan_args = ''ip=dhcp''\<rparr>))"

section \<open>What must be on disk\<close>

definition INST_RE :: rx where
  "INST_RE = Seq (lit ''inst.'') (Seq (Alt (lit ''repo'') (lit ''stage2''))
     (Seq (lit ''='') (Grp 1 (plus1 (Cls (\<lambda>c. \<not> py_space c))))))"

definition BASEDIR_RE :: rx where
  "BASEDIR_RE = Seq (lit ''archisobasedir='') (Grp 1 (plus1 (Cls (\<lambda>c. \<not> py_space c))))"

text \<open>
  The catalog entry of a netboot image enters through two arguments: the name its live root file
  system is stored under, and the names of its release's extra files, None when there is no entry.
\<close>

definition required_paths :: "dirs \<Rightarrow> string \<Rightarrow> string list option \<Rightarrow> image \<Rightarrow> string list" where
  "required_paths D root_dest extra_dests img =
     (let dest = dest_dir D (img_id img); sid = show_nat (img_id img); args = boot_args img;
          boot = (if kernel_path img = [] then [] else [path_join (BOOTROOT_DIR D) (kernel_path img)])
                 @ (if initrd_path img = [] then [] else [path_join (BOOTROOT_DIR D) (initrd_path img)])
      in boot @
         (if os_family img = ''xcpng'' then
            [path_join dest ''bootx64.efi'', path_join dest ''install.img'']
          else if os_family img = ''windows'' then
            [path_join dest ''bcd'', path_join dest ''boot.sdi'', path_join (SMB_DIR D) sid]
          else
            (if contains ''netboot=nfs'' args then [path_join (NFS_DIR D) sid] else [])
            @ (if img_source img = ''netboot'' then
                 (if variant img = ''live'' \<and> \<not> contains ''netboot=nfs'' args
                  then [path_join dest root_dest]
                  else if variant img \<noteq> ''live''
                  then (case extra_dests of None \<Rightarrow> [] | Some ds \<Rightarrow> map (path_join dest) ds)
                  else [])
               else
                 (case re_search INST_RE args of
                    None \<Rightarrow> []
                  | Some mt \<Rightarrow>
                      if prefix ''nfs:'' (case group 1 mt of Some s \<Rightarrow> s | None \<Rightarrow> [])
                      then [path_join (path_join (path_join (NFS_DIR D) sid) ''images'') ''install.img'']
                      else [path_join (path_join (path_join dest ''tree'') ''images'') ''install.img''])
                 @ (if contains ''rd.live.image'' args then [path_join dest ''squashfs.img''] else []))
            @ (case re_search BASEDIR_RE args of
                 None \<Rightarrow> []
               | Some mt \<Rightarrow> [path_join dest (case group 1 mt of Some s \<Rightarrow> s | None \<Rightarrow> [])])))"

text \<open>\<open>iso_there\<close>: the ISO is on disk; \<open>kernel_url\<close>: the catalog entry downloads its kernel.\<close>

definition missing_message :: "image \<Rightarrow> string list \<Rightarrow> bool \<Rightarrow> bool \<Rightarrow> string" where
  "missing_message img missing kernel_url iso_there =
     (let shown = join '', '' (take 3 missing)
            @ (if 3 < length missing then '', and '' @ show_nat (length missing - 3) @ '' more'' else []);
          lost = ''Boot files are missing ('' @ shown @ '')''
      in if img_source img = ''netboot'' then
           (if variant img = ''live''
            then lost @ ''. Reprocess downloads the live ISO again and rebuilds them.''
            else if kernel_url then lost @ ''. Reprocess downloads them again.''
            else lost @ ''. Reprocess rebuilds them from the saved archive.'')
         else if \<not> iso_there
         then lost @ '' and so is the ISO '' @ img_filename img
              @ '' '' @ [CHR 0xE2, CHR 0x80, CHR 0x94] @ '' upload the ISO again to restore this image.''
         else lost @ ''. The ISO is still here, so Reprocess rebuilds them.'')"

section \<open>Lemmas\<close>

lemma path_name_component: "p = path_name s \<Longrightarrow> p \<noteq> [] \<Longrightarrow> CHR ''/'' \<notin> set p \<and> p \<noteq> ''.''"
proof -
  let ?parts = "filter (\<lambda>p. p \<noteq> [] \<and> p \<noteq> ''.'') (split_on CHR ''/'' s)"
  assume "p = path_name s" "p \<noteq> []"
  then have "?parts \<noteq> []" "p = last ?parts" by (auto simp: path_name_def Let_def split: if_splits)
  then have "p \<in> set ?parts" by (metis last_in_set)
  then show ?thesis using split_on_free by auto
qed

lemma mat_lit_ci [simp]: "mat (lit_ci s) pre w post \<longleftrightarrow> map lower_chr w = map lower_chr s"
proof (induction s arbitrary: pre w)
  case (Cons c s)
  then show ?case by (cases w) (auto simp: mat_seq_cls)
qed (auto simp: mat_simps)

text \<open>Equality up to the case of letters.\<close>

definition same_ci :: "string \<Rightarrow> string \<Rightarrow> bool" where
  "same_ci a b \<longleftrightarrow> map lower_chr a = map lower_chr b"

lemma same_ci_append: "same_ci s (a @ b) \<longleftrightarrow> (\<exists>u v. s = u @ v \<and> same_ci u a \<and> same_ci v b)"
  unfolding same_ci_def by (simp add: map_eq_append_conv) metis

lemma same_ci_Nil [simp]: "same_ci s [] \<longleftrightarrow> s = []"
  by (simp add: same_ci_def)

lemma mat_ci: "mat (lit_ci s) pre w post \<longleftrightarrow> same_ci w s"
  by (simp add: same_ci_def)

lemma mat_ci_then:
  "mat (Seq (lit_ci s) r) pre w post \<longleftrightarrow> (\<exists>u v. w = u @ v \<and> same_ci u s \<and> mat r (rev u @ pre) v post)"
proof -
  have "mat (Seq a r) pre w post \<longleftrightarrow> (\<exists>u v. w = u @ v \<and> mat a pre u (v @ post) \<and> mat r (rev u @ pre) v post)" for a
    by (auto simp: mat_simps)
  then show ?thesis by (simp only: mat_ci)
qed

lemma mat_end: "mat (Seq r AtEnd) pre w [] \<longleftrightarrow> mat r pre w []"
  by (auto simp: mat_simps)

lemma initrd_rx_iff:
  "re_fullmatch (initrd_rx sfx) s \<noteq> None \<longleftrightarrow>
     same_ci s (''initramfs'' @ sfx) \<or> same_ci s (''initramfs'' @ sfx @ ''.img'')"
proof -
  have "(\<exists>u v. w = u @ v \<and> same_ci u sfx \<and> (same_ci v i \<or> v = [])) \<longleftrightarrow>
        same_ci w sfx \<or> same_ci w (sfx @ i)" for w i
    unfolding same_ci_append [of w] by (simp add: conj_disj_distribL ex_disj_distrib) metis
  then show ?thesis
    unfolding fullmatch_iff initrd_rx_def mat_ci_then mat_end mat_opt mat_ci same_ci_append [of s]
    by (simp only: conj_disj_distribL ex_disj_distrib)
qed

subsection \<open>Names\<close>

lemma path_name_no_slash: "CHR ''/'' \<notin> set (path_name s)"
  using path_name_component [of "path_name s" s] by fastforce

text \<open>The ISO file of an image is always a direct child of the image directory, whatever the
  file name in the database says: its name is one path component, and neither empty nor a step to
  the directory itself or its parent.\<close>

theorem iso_path_stays_inside:
  "\<exists>name. iso_path D filename = IMAGE_DIR D @ ''/'' @ name \<and> name \<noteq> [] \<and> CHR ''/'' \<notin> set name
     \<and> name \<noteq> ''.'' \<and> name \<noteq> ''..''"
proof -
  let ?n = "iso_name filename"
  have n: "?n \<noteq> [] \<and> CHR ''/'' \<notin> set ?n \<and> ?n \<noteq> ''.'' \<and> ?n \<noteq> ''..''"
    using path_name_no_slash [of filename] by (simp add: iso_name_def Let_def)
  then have "iso_path D filename = IMAGE_DIR D @ ''/'' @ ?n"
    by (cases ?n) (auto simp: iso_path_def path_join_def)
  with n show ?thesis by blast
qed

subsection \<open>Finding files\<close>

definition names :: "rx \<Rightarrow> string \<Rightarrow> bool" where
  "names pat e \<longleftrightarrow> mat pat [] (bare e) []"

lemma names_iff: "re_fullmatch (Seq pat AtEnd) (bare e) \<noteq> None \<longleftrightarrow> names pat e"
  by (simp only: fullmatch_iff mat_end names_def)

lemma match_entry_Cons:
  "match_entry entries (pat # pats) =
     (case List.find (names pat) entries of Some e \<Rightarrow> Some e | None \<Rightarrow> match_entry entries pats)"
  unfolding match_entry.simps names_iff by (rule refl)

lemma match_entry_None:
  "match_entry entries pats = None \<longleftrightarrow> (\<forall>pat \<in> set pats. \<forall>e \<in> set entries. \<not> names pat e)"
proof (induction pats)
  case (Cons p pats)
  have "match_entry entries (p # pats) = None \<longleftrightarrow>
        List.find (names p) entries = None \<and> match_entry entries pats = None"
    by (simp add: match_entry_Cons del: match_entry.simps(2) split: option.split)
  with Cons.IH show ?case by (auto simp: find_None_iff)
qed simp

lemma find_split:
  "List.find P xs = Some x \<longleftrightarrow> (\<exists>ys zs. xs = ys @ x # zs \<and> P x \<and> (\<forall>y \<in> set ys. \<not> P y))"
proof (induction xs)
  case (Cons a xs)
  show ?case
  proof (cases "P a")
    case True
    then show ?thesis by (auto simp: Cons_eq_append_conv)
  next
    case False
    have "(\<exists>ys zs. a # xs = ys @ x # zs \<and> P x \<and> (\<forall>y \<in> set ys. \<not> P y)) \<longleftrightarrow>
          (\<exists>ys zs. xs = ys @ x # zs \<and> P x \<and> (\<forall>y \<in> set ys. \<not> P y))"
    proof
      assume "\<exists>ys zs. a # xs = ys @ x # zs \<and> P x \<and> (\<forall>y \<in> set ys. \<not> P y)"
      with False show "\<exists>ys zs. xs = ys @ x # zs \<and> P x \<and> (\<forall>y \<in> set ys. \<not> P y)"
        by (auto simp: Cons_eq_append_conv)
    next
      assume "\<exists>ys zs. xs = ys @ x # zs \<and> P x \<and> (\<forall>y \<in> set ys. \<not> P y)"
      then obtain ys zs where "xs = ys @ x # zs" "P x" "\<forall>y \<in> set ys. \<not> P y" by blast
      with False have "a # xs = (a # ys) @ x # zs \<and> P x \<and> (\<forall>y \<in> set (a # ys). \<not> P y)" by simp
      then show "\<exists>ys zs. a # xs = ys @ x # zs \<and> P x \<and> (\<forall>y \<in> set ys. \<not> P y)" by blast
    qed
    with False Cons.IH show ?thesis by simp
  qed
qed simp

lemma match_entry_first:
  "match_entry entries pats = Some e \<Longrightarrow>
     (\<exists>ps pat qs. pats = ps @ pat # qs \<and> match_entry entries ps = None \<and> List.find (names pat) entries = Some e)"
proof (induction pats)
  case (Cons p pats)
  show ?case
  proof (cases "List.find (names p) entries")
    case None
    with Cons obtain ps pat qs where "pats = ps @ pat # qs" "match_entry entries ps = None"
      "List.find (names pat) entries = Some e" by (auto simp: match_entry_Cons simp del: match_entry.simps(2))
    with None have "p # pats = (p # ps) @ pat # qs \<and> match_entry entries (p # ps) = None"
      by (simp add: match_entry_Cons del: match_entry.simps(2))
    with \<open>List.find (names pat) entries = Some e\<close> show ?thesis by blast
  next
    case (Some e')
    with Cons.prems have "List.find (names p) entries = Some e"
      by (simp add: match_entry_Cons del: match_entry.simps(2))
    then show ?thesis by (metis append_Nil match_entry.simps(1))
  qed
qed simp

lemma match_entry_later:
  "match_entry entries ps = None \<Longrightarrow> match_entry entries (ps @ qs) = match_entry entries qs"
  by (induction ps) (auto simp: match_entry_Cons simp del: match_entry.simps(2) split: option.splits)

text \<open>The kernel and the initrd of an ISO are the first by pattern, then by place in the listing:
  a member is chosen exactly when it matches a pattern, no member matches an earlier pattern, and no
  member listed before it matches the same one.\<close>

theorem match_entry_priority:
  "match_entry entries pats = Some e \<longleftrightarrow>
     (\<exists>ps pat qs before after. pats = ps @ pat # qs \<and> entries = before @ e # after \<and> names pat e
        \<and> filter (names pat) before = [] \<and> filter (\<lambda>x. list_ex (\<lambda>p. names p x) ps) entries = [])"
  (is "?L \<longleftrightarrow> ?R")
proof
  have none: "match_entry entries ps = None \<longleftrightarrow> filter (\<lambda>x. list_ex (\<lambda>p. names p x) ps) entries = []" for ps
    by (auto simp: match_entry_None filter_empty_conv list_ex_iff)
  {
    assume ?L
    from match_entry_first [OF this] obtain ps pat qs where "pats = ps @ pat # qs"
      "match_entry entries ps = None" "List.find (names pat) entries = Some e" by blast
    then show ?R unfolding find_split none filter_empty_conv by blast
  next
    assume ?R
    then obtain ps pat qs bs cs where r: "pats = ps @ pat # qs" "entries = bs @ e # cs" "names pat e"
      "filter (names pat) bs = []" "match_entry entries ps = None" unfolding none by blast
    then have "List.find (names pat) entries = Some e" unfolding find_split filter_empty_conv by blast
    with r(1,5) show ?L by (simp add: match_entry_later match_entry_Cons del: match_entry.simps(2))
  }
qed

subsection \<open>Pairing kernel and initrd\<close>

lemma m_lit_ci:
  "m (lit_ci s) (pre, w, g) =
     (if same_ci (take (length s) w) s then [(rev (take (length s) w) @ pre, drop (length s) w, g)] else [])"
proof (induction s arbitrary: pre w)
  case (Cons c s)
  then show ?case by (cases w) (auto simp: same_ci_def)
qed (simp add: same_ci_def)

text \<open>The flavour of a kernel name: what follows \<open>vmlinuz\<close>, when it starts with a dash and goes on.\<close>

definition flavour_of :: "string \<Rightarrow> string option" where
  "flavour_of k =
     (if same_ci (take 7 k) ''vmlinuz'' \<and> prefix ''-'' (drop 7 k) \<and> 8 < length k then Some (drop 7 k) else None)"

lemma m_dash_run:
  assumes "NL \<notin> set w" "w \<noteq> []"
  shows "\<exists>ts. m (Seq (Grp 1 (Seq (lit ''-'') (plus1 any_chr))) AtEnd) (pre, CHR ''-'' # w, g) =
     (rev w @ CHR ''-'' # pre, [], (1, CHR ''-'' # w) # g) # ts"
proof -
  have all: "list_all (\<lambda>c. c \<noteq> NL) w" using assms(1) by (induction w) auto
  have "m (plus1 any_chr) (CHR ''-'' # pre, w @ [], g) = runs 1 (CHR ''-'' # pre) w [] g"
    unfolding any_chr_def by (rule m_plus_run [OF all assms(2)]) simp
  also have "\<dots> = (rev w @ CHR ''-'' # pre, [], g) #
      map (\<lambda>k. (rev (take k w) @ CHR ''-'' # pre, drop k w @ [], g)) (rev [1..<length w])"
    using assms(2) by (simp add: runs_first Suc_le_eq)
  finally obtain ts where ts: "m (plus1 any_chr) (CHR ''-'' # pre, w, g) = (rev w @ CHR ''-'' # pre, [], g) # ts"
    by simp
  show ?thesis by (simp add: ts)
qed

lemma pair_re_flavour:
  assumes "NL \<notin> set k"
  shows "map_option (\<lambda>mt. case group 1 mt of Some s \<Rightarrow> s | None \<Rightarrow> []) (re_match PAIR_RE k) = flavour_of k"
proof (cases "same_ci (take 7 k) ''vmlinuz''")
  have seven: "length ''vmlinuz'' = 7" by simp
  case False
  then have "m PAIR_RE ([], k, []) = []"
    unfolding PAIR_RE_def m.simps(3) [of _ _ "([], k, [])"] m_lit_ci seven by (simp only: if_False list.map concat.simps)
  then have "re_match PAIR_RE k = None" unfolding re_match_def by (simp only: list.case)
  moreover have "flavour_of k = None" unfolding flavour_of_def using False by simp
  ultimately show ?thesis by simp
next
  have seven: "length ''vmlinuz'' = 7" by simp
  case True
  let ?rest = "Seq (Grp 1 (Seq (lit ''-'') (plus1 any_chr))) AtEnd"
  have start: "m PAIR_RE ([], k, []) = m ?rest (rev (take 7 k), drop 7 k, [])"
    unfolding PAIR_RE_def m.simps(3) [of _ _ "([], k, [])"] m_lit_ci seven
    using True by (simp only: if_True list.map concat.simps append_Nil2)
  show ?thesis
  proof (cases "prefix ''-'' (drop 7 k) \<and> 8 < length k")
    case False
    have "m ?rest (rev (take 7 k), drop 7 k, []) = []"
    proof (cases "drop 7 k")
      case (Cons c w)
      then have "length (drop 7 k) = Suc (length w)" by simp
      then have "length k = 8 + length w" by simp
      with False Cons show ?thesis by (cases w) (auto simp: any_chr_def plus1_def)
    qed simp
    then have "re_match PAIR_RE k = None" unfolding re_match_def start by (simp only: list.case)
    moreover have "flavour_of k = None" unfolding flavour_of_def using False by simp
    ultimately show ?thesis by simp
  next
    case dash: True
    then obtain w where w: "drop 7 k = CHR ''-'' # w" by (auto simp: prefix_def)
    then have "length (drop 7 k) = Suc (length w)" by simp
    with dash have "w \<noteq> []" by auto
    moreover have "NL \<notin> set w" using assms w by (metis in_set_dropD list.set_intros(2))
    ultimately have "\<exists>ts. m ?rest (rev (take 7 k), drop 7 k, []) =
        (rev w @ CHR ''-'' # rev (take 7 k), [], [(1, CHR ''-'' # w)]) # ts"
      using m_dash_run [of w "rev (take 7 k)" "[]"] unfolding w by blast
    then obtain ts where "m ?rest (rev (take 7 k), drop 7 k, []) =
        (rev w @ CHR ''-'' # rev (take 7 k), [], [(1, CHR ''-'' # w)]) # ts" ..
    then have "re_match PAIR_RE k = Some (to_match 0 (rev w @ CHR ''-'' # rev (take 7 k), [], [(1, CHR ''-'' # w)]))"
      unfolding re_match_def start by (simp only: list.case)
    moreover have "flavour_of k = Some (CHR ''-'' # w)"
      unfolding flavour_of_def using True dash w by simp
    ultimately show ?thesis by (simp add: to_match_def group_def)
  qed
qed

lemma base_name_no_NL: "NL \<notin> set kern \<Longrightarrow> NL \<notin> set (base_name kern)"
  unfolding base_name_def after_last_def bare_def lstrip_chars_def
  by (auto dest!: set_takeWhileD set_dropWhileD)

text \<open>A kernel of a named flavour gets the initrd of the same flavour: with a kernel named
  \<open>vmlinuz-X\<close> the initrd is the first member named \<open>initramfs-X\<close> or \<open>initramfs-X.img\<close>, up to case,
  in any directory; a kernel without a flavour, or a flavour without an initrd, keeps the initrd
  that was found before.\<close>

theorem pair_initrd_same_flavour:
  assumes "NL \<notin> set kern"
  shows "pair_initrd kern initrd entries =
     (case flavour_of (base_name kern) of
        None \<Rightarrow> initrd
      | Some x \<Rightarrow>
          (case List.find (\<lambda>e. same_ci (base_name e) (''initramfs'' @ x)
                             \<or> same_ci (base_name e) (''initramfs'' @ x @ ''.img'')) entries of
             Some e \<Rightarrow> e
           | None \<Rightarrow> initrd))"
  unfolding pair_initrd_def initrd_rx_iff Let_def pair_re_flavour [OF base_name_no_NL [OF assms], symmetric]
  by (cases "re_match PAIR_RE (base_name kern)") (simp_all only: option.simps)

theorem pair_initrd_same_flavour_witness:
  "pair_initrd ''arch/boot/vmlinuz-linux-lts'' ''arch/boot/initramfs-linux.img''
     [''arch/boot/initramfs-linux.img'', ''arch/boot/initramfs-linux-lts.img''] = ''arch/boot/initramfs-linux-lts.img''"
proof -
  have "NL \<notin> set ''arch/boot/vmlinuz-linux-lts''" by code_simp
  from pair_initrd_same_flavour [OF this] show ?thesis by code_simp
qed

subsection \<open>Families\<close>

lemma after_last_whole: "c \<notin> set s \<Longrightarrow> after_last c s = s"
  unfolding after_last_def by (subst takeWhile_eq_all_conv [THEN iffD2]) auto

text \<open>The family of an ISO depends only on which members it has, not on their order or number:
  XCP-ng needs both the Xen kernel and the installer image, Windows one of four members at fixed
  places, so a \<open>bootmgr\<close> or \<open>efibootmgr\<close> inside a package directory makes no ISO a Windows one;
  everything else is Linux.\<close>

theorem family_by_markers:
  "detect_family entries =
     (if (''boot/xen.gz'' \<in> norm_entry ` set entries \<or> ''boot/xen.gz.'' \<in> norm_entry ` set entries)
         \<and> ''install.img'' \<in> norm_entry ` set entries
      then ''xcpng''
      else if norm_entry ` set entries
                \<inter> {''sources/boot.wim'', ''sources/install.wim'', ''bootmgr'', ''bootmgr.efi''} \<noteq> {}
      then ''windows''
      else ''linux'')"
proof -
  have marker: "(el = ''sources/boot.wim'' \<or> el = ''sources/install.wim'' \<or>
      ((after_last CHR ''/'' el = ''bootmgr'' \<or> after_last CHR ''/'' el = ''bootmgr.efi'') \<and> CHR ''/'' \<notin> set el))
    \<longleftrightarrow> el \<in> {''sources/boot.wim'', ''sources/install.wim'', ''bootmgr'', ''bootmgr.efi''}" for el
  proof (cases "CHR ''/'' \<in> set el")
    case True
    have "CHR ''/'' \<notin> set ''bootmgr''" "CHR ''/'' \<notin> set ''bootmgr.efi''" by code_simp+
    with True have "el \<noteq> ''bootmgr''" "el \<noteq> ''bootmgr.efi''" by metis+
    with True show ?thesis by (simp only: insert_iff empty_iff simp_thms)
  next
    case False
    then show ?thesis by (simp only: after_last_whole insert_iff empty_iff simp_thms)
  qed
  show ?thesis
    unfolding detect_family_def Let_def marker list_ex_iff set_map by (simp only: Int_iff ex_in_conv [symmetric] Bex_def)
qed

subsection \<open>The files a plan needs\<close>

lemma search_skip:
  "list_all (\<lambda>x. x \<noteq> c) w \<Longrightarrow>
     search_from (Seq (lit (c # s)) r) pre (w @ cs) = search_from (Seq (lit (c # s)) r) (rev w @ pre) cs"
  by (induction w arbitrary: pre) auto

lemma m_lit_other: "\<not> prefix s cs \<Longrightarrow> m (lit s) (pre, cs, g) = []"
  by (induction s arbitrary: pre cs) (auto simp: Cons_prefix_Cons split: list.splits)

lemma search_miss:
  "\<not> prefix s (x # cs) \<Longrightarrow> search_from (Seq (lit s) r) pre (x # cs) = search_from (Seq (lit s) r) (x # pre) cs"
  by (simp add: m_lit_other)

lemma grp_run:
  assumes "list_all P w" "w \<noteq> []" "post = [] \<or> \<not> P (hd post)"
  shows "\<exists>p ts. m (Grp 1 (plus1 (Cls P))) (pre, w @ post, g) = (p, post, (1, w) # g) # ts"
  using m_plus_run [OF assms, of pre g] assms(2) by (simp add: runs_first Suc_le_eq)

lemma search_found:
  assumes "m r (pre, cs, []) = (p, q, (1, w) # g) # ts"
  shows "map_option (\<lambda>(k, t). group 1 (to_match k t)) (search_from r pre cs) = Some (Some w)"
  using assms by (cases cs) (simp_all add: to_match_def group_def)

definition searched :: "rx \<Rightarrow> string \<Rightarrow> string \<Rightarrow> bool" where
  "searched r s w \<longleftrightarrow> (\<exists>mt. re_search r s = Some mt \<and> group 1 mt = Some w)"

lemma searchedI:
  "map_option (\<lambda>(k, t). group 1 (to_match k t)) (search_from r [] s) = Some (Some w) \<Longrightarrow> searched r s w"
  by (cases "search_from r [] s") (auto simp: searched_def re_search_def split: prod.splits)

lemma basedir_found:
  assumes "list_all (\<lambda>x. x \<noteq> CHR ''a'') u" "list_all (\<lambda>c. \<not> py_space c) b" "b \<noteq> []"
  shows "searched BASEDIR_RE (''archiso_http_srv='' @ u @ '' archisobasedir='' @ b @ CHR '' '' # post) b"
proof (rule searchedI)
  let ?g = "Grp 1 (plus1 (Cls (\<lambda>c. \<not> py_space c)))"
  let ?tail = "''archisobasedir='' @ b @ CHR '' '' # post"
  let ?skip = "''rchiso_http_srv='' @ u @ '' ''"
  have args: "''archiso_http_srv='' @ u @ '' archisobasedir='' @ b @ CHR '' '' # post = CHR ''a'' # ?skip @ ?tail"
    by simp
  have hit: "\<exists>p ts. m BASEDIR_RE (pre, ?tail, []) = (p, CHR '' '' # post, [(1, b)]) # ts" for pre
  proof -
    have "CHR '' '' # post = [] \<or> \<not> \<not> py_space (hd (CHR '' '' # post))" by (simp add: py_space_def)
    from grp_run [OF assms(2,3) this, of "rev ''archisobasedir='' @ pre" "[]"]
    show ?thesis unfolding BASEDIR_RE_def m.simps(3) [of _ _ "(pre, ?tail, [])"] m_lit
      by (simp only: list.map concat.simps append_Nil2)
  qed
  have "search_from BASEDIR_RE [] (CHR ''a'' # ?skip @ ?tail) = search_from BASEDIR_RE ''a'' (?skip @ ?tail)"
    unfolding BASEDIR_RE_def by (rule search_miss) simp
  also have "\<dots> = search_from BASEDIR_RE (rev ?skip @ ''a'') ?tail"
    unfolding BASEDIR_RE_def by (rule search_skip) (use assms(1) in simp)
  finally have "search_from BASEDIR_RE [] (CHR ''a'' # ?skip @ ?tail) = search_from BASEDIR_RE (rev ?skip @ ''a'') ?tail" .
  moreover obtain p ts where "m BASEDIR_RE (rev ?skip @ ''a'', ?tail, []) = (p, CHR '' '' # post, [(1, b)]) # ts"
    using hit by blast
  ultimately show "map_option (\<lambda>(k, t). group 1 (to_match k t))
      (search_from BASEDIR_RE [] (''archiso_http_srv='' @ u @ '' archisobasedir='' @ b @ CHR '' '' # post)) = Some (Some b)"
    unfolding args using search_found by metis
qed

lemma inst_found:
  assumes "k = ''repo'' \<or> k = ''stage2''" "list_all (\<lambda>c. \<not> py_space c) w" "w \<noteq> []"
  shows "searched INST_RE (''inst.'' @ k @ CHR ''='' # w @ CHR '' '' # post) w"
proof (rule searchedI)
  let ?g = "Grp 1 (plus1 (Cls (\<lambda>c. \<not> py_space c)))"
  have "CHR '' '' # post = [] \<or> \<not> \<not> py_space (hd (CHR '' '' # post))" by (simp add: py_space_def)
  from grp_run [OF assms(2,3) this] obtain p ts where
    run: "m ?g (CHR ''='' # rev (''inst.'' @ k), w @ CHR '' '' # post, []) = (p, CHR '' '' # post, [(1, w)]) # ts" by blast
  have "m INST_RE ([], ''inst.'' @ k @ CHR ''='' # w @ CHR '' '' # post, []) =
        m ?g (CHR ''='' # rev (''inst.'' @ k), w @ CHR '' '' # post, [])"
    using assms(1) unfolding INST_RE_def by (elim disjE) (simp_all del: m.simps(6))
  with run show "map_option (\<lambda>(k, t). group 1 (to_match k t))
      (search_from INST_RE [] (''inst.'' @ k @ CHR ''='' # w @ CHR '' '' # post)) = Some (Some w)"
    by (intro search_found [where ts = ts]) simp
qed

lemma lower_slash: "lower_chr c = CHR ''/'' \<Longrightarrow> c = CHR ''/''"
proof -
  assume slash: "lower_chr c = CHR ''/''"
  show "c = CHR ''/''"
  proof (rule ccontr)
    assume "c \<noteq> CHR ''/''"
    with slash have "char_of (code c + 32) = CHR ''/''" and up: "65 \<le> code c" "code c \<le> 222"
      by (auto simp: lower_chr_def is_upper_def chr_in_def split: if_splits)
    then have "code (char_of (code c + 32)) = (47 :: nat)" by simp
    with up show False by simp
  qed
qed

lemma airootfs_path:
  assumes "names (airootfs_rx ext) e"
  shows "\<exists>a rest. bare e = a @ CHR ''/'' # rest \<and> same_ci a ''arch''"
proof -
  obtain u v where uv: "bare e = u @ v" "same_ci u ''arch/''"
    using assms unfolding names_def airootfs_rx_def mat_ci_then by blast
  have "''arch/'' = ''arch'' @ ''/''" by simp
  with uv(2) obtain a b where "u = a @ b" "same_ci a ''arch''" "same_ci b ''/''"
    by (metis same_ci_append)
  moreover have "b = ''/''"
  proof -
    have "lower_chr CHR ''/'' = CHR ''/''" by code_simp
    with \<open>same_ci b ''/''\<close> obtain c where "b = [c]" "lower_chr c = CHR ''/''" by (auto simp: same_ci_def)
    with lower_slash show ?thesis by simp
  qed
  ultimately show ?thesis using uv(1) by auto
qed

lemma lower_arch: "map lower_chr ''arch'' = ''arch''"
  by code_simp

lemma arch_chars:
  assumes "same_ci a ''arch''"
  shows "CHR ''.'' \<notin> set a \<and> CHR ''f'' \<notin> set a"
proof -
  have "lower_chr ` set a = set ''arch''" using assms unfolding same_ci_def
    by (metis set_map lower_arch)
  moreover have "lower_chr CHR ''.'' \<notin> set ''arch''" "lower_chr CHR ''f'' \<notin> set ''arch''" by code_simp+
  ultimately show ?thesis by (metis imageI)
qed

lemma arch_name:
  assumes "same_ci a ''arch''"
  shows "a \<noteq> [] \<and> CHR ''/'' \<notin> set a \<and> list_all (\<lambda>c. \<not> py_space c) a"
proof -
  have "map lower_chr ''arch'' = ''arch''" by code_simp
  then have "lower_chr ` set a = set ''arch''" using assms unfolding same_ci_def by (metis set_map)
  then have "lower_chr c \<in> {CHR ''a'', CHR ''r'', CHR ''c'', CHR ''h''}" if "c \<in> set a" for c
    using that by auto
  moreover have "lower_chr c = c" if "py_space c" for c
    using that by (auto simp: py_space_def lower_chr_def is_upper_def chr_in_def)
  moreover have "\<not> py_space d" if "d \<in> {CHR ''a'', CHR ''r'', CHR ''c'', CHR ''h''}" for d
    using that by (auto simp: py_space_def)
  moreover have "lower_chr CHR ''/'' \<notin> {CHR ''a'', CHR ''r'', CHR ''c'', CHR ''h''}" by code_simp
  moreover have "a \<noteq> []" using assms by (auto simp: same_ci_def)
  ultimately show ?thesis unfolding list_all_iff by metis
qed

text \<open>The extra files beyond kernel and initrd, by what the boot arguments hold.\<close>

lemma required_linux:
  fixes img :: image and D :: dirs
  assumes "os_family img = ''linux''" "img_source img \<noteq> ''netboot''"
  defines "dest \<equiv> dest_dir D (img_id img)" and "nfs \<equiv> path_join (NFS_DIR D) (show_nat (img_id img))"
  shows required_netboot: "contains ''netboot=nfs'' (boot_args img) \<Longrightarrow> nfs \<in> set (required_paths D rd ex img)"
    and required_inst: "searched INST_RE (boot_args img) w \<Longrightarrow> prefix ''nfs:'' w \<Longrightarrow>
           path_join (path_join nfs ''images'') ''install.img'' \<in> set (required_paths D rd ex img)"
    and required_live: "contains ''rd.live.image'' (boot_args img) \<Longrightarrow> path_join dest ''squashfs.img'' \<in> set (required_paths D rd ex img)"
    and required_basedir: "searched BASEDIR_RE (boot_args img) w \<Longrightarrow> path_join dest w \<in> set (required_paths D rd ex img)"
proof -
  have family: "(os_family img = ''xcpng'') = False" "(os_family img = ''windows'') = False"
    "(img_source img = ''netboot'') = False" using assms(1,2) by simp_all
  show "contains ''netboot=nfs'' (boot_args img) \<Longrightarrow> nfs \<in> set (required_paths D rd ex img)"
    unfolding dest_def nfs_def required_paths_def Let_def family if_False
    by (simp only: if_True set_append list.set Un_iff insert_iff simp_thms)
  show "contains ''rd.live.image'' (boot_args img) \<Longrightarrow> path_join dest ''squashfs.img'' \<in> set (required_paths D rd ex img)"
    unfolding dest_def nfs_def required_paths_def Let_def family if_False
    by (simp only: if_True set_append list.set Un_iff insert_iff simp_thms)
  show "path_join (path_join nfs ''images'') ''install.img'' \<in> set (required_paths D rd ex img)"
    if found: "searched INST_RE (boot_args img) w" and nfs: "prefix ''nfs:'' w"
  proof -
    obtain mt where mt: "re_search INST_RE (boot_args img) = Some mt" "group 1 mt = Some w"
      using found unfolding searched_def by blast
    show ?thesis
      unfolding dest_def nfs_def required_paths_def Let_def family if_False mt option.case
      by (simp only: nfs if_True set_append list.set Un_iff insert_iff simp_thms)
  qed
  show "path_join dest w \<in> set (required_paths D rd ex img)" if found: "searched BASEDIR_RE (boot_args img) w"
  proof -
    obtain mt where mt: "re_search BASEDIR_RE (boot_args img) = Some mt" "group 1 mt = Some w"
      using found unfolding searched_def by blast
    show ?thesis
      unfolding dest_def nfs_def required_paths_def Let_def family if_False mt option.case
      by (simp only: set_append list.set Un_iff insert_iff simp_thms)
  qed
qed

lemma bare_no_slash: "\<not> prefix ''/'' (bare e)"
  unfolding bare_def lstrip_chars_def
  by (auto simp: prefix_def dest: dropWhile_eq_Cons_conv [THEN iffD1])

text \<open>The places a plan fills: the unpacked ISO, or the first file taken out of it.\<close>

definition root_in_place :: "dirs \<Rightarrow> nat \<Rightarrow> plan \<Rightarrow> string list \<Rightarrow> bool" where
  "root_in_place D i p req \<longleftrightarrow>
     (let nfs = path_join (NFS_DIR D) (show_nat i)
      in if needs_nfs p
         then nfs \<in> set req \<or> path_join (path_join nfs ''images'') ''install.img'' \<in> set req
         else case http_files p of
           [] \<Rightarrow> True
         | (member, rel) # _ \<Rightarrow>
             path_join (dest_dir D i) rel \<in> set req
             \<or> list_ex (\<lambda>x. prefix (x @ ''/'') (path_join (dest_dir D i) rel)) req)"

lemma root_in_place_nfs:
  "needs_nfs p \<Longrightarrow> path_join (NFS_DIR D) (show_nat i) \<in> set req \<Longrightarrow> root_in_place D i p req"
  "needs_nfs p \<Longrightarrow> path_join (path_join (path_join (NFS_DIR D) (show_nat i)) ''images'') ''install.img'' \<in> set req \<Longrightarrow>
     root_in_place D i p req"
  by (simp_all add: root_in_place_def Let_def)

lemma match_one: "match_entry entries [r] = Some e \<Longrightarrow> names r e"
  unfolding match_entry_Cons by (auto simp: find_Some_iff split: option.splits)

lemma archiso_in_place:
  assumes img: "os_family img = ''linux''" "img_source img \<noteq> ''netboot''" "img_id img = i"
    and e: "names (airootfs_rx ''sfs'') e"
    and args: "boot_args img = ''archiso_http_srv='' @ (''${boot-url}/'' @ EXTRACT_SUBDIR @ ''/'' @ show_nat i)
      @ ''/ archisobasedir='' @ hd (split_on CHR ''/'' (bare e)) @ '' BOOTIF=01-${net0/mac:hexhyp} ip=dhcp''"
  shows "list_ex (\<lambda>x. prefix (x @ ''/'') (path_join (dest_dir D i) (bare e))) (required_paths D rd ex img)"
proof -
  obtain a rest where a: "bare e = a @ CHR ''/'' # rest" "same_ci a ''arch''"
    using airootfs_path [OF e] by blast
  then have base: "hd (split_on CHR ''/'' (bare e)) = a"
    using arch_name [OF a(2)] by (simp add: split_on_append_sep)
  let ?u = "''${boot-url}/os/'' @ show_nat i @ ''/''"
  have "list_all (\<lambda>x. x \<noteq> CHR ''a'') (show_nat i)"
    using show_nat_digits [of _ i] by (fastforce simp: list_all_iff chr_in_def)
  then have u: "list_all (\<lambda>x. x \<noteq> CHR ''a'') ?u" by simp
  have "boot_args img = ''archiso_http_srv='' @ ?u @ '' archisobasedir='' @ a @ CHR '' '' # ''BOOTIF=01-${net0/mac:hexhyp} ip=dhcp''"
    unfolding args base EXTRACT_SUBDIR_def by simp
  then have "searched BASEDIR_RE (boot_args img) a"
    using basedir_found [OF u, of a] arch_name [OF a(2)] by (simp only: simp_thms)
  from required_basedir [OF img(1,2) this]
  have "path_join (dest_dir D i) a \<in> set (required_paths D rd ex img)" by (simp only: img(3))
  moreover have "prefix (path_join (dest_dir D i) a @ ''/'') (path_join (dest_dir D i) (bare e))"
    using bare_no_slash [of e] a(1) arch_name [OF a(2)] unfolding path_join_def
    by (cases a) (simp_all add: Cons_prefix_Cons)
  ultimately show ?thesis unfolding list_ex_iff by blast
qed

lemma inst_in_place:
  assumes img: "os_family img = ''linux''" "img_source img \<noteq> ''netboot''" "img_id img = i"
    and k: "k = ''repo'' \<or> k = ''stage2''"
    and args: "boot_args img = ''inst.'' @ k @ ''=nfs:'' @ (''${server-ip}:/nfs/'' @ show_nat i) @ '' ip=dhcp''"
  shows "path_join (path_join (path_join (NFS_DIR D) (show_nat i)) ''images'') ''install.img''
           \<in> set (required_paths D rd ex img)"
proof -
  let ?w = "''nfs:${server-ip}:/nfs/'' @ show_nat i"
  have "list_all (\<lambda>c. \<not> py_space c) (show_nat i)" using show_nat_plain [of _ i] by (simp add: list_all_iff)
  moreover have "list_all (\<lambda>c. \<not> py_space c) ''nfs:${server-ip}:/nfs/''" by code_simp
  ultimately have "list_all (\<lambda>c. \<not> py_space c) ?w" by (simp only: list_all_append)
  moreover have "boot_args img = ''inst.'' @ k @ CHR ''='' # ?w @ CHR '' '' # ''ip=dhcp''"
    unfolding args by simp
  ultimately have "searched INST_RE (boot_args img) ?w" using inst_found [OF k, of ?w] by simp
  moreover have "prefix ''nfs:'' ?w" by simp
  ultimately show ?thesis using required_inst [OF img(1,2)] img(3) by simp
qed

text \<open>A Linux image whose arguments are those of its ISO's netboot plan counts as bootable only while
  its root file system is in place: the files it requires include the exported tree or the installer
  image in it when the plan unpacks the ISO, and the file the plan serves over HTTP, or the directory
  that holds it, when it takes one out.\<close>

theorem plan_is_checked:
  assumes "os_family img = ''linux''" "img_source img \<noteq> ''netboot''"
    and "boot_args img = plan_args (netboot_plan entries (img_id img))"
  shows "root_in_place D (img_id img) (netboot_plan entries (img_id img)) (required_paths D rd ex img)"
proof -
  let ?i = "img_id img" and ?j = "join '' '' (map lower entries)"
  let ?p = "netboot_plan entries ?i" and ?req = "required_paths D rd ex img"
  note req = required_netboot [OF assms(1,2)] required_live [OF assms(1,2)]
  have has: "contains p (u @ p @ v)" for p u v unfolding contains_iff by blast
  consider (casper) "contains ''casper/'' ?j" | (live) "\<not> contains ''casper/'' ?j" "contains ''live/'' ?j"
    | (inst) "\<not> contains ''casper/'' ?j" "\<not> contains ''live/'' ?j" "contains ''images/pxeboot/'' ?j"
    | (other) "\<not> contains ''casper/'' ?j" "\<not> contains ''live/'' ?j" "\<not> contains ''images/pxeboot/'' ?j" by blast
  then show ?thesis
  proof cases
    case casper
    then have p: "needs_nfs ?p" "plan_args ?p = ''boot=casper '' @ ''netboot=nfs'' @ '' nfsroot=${server-ip}:/nfs/'' @ show_nat ?i @ '' ip=dhcp''"
      by (simp_all add: netboot_plan_def)
    with req(1) assms(3) show ?thesis by (intro root_in_place_nfs(1)) (simp_all only: has)
  next
    case live
    then have p: "needs_nfs ?p" "plan_args ?p = ''boot=live '' @ ''netboot=nfs'' @ '' nfsroot=${server-ip}:/nfs/'' @ show_nat ?i @ '' ip=dhcp''"
      by (simp_all add: netboot_plan_def)
    with req(1) assms(3) show ?thesis by (intro root_in_place_nfs(1)) (simp_all only: has)
  next
    case inst
    let ?k = "if contains ''repodata/'' ?j then ''repo'' else ''stage2''"
    have k: "needs_nfs ?p" "?k = ''repo'' \<or> ?k = ''stage2''"
      "boot_args img = ''inst.'' @ ?k @ ''=nfs:'' @ (''${server-ip}:/nfs/'' @ show_nat ?i) @ '' ip=dhcp''"
      using inst unfolding assms(3) by (simp_all add: netboot_plan_def Let_def)
    from inst_in_place [OF assms(1,2) refl k(2,3)] k(1) show ?thesis by (intro root_in_place_nfs(2))
  next
    case other
    show ?thesis
    proof (cases "match_entry entries [squashfs_rx]")
      case (Some e)
      with other have p: "\<not> needs_nfs ?p" "http_files ?p = [(e, ''squashfs.img'')]"
        "plan_args ?p = (''root=live:${boot-url}/os/'' @ show_nat ?i @ ''/squashfs.img '') @ ''rd.live.image'' @ '' ip=dhcp''"
        by (simp_all add: netboot_plan_def EXTRACT_SUBDIR_def)
      then have "contains ''rd.live.image'' (boot_args img)" unfolding assms(3) by (simp only: has)
      from req(2) [OF this] p(1,2) show ?thesis
        by (simp only: root_in_place_def Let_def if_False list.case prod.case simp_thms)
    next
      case None
      show ?thesis
      proof (cases "match_entry entries [airootfs_rx ''sfs'']")
        case (Some e)
        obtain sha where p: "\<not> needs_nfs ?p" "http_files ?p = (e, bare e) # sha"
          "plan_args ?p = ''archiso_http_srv='' @ (''${boot-url}/'' @ EXTRACT_SUBDIR @ ''/'' @ show_nat ?i)
            @ ''/ archisobasedir='' @ hd (split_on CHR ''/'' (bare e)) @ '' BOOTIF=01-${net0/mac:hexhyp} ip=dhcp''"
          using other None Some unfolding netboot_plan_def Let_def by simp
        from archiso_in_place [OF assms(1,2) refl match_one [OF Some] p(3) [folded assms(3)]] p(1,2)
        show ?thesis by (simp only: root_in_place_def Let_def if_False list.case prod.case simp_thms)
      next
        case none: None
        have "\<not> needs_nfs ?p" "http_files ?p = []"
          using other None none unfolding netboot_plan_def Let_def by simp_all
        then show ?thesis by (simp only: root_in_place_def Let_def if_False list.case)
      qed
    qed
  qed
qed

theorem plan_is_checked_witness:
  "let D = \<lparr>BOOTROOT_DIR = ''/b'', IMAGE_DIR = ''/i'', NFS_DIR = ''/n'', SMB_DIR = ''/s''\<rparr>;
       entries = [''arch/boot/x86_64/vmlinuz-linux'', ''arch/x86_64/airootfs.sfs''];
       img = (image_row 7 ''Arch'' ''arch.iso'')\<lparr>os_family := ''linux'', img_source := ''iso'',
               boot_args := plan_args (netboot_plan entries 7)\<rparr>
   in root_in_place D 7 (netboot_plan entries 7) (required_paths D [] None img)
      \<and> required_paths D [] None img = [''/b/os/7/arch'']"
proof -
  let ?D = "\<lparr>BOOTROOT_DIR = ''/b'', IMAGE_DIR = ''/i'', NFS_DIR = ''/n'', SMB_DIR = ''/s''\<rparr>"
  let ?entries = "[''arch/boot/x86_64/vmlinuz-linux'', ''arch/x86_64/airootfs.sfs'']"
  let ?img = "(image_row 7 ''Arch'' ''arch.iso'')\<lparr>os_family := ''linux'', img_source := ''iso'',
               boot_args := plan_args (netboot_plan ?entries 7)\<rparr>"
  have "os_family ?img = ''linux''" "img_source ?img \<noteq> ''netboot''"
    "boot_args ?img = plan_args (netboot_plan ?entries (img_id ?img))" by (simp_all add: image_row_def)
  from plan_is_checked [OF this, of ?D "[]" None]
  have "root_in_place ?D 7 (netboot_plan ?entries 7) (required_paths ?D [] None ?img)"
    by (simp add: image_row_def)
  moreover have "required_paths ?D [] None ?img = [''/b/os/7/arch'']" by code_simp
  ultimately show ?thesis unfolding Let_def by blast
qed

end
