(* ===== verification/BootScripts.thy ===== *)
theory BootScripts
  imports Media
begin

text \<open>
  The texts \<open>services/images.py\<close> generates for the clients it cannot serve from the menu alone: the
  GRUB configuration of an XCP-ng image, and the scripts and answer file put into the Windows boot
  image.  The server address and the image id are written into them.
\<close>

section \<open>Literals\<close>

text \<open>A literal in which the grave accent stands for the double quote and the caret for the backslash.\<close>

definition dos :: "string \<Rightarrow> string" where
  "dos s = map (\<lambda>c. if c = CHR ''`'' then CHR 0x22 else if c = CHR ''^'' then CHR 0x5C else c) s"

definition CRLF :: string where
  "CRLF = [CR, NL]"

definition crlf_lines :: "string list \<Rightarrow> string" where
  "crlf_lines ls = concat (map (\<lambda>l. l @ CRLF) ls)"

section \<open>GRUB for XCP-ng\<close>

definition XCPNG_DOM0_ARGS :: string where "XCPNG_DOM0_ARGS = ''netinstall console=tty0''"
definition XCPNG_XEN_ARGS :: string where
  "XCPNG_XEN_ARGS = ''dom0_max_vcpus=1-16 dom0_mem=max:8192M console=vga''"

definition grub_cfg :: "nat \<Rightarrow> string \<Rightarrow> string \<Rightarrow> string" where
  "grub_cfg i dom0_args server_ip =
     (let host = (if server_ip = [] then ''${net_default_server}'' else server_ip);
          base = ''(http,'' @ host @ '')/'' @ EXTRACT_SUBDIR @ ''/'' @ show_nat i
      in unlines
        [''set timeout=3'',
         dos ''menuentry `XCP-NG` {'',
         ''    insmod efinet'',
         ''    insmod http'',
         ''    net_bootp'',
         ''    multiboot2 '' @ base @ ''/xen '' @ XCPNG_XEN_ARGS,
         ''    module2 '' @ base @ ''/vmlinuz '' @ dom0_args,
         ''    module2 '' @ base @ ''/install.img'',
         ''}''])"

section \<open>The answer file\<close>

definition LOCAL_DRIVERS :: string where "LOCAL_DRIVERS = dos ''X:^Drivers''"
definition UNATTEND_WINPE_PATH :: string where
  "UNATTEND_WINPE_PATH = dos ''X:^Windows^System32^beacon-unattend.xml''"
definition UNATTEND_WIM_DEST :: string where "UNATTEND_WIM_DEST = ''/Windows/System32/beacon-unattend.xml''"
definition NIC_WIM_DIR :: string where "NIC_WIM_DIR = ''/BeaconNic''"
definition NIC_WINPE_DIR :: string where "NIC_WINPE_DIR = dos ''X:^BeaconNic''"

definition unattend_xml :: string where
  "unattend_xml =
     (let paths = [LOCAL_DRIVERS];
          entries = concat (map (\<lambda>(i, p).
            [dos ''        <PathAndCredentials wcm:action=`add` wcm:keyValue=`'' @ show_nat i @ dos ''`>'',
             ''          <Path>'' @ p @ ''</Path>'',
             ''        </PathAndCredentials>'']) (zip [1..<Suc (length paths)] paths))
      in crlf_lines
        ([dos ''<?xml version=`1.0` encoding=`utf-8`?>'',
          dos ''<unattend xmlns=`urn:schemas-microsoft-com:unattend`>'',
          dos ''  <settings pass=`windowsPE`>'',
          dos ''    <component name=`Microsoft-Windows-Setup`'',
          dos ''               processorArchitecture=`amd64`'',
          dos ''               publicKeyToken=`31bf3856ad364e35` language=`neutral`'',
          dos ''               versionScope=`nonSxS`'',
          dos ''               xmlns:wcm=`http://schemas.microsoft.com/WMIConfig/2002/State`>'',
          ''      <UserData>'',
          ''        <ProductKey>'',
          ''          <Key></Key>'',
          ''        </ProductKey>'',
          ''      </UserData>'',
          ''    </component>'',
          dos ''    <component name=`Microsoft-Windows-PnpCustomizationsWinPE`'',
          dos ''               processorArchitecture=`amd64`'',
          dos ''               publicKeyToken=`31bf3856ad364e35` language=`neutral`'',
          dos ''               versionScope=`nonSxS`'',
          dos ''               xmlns:wcm=`http://schemas.microsoft.com/WMIConfig/2002/State`>'',
          ''      <DriverPaths>'']
         @ entries
         @ [''      </DriverPaths>'',
            ''    </component>'',
            ''  </settings>'',
            ''</unattend>'']))"

definition WINPESHL_INI :: string where
  "WINPESHL_INI = crlf_lines [''[LaunchApps]'', dos ''%SYSTEMDRIVE%^Windows^System32^beacon-setup.cmd'']"

section \<open>The setup script\<close>

definition SMB_SHARE :: string where "SMB_SHARE = ''install''"
definition CAPTURE_SHARE :: string where "CAPTURE_SHARE = ''capture''"
definition SMB_DRIVERS :: string where "SMB_DRIVERS = ''drivers''"

definition driver_lines :: "string \<Rightarrow> string list" where
  "driver_lines drivers_share =
     [''set SETUPOPT='',
      ''net use Z: '' @ drivers_share @ dos '' /user:guest `` >nul 2>&1'',
      dos ''if not exist Z:^ goto nodrv'',
      dos ''dir /b /s Z:^*.inf >nul 2>&1 || goto nodrv'',
      ''echo Staging storage drivers for Setup ...'',
      ''md '' @ LOCAL_DRIVERS @ '' >nul 2>&1'',
      dos ''xcopy Z:^ '' @ LOCAL_DRIVERS @ dos ''^ /E /I /Y /Q >nul'',
      ''set SETUPOPT=/unattend:'' @ UNATTEND_WINPE_PATH,
      '':nodrv'']"

definition capture_lines :: "string \<Rightarrow> nat \<Rightarrow> string list" where
  "capture_lines host i =
     (let cap = dos ''^^'' @ host @ dos ''^'' @ CAPTURE_SHARE;
          bt = dos ''X:^$WINDOWS.~BT^Sources^Panther''
      in ['':capture'',
          ''net use N: '' @ cap @ dos '' /user:guest `` >nul 2>&1'',
          dos ''if not exist N:^ goto capdone'',
          dos ''if `%CAPDIR%`==`` set CAPDIR=N:^img'' @ show_nat i @ ''-%RANDOM%'',
          dos ''md %CAPDIR%^winpe >nul 2>&1'',
          dos ''copy X:^Windows^Panther^setupact.log %CAPDIR%^winpe^ >nul 2>&1'',
          dos ''copy X:^Windows^Panther^setuperr.log %CAPDIR%^winpe^ >nul 2>&1'',
          dos ''xcopy `'' @ bt @ dos ''^*.log` %CAPDIR%^winpe^BT^ /I /Y /Q >nul 2>&1'',
          ''echo Beacon saved the Setup logs. It is safe to power off now.'',
          ''net use N: /delete >nul 2>&1'',
          '':capdone'',
          ''goto :eof''])"

definition mount_lines :: "string \<Rightarrow> string \<Rightarrow> string list" where
  "mount_lines host share =
     [''@echo off'',
      dos ''reg add HKLM^SYSTEM^CurrentControlSet^Control^CrashControl''
        @ '' /v AutoReboot /t REG_DWORD /d 0 /f >nul 2>&1'',
      ''if not exist '' @ NIC_WINPE_DIR @ dos ''^ goto nonicload'',
      ''echo Loading baked-in network drivers ...'',
      ''for /r '' @ NIC_WINPE_DIR @ dos '' %%f in (*.inf) do drvload `%%f`'',
      '':nonicload'',
      ''wpeinit'',
      ''echo Connecting to Beacon install share '' @ share @ '' ...'',
      ''set /a tries=0'',
      '':retry'',
      ''set /a tries+=1'',
      ''net use Y: '' @ share @ dos '' /user:guest ``'',
      dos ''if exist Y:^setup.exe goto run'',
      ''if %tries% geq 40 goto failed'',
      ''echo   mount attempt %tries% failed; retrying in 3s ...'',
      ''ping -n 4 127.0.0.1 >nul'',
      ''goto retry'',
      '':failed'',
      ''echo.'',
      ''echo *** Could not mount the install share after %tries% tries. ***'',
      ''echo Server: '' @ host @ ''   Share: '' @ share,
      ''echo --- ipconfig ---'',
      ''ipconfig'',
      ''echo --- ping '' @ host @ '' ---'',
      ''ping -n 3 '' @ host,
      ''echo Dropping to a prompt so you can diagnose (try the net use by hand).'',
      ''cmd'',
      ''goto end'',
      '':run'']"

definition launch_lines :: "string \<Rightarrow> nat \<Rightarrow> string list" where
  "launch_lines host i =
     [dos ''net use N: ^^'' @ host @ dos ''^'' @ CAPTURE_SHARE @ dos '' /user:guest `` >nul 2>&1'',
      dos ''set CAPDIR=N:^img'' @ show_nat i @ ''-%RANDOM%'',
      ''set COPYLOGS='',
      dos ''if exist N:^ md %CAPDIR% >nul 2>&1'',
      dos ''if exist N:^ set COPYLOGS=/copylogs %CAPDIR%'',
      ''echo Starting Windows Setup ...'',
      dos ''set SETUPEXE=Y:^setup.exe'',
      dos ''if exist Y:^sources^setup.exe set SETUPEXE=Y:^sources^setup.exe'',
      dos ''if not `%SETUPEXE%`==`Y:^setup.exe` set COPYLOGS='',
      ''%SETUPEXE% %SETUPOPT% %COPYLOGS%'',
      ''call :capture'']"

text \<open>The lines of \<open>beacon-setup.cmd\<close>, with the diagnostic switch of the source off, and its text.\<close>

definition setup_lines :: "string \<Rightarrow> nat \<Rightarrow> string list" where
  "setup_lines server_ip i =
     (let host = (if server_ip = [] then ''%SERVER_IP%'' else server_ip);
          share = dos ''^^'' @ host @ dos ''^'' @ SMB_SHARE @ dos ''^'' @ show_nat i;
          drivers = dos ''^^'' @ host @ dos ''^'' @ SMB_SHARE @ dos ''^'' @ SMB_DRIVERS
      in mount_lines host share @ driver_lines drivers @ launch_lines host i
         @ ['':end'', ''goto :eof''] @ capture_lines host i)"

definition beacon_setup_cmd :: "string \<Rightarrow> nat \<Rightarrow> string" where
  "beacon_setup_cmd server_ip i = join CRLF (setup_lines server_ip i) @ CRLF"

section \<open>Patching the boot image\<close>

definition WIM_SETUP_INDEX :: nat where "WIM_SETUP_INDEX = 2"

text \<open>The command list given to wimupdate; \<open>tmp\<close> is the directory the three files were written to.\<close>

definition wim_commands :: "string \<Rightarrow> string \<Rightarrow> bool \<Rightarrow> string" where
  "wim_commands tmp nic_dir with_nic =
     (let q = [CHR 0x27]
      in unlines
        ([''delete --force --recursive '' @ q @ NIC_WIM_DIR @ q,
          ''add '' @ q @ path_join tmp ''beacon-setup.cmd'' @ q @ '' '' @ q @ ''/Windows/System32/beacon-setup.cmd'' @ q,
          ''add '' @ q @ path_join tmp ''winpeshl.ini'' @ q @ '' '' @ q @ ''/Windows/System32/winpeshl.ini'' @ q,
          ''add '' @ q @ path_join tmp ''beacon-unattend.xml'' @ q @ '' '' @ q @ UNATTEND_WIM_DEST @ q]
         @ (if with_nic then [''add '' @ q @ nic_dir @ q @ '' '' @ q @ NIC_WIM_DIR @ q] else [])))"

section \<open>Lines, labels and jumps\<close>

text \<open>
  The lines of the script as \<open>cmd\<close> sees them: a line that starts with a colon is a label, and
  every jump of the script is the last thing on its line: the word \<open>goto\<close> or \<open>call\<close> and its target.
\<close>

definition labels :: "string list \<Rightarrow> string list" where
  "labels ls = map tl (filter (prefix '':'') ls)"

definition last_word :: "string \<Rightarrow> string" where
  "last_word l = after_last CHR '' '' l"

definition jump :: "string \<Rightarrow> string list" where
  "jump l =
     (let target = last_word l; before = rev (drop (length target) (rev l))
      in if prefix (rev ''goto '') (rev before) \<or> prefix (rev ''call '') (rev before)
         then [dropWhile (\<lambda>c. c = CHR '':'') target] else [])"

definition jumps :: "string list \<Rightarrow> string list" where
  "jumps ls = concat (map jump ls)"

lemma dos_NL [simp, line_safe]: "NL \<notin> set s \<Longrightarrow> NL \<notin> set (dos s)"
  by (auto simp: dos_def)

lemma split_crlf:
  "list_all (\<lambda>l. NL \<notin> set l) ls \<Longrightarrow> ls \<noteq> [] \<Longrightarrow>
     split_on NL (join CRLF ls @ CRLF) = map (\<lambda>l. l @ [CR]) ls @ [[]]"
proof (induction CRLF ls rule: join.induct)
  case (2 x)
  then show ?case using split_on_append_sep [of NL "x @ [CR]" "[]"] by (simp add: CRLF_def)
next
  case (3 x y zs)
  then show ?case
    using split_on_append_sep [of NL "x @ [CR]" "join CRLF (y # zs) @ CRLF"] by (simp add: CRLF_def)
qed simp

lemma takeWhile_no_space:
  "CHR '' '' \<notin> set w \<Longrightarrow> takeWhile (\<lambda>x. x \<noteq> CHR '' '') (rev w @ u) = rev w @ takeWhile (\<lambda>x. x \<noteq> CHR '' '') u"
  by (induction w rule: rev_induct) auto

lemma jumps_simps: "jumps [] = []" "jumps (l # ls) = jump l @ jumps ls" "jumps (ls @ ms) = jumps ls @ jumps ms"
  by (simp_all add: jumps_def)

lemma labels_append: "labels (ls @ ms) = labels ls @ labels ms"
  by (simp add: labels_def)

lemma show_nat_no_space [simp]: "CHR '' '' \<notin> set (show_nat i)"
  using show_nat_plain [of "CHR '' ''" i] by (auto simp: py_space_def)

lemmas line_rules = jumps_simps jump_def last_word_def after_last_def takeWhile_no_space Let_def dos_def

lemma mount_labels: "labels (mount_lines host share) = [''nonicload'', ''retry'', ''failed'', ''run'']"
  by (simp add: labels_def mount_lines_def dos_def)

lemma driver_labels: "labels (driver_lines share) = [''nodrv'']"
  by (simp add: labels_def driver_lines_def dos_def)

lemma launch_labels: "labels (launch_lines host i) = []"
  by (simp add: labels_def launch_lines_def dos_def)

lemma capture_labels: "labels (capture_lines host i) = [''capture'', ''capdone'']"
  by (simp add: labels_def capture_lines_def dos_def Let_def)

lemma driver_jumps: "jumps (driver_lines share) = [''nodrv'', ''nodrv'']"
  by (simp add: driver_lines_def line_rules LOCAL_DRIVERS_def UNATTEND_WINPE_PATH_def)

lemma capture_jumps: "jumps (capture_lines host i) = [''capdone'', ''eof'']"
  by (simp add: capture_lines_def line_rules)

lemma launch_jumps: "jumps (launch_lines host i) = [''capture'']"
  by (simp add: launch_lines_def line_rules)

text \<open>The server address and the share stand last or before the last word on some lines; they do not end in
  a jump word.\<close>

definition no_jump_word :: "string \<Rightarrow> bool" where
  "no_jump_word w \<longleftrightarrow> CHR '' '' \<notin> set w \<and> (case rev w of [] \<Rightarrow> False | c # _ \<Rightarrow> c \<noteq> CHR ''o'' \<and> c \<noteq> CHR ''l'')"

lemma no_jump_word_prefix:
  "no_jump_word w \<Longrightarrow> prefix (CHR ''o'' # s) (rev w @ t) = False"
  "no_jump_word w \<Longrightarrow> prefix (CHR ''l'' # s) (rev w @ t) = False"
  by (auto simp: no_jump_word_def split: list.splits)

lemma no_jump_word_ends:
  "CHR '' '' \<notin> set w \<Longrightarrow> d \<noteq> CHR '' '' \<Longrightarrow> d \<noteq> CHR ''o'' \<Longrightarrow> d \<noteq> CHR ''l'' \<Longrightarrow> no_jump_word (w @ [d])"
  by (simp add: no_jump_word_def)

lemma mount_jumps:
  assumes "no_jump_word host" "no_jump_word share"
  shows "jumps (mount_lines host share) = [''nonicload'', ''run'', ''failed'', ''retry'', ''end'']"
proof -
  have "CHR '' '' \<notin> set host" "CHR '' '' \<notin> set share" using assms by (simp_all add: no_jump_word_def)
  then show ?thesis
    by (simp add: mount_lines_def line_rules NIC_WINPE_DIR_def no_jump_word_prefix [OF assms(1)] no_jump_word_prefix [OF assms(2)])
qed

lemma script_NL:
  assumes "NL \<notin> set server_ip"
  shows "list_all (\<lambda>l. NL \<notin> set l) (setup_lines server_ip i)"
  using assms
  by (simp add: setup_lines_def mount_lines_def driver_lines_def launch_lines_def capture_lines_def Let_def
      NIC_WINPE_DIR_def LOCAL_DRIVERS_def UNATTEND_WINPE_PATH_def SMB_SHARE_def CAPTURE_SHARE_def SMB_DRIVERS_def)

lemma no_jump_word_digits:
  assumes "w \<noteq> []" "list_all (\<lambda>c. is_digit c \<or> c = CHR ''.'') w"
  shows "no_jump_word w"
proof -
  obtain v d where w: "w = v @ [d]" using assms(1) by (cases w rule: rev_cases) auto
  then show ?thesis using assms(2) unfolding w
    by (intro no_jump_word_ends) (auto simp: chr_in_def list_all_iff)
qed

text \<open>For a server address of digits and dots, or none, the setup script is what its template says,
  line by line: each line of the template is one line of the file, ended by carriage return and line
  feed; its labels are distinct, and every jump goes to one of them or to the end of the file.\<close>

theorem setup_script_flow:
  assumes "list_all (\<lambda>c. is_digit c \<or> c = CHR ''.'') server_ip"
  shows "split_on NL (beacon_setup_cmd server_ip i) = map (\<lambda>l. l @ [CR]) (setup_lines server_ip i) @ [[]]
    \<and> distinct (labels (setup_lines server_ip i))
    \<and> set (jumps (setup_lines server_ip i)) \<subseteq> insert ''eof'' (set (labels (setup_lines server_ip i)))"
proof -
  let ?host = "if server_ip = [] then ''%SERVER_IP%'' else server_ip"
  let ?share = "dos ''^^'' @ ?host @ dos ''^'' @ SMB_SHARE @ dos ''^'' @ show_nat i"
  let ?drivers = "dos ''^^'' @ ?host @ dos ''^'' @ SMB_SHARE @ dos ''^'' @ SMB_DRIVERS"
  have lines: "setup_lines server_ip i = mount_lines ?host ?share @ driver_lines ?drivers @ launch_lines ?host i
         @ ['':end'', ''goto :eof''] @ capture_lines ?host i"
    unfolding setup_lines_def Let_def by (rule refl)
  have nl: "NL \<notin> set server_ip" using assms by (auto simp: list_all_iff chr_in_def)
  have host: "no_jump_word ?host"
  proof (cases "server_ip = []")
    case True
    have "no_jump_word ''%SERVER_IP%''" by code_simp
    with True show ?thesis by simp
  next
    case False
    from no_jump_word_digits [OF False assms] False show ?thesis by (simp only: if_False)
  qed
  obtain v d where vd: "show_nat i = v @ [d]" by (cases "show_nat i" rule: rev_cases) auto
  then have "is_digit d" "CHR '' '' \<notin> set v" using show_nat_digits [of d i] show_nat_no_space [of i] by auto
  moreover have "?share = (dos ''^^'' @ ?host @ dos ''^'' @ SMB_SHARE @ dos ''^'' @ v) @ [d]" by (simp add: vd)
  moreover have "CHR '' '' \<notin> set ?host" using host by (simp add: no_jump_word_def)
  ultimately have share: "no_jump_word ?share"
    by (simp only:) (intro no_jump_word_ends, auto simp: dos_def SMB_SHARE_def chr_in_def)
  have ends: "labels ['':end'', ''goto :eof''] = [''end'']" "jumps ['':end'', ''goto :eof''] = [''eof'']" by code_simp+
  have ls: "labels (setup_lines server_ip i) =
      [''nonicload'', ''retry'', ''failed'', ''run'', ''nodrv'', ''end'', ''capture'', ''capdone'']"
    unfolding lines labels_append mount_labels driver_labels launch_labels capture_labels ends by simp
  have js: "jumps (setup_lines server_ip i) =
      [''nonicload'', ''run'', ''failed'', ''retry'', ''end'', ''nodrv'', ''nodrv'', ''capture'', ''eof'', ''capdone'', ''eof'']"
    unfolding lines jumps_simps(3) mount_jumps [OF host share] driver_jumps launch_jumps capture_jumps ends by simp
  have "setup_lines server_ip i \<noteq> []" by (simp add: lines mount_lines_def)
  from split_crlf [OF script_NL [OF nl] this]
  have "split_on NL (beacon_setup_cmd server_ip i) = map (\<lambda>l. l @ [CR]) (setup_lines server_ip i) @ [[]]"
    by (simp add: beacon_setup_cmd_def)
  moreover have "distinct (labels (setup_lines server_ip i))" unfolding ls by code_simp
  moreover have "set (jumps (setup_lines server_ip i)) \<subseteq> insert ''eof'' (set (labels (setup_lines server_ip i)))"
    unfolding ls js by code_simp
  ultimately show ?thesis by blast
qed

theorem setup_script_flow_witness:
  "length (split_on NL (beacon_setup_cmd ''192.0.2.1'' 7)) = 64
   \<and> distinct (labels (setup_lines ''192.0.2.1'' 7))"
proof -
  have "list_all (\<lambda>c. is_digit c \<or> c = CHR ''.'') ''192.0.2.1''" by code_simp
  from setup_script_flow [OF this, of 7] have
    "split_on NL (beacon_setup_cmd ''192.0.2.1'' 7) = map (\<lambda>l. l @ [CR]) (setup_lines ''192.0.2.1'' 7) @ [[]]"
    "distinct (labels (setup_lines ''192.0.2.1'' 7))" by blast+
  moreover have "length (setup_lines ''192.0.2.1'' 7) = 63" by code_simp
  ultimately show ?thesis by simp
qed

end
