(* ===== verification/ImageBuild.thy ===== *)
theory ImageBuild
  imports BootScripts
begin

text \<open>
  The second half of \<open>services/images.py\<close>: building an uploaded ISO.  A build turns the ISO's listing and
  the results of the extraction tools into the columns it writes to the image's row, and into the paths
  it fills; the files an image needs at boot are compared with them.
\<close>

section \<open>Tools\<close>

text \<open>
  What the external commands of one build do: each either works (None) or fails with a message (what
  \<open>e.stderr or e\<close> prints).
\<close>

record tools =
  listing :: "string + string list"
  extract_one :: "string \<Rightarrow> string option"
  extract_one_7z :: "string \<Rightarrow> string option"
  extract_gunzip :: "string \<Rightarrow> string option"
  extract_tree :: "string option"
  extract_tree_7z :: "string option"
  patch_boot_wim :: "string option"
  grub_mkstandalone :: "string option"

text \<open>Commands in order, each with the path it writes: the first failure, and what was written before it.\<close>

fun run_all :: "(string option \<times> string) list \<Rightarrow> string list \<times> string option" where
  "run_all [] = ([], None)"
| "run_all ((Some err, p) # cs) = ([], Some err)"
| "run_all ((None, p) # cs) = (case run_all cs of (ws, r) \<Rightarrow> (p # ws, r))"

text \<open>The columns a build writes; None leaves a column as it is.\<close>

record outcome =
  o_family :: "string option"
  o_status :: string
  o_message :: string
  o_kernel :: "string option"
  o_initrd :: "string option"
  o_args :: "string option"

definition failed :: "string option \<Rightarrow> string \<Rightarrow> outcome" where
  "failed family msg = \<lparr>o_family = family, o_status = ''error'', o_message = msg,
     o_kernel = None, o_initrd = None, o_args = None\<rparr>"

definition keep :: "'a option \<Rightarrow> 'a \<Rightarrow> 'a" where
  "keep new old = (case new of Some v \<Rightarrow> v | None \<Rightarrow> old)"

definition record_outcome :: "outcome \<Rightarrow> image \<Rightarrow> image" where
  "record_outcome out img = img\<lparr>os_family := keep (o_family out) (os_family img), status := o_status out,
     message := o_message out, kernel_path := keep (o_kernel out) (kernel_path img),
     initrd_path := keep (o_initrd out) (initrd_path img), boot_args := keep (o_args out) (boot_args img)\<rparr>"

section \<open>The three families\<close>

definition rel_path :: "nat \<Rightarrow> string \<Rightarrow> string" where
  "rel_path i name = EXTRACT_SUBDIR @ ''/'' @ show_nat i @ ''/'' @ name"

definition XCPNG_FILES :: "(string \<times> string) list" where
  "XCPNG_FILES = [(''boot/vmlinuz'', ''vmlinuz''), (''install.img'', ''install.img'')]"

definition process_xcpng :: "tools \<Rightarrow> dirs \<Rightarrow> image \<Rightarrow> outcome \<times> string list" where
  "process_xcpng T D img =
     (let dest = dest_dir D (img_id img);
          dom0_args = (if boot_args img = [] then XCPNG_DOM0_ARGS else boot_args img);
          steps = (extract_gunzip T ''boot/xen.gz'', path_join dest ''xen'')
             # map (\<lambda>(member, name). (extract_one T member, path_join dest name)) XCPNG_FILES
             @ [(grub_mkstandalone T, path_join dest ''bootx64.efi'')]
      in case run_all steps of
           (ws, Some err) \<Rightarrow> (failed (Some ''xcpng'') (''XCP-NG extraction failed: '' @ err), ws)
         | (ws, None) \<Rightarrow>
             (\<lparr>o_family = Some ''xcpng'', o_status = ''ready'',
               o_message = ''Extracted Xen multiboot + built UEFI GRUB chainloader'',
               o_kernel = Some (rel_path (img_id img) ''xen''), o_initrd = Some (rel_path (img_id img) ''vmlinuz''),
               o_args = Some dom0_args\<rparr>, ws))"

text \<open>The texts of the patterns, which the error message quotes.\<close>

definition WINDOWS_PATTERNS :: "string list" where
  "WINDOWS_PATTERNS = [''bootmgr'', ''boot/bcd'', dos ''boot/boot^.sdi'', dos ''sources/boot^.wim'']"

text \<open>The extraction loop stops at the first file that is missing or cannot be read.\<close>

datatype win_error = MissingFile string string | ToolFailed string

fun extract_windows ::
  "tools \<Rightarrow> string \<Rightarrow> string list \<Rightarrow> ((rx \<times> string) \<times> string) list \<Rightarrow> string list \<times> win_error option" where
  "extract_windows T dest entries [] = ([], None)"
| "extract_windows T dest entries (((pattern, name), shown) # fs) =
     (case match_entry entries [pattern] of
        None \<Rightarrow> ([], Some (MissingFile name shown))
      | Some member \<Rightarrow>
          (case extract_one_7z T member of
             Some err \<Rightarrow> ([], Some (ToolFailed err))
           | None \<Rightarrow>
               (case extract_windows T dest entries fs of (ws, r) \<Rightarrow> (path_join dest name # ws, r))))"

definition process_windows :: "tools \<Rightarrow> dirs \<Rightarrow> string list \<Rightarrow> image \<Rightarrow> outcome \<times> string list" where
  "process_windows T D entries img =
     (let dest = dest_dir D (img_id img); fam = Some ''windows''
      in case extract_windows T dest entries (zip WINDOWS_FILES WINDOWS_PATTERNS) of
           (ws, Some (MissingFile name pattern)) \<Rightarrow>
             (failed fam (''Windows ISO is missing '' @ name @ '' (looked for '' @ pattern @ '')''), ws)
         | (ws, Some (ToolFailed err)) \<Rightarrow> (failed fam (''Windows extraction failed: '' @ err), ws)
         | (ws, None) \<Rightarrow>
             (case run_all [(extract_tree_7z T, path_join (SMB_DIR D) (show_nat (img_id img))),
                            (patch_boot_wim T, path_join dest ''boot.wim'')] of
                (vs, Some err) \<Rightarrow> (failed fam (''Windows extraction failed: '' @ err), ws @ vs)
              | (vs, None) \<Rightarrow>
                  (\<lparr>o_family = fam, o_status = ''ready'',
                    o_message = ''Extracted WinPE + unpacked SMB media; boots via wimboot'',
                    o_kernel = Some (rel_path (img_id img) ''boot.wim''),
                    o_initrd = Some (rel_path (img_id img) ''bootmgr''), o_args = None\<rparr>, ws @ vs)))"

definition process_linux :: "tools \<Rightarrow> dirs \<Rightarrow> string list \<Rightarrow> image \<Rightarrow> outcome \<times> string list" where
  "process_linux T D entries img =
     (let i = img_id img; dest = dest_dir D i; fam = Some ''linux''
      in case (match_entry entries KERNEL_PATTERNS, match_entry entries INITRD_PATTERNS) of
           (Some kern, Some initrd) \<Rightarrow>
             (if kern = [] \<or> initrd = [] then
                (failed fam (''Could not locate kernel/initrd in ISO. You may set ''
                   @ ''paths manually after checking the ISO layout.''), [])
              else
              (let initrd = pair_initrd kern initrd entries
               in case run_all [(extract_one T kern, path_join dest ''vmlinuz''),
                                (extract_one T initrd, path_join dest ''initrd'')] of
                    (ws, Some err) \<Rightarrow> (failed fam (''Extraction failed: '' @ err), ws)
                  | (ws, None) \<Rightarrow>
                      (let p = netboot_plan entries i;
                           (vs, r) = (if needs_nfs p
                              then run_all [(extract_tree T, path_join (NFS_DIR D) (show_nat i))]
                              else run_all (map (\<lambda>(member, rel). (extract_one T member, path_join dest rel)) (http_files p)))
                       in case r of
                            Some err \<Rightarrow>
                              (failed fam ((if needs_nfs p \<and> contains ''inst.'' (plan_args p) then ''Installer repo''
                                 else ''Live filesystem'') @ '' extraction failed: '' @ err), ws @ vs)
                          | None \<Rightarrow>
                              (\<lparr>o_family = fam, o_status = ''ready'',
                                o_message = ''Extracted '' @ path_name kern @ '' + '' @ path_name initrd,
                                o_kernel = Some (rel_path i ''vmlinuz''), o_initrd = Some (rel_path i ''initrd''),
                                o_args = Some (plan_args p)\<rparr>, ws @ vs))))
         | _ \<Rightarrow> (failed fam (''Could not locate kernel/initrd in ISO. You may set ''
                   @ ''paths manually after checking the ISO layout.''), []))"

text \<open>The part of \<open>process_image\<close> between its clean-up and its menu render, for an ISO image.\<close>

definition process_iso :: "tools \<Rightarrow> dirs \<Rightarrow> image \<Rightarrow> outcome \<times> string list" where
  "process_iso T D img =
     (case listing T of
        Inl err \<Rightarrow> (failed None (''Could not read ISO: '' @ err), [])
      | Inr entries \<Rightarrow>
          (let family = detect_family entries
           in if family = ''windows'' then process_windows T D entries img
              else if family = ''xcpng'' then process_xcpng T D img
              else process_linux T D entries img))"

section \<open>Lemmas\<close>

lemma run_all_None: "run_all cs = (ws, None) \<Longrightarrow> ws = map snd cs"
  by (induction cs arbitrary: ws rule: run_all.induct) (auto split: prod.splits)

lemma extract_windows_None:
  "extract_windows T dest entries fs = (ws, None) \<Longrightarrow> ws = map (\<lambda>f. path_join dest (snd (fst f))) fs"
  by (induction T dest entries fs arbitrary: ws rule: extract_windows.induct)
    (auto split: option.splits prod.splits)

lemma build_status: "process_iso T D img = (out, ws) \<Longrightarrow> o_status out = ''ready'' \<or> o_status out = ''error''"
  by (auto simp: process_iso_def process_windows_def process_xcpng_def process_linux_def failed_def Let_def
      split: sum.splits option.splits prod.splits win_error.splits if_splits)

subsection \<open>Words that do not occur\<close>

lemma not_contains_char: "x \<in> set p \<Longrightarrow> x \<notin> set s \<Longrightarrow> \<not> contains p s"
  by (auto simp: contains_iff)

lemma not_contains_words:
  assumes "c \<notin> set p" "\<not> contains p u" "\<not> contains p v"
  shows "\<not> contains p (u @ c # v)"
proof
  assume "contains p (u @ c # v)"
  then obtain a b where ab: "u @ c # v = a @ p @ b" unfolding contains_iff by blast
  show False
  proof (cases "length a + length p \<le> length u")
    case True
    then have "u = a @ p @ take (length u - length a - length p) b"
      using arg_cong [OF ab, of "take (length u)"] by simp
    with assms(2) show False unfolding contains_iff by blast
  next
    case False
    show False
    proof (cases "length a \<le> length u")
      case True
      with False have "length u - length a < length p" by simp
      moreover have "(a @ p @ b) ! length u = c" using ab [symmetric] by simp
      ultimately have "p ! (length u - length a) = c" using True by (simp add: nth_append)
      with \<open>length u - length a < length p\<close> assms(1) show False by (metis nth_mem)
    next
      case False
      then have "v = drop (length u + 1) a @ p @ b"
        using arg_cong [OF ab, of "drop (length u + 1)"] by simp
      with assms(3) show False unfolding contains_iff by blast
    qed
  qed
qed

lemma search_lit_None: "\<not> contains s t \<Longrightarrow> re_search (Seq (lit s) r) t = None"
proof (rule ccontr)
  assume no: "\<not> contains s t" and "re_search (Seq (lit s) r) t \<noteq> None"
  then obtain u v w where t: "t = u @ v @ w" "mat (Seq (lit s) r) (rev u) v w" unfolding search_iff by blast
  then obtain y where "v = s @ y" by (auto simp: mat_simps)
  with t(1) no show False unfolding contains_iff by auto
qed

lemma no_inst: "\<not> contains ''inst.'' args \<Longrightarrow> re_search INST_RE args = None"
  unfolding INST_RE_def by (rule search_lit_None)

lemma no_basedir: "\<not> contains ''archisobasedir='' args \<Longrightarrow> re_search BASEDIR_RE args = None"
  unfolding BASEDIR_RE_def by (rule search_lit_None)

subsection \<open>A fresh build is complete\<close>

text \<open>A path is covered by a build that wrote it, a directory above it, or something below it.\<close>

definition covered :: "string list \<Rightarrow> string \<Rightarrow> bool" where
  "covered ws p \<longleftrightarrow> list_ex (\<lambda>w. w = p \<or> prefix (w @ ''/'') p \<or> prefix (p @ ''/'') w) ws"

lemma coveredI: "p \<in> set ws \<Longrightarrow> covered ws p"
  by (auto simp: covered_def list_ex_iff)

lemma covered_below: "w \<in> set ws \<Longrightarrow> prefix (w @ ''/'') p \<Longrightarrow> covered ws p"
  by (auto simp: covered_def list_ex_iff)

lemma covered_above: "w \<in> set ws \<Longrightarrow> prefix (p @ ''/'') w \<Longrightarrow> covered ws p"
  by (auto simp: covered_def list_ex_iff)

lemma covered_mono: "covered ws p \<Longrightarrow> set ws \<subseteq> set vs \<Longrightarrow> covered vs p"
  by (auto simp: covered_def list_ex_iff)

lemma digit_not: "\<not> is_digit c \<Longrightarrow> c \<notin> set (show_nat i)"
  using show_nat_digits by blast

lemma boot_path: "path_join (BOOTROOT_DIR D) (rel_path i name) = path_join (dest_dir D i) name"
  if "\<not> prefix ''/'' name"
  using that digit_not [of "CHR ''/''" i]
  by (cases "show_nat i") (auto simp: path_join_def rel_path_def dest_dir_def EXTRACT_SUBDIR_def chr_in_def)

lemma rel_path_ne [simp]: "rel_path i name \<noteq> []"
  by (simp add: rel_path_def EXTRACT_SUBDIR_def)

text \<open>What the arguments of a linux ISO image require beyond its kernel and initrd.\<close>

definition args_need :: "dirs \<Rightarrow> nat \<Rightarrow> string \<Rightarrow> string list" where
  "args_need D i args =
     (let dest = dest_dir D i; nfs = path_join (NFS_DIR D) (show_nat i)
      in (if contains ''netboot=nfs'' args then [nfs] else [])
         @ ((case re_search INST_RE args of
               None \<Rightarrow> []
             | Some mt \<Rightarrow>
                 if prefix ''nfs:'' (case group 1 mt of Some s \<Rightarrow> s | None \<Rightarrow> [])
                 then [path_join (path_join nfs ''images'') ''install.img'']
                 else [path_join (path_join (path_join dest ''tree'') ''images'') ''install.img''])
            @ (if contains ''rd.live.image'' args then [path_join dest ''squashfs.img''] else []))
         @ (case re_search BASEDIR_RE args of
              None \<Rightarrow> []
            | Some mt \<Rightarrow> [path_join dest (case group 1 mt of Some s \<Rightarrow> s | None \<Rightarrow> [])]))"

lemma required_linux_iso:
  assumes "os_family img = ''linux''" "img_source img \<noteq> ''netboot''"
    "kernel_path img = rel_path (img_id img) ''vmlinuz''" "initrd_path img = rel_path (img_id img) ''initrd''"
  shows "required_paths D rd ex img =
    [path_join (dest_dir D (img_id img)) ''vmlinuz'', path_join (dest_dir D (img_id img)) ''initrd'']
    @ args_need D (img_id img) (boot_args img)"
proof -
  have fam: "(os_family img = ''xcpng'') = False" "(os_family img = ''windows'') = False"
    "(img_source img = ''netboot'') = False" using assms(1,2) by simp_all
  have ne: "(rel_path i name = []) = False" for i name by simp
  have paths: "path_join (BOOTROOT_DIR D) (rel_path i ''vmlinuz'') = path_join (dest_dir D i) ''vmlinuz''"
    "path_join (BOOTROOT_DIR D) (rel_path i ''initrd'') = path_join (dest_dir D i) ''initrd''" for i
    by (simp_all add: boot_path)
  show ?thesis
    unfolding required_paths_def args_need_def Let_def fam if_False assms(3,4) ne paths by simp
qed

lemma not_digits:
  "CHR ''.'' \<notin> set (show_nat i)" "CHR ''a'' \<notin> set (show_nat i)" "CHR ''b'' \<notin> set (show_nat i)"
  "CHR ''c'' \<notin> set (show_nat i)" "CHR ''l'' \<notin> set (show_nat i)" "CHR ''n'' \<notin> set (show_nat i)"
  "CHR ''f'' \<notin> set (show_nat i)"
  by (rule digit_not, simp add: chr_in_def)+

lemma need_nothing:
  assumes "\<not> contains ''inst.'' args" "\<not> contains ''rd.live.image'' args" "\<not> contains ''archisobasedir='' args"
  shows "args_need D i args = (if contains ''netboot=nfs'' args then [path_join (NFS_DIR D) (show_nat i)] else [])"
  using assms(2) by (simp add: args_need_def Let_def no_inst [OF assms(1)] no_basedir [OF assms(3)])

lemma no_dot:
  assumes "CHR ''.'' \<notin> set args"
  shows "\<not> contains ''inst.'' args" "\<not> contains ''rd.live.image'' args"
  by (rule not_contains_char [OF _ assms], simp)+

lemma nfs_args_need:
  assumes "k = ''casper'' \<or> k = ''live''"
  shows "set (args_need D i (''boot='' @ k @ '' netboot=nfs nfsroot='' @ (''${server-ip}:/nfs/'' @ show_nat i) @ '' ip=dhcp''))
         \<subseteq> {path_join (NFS_DIR D) (show_nat i)}"
proof -
  let ?args = "''boot='' @ k @ '' netboot=nfs nfsroot='' @ (''${server-ip}:/nfs/'' @ show_nat i) @ '' ip=dhcp''"
  let ?p = "''archisobasedir=''"
  have dot: "CHR ''.'' \<notin> set ?args" using assms by (auto simp: not_digits)
  have "\<not> contains ?p (''boot='' @ k)" using assms by (elim disjE; simp only:) code_simp+
  moreover have "\<not> contains ?p ''netboot=nfs''" by code_simp
  moreover have "\<not> contains ?p (''nfsroot=${server-ip}:/nfs/'' @ show_nat i)"
    by (rule not_contains_char [where x = "CHR ''a''"]) (simp_all add: not_digits)
  moreover have "\<not> contains ?p ''ip=dhcp''" by code_simp
  moreover have "CHR '' '' \<notin> set ?p" by code_simp
  ultimately have "\<not> contains ?p ((''boot='' @ k) @ CHR '' '' # ''netboot=nfs'' @ CHR '' '' #
      (''nfsroot=${server-ip}:/nfs/'' @ show_nat i) @ CHR '' '' # ''ip=dhcp'')"
    by (intro not_contains_words)
  then have "\<not> contains ?p ?args" by simp
  show ?thesis
    unfolding need_nothing [OF no_dot [OF dot] \<open>\<not> contains ?p ?args\<close>]
    by (simp only: list.set empty_subsetI subset_refl simp_thms split: if_split)
qed

lemma inst_args_need:
  assumes "k = ''repo'' \<or> k = ''stage2''"
  shows "set (args_need D i (''inst.'' @ k @ ''=nfs:'' @ (''${server-ip}:/nfs/'' @ show_nat i) @ '' ip=dhcp''))
         \<subseteq> {path_join (NFS_DIR D) (show_nat i),
            path_join (path_join (path_join (NFS_DIR D) (show_nat i)) ''images'') ''install.img''}"
proof -
  let ?args = "''inst.'' @ k @ ''=nfs:'' @ (''${server-ip}:/nfs/'' @ show_nat i) @ '' ip=dhcp''"
  let ?w = "''nfs:${server-ip}:/nfs/'' @ show_nat i"
  have live: "\<not> contains ''rd.live.image'' ?args"
    using assms by (intro not_contains_char [where x = "CHR ''l''"]) (auto simp: not_digits)
  have base: "\<not> contains ''archisobasedir='' ?args"
    using assms by (intro not_contains_char [where x = "CHR ''b''"]) (auto simp: not_digits)
  have "list_all (\<lambda>c. \<not> py_space c) ?w"
  proof -
    have "list_all (\<lambda>c. \<not> py_space c) (show_nat i)" using show_nat_plain [of _ i] by (simp add: list_all_iff)
    moreover have "list_all (\<lambda>c. \<not> py_space c) ''nfs:${server-ip}:/nfs/''" by code_simp
    ultimately show ?thesis by (simp only: list_all_append)
  qed
  then have "searched INST_RE ?args ?w" using inst_found [OF assms, of ?w "''ip=dhcp''"] by simp
  then obtain mt where "re_search INST_RE ?args = Some mt" "group 1 mt = Some ?w" unfolding searched_def by blast
  then show ?thesis
    unfolding args_need_def Let_def no_basedir [OF base] by (simp only: option.case live if_False append_Nil2) auto
qed

lemma live_args_need:
  "set (args_need D i (''root=live:'' @ (''${boot-url}/'' @ EXTRACT_SUBDIR @ ''/'' @ show_nat i)
       @ ''/squashfs.img rd.live.image ip=dhcp'')) \<subseteq> {path_join (dest_dir D i) ''squashfs.img''}"
proof -
  let ?args = "''root=live:'' @ (''${boot-url}/'' @ EXTRACT_SUBDIR @ ''/'' @ show_nat i) @ ''/squashfs.img rd.live.image ip=dhcp''"
  let ?p = "''archisobasedir=''"
  have no: "\<not> contains ''inst.'' ?args" "\<not> contains ''netboot=nfs'' ?args"
    by (rule not_contains_char [where x = "CHR ''n''"], simp_all add: not_digits EXTRACT_SUBDIR_def)+
  have "\<not> contains ?p (''root=live:${boot-url}/os/'' @ show_nat i @ ''/squashfs.img'')"
    by (rule not_contains_char [where x = "CHR ''c''"]) (simp_all add: not_digits)
  moreover have "\<not> contains ?p ''rd.live.image''" "\<not> contains ?p ''ip=dhcp''" "CHR '' '' \<notin> set ?p" by code_simp+
  ultimately have "\<not> contains ?p ((''root=live:${boot-url}/os/'' @ show_nat i @ ''/squashfs.img'') @ CHR '' '' #
      ''rd.live.image'' @ CHR '' '' # ''ip=dhcp'')"
    by (intro not_contains_words)
  then have base: "\<not> contains ?p ?args" by (simp add: EXTRACT_SUBDIR_def)
  show ?thesis
    unfolding args_need_def Let_def no_inst [OF no(1)] no_basedir [OF base]
    by (simp only: option.case no(2) if_False append_Nil append_Nil2) auto
qed

lemma archiso_args_need:
  assumes "same_ci a ''arch''"
  shows "set (args_need D i (''archiso_http_srv='' @ (''${boot-url}/'' @ EXTRACT_SUBDIR @ ''/'' @ show_nat i)
       @ ''/ archisobasedir='' @ a @ '' BOOTIF=01-${net0/mac:hexhyp} ip=dhcp'')) \<subseteq> {path_join (dest_dir D i) a}"
proof -
  let ?u = "''${boot-url}/os/'' @ show_nat i @ ''/''"
  let ?args = "''archiso_http_srv='' @ (''${boot-url}/'' @ EXTRACT_SUBDIR @ ''/'' @ show_nat i)
       @ ''/ archisobasedir='' @ a @ '' BOOTIF=01-${net0/mac:hexhyp} ip=dhcp''"
  have "list_all (\<lambda>x. x \<noteq> CHR ''a'') (show_nat i)" using not_digits(2) [of i] by (auto simp: list_all_iff)
  then have u: "list_all (\<lambda>x. x \<noteq> CHR ''a'') ?u" by simp
  have args: "?args = ''archiso_http_srv='' @ ?u @ '' archisobasedir='' @ a @ CHR '' '' # ''BOOTIF=01-${net0/mac:hexhyp} ip=dhcp''"
    by (simp add: EXTRACT_SUBDIR_def)
  have "searched BASEDIR_RE ?args a" unfolding args using basedir_found [OF u] arch_name [OF assms] by blast
  then obtain mt where mt: "re_search BASEDIR_RE ?args = Some mt" "group 1 mt = Some a" unfolding searched_def by blast
  have a: "CHR ''.'' \<notin> set a" "CHR ''f'' \<notin> set a" using arch_chars [OF assms] by blast+
  have dot: "CHR ''.'' \<notin> set ?args" and f: "CHR ''f'' \<notin> set ?args" using a by (simp_all add: not_digits EXTRACT_SUBDIR_def)
  have nfs: "\<not> contains ''netboot=nfs'' ?args" by (rule not_contains_char [OF _ f]) simp
  show ?thesis
    unfolding args_need_def Let_def no_inst [OF no_dot(1) [OF dot]] mt option.case
    by (simp only: nfs no_dot(2) [OF dot] if_False append_Nil append_Nil2) auto
qed

text \<open>What the plan fills covers what its arguments need.\<close>

definition plan_writes :: "dirs \<Rightarrow> nat \<Rightarrow> plan \<Rightarrow> string list" where
  "plan_writes D i p =
     (if needs_nfs p then [path_join (NFS_DIR D) (show_nat i)]
      else map (\<lambda>f. path_join (dest_dir D i) (snd f)) (http_files p))"

lemma covered_all: "set ps \<subseteq> P \<Longrightarrow> (\<And>p. p \<in> P \<Longrightarrow> covered ws p) \<Longrightarrow> list_all (covered ws) ps"
  by (auto simp: list_all_iff)

lemma below_tree:
  "covered [path_join (NFS_DIR D) (show_nat i)]
     (path_join (path_join (path_join (NFS_DIR D) (show_nat i)) ''images'') ''install.img'')"
  by (rule covered_below, simp, simp add: path_join_def)

lemma plan_covers: "list_all (covered (plan_writes D i (netboot_plan entries i))) (args_need D i (plan_args (netboot_plan entries i)))"
proof -
  let ?j = "join '' '' (map lower entries)" and ?p = "netboot_plan entries i"
  let ?nfs = "path_join (NFS_DIR D) (show_nat i)" and ?root = "''${server-ip}:/nfs/'' @ show_nat i"
  consider (nfs) k where "k = ''casper'' \<or> k = ''live''" "needs_nfs ?p"
      "plan_args ?p = ''boot='' @ k @ '' netboot=nfs nfsroot='' @ ?root @ '' ip=dhcp''"
    | (inst) k where "k = ''repo'' \<or> k = ''stage2''" "needs_nfs ?p"
      "plan_args ?p = ''inst.'' @ k @ ''=nfs:'' @ ?root @ '' ip=dhcp''"
    | (other) "\<not> contains ''casper/'' ?j" "\<not> contains ''live/'' ?j" "\<not> contains ''images/pxeboot/'' ?j"
  proof -
    consider (casper) "contains ''casper/'' ?j" | (live) "\<not> contains ''casper/'' ?j" "contains ''live/'' ?j"
      | (no) "\<not> contains ''casper/'' ?j" "\<not> contains ''live/'' ?j" by blast
    then show thesis
  proof cases
    case casper
    then show thesis by (intro nfs [of "''casper''"]) (simp_all add: netboot_plan_def Let_def)
  next
    case live
    then show thesis by (intro nfs [of "''live''"]) (simp_all add: netboot_plan_def Let_def)
  next
    case no
    show thesis
    proof (cases "contains ''images/pxeboot/'' ?j")
      case True
      let ?k = "if contains ''repodata/'' ?j then ''repo'' else ''stage2''"
      show thesis by (rule inst [of ?k]) (use no True in \<open>simp_all add: netboot_plan_def Let_def\<close>)
    next
      case False
      with no other show thesis by blast
    qed
  qed
  qed
  then show ?thesis
  proof cases
    case nfs
    show ?thesis unfolding nfs(3)
      by (rule covered_all [OF nfs_args_need [OF nfs(1)]]) (simp add: plan_writes_def nfs(2) coveredI)
  next
    case inst
    show ?thesis unfolding inst(3)
      by (rule covered_all [OF inst_args_need [OF inst(1)]]) (auto simp: plan_writes_def inst(2) coveredI below_tree)
  next
    case other
    show ?thesis
    proof (cases "match_entry entries [squashfs_rx]")
      case (Some e)
      with other have p: "\<not> needs_nfs ?p" "http_files ?p = [(e, ''squashfs.img'')]"
        "plan_args ?p = ''root=live:'' @ (''${boot-url}/'' @ EXTRACT_SUBDIR @ ''/'' @ show_nat i)
           @ ''/squashfs.img rd.live.image ip=dhcp''"
        by (simp_all add: netboot_plan_def Let_def)
      show ?thesis unfolding p(3)
        by (rule covered_all [OF live_args_need]) (simp add: plan_writes_def p(1,2) coveredI)
    next
      case none: None
      show ?thesis
      proof (cases "match_entry entries [airootfs_rx ''sfs'']")
        case (Some e)
        obtain a rest where a: "bare e = a @ CHR ''/'' # rest" "same_ci a ''arch''"
          using airootfs_path [OF match_one [OF Some]] by blast
        then have base: "hd (split_on CHR ''/'' (bare e)) = a"
          using arch_name [OF a(2)] by (simp add: split_on_append_sep)
        obtain sha where p: "\<not> needs_nfs ?p" "http_files ?p = (e, bare e) # sha"
          "plan_args ?p = ''archiso_http_srv='' @ (''${boot-url}/'' @ EXTRACT_SUBDIR @ ''/'' @ show_nat i)
            @ ''/ archisobasedir='' @ a @ '' BOOTIF=01-${net0/mac:hexhyp} ip=dhcp''"
          using other none Some base unfolding netboot_plan_def Let_def by simp
        have "prefix (path_join (dest_dir D i) a @ ''/'') (path_join (dest_dir D i) (bare e))"
          using bare_no_slash [of e] a(1) arch_name [OF a(2)] unfolding path_join_def
          by (cases a) (simp_all add: Cons_prefix_Cons)
        then have "covered (plan_writes D i ?p) (path_join (dest_dir D i) a)"
          by (intro covered_above [of "path_join (dest_dir D i) (bare e)"]) (simp_all add: plan_writes_def p(1,2))
        then show ?thesis unfolding p(3)
          by (intro covered_all [OF archiso_args_need [OF a(2)]]) blast
      next
        case None
        with other none have p: "plan_args ?p = ''ip=dhcp''" by (simp add: netboot_plan_def Let_def)
        have "args_need D i ''ip=dhcp'' = []"
        proof -
          have "\<not> contains ''inst.'' ''ip=dhcp''" "\<not> contains ''rd.live.image'' ''ip=dhcp''"
            "\<not> contains ''archisobasedir='' ''ip=dhcp''" "\<not> contains ''netboot=nfs'' ''ip=dhcp''" by code_simp+
          then show ?thesis by (simp only: need_nothing if_False simp_thms)
        qed
        then show ?thesis unfolding p by simp
      qed
    qed
  qed
qed

lemma linux_complete:
  assumes "process_linux T D entries img = (out, ws)" "o_status out = ''ready''" "img_source img \<noteq> ''netboot''"
  shows "list_all (covered ws) (required_paths D rd ex (record_outcome out img))"
proof -
  let ?i = "img_id img" and ?p = "netboot_plan entries (img_id img)" and ?dest = "dest_dir D (img_id img)"
  let ?more = "if needs_nfs ?p then [(extract_tree T, path_join (NFS_DIR D) (show_nat ?i))]
    else map (\<lambda>(member, rel). (extract_one T member, path_join ?dest rel)) (http_files ?p)"
  have bad: "o_status (failed f m) \<noteq> ''ready''" for f m by (simp add: failed_def)
  obtain kern initrd where k: "match_entry entries KERNEL_PATTERNS = Some kern" "match_entry entries INITRD_PATTERNS = Some initrd"
    "kern \<noteq> []" "initrd \<noteq> []"
    using assms(1,2) bad by (auto simp: process_linux_def Let_def split: option.splits if_splits)
  let ?initrd = "pair_initrd kern initrd entries"
  let ?first = "[(extract_one T kern, path_join ?dest ''vmlinuz''), (extract_one T ?initrd, path_join ?dest ''initrd'')]"
  obtain us r where us: "run_all ?first = (us, r)" by (cases "run_all ?first")
  obtain vs s where vs: "run_all ?more = (vs, s)" by (cases "run_all ?more")
  have more: "(if needs_nfs ?p then run_all [(extract_tree T, path_join (NFS_DIR D) (show_nat ?i))]
      else run_all (map (\<lambda>(member, rel). (extract_one T member, path_join ?dest rel)) (http_files ?p))) = (vs, s)"
    using vs by (simp split: if_splits)
  have rs: "r = None" "s = None"
    using assms(1,2) bad unfolding process_linux_def Let_def k option.case prod.case us more
    by (auto simp: k split: option.splits)
  have out: "out = \<lparr>o_family = Some ''linux'', o_status = ''ready'',
      o_message = ''Extracted '' @ path_name kern @ '' + '' @ path_name ?initrd,
      o_kernel = Some (rel_path ?i ''vmlinuz''), o_initrd = Some (rel_path ?i ''initrd''),
      o_args = Some (plan_args ?p)\<rparr>" and ws: "ws = us @ vs"
    using assms(1) unfolding process_linux_def Let_def k option.case prod.case us more rs
    by (auto simp: k)
  have written: "us = [path_join ?dest ''vmlinuz'', path_join ?dest ''initrd'']" "vs = plan_writes D ?i ?p"
    using run_all_None [OF us [unfolded rs]] run_all_None [OF vs [unfolded rs]]
    by (auto simp: plan_writes_def comp_def split_def)
  let ?img = "record_outcome out img"
  have "required_paths D rd ex ?img = us @ args_need D ?i (plan_args ?p)"
    using required_linux_iso [of ?img D rd ex] assms(3) unfolding out written
    by (simp add: record_outcome_def keep_def)
  moreover have "list_all (covered ws) (args_need D ?i (plan_args ?p))"
    using plan_covers [of D ?i entries] unfolding ws written(2) list_all_iff by (auto intro: covered_mono)
  moreover have "list_all (covered ws) us" unfolding ws by (auto simp: list_all_iff coveredI)
  ultimately show ?thesis by simp
qed

lemma failed_not_ready: "o_status (failed f msg) \<noteq> ''ready''"
  by (simp add: failed_def)

lemma all_covered_self: "set ps \<subseteq> set ws \<Longrightarrow> list_all (covered ws) ps"
  by (auto simp: list_all_iff intro: coveredI)

lemma xcpng_complete:
  assumes "process_xcpng T D img = (out, ws)" "o_status out = ''ready''"
  shows "list_all (covered ws) (required_paths D rd ex (record_outcome out img))"
proof -
  let ?dest = "dest_dir D (img_id img)"
  let ?steps = "(extract_gunzip T ''boot/xen.gz'', path_join ?dest ''xen'')
     # map (\<lambda>(member, name). (extract_one T member, path_join ?dest name)) XCPNG_FILES
     @ [(grub_mkstandalone T, path_join ?dest ''bootx64.efi'')]"
  obtain us r where us: "run_all ?steps = (us, r)" by (cases "run_all ?steps")
  have r: "r = None"
    using assms failed_not_ready unfolding process_xcpng_def Let_def us by (auto split: option.splits)
  have out: "out = \<lparr>o_family = Some ''xcpng'', o_status = ''ready'',
      o_message = ''Extracted Xen multiboot + built UEFI GRUB chainloader'',
      o_kernel = Some (rel_path (img_id img) ''xen''), o_initrd = Some (rel_path (img_id img) ''vmlinuz''),
      o_args = Some (if boot_args img = [] then XCPNG_DOM0_ARGS else boot_args img)\<rparr>" and ws: "ws = us"
    using assms(1) unfolding process_xcpng_def Let_def us r by auto
  have "us = [path_join ?dest ''xen'', path_join ?dest ''vmlinuz'', path_join ?dest ''install.img'', path_join ?dest ''bootx64.efi'']"
    using run_all_None [OF us [unfolded r]] by (simp add: XCPNG_FILES_def)
  moreover have "required_paths D rd ex (record_outcome out img) =
      [path_join ?dest ''xen'', path_join ?dest ''vmlinuz'', path_join ?dest ''bootx64.efi'', path_join ?dest ''install.img'']"
    unfolding out by (simp add: required_paths_def record_outcome_def keep_def Let_def boot_path)
  ultimately show ?thesis unfolding ws by (intro all_covered_self) auto
qed

lemma windows_complete:
  assumes "process_windows T D entries img = (out, ws)" "o_status out = ''ready''"
  shows "list_all (covered ws) (required_paths D rd ex (record_outcome out img))"
proof -
  let ?dest = "dest_dir D (img_id img)" and ?smb = "path_join (SMB_DIR D) (show_nat (img_id img))"
  let ?more = "[(extract_tree_7z T, ?smb), (patch_boot_wim T, path_join ?dest ''boot.wim'')]"
  obtain us r where us: "extract_windows T ?dest entries (zip WINDOWS_FILES WINDOWS_PATTERNS) = (us, r)"
    by (cases "extract_windows T ?dest entries (zip WINDOWS_FILES WINDOWS_PATTERNS)")
  obtain vs s where vs: "run_all ?more = (vs, s)" by (cases "run_all ?more")
  have r: "r = None"
    using assms failed_not_ready unfolding process_windows_def Let_def us by (auto split: option.splits win_error.splits)
  have s: "s = None"
    using assms failed_not_ready unfolding process_windows_def Let_def us r vs by (auto split: option.splits)
  have out: "out = \<lparr>o_family = Some ''windows'', o_status = ''ready'',
      o_message = ''Extracted WinPE + unpacked SMB media; boots via wimboot'',
      o_kernel = Some (rel_path (img_id img) ''boot.wim''),
      o_initrd = Some (rel_path (img_id img) ''bootmgr''), o_args = None\<rparr>" and ws: "ws = us @ vs"
    using assms(1) unfolding process_windows_def Let_def us r vs s by auto
  have "us = [path_join ?dest ''bootmgr'', path_join ?dest ''bcd'', path_join ?dest ''boot.sdi'', path_join ?dest ''boot.wim'']"
    using extract_windows_None [OF us [unfolded r]] by (simp add: WINDOWS_FILES_def WINDOWS_PATTERNS_def)
  moreover have "vs = [?smb, path_join ?dest ''boot.wim'']" using run_all_None [OF vs [unfolded s]] by simp
  moreover have "required_paths D rd ex (record_outcome out img) =
      [path_join ?dest ''boot.wim'', path_join ?dest ''bootmgr'', path_join ?dest ''bcd'', path_join ?dest ''boot.sdi'', ?smb]"
    unfolding out by (simp add: required_paths_def record_outcome_def keep_def Let_def boot_path)
  ultimately show ?thesis unfolding ws by (intro all_covered_self) auto
qed

text \<open>C36. What a build produces is what the image is later held to: when building an uploaded ISO ends
  in \<open>ready\<close>, every path its row then requires was written by that build, lies in a tree it unpacked, or
  is a directory it filled, in each of the three families.  So the check at startup never flags an image
  whose files are as the build left them.\<close>

theorem fresh_build_is_complete:
  assumes "process_iso T D img = (out, ws)" "o_status out = ''ready''" "img_source img \<noteq> ''netboot''"
  shows "list_all (covered ws) (required_paths D rd ex (record_outcome out img))"
proof (cases "listing T")
  case (Inl err)
  with assms(1,2) failed_not_ready show ?thesis by (auto simp: process_iso_def)
next
  case (Inr entries)
  with assms(1) have "process_windows T D entries img = (out, ws) \<or> process_xcpng T D img = (out, ws)
      \<or> process_linux T D entries img = (out, ws)"
    by (auto simp: process_iso_def Let_def split: if_splits)
  then show ?thesis
    by (elim disjE) (erule windows_complete xcpng_complete linux_complete, rule assms(2), (rule assms(3))?)+
qed

text \<open>Tools that always work, on a given listing.\<close>

definition good_tools :: "string list \<Rightarrow> tools" where
  "good_tools entries = \<lparr>listing = Inr entries, extract_one = (\<lambda>_. None), extract_one_7z = (\<lambda>_. None),
     extract_gunzip = (\<lambda>_. None), extract_tree = None, extract_tree_7z = None, patch_boot_wim = None,
     grub_mkstandalone = None\<rparr>"

definition sample_dirs :: dirs where
  "sample_dirs = \<lparr>BOOTROOT_DIR = ''/b'', IMAGE_DIR = ''/i'', NFS_DIR = ''/n'', SMB_DIR = ''/s''\<rparr>"

definition xcp_listing :: "string list" where
  "xcp_listing = [''./boot/xen.gz'', ''./boot/vmlinuz'', ''./install.img'']"

theorem fresh_build_is_complete_witness:
  "o_status (fst (process_iso (good_tools xcp_listing) sample_dirs (image_row 3 ''XCP'' ''xcp.iso''))) = ''ready''
   \<and> covered (snd (process_iso (good_tools xcp_listing) sample_dirs (image_row 3 ''XCP'' ''xcp.iso'')))
       ''/b/os/3/bootx64.efi''"
proof -
  let ?img = "image_row 3 ''XCP'' ''xcp.iso''"
  let ?r = "process_iso (good_tools xcp_listing) sample_dirs ?img"
  have ready: "o_status (fst ?r) = ''ready''" by code_simp
  have "img_source ?img \<noteq> ''netboot''" by (simp add: image_row_def)
  from fresh_build_is_complete [OF surjective_pairing [of ?r] ready this, of "[]" None]
  have "list_all (covered (snd ?r)) (required_paths sample_dirs [] None (record_outcome (fst ?r) ?img))" .
  moreover have "required_paths sample_dirs [] None (record_outcome (fst ?r) ?img) =
      [''/b/os/3/xen'', ''/b/os/3/vmlinuz'', ''/b/os/3/bootx64.efi'', ''/b/os/3/install.img'']"
    by code_simp
  ultimately show ?thesis using ready by simp
qed

end
