(* ===== verification/ImageRuns.thy ===== *)
theory ImageRuns
  imports Names ImageBuild Store
begin

text \<open>
  The life of an image: uploading, queueing, building, deleting, reprocessing and the check at startup
  (\<open>process_image\<close>, \<open>delete_image\<close>, \<open>_finish_delete\<close> and \<open>reconcile_statuses\<close> of
  \<open>services/images.py\<close>; the handlers of \<open>routers/images.py\<close>).

  A build runs in the background while requests are served, so the machine below interleaves them: one
  \<open>event\<close> is a request, or one step of a run between two points at which another request can be
  served.  Each database commit is one event.
\<close>

section \<open>Statuses\<close>

definition IN_FLIGHT :: "string list" where "IN_FLIGHT = [''pending'', ''processing'']"
definition DELETING :: string where "DELETING = ''deleting''"
definition BUSY :: "string list" where "BUSY = IN_FLIGHT @ [DELETING]"
definition NEEDS_REPROCESS :: string where "NEEDS_REPROCESS = ''needs_reprocess''"

section \<open>The machine\<close>

text \<open>
  Where a run is: registered but not yet looked at its row; decided to build the image with this file;
  building; finished with the row (with the file name it has read, if it got that far).
\<close>

datatype stage = Registered | Loaded string | Working string | Ending "string option"

text \<open>
  \<open>isos\<close>: the files in the image directory.  \<open>trees\<close>: the ids with derived data under the boot, NFS or SMB
  directories.  \<open>tasks\<close>: the queued calls of \<open>process_image\<close>.  \<open>register\<close>: the stage of each registered run
  and its stop flag.  \<open>removals\<close>: runs that left the register with their stop flag set and still have
  to remove their image.
\<close>

record world =
  rows :: image_table
  isos :: "string list"
  trees :: "nat list"
  tasks :: "nat list"
  register :: "nat \<Rightarrow> (stage \<times> bool) option"
  removals :: "(nat \<times> string option) list"

definition started :: world where
  "started = \<lparr>rows = [], isos = [], trees = [], tasks = [], register = (\<lambda>_. None), removals = []\<rparr>"

subsection \<open>Requests\<close>

text \<open>The handler of an upload; the page it shows for another file type changes nothing.\<close>

definition upload :: "string \<Rightarrow> string \<Rightarrow> nat \<Rightarrow> world \<Rightarrow> world" where
  "upload name file len w =
     (let filename = safe_filename file
      in if \<not> suffix ''.iso'' (lower filename) then w
         else case unused_filename (isos w @ map img_filename (rows w)) filename of
           None \<Rightarrow> w
         | Some filename \<Rightarrow>
             (let i = next_id img_id (rows w);
                  shown = strip_control_chars (strip name);
                  (stem, dot, ext) = rpartition_dot filename;
                  row = (image_row i (if shown = [] then (if dot = [] then filename else stem) else shown) filename)
                          \<lparr>size_bytes := len\<rparr>
              in w\<lparr>rows := rows w @ [row], isos := filename # isos w, tasks := tasks w @ [i]\<rparr>))"

definition retry :: "nat \<Rightarrow> world \<Rightarrow> world" where
  "retry i w =
     (case get_image (rows w) i of
        None \<Rightarrow> w
      | Some img \<Rightarrow>
          if status img \<in> set BUSY then w
          else w\<lparr>rows := upd_image (rows w) i (\<lambda>r. r\<lparr>status := ''pending''\<rparr>), tasks := tasks w @ [i]\<rparr>)"

definition clean_derived_data :: "nat \<Rightarrow> world \<Rightarrow> world" where
  "clean_derived_data i w = w\<lparr>trees := removeAll i (trees w)\<rparr>"

definition remove_image :: "image \<Rightarrow> world \<Rightarrow> world" where
  "remove_image img w =
     (clean_derived_data (img_id img) w)
       \<lparr>isos := removeAll (img_filename img) (isos w), rows := del_image (rows w) (img_id img)\<rparr>"

definition delete_image :: "image \<Rightarrow> world \<Rightarrow> world" where
  "delete_image img w =
     (case register w (img_id img) of
        Some (st, False) \<Rightarrow>
          w\<lparr>register := (register w)(img_id img \<mapsto> (st, True)),
            rows := upd_image (rows w) (img_id img)
              (\<lambda>r. r\<lparr>status := DELETING, message := ''Deleting: waiting for the current step to stop.''\<rparr>)\<rparr>
      | _ \<Rightarrow> remove_image img w)"

definition delete :: "nat \<Rightarrow> world \<Rightarrow> world" where
  "delete i w = (case get_image (rows w) i of None \<Rightarrow> w | Some img \<Rightarrow> delete_image img w)"

text \<open>The two bulk actions: the rows are looked up, each once, before anything changes.\<close>

definition bulk_rows :: "nat list \<Rightarrow> world \<Rightarrow> image list" where
  "bulk_rows ids w = concat (map (\<lambda>i. case get_image (rows w) i of None \<Rightarrow> [] | Some r \<Rightarrow> [r]) (rev (remdups (rev ids))))"

definition bulk_reprocess :: "nat list \<Rightarrow> world \<Rightarrow> world" where
  "bulk_reprocess ids w =
     (let queued = filter (\<lambda>img. status img \<notin> set BUSY) (bulk_rows ids w)
      in w\<lparr>rows := foldl (\<lambda>db img. upd_image db (img_id img) (\<lambda>r. r\<lparr>status := ''pending''\<rparr>)) (rows w) queued,
           tasks := tasks w @ map img_id queued\<rparr>)"

definition bulk_delete :: "nat list \<Rightarrow> world \<Rightarrow> world" where
  "bulk_delete ids w = foldl (\<lambda>w img. delete_image img w) w (bulk_rows ids w)"

subsection \<open>Runs\<close>

text \<open>\<open>process_image\<close> registers its run, unless one of this image is registered.\<close>

definition start_run :: "nat \<Rightarrow> world \<Rightarrow> world" where
  "start_run i w =
     (let w = w\<lparr>tasks := remove1 i (tasks w)\<rparr>
      in if register w i \<noteq> None then w else w\<lparr>register := (register w)(i \<mapsto> (Registered, False))\<rparr>)"

definition goto :: "nat \<Rightarrow> stage \<Rightarrow> world \<Rightarrow> world" where
  "goto i st w = w\<lparr>register := (register w)(i := map_option (\<lambda>(_, stop). (st, stop)) (register w i))\<rparr>"

definition load_row :: "nat \<Rightarrow> world \<Rightarrow> world" where
  "load_row i w =
     (case get_image (rows w) i of
        None \<Rightarrow> goto i (Ending None) w
      | Some img \<Rightarrow>
          if status img \<noteq> ''pending'' then goto i (Ending None) w else goto i (Loaded (img_filename img)) w)"

text \<open>
  A commit of the run's changes to its row.  SQLAlchemy writes the changed columns; when another session
  has deleted the row it raises, and the exception handler finds no row to mark.
\<close>

definition commit_row :: "nat \<Rightarrow> (image \<Rightarrow> image) \<Rightarrow> world \<Rightarrow> world option" where
  "commit_row i f w =
     (case get_image (rows w) i of None \<Rightarrow> None | Some _ \<Rightarrow> Some (w\<lparr>rows := upd_image (rows w) i f\<rparr>))"

definition begin_build :: "nat \<Rightarrow> string \<Rightarrow> world \<Rightarrow> world" where
  "begin_build i filename w =
     (case commit_row i (\<lambda>r. r\<lparr>status := ''processing''\<rparr>) w of
        None \<Rightarrow> goto i (Ending (Some filename)) w
      | Some w \<Rightarrow> goto i (Working filename) (clean_derived_data i w))"

text \<open>While it builds, a run writes derived data, and one of a catalog image also the file it downloads.\<close>

definition write_tree :: "nat \<Rightarrow> world \<Rightarrow> world" where
  "write_tree i w = w\<lparr>trees := i # trees w\<rparr>"

definition write_file :: "string \<Rightarrow> world \<Rightarrow> world" where
  "write_file filename w = w\<lparr>isos := filename # isos w\<rparr>"

text \<open>\<open>check_stop\<close> in a run told to stop.\<close>

definition cancel :: "nat \<Rightarrow> string \<Rightarrow> world \<Rightarrow> world" where
  "cancel i filename w = goto i (Ending (Some filename)) w"

definition finish_build :: "nat \<Rightarrow> string \<Rightarrow> outcome \<Rightarrow> world \<Rightarrow> world" where
  "finish_build i filename out w =
     (case commit_row i (record_outcome out) w of
        None \<Rightarrow> goto i (Ending (Some filename)) w
      | Some w \<Rightarrow> goto i (Ending (Some filename)) w)"

text \<open>Any other exception: the row is marked unless the run was told to stop.\<close>

definition crash :: "nat \<Rightarrow> string \<Rightarrow> string \<Rightarrow> bool \<Rightarrow> world \<Rightarrow> world" where
  "crash i filename msg stop w =
     goto i (Ending (Some filename))
       (if stop then w
        else w\<lparr>rows := upd_image (rows w) i
          (\<lambda>r. r\<lparr>status := ''error'', message := ''Processing failed: '' @ msg\<rparr>)\<rparr>)"

text \<open>The \<open>finally\<close> of \<open>process_image\<close>: out of the register, and then the removal it may owe.\<close>

definition leave :: "nat \<Rightarrow> string option \<Rightarrow> bool \<Rightarrow> world \<Rightarrow> world" where
  "leave i filename stop w =
     w\<lparr>register := (register w)(i := None), removals := (if stop then (i, filename) # removals w else removals w)\<rparr>"

definition finish_delete :: "nat \<Rightarrow> string option \<Rightarrow> world \<Rightarrow> world" where
  "finish_delete i filename w =
     (let w = w\<lparr>removals := remove1 (i, filename) (removals w)\<rparr>
      in case get_image (rows w) i of
           Some img \<Rightarrow> if Some (img_filename img) = filename then remove_image img w else w
         | None \<Rightarrow>
             (let w = clean_derived_data i w
              in case filename of
                   None \<Rightarrow> w
                 | Some f \<Rightarrow>
                     if f \<noteq> [] \<and> f \<notin> img_filename ` set (rows w)
                     then w\<lparr>isos := removeAll f (isos w)\<rparr> else w))"

subsection \<open>Startup\<close>

text \<open>
  \<open>reconcile_statuses\<close>: \<open>missing img\<close> is the message for an image that lacks files it requires (None when
  all are there).
\<close>

definition reconcile_row :: "(image \<Rightarrow> string option) \<Rightarrow> image \<Rightarrow> image option" where
  "reconcile_row missing img =
     (if status img = DELETING then None
      else if status img \<in> set IN_FLIGHT then
        Some (img\<lparr>status := NEEDS_REPROCESS,
          message := ''Extraction was interrupted by a restart and never finished. Reprocess to run it again.''\<rparr>)
      else if status img \<noteq> ''ready'' then Some img
      else case missing img of
        None \<Rightarrow> Some img
      | Some msg \<Rightarrow> Some (img\<lparr>status := NEEDS_REPROCESS, message := msg\<rparr>))"

definition reconcile_statuses :: "(image \<Rightarrow> string option) \<Rightarrow> world \<Rightarrow> world" where
  "reconcile_statuses missing w =
     (let doomed = filter (\<lambda>img. status img = DELETING) (rows w)
      in w\<lparr>rows := concat (map (\<lambda>img. case reconcile_row missing img of None \<Rightarrow> [] | Some r \<Rightarrow> [r]) (rows w)),
           isos := filter (\<lambda>f. f \<notin> img_filename ` set doomed) (isos w),
           trees := filter (\<lambda>i. i \<notin> img_id ` set doomed) (trees w)\<rparr>)"

text \<open>A restart ends every run and forgets what was queued.\<close>

definition restart :: "(image \<Rightarrow> string option) \<Rightarrow> world \<Rightarrow> world" where
  "restart missing w =
     reconcile_statuses missing (w\<lparr>tasks := [], register := (\<lambda>_. None), removals := []\<rparr>)"

section \<open>Events\<close>

datatype event =
    Upload string string nat
  | Retry nat
  | Delete nat
  | BulkReprocess "nat list"
  | BulkDelete "nat list"
  | StartRun nat
  | LoadRow nat
  | BeginBuild nat
  | WriteTree nat
  | WriteFile nat
  | Cancel nat
  | FinishBuild nat outcome
  | Crash nat string
  | Leave nat
  | FinishDelete nat "string option"
  | Restart "image \<Rightarrow> string option"

text \<open>
  The next world, or None when the event cannot happen in this one.  A build ends in one of two statuses
  (lemma \<open>build_status\<close>).
\<close>

fun happen :: "event \<Rightarrow> world \<Rightarrow> world option" where
  "happen (Upload name file len) w = Some (upload name file len w)"
| "happen (Retry i) w = Some (retry i w)"
| "happen (Delete i) w = Some (delete i w)"
| "happen (BulkReprocess ids) w = Some (bulk_reprocess ids w)"
| "happen (BulkDelete ids) w = Some (bulk_delete ids w)"
| "happen (StartRun i) w = (if i \<in> set (tasks w) then Some (start_run i w) else None)"
| "happen (LoadRow i) w = (case register w i of Some (Registered, _) \<Rightarrow> Some (load_row i w) | _ \<Rightarrow> None)"
| "happen (BeginBuild i) w = (case register w i of Some (Loaded f, _) \<Rightarrow> Some (begin_build i f w) | _ \<Rightarrow> None)"
| "happen (WriteTree i) w = (case register w i of Some (Working f, _) \<Rightarrow> Some (write_tree i w) | _ \<Rightarrow> None)"
| "happen (WriteFile i) w = (case register w i of Some (Working f, _) \<Rightarrow> Some (write_file f w) | _ \<Rightarrow> None)"
| "happen (Cancel i) w = (case register w i of Some (Working f, True) \<Rightarrow> Some (cancel i f w) | _ \<Rightarrow> None)"
| "happen (FinishBuild i out) w =
     (if o_status out = ''ready'' \<or> o_status out = ''error''
      then (case register w i of Some (Working f, _) \<Rightarrow> Some (finish_build i f out w) | _ \<Rightarrow> None) else None)"
| "happen (Crash i msg) w = (case register w i of Some (Working f, stop) \<Rightarrow> Some (crash i f msg stop w) | _ \<Rightarrow> None)"
| "happen (Leave i) w = (case register w i of Some (Ending f, stop) \<Rightarrow> Some (leave i f stop w) | _ \<Rightarrow> None)"
| "happen (FinishDelete i f) w = (if (i, f) \<in> set (removals w) then Some (finish_delete i f w) else None)"
| "happen (Restart missing) w = Some (restart missing w)"

fun history :: "event list \<Rightarrow> world \<Rightarrow> world option" where
  "history [] w = Some w"
| "history (e # es) w = (case happen e w of None \<Rightarrow> None | Some w' \<Rightarrow> history es w')"

section \<open>The invariant\<close>

text \<open>
  A row of which the admin has asked the removal and that still waits for its run.  \<open>patient\<close>: requests
  leave such an image alone until it is gone.  What happens when they do not is shown further below.
\<close>

definition doomed :: "world \<Rightarrow> nat \<Rightarrow> bool" where
  "doomed w i \<longleftrightarrow> map_option snd (register w i) = Some True \<or> i \<in> fst ` set (removals w)"

lemma doomed_iff: "doomed w i \<longleftrightarrow> (\<exists>st. register w i = Some (st, True)) \<or> i \<in> fst ` set (removals w)"
  by (auto simp: doomed_def)

fun touched :: "event \<Rightarrow> nat list" where
  "touched (Retry i) = [i]"
| "touched (Delete i) = [i]"
| "touched (BulkReprocess ids) = ids"
| "touched (BulkDelete ids) = ids"
| "touched _ = []"

definition patient :: "event \<Rightarrow> world \<Rightarrow> bool" where
  "patient e w \<longleftrightarrow> (\<forall>i \<in> set (touched e). \<not> doomed w i)"

inductive reachable :: "world \<Rightarrow> bool" where
  reach_start: "reachable started"
| reach_step: "reachable w \<Longrightarrow> patient e w \<Longrightarrow> happen e w = Some w' \<Longrightarrow> reachable w'"

definition file_of :: "world \<Rightarrow> nat \<Rightarrow> string option" where
  "file_of w i = map_option img_filename (get_image (rows w) i)"

definition status_of :: "world \<Rightarrow> nat \<Rightarrow> string option" where
  "status_of w i = map_option status (get_image (rows w) i)"

text \<open>The file of the image a run works for, once it has read it.\<close>

fun claimed :: "stage \<Rightarrow> string option" where
  "claimed Registered = None"
| "claimed (Loaded f) = Some f"
| "claimed (Working f) = Some f"
| "claimed (Ending f) = f"

definition one_owner :: "world \<Rightarrow> bool" where
  "one_owner w \<longleftrightarrow> distinct (map img_id (rows w)) \<and> (\<forall>i j f. file_of w i = Some f \<longrightarrow> file_of w j = Some f \<longrightarrow> i = j)"

definition runs_ok :: "world \<Rightarrow> bool" where
  "runs_ok w \<longleftrightarrow> (\<forall>i st b f. register w i = Some (st, b) \<longrightarrow> claimed st = Some f \<longrightarrow> file_of w i = Some f)"

text \<open>A run that is not told to stop and has not decided to build.\<close>

definition quiet :: "stage \<times> bool \<Rightarrow> bool" where
  "quiet p \<longleftrightarrow> \<not> snd p \<and> claimed (fst p) = None"

definition removals_ok :: "world \<Rightarrow> bool" where
  "removals_ok w \<longleftrightarrow> distinct (map fst (removals w))
     \<and> (\<forall>i f. (i, Some f) \<in> set (removals w) \<longrightarrow> file_of w i = Some f)
     \<and> (\<forall>i p. i \<in> fst ` set (removals w) \<longrightarrow> register w i = Some p \<longrightarrow> quiet p)"

lemma removals_quiet: "removals_ok w \<Longrightarrow> i \<in> fst ` set (removals w) \<Longrightarrow> register w i = Some p \<Longrightarrow> quiet p"
  unfolding removals_ok_def by blast

definition owned :: "world \<Rightarrow> bool" where
  "owned w \<longleftrightarrow> (\<forall>i \<in> set (trees w). file_of w i \<noteq> None) \<and> (\<forall>f \<in> set (isos w). \<exists>i. file_of w i = Some f)"

definition doomed_ok :: "world \<Rightarrow> bool" where
  "doomed_ok w \<longleftrightarrow> (\<forall>i. doomed w i \<longrightarrow> (\<exists>s. status_of w i = Some s \<and> s \<noteq> ''pending''))"

definition inv :: "world \<Rightarrow> bool" where
  "inv w \<longleftrightarrow> one_owner w \<and> runs_ok w \<and> removals_ok w \<and> owned w \<and> doomed_ok w"

lemmas inv_defs = inv_def one_owner_def runs_ok_def removals_ok_def owned_def doomed_ok_def

lemma inv_started: "inv started"
  by (simp add: inv_defs started_def file_of_def doomed_iff)

subsection \<open>Lemmas on single changes\<close>

lemma file_of_rows: "file_of (w\<lparr>rows := db\<rparr>) i = map_option img_filename (get_image db i)"
  by (simp add: file_of_def)

text \<open>A change of columns other than the id and the file name.\<close>

definition mild :: "(image \<Rightarrow> image) \<Rightarrow> bool" where
  "mild f \<longleftrightarrow> (\<forall>r. img_id (f r) = img_id r \<and> img_filename (f r) = img_filename r)"

lemma mild_simps [simp]:
  "mild (\<lambda>r. r\<lparr>status := s\<rparr>)" "mild (\<lambda>r. r\<lparr>status := s, message := t\<rparr>)" "mild (record_outcome out)"
  by (simp_all add: mild_def record_outcome_def)

lemma get_mild: "mild f \<Longrightarrow> get_image (upd_image db i f) j = (if j = i then map_option f (get_image db j) else get_image db j)"
  by (rule get_upd_row) (simp add: mild_def)

lemma file_mild: "mild f \<Longrightarrow> map_option img_filename (get_image (upd_image db i f) j) = map_option img_filename (get_image db j)"
  by (cases "get_image db j"; cases "j = i") (auto simp: get_mild mild_def)

lemma ids_mild: "mild f \<Longrightarrow> map img_id (upd_image db i f) = map img_id db"
  by (simp add: mild_def)

text \<open>Worlds with the same files, runs, rows' ids and file names.\<close>

definition alike :: "world \<Rightarrow> world \<Rightarrow> bool" where
  "alike w w' \<longleftrightarrow> map img_id (rows w') = map img_id (rows w) \<and> file_of w' = file_of w \<and> isos w' = isos w
     \<and> trees w' = trees w \<and> register w' = register w \<and> removals w' = removals w"

lemma inv_alike:
  assumes "inv w" "alike w w'" "\<And>i. doomed w i \<Longrightarrow> \<exists>s. status_of w' i = Some s \<and> s \<noteq> ''pending''"
  shows "inv w'"
proof -
  from assms(2) have eq: "map img_id (rows w') = map img_id (rows w)" "file_of w' = file_of w" "isos w' = isos w"
    "trees w' = trees w" "register w' = register w" "removals w' = removals w" by (simp_all add: alike_def)
  have "one_owner w" "runs_ok w" "removals_ok w" "owned w" using assms(1) by (simp_all add: inv_def)
  moreover have "one_owner w' = one_owner w" "runs_ok w' = runs_ok w" "removals_ok w' = removals_ok w" "owned w' = owned w"
    by (simp_all only: one_owner_def runs_ok_def removals_ok_def owned_def eq)
  ultimately have "one_owner w'" "runs_ok w'" "removals_ok w'" "owned w'" by simp_all
  moreover have "doomed w' i = doomed w i" for i by (simp add: doomed_iff eq)
  then have "doomed_ok w'" using assms(3) by (simp add: doomed_ok_def)
  ultimately show ?thesis by (simp add: inv_def)
qed

lemma alike_upd: "mild f \<Longrightarrow> alike w (w\<lparr>rows := upd_image (rows w) i f, tasks := ts\<rparr>)"
  by (simp add: alike_def file_of_def fun_eq_iff file_mild ids_mild)

lemma alike_upd': "mild f \<Longrightarrow> alike w (w\<lparr>rows := upd_image (rows w) i f\<rparr>)"
  by (simp add: alike_def file_of_def fun_eq_iff file_mild ids_mild)

lemma status_upd:
  "mild f \<Longrightarrow> status_of (w\<lparr>rows := upd_image (rows w) i f, tasks := ts\<rparr>) j =
     (if j = i then map_option (status \<circ> f) (get_image (rows w) j) else status_of w j)"
  by (simp add: status_of_def get_mild option.map_comp)

text \<open>Removing an image nothing works for any more.\<close>

lemma file_remove: "file_of (remove_image img w) j = (if j = img_id img then None else file_of w j)"
  by (simp add: file_of_def remove_image_def get_del_row)

lemma status_remove: "status_of (remove_image img w) j = (if j = img_id img then None else status_of w j)"
  by (simp add: status_of_def remove_image_def get_del_row)

lemma remove_fields [simp]:
  "register (remove_image img w) = register w" "removals (remove_image img w) = removals w"
  "tasks (remove_image img w) = tasks w"
  "isos (remove_image img w) = removeAll (img_filename img) (isos w)"
  "trees (remove_image img w) = removeAll (img_id img) (trees w)"
  "rows (remove_image img w) = del_image (rows w) (img_id img)"
  by (simp_all add: remove_image_def clean_derived_data_def)

lemma doomed_remove [simp]: "doomed (remove_image img w) i = doomed w i"
  by (simp add: doomed_iff)

lemma inv_remove:
  assumes "inv w" "file_of w (img_id img) = Some (img_filename img)" "\<not> doomed w (img_id img)"
    and "\<And>st b. register w (img_id img) = Some (st, b) \<Longrightarrow> claimed st = None"
  shows "inv (remove_image img w)"
proof -
  let ?i = "img_id img" and ?f = "img_filename img"
  note parts = assms(1) [unfolded inv_def]
  have own: "one_owner w" "runs_ok w" "removals_ok w" "owned w" "doomed_ok w" using parts by simp_all
  have only: "file_of w j = Some ?f \<Longrightarrow> j = ?i" for j
    using own(1) assms(2) unfolding one_owner_def by blast
  have no: "?i \<notin> fst ` set (removals w)" using assms(3) by (simp add: doomed_iff)
  have "one_owner (remove_image img w)"
    using own(1) unfolding one_owner_def file_remove by (simp add: distinct_del_row split: if_splits)
  moreover have "runs_ok (remove_image img w)"
    unfolding runs_ok_def file_remove
  proof (intro allI impI)
    fix i st b f assume r: "register (remove_image img w) i = Some (st, b)" "claimed st = Some f"
    with assms(4) have "i \<noteq> ?i" by auto
    with r own(2) show "(if i = ?i then None else file_of w i) = Some f" by (auto simp: runs_ok_def)
  qed
  moreover have "removals_ok (remove_image img w)"
    unfolding removals_ok_def file_remove remove_fields
  proof (intro conjI allI impI)
    show "distinct (map fst (removals w))" using own(3) by (simp add: removals_ok_def)
    fix i
    show "(if i = ?i then None else file_of w i) = Some f" if f: "(i, Some f) \<in> set (removals w)" for f
    proof -
      have "i \<noteq> ?i" using f no by force
      with f own(3) show ?thesis by (simp add: removals_ok_def)
    qed
    show "quiet p" if "i \<in> fst ` set (removals w)" "register w i = Some p" for p
      using removals_quiet [OF own(3) that] .
  qed
  moreover have "owned (remove_image img w)"
    unfolding owned_def
  proof (intro conjI ballI)
    fix i assume "i \<in> set (trees (remove_image img w))"
    with own(4) show "file_of (remove_image img w) i \<noteq> None" by (auto simp: owned_def file_remove)
  next
    fix f assume f: "f \<in> set (isos (remove_image img w))"
    with own(4) obtain i where "file_of w i = Some f" by (auto simp: owned_def)
    moreover from this f assms(2) have "i \<noteq> ?i" by auto
    ultimately show "\<exists>i. file_of (remove_image img w) i = Some f" by (auto simp: file_remove)
  qed
  moreover have "doomed_ok (remove_image img w)"
    using own(5) assms(3) unfolding doomed_ok_def status_remove doomed_remove by auto
  ultimately show ?thesis by (simp add: inv_def)
qed

subsection \<open>Requests keep it\<close>

lemma inv_mark:
  assumes "inv w" "register w i = Some (st, False)" "status_of w i \<noteq> None" "i \<notin> fst ` set (removals w)"
  shows "inv (w\<lparr>register := (register w)(i \<mapsto> (st, True)),
    rows := upd_image (rows w) i (\<lambda>r. r\<lparr>status := DELETING, message := msg\<rparr>)\<rparr>)" (is "inv ?w")
proof -
  have own: "one_owner w" "runs_ok w" "removals_ok w" "owned w" "doomed_ok w"
    using assms(1) by (simp_all add: inv_def)
  have same: "file_of ?w = file_of w" by (simp add: file_of_def fun_eq_iff file_mild)
  have "one_owner ?w" using own(1) unfolding one_owner_def same by (simp add: ids_mild)
  moreover have "runs_ok ?w" using own(2) assms(2) unfolding runs_ok_def same by auto
  moreover have "removals_ok ?w"
    unfolding removals_ok_def same
  proof (intro conjI allI impI)
    show "distinct (map fst (removals ?w))" using own(3) by (simp add: removals_ok_def)
    show "file_of w j = Some f" if "(j, Some f) \<in> set (removals ?w)" for j f
      using that own(3) by (simp add: removals_ok_def)
    fix j p assume j: "j \<in> fst ` set (removals ?w)" "register ?w j = Some p"
    then have "j \<noteq> i" using assms(4) by auto
    with j removals_quiet [OF own(3)] show "quiet p" by simp
  qed
  moreover have "owned ?w" using own(4) unfolding owned_def same by simp
  moreover have "doomed_ok ?w"
  proof -
    have "doomed ?w j \<Longrightarrow> j = i \<or> doomed w j" for j by (auto simp: doomed_iff)
    moreover have "status_of ?w j = (if j = i then Some DELETING else status_of w j)" for j
      using assms(3) by (auto simp: status_of_def get_mild)
    ultimately show ?thesis using own(5) unfolding doomed_ok_def by (auto simp: DELETING_def)
  qed
  ultimately show ?thesis by (simp add: inv_def)
qed

lemma inv_delete_image:
  assumes "inv w" "file_of w (img_id img) = Some (img_filename img)" "\<not> doomed w (img_id img)"
  shows "inv (delete_image img w)"
proof (cases "register w (img_id img)")
  case None
  then have "delete_image img w = remove_image img w" by (simp add: delete_image_def)
  with inv_remove [OF assms] None show ?thesis by simp
next
  case (Some sb)
  obtain st b where sb: "sb = (st, b)" by (cases sb)
  with Some assms(3) have b: "b = False" by (cases b) (auto simp: doomed_iff)
  have no: "img_id img \<notin> fst ` set (removals w)" using assms(3) by (simp add: doomed_iff)
  have "status_of w (img_id img) \<noteq> None" using assms(2) by (auto simp: status_of_def file_of_def)
  from inv_mark [OF assms(1) _ this no] show ?thesis
    using Some sb b by (simp add: delete_image_def)
qed

lemma inv_delete: "inv w \<Longrightarrow> \<not> doomed w i \<Longrightarrow> inv (delete i w)"
proof (cases "get_image (rows w) i")
  case (Some img)
  assume "inv w" "\<not> doomed w i"
  moreover have "img_id img = i" using get_row_id [OF Some] .
  moreover have "file_of w i = Some (img_filename img)" using Some by (simp add: file_of_def)
  ultimately show ?thesis using Some inv_delete_image by (simp add: delete_def)
qed (simp add: delete_def)

lemma inv_retry: "inv w \<Longrightarrow> \<not> doomed w i \<Longrightarrow> inv (retry i w)"
proof (cases "get_image (rows w) i")
  case (Some img)
  assume w: "inv w" "\<not> doomed w i"
  let ?w = "w\<lparr>rows := upd_image (rows w) i (\<lambda>r. r\<lparr>status := ''pending''\<rparr>), tasks := tasks w @ [i]\<rparr>"
  have "inv ?w"
  proof (rule inv_alike [OF w(1) alike_upd])
    fix j assume "doomed w j"
    with w(2) have "j \<noteq> i" by auto
    with \<open>doomed w j\<close> w(1) show "\<exists>s. status_of ?w j = Some s \<and> s \<noteq> ''pending''"
      by (simp add: status_upd inv_def doomed_ok_def)
  qed simp
  with w(1) Some show ?thesis by (simp add: retry_def)
qed (simp add: retry_def)

text \<open>The bulk actions: one row at a time.\<close>

lemma bulk_rows_found:
  "img \<in> set (bulk_rows ids w) \<Longrightarrow> get_image (rows w) (img_id img) = Some img \<and> img_id img \<in> set ids"
proof -
  assume "img \<in> set (bulk_rows ids w)"
  then obtain i where "i \<in> set ids" "get_image (rows w) i = Some img"
    by (auto simp: bulk_rows_def split: option.splits)
  with get_row_id [OF this(2)] show ?thesis by simp
qed

lemma bulk_rows_distinct: "distinct (map img_id (bulk_rows ids w))"
proof -
  let ?row = "\<lambda>i. case get_image (rows w) i of None \<Rightarrow> [] | Some r \<Rightarrow> [r]"
  have "distinct js \<Longrightarrow> distinct (map img_id (concat (map ?row js))) \<and> img_id ` set (concat (map ?row js)) \<subseteq> set js" for js
    by (induction js) (auto dest: get_row_id split: option.splits)
  then show ?thesis by (simp add: bulk_rows_def)
qed

lemma file_marked: "file_of (w\<lparr>register := rg, rows := upd_image (rows w) i (\<lambda>r. r\<lparr>status := s, message := m'\<rparr>)\<rparr>) j = file_of w j"
  by (simp add: file_of_def file_mild)

lemma delete_image_other:
  assumes "j \<noteq> img_id img"
  shows "file_of (delete_image img w) j = file_of w j" "doomed (delete_image img w) j = doomed w j"
proof -
  consider (remove) "delete_image img w = remove_image img w"
    | (mark) st where "register w (img_id img) = Some (st, False)" "delete_image img w =
        w\<lparr>register := (register w)(img_id img \<mapsto> (st, True)), rows := upd_image (rows w) (img_id img)
          (\<lambda>r. r\<lparr>status := DELETING, message := ''Deleting: waiting for the current step to stop.''\<rparr>)\<rparr>"
  proof (cases "register w (img_id img)")
    case None
    then show thesis by (intro remove) (simp add: delete_image_def)
  next
    case (Some p)
    obtain st b where p: "p = (st, b)" by (cases p)
    show thesis
    proof (cases b)
      case True
      with Some p show thesis by (intro remove) (simp add: delete_image_def)
    next
      case False
      with Some p show thesis by (intro mark [of st]) (simp_all add: delete_image_def)
    qed
  qed
  then show "file_of (delete_image img w) j = file_of w j" "doomed (delete_image img w) j = doomed w j"
    by (cases; use assms in \<open>simp add: file_remove file_marked doomed_iff\<close>)+
qed

lemma inv_bulk_delete_rows:
  assumes "inv w" "distinct (map img_id imgs)"
    and "\<And>img. img \<in> set imgs \<Longrightarrow> file_of w (img_id img) = Some (img_filename img) \<and> \<not> doomed w (img_id img)"
  shows "inv (foldl (\<lambda>w img. delete_image img w) w imgs)"
  using assms
proof (induction imgs arbitrary: w)
  case (Cons img imgs)
  have "inv (delete_image img w)" using Cons.prems by (intro inv_delete_image) auto
  moreover have "file_of (delete_image img w) (img_id x) = Some (img_filename x) \<and> \<not> doomed (delete_image img w) (img_id x)"
    if "x \<in> set imgs" for x
  proof -
    have "img_id x \<in> img_id ` set imgs" using that by simp
    then have "img_id x \<noteq> img_id img" using Cons.prems(2) by auto
    with delete_image_other [OF this, of w] Cons.prems(3) that show ?thesis by simp
  qed
  ultimately show ?case using Cons.IH Cons.prems(2) by simp
qed simp

lemma inv_bulk_delete:
  assumes "inv w" "\<And>i. i \<in> set ids \<Longrightarrow> \<not> doomed w i"
  shows "inv (bulk_delete ids w)"
  unfolding bulk_delete_def
proof (rule inv_bulk_delete_rows [OF assms(1) bulk_rows_distinct])
  fix img assume "img \<in> set (bulk_rows ids w)"
  from bulk_rows_found [OF this] assms(2)
  show "file_of w (img_id img) = Some (img_filename img) \<and> \<not> doomed w (img_id img)" by (simp add: file_of_def)
qed

lemma upd_many:
  assumes "mild f"
  shows "map img_id (foldl (\<lambda>db img. upd_image db (img_id img) f) db imgs) = map img_id db
    \<and> map_option img_filename (get_image (foldl (\<lambda>db img. upd_image db (img_id img) f) db imgs) j)
        = map_option img_filename (get_image db j)
    \<and> (j \<notin> img_id ` set imgs \<longrightarrow>
        get_image (foldl (\<lambda>db img. upd_image db (img_id img) f) db imgs) j = get_image db j)"
proof (induction imgs arbitrary: db)
  case (Cons img imgs)
  have "map_option img_filename (map_option f r) = map_option img_filename r" for r
    using assms by (cases r) (simp_all add: mild_def)
  with Cons [of "upd_image db (img_id img) f"] assms show ?case
    by (simp add: ids_mild get_mild)
qed simp

lemma inv_bulk_reprocess:
  assumes "inv w" "\<And>i. i \<in> set ids \<Longrightarrow> \<not> doomed w i"
  shows "inv (bulk_reprocess ids w)"
proof (rule inv_alike [OF assms(1)])
  let ?queued = "filter (\<lambda>img. status img \<notin> set BUSY) (bulk_rows ids w)"
  have mild: "mild (\<lambda>r. r\<lparr>status := ''pending''\<rparr>)" by simp
  note many = upd_many [OF mild, of "rows w" ?queued]
  show "alike w (bulk_reprocess ids w)"
    using many by (simp add: alike_def bulk_reprocess_def Let_def file_of_def fun_eq_iff)
  fix j assume "doomed w j"
  then have "j \<notin> img_id ` set ?queued" using assms(2) bulk_rows_found [of _ ids w] by auto
  with many have "status_of (bulk_reprocess ids w) j = status_of w j"
    by (simp add: status_of_def bulk_reprocess_def Let_def)
  with assms(1) \<open>doomed w j\<close> show "\<exists>s. status_of (bulk_reprocess ids w) j = Some s \<and> s \<noteq> ''pending''"
    by (simp add: inv_def doomed_ok_def)
qed

text \<open>A new image: a fresh id and a file nothing else has.\<close>

lemma file_of_in: "file_of w i = Some f \<Longrightarrow> f \<in> img_filename ` set (rows w)"
  using get_row_in [of img_id "rows w" i] by (auto simp: file_of_def)

lemma inv_add:
  assumes "inv w" "img_id row = next_id img_id (rows w)" "img_filename row \<notin> img_filename ` set (rows w)"
  shows "inv (w\<lparr>rows := rows w @ [row], isos := img_filename row # isos w, tasks := ts\<rparr>)" (is "inv ?w")
proof -
  let ?i = "img_id row" and ?f = "img_filename row"
  have own: "one_owner w" "runs_ok w" "removals_ok w" "owned w" "doomed_ok w"
    using assms(1) by (simp_all add: inv_def)
  have new: "get_image (rows w) ?i = None" by (simp add: assms(2))
  have old: "get_image (rows ?w) j = (if j = ?i then Some row else get_image (rows w) j)" for j
    using new by (auto simp: get_row_append split: option.splits)
  then have paths: "file_of ?w j = (if j = ?i then Some ?f else file_of w j)" for j by (simp add: file_of_def)
  have noti: "file_of w ?i = None" using new by (simp add: file_of_def)
  have nof: "file_of w j \<noteq> Some ?f" for j using file_of_in [of w j ?f] assms(3) by auto
  have "one_owner ?w"
  proof -
    have "distinct (map img_id (rows ?w))"
      using own(1) next_id_fresh [of _ "rows w" img_id] assms(2) by (force simp: one_owner_def)
    moreover have "i = j" if "file_of ?w i = Some f" "file_of ?w j = Some f" for i j f
      using that nof own(1) unfolding paths one_owner_def by (auto split: if_splits)
    ultimately show ?thesis unfolding one_owner_def by blast
  qed
  moreover have "runs_ok ?w" using own(2) noti unfolding runs_ok_def paths by auto
  moreover have "removals_ok ?w" using own(3) noti unfolding removals_ok_def paths by force
  moreover have "owned ?w" using own(4) unfolding owned_def paths by auto (metis noti option.distinct(1))
  moreover have "doomed_ok ?w"
  proof -
    have "doomed ?w j = doomed w j" for j by (simp add: doomed_iff)
    moreover have "status_of ?w j = (if j = ?i then Some (status row) else status_of w j)" for j
      using old by (simp add: status_of_def)
    moreover have "status_of w ?i = None" using new by (simp add: status_of_def)
    ultimately show ?thesis using own(5) unfolding doomed_ok_def by force
  qed
  ultimately show ?thesis by (simp add: inv_def)
qed

lemma upload_effect:
  "upload name upfile len w = w \<or> (\<exists>row. img_id row = next_id img_id (rows w) \<and> status row = ''pending''
     \<and> img_filename row \<notin> set (isos w) \<and> img_filename row \<notin> img_filename ` set (rows w)
     \<and> upload name upfile len w =
         w\<lparr>rows := rows w @ [row], isos := img_filename row # isos w, tasks := tasks w @ [img_id row]\<rparr>)"
proof (cases "suffix ''.iso'' (lower (safe_filename upfile))")
  case True
  let ?used = "isos w @ map img_filename (rows w)"
  show ?thesis
  proof (cases "unused_filename ?used (safe_filename upfile)")
    case None
    with True show ?thesis by (simp add: upload_def)
  next
    case (Some f)
    then have "\<exists>k. 1 \<le> k \<and> k < 1 + (length ?used + 2) \<and> f = file_candidate (safe_filename upfile) k
      \<and> f \<notin> set ?used \<and> (\<forall>j \<in> {1..<k}. file_candidate (safe_filename upfile) j \<in> set ?used)"
      unfolding unused_filename_def by (rule first_free_Some)
    then have new: "f \<notin> set (isos w)" "f \<notin> img_filename ` set (rows w)" by auto
    obtain stem dot ext where p: "rpartition_dot f = (stem, dot, ext)" by (cases "rpartition_dot f")
    let ?shown = "strip_control_chars (strip name)"
    let ?row = "(image_row (next_id img_id (rows w))
        (if ?shown = [] then (if dot = [] then f else stem) else ?shown) f)\<lparr>size_bytes := len\<rparr>"
    have row: "img_id ?row = next_id img_id (rows w)" "img_filename ?row = f" "status ?row = ''pending''"
      by (simp_all add: image_row_def)
    have "upload name upfile len w = w\<lparr>rows := rows w @ [?row], isos := f # isos w, tasks := tasks w @ [next_id img_id (rows w)]\<rparr>"
      using True by (simp add: upload_def Some p Let_def)
    with new row show ?thesis by (intro disjI2 exI [of _ ?row]) simp
  qed
qed (simp add: upload_def)

lemma inv_upload: "inv w \<Longrightarrow> inv (upload name upfile len w)"
  using upload_effect [of name upfile len w] inv_add [of w] by (elim disjE exE conjE) simp_all

subsection \<open>Runs keep it\<close>

lemma inv_register:
  assumes "inv w" "rg = (register w)(i := v)"
    and "\<And>st b f. v = Some (st, b) \<Longrightarrow> claimed st = Some f \<Longrightarrow> file_of w i = Some f"
    and "\<And>p. i \<in> fst ` set (removals w) \<Longrightarrow> v = Some p \<Longrightarrow> quiet p"
    and "\<And>st. v = Some (st, True) \<Longrightarrow> doomed w i"
  shows "inv (w\<lparr>register := rg, tasks := ts\<rparr>)" (is "inv ?w")
proof -
  have own: "one_owner w" "runs_ok w" "removals_ok w" "owned w" "doomed_ok w"
    using assms(1) by (simp_all add: inv_def)
  have same: "file_of ?w = file_of w" "status_of ?w = status_of w" by (simp_all add: file_of_def status_of_def fun_eq_iff)
  have "one_owner ?w" using own(1) unfolding one_owner_def same by simp
  moreover have "runs_ok ?w"
    unfolding runs_ok_def same
  proof (intro allI impI)
    fix j st b f assume r: "register ?w j = Some (st, b)" "claimed st = Some f"
    show "file_of w j = Some f"
    proof (cases "j = i")
      case True
      with r assms(2,3) show ?thesis by simp
    next
      case False
      with r own(2) assms(2) show ?thesis by (simp add: runs_ok_def)
    qed
  qed
  moreover have "removals_ok ?w"
    unfolding removals_ok_def same
  proof (intro conjI allI impI)
    show "distinct (map fst (removals ?w))" using own(3) by (simp add: removals_ok_def)
    show "file_of w j = Some f" if "(j, Some f) \<in> set (removals ?w)" for j f
      using that own(3) by (simp add: removals_ok_def)
    show "quiet p" if "j \<in> fst ` set (removals ?w)" "register ?w j = Some p" for j p
    proof (cases "j = i")
      case True
      with that assms(2,4) show ?thesis by simp
    next
      case False
      with that removals_quiet [OF own(3)] assms(2) show ?thesis by simp
    qed
  qed
  moreover have "owned ?w" using own(4) unfolding owned_def same by simp
  moreover have "doomed_ok ?w"
  proof -
    have "doomed ?w j \<Longrightarrow> doomed w j" for j
      using assms(5) unfolding doomed_iff assms(2) by (auto split: if_splits)
    with own(5) show ?thesis unfolding doomed_ok_def same by blast
  qed
  ultimately show ?thesis by (simp add: inv_def)
qed

lemma goto_world: "register w i = Some (st0, b) \<Longrightarrow>
    goto i st w = w\<lparr>register := (register w)(i := Some (st, b)), tasks := tasks w\<rparr>"
  by (simp add: goto_def)

text \<open>A run moves on, keeping its stop flag.\<close>

lemma inv_goto:
  assumes "inv w" "register w i = Some (st0, b)"
    and "\<And>f. claimed st = Some f \<Longrightarrow> file_of w i = Some f \<and> (claimed st0 = Some f \<or> \<not> doomed w i)"
  shows "inv (goto i st w)"
  unfolding goto_world [OF assms(2)]
proof (rule inv_register [OF assms(1) refl])
  fix st' b' f assume "Some (st, b) = Some (st', b')" "claimed st' = Some f"
  with assms(3) show "file_of w i = Some f" by auto
next
  fix p assume p: "i \<in> fst ` set (removals w)" "Some (st, b) = Some p"
  have "removals_ok w" using assms(1) by (simp add: inv_def)
  from removals_quiet [OF this p(1) assms(2)] have q: "quiet (st0, b)" .
  have "doomed w i" using p(1) by (simp add: doomed_iff)
  with q assms(3) have "claimed st = None" by (cases "claimed st") (auto simp: quiet_def)
  with q p(2) show "quiet p" by (auto simp: quiet_def)
next
  fix st' assume "Some (st, b) = Some (st', True)"
  with assms(2) show "doomed w i" by (auto simp: doomed_iff)
qed

lemma inv_start_run: "inv w \<Longrightarrow> inv (start_run i w)"
proof (cases "register w i")
  case None
  assume "inv w"
  have "start_run i w = w\<lparr>register := (register w)(i := Some (Registered, False)), tasks := remove1 i (tasks w)\<rparr>"
    using None by (simp add: start_run_def)
  moreover have "inv \<dots>" by (rule inv_register [OF \<open>inv w\<close> refl]) (auto simp: quiet_def)
  ultimately show ?thesis by simp
next
  case (Some p)
  assume w: "inv w"
  have "start_run i w = w\<lparr>tasks := remove1 i (tasks w)\<rparr>" using Some by (simp add: start_run_def)
  moreover have "alike w (w\<lparr>tasks := remove1 i (tasks w)\<rparr>)" by (simp add: alike_def file_of_def fun_eq_iff)
  ultimately show ?thesis
    using inv_alike [OF w, of "w\<lparr>tasks := remove1 i (tasks w)\<rparr>"] w by (simp add: inv_def doomed_ok_def status_of_def)
qed

lemma inv_load_row: "inv w \<Longrightarrow> register w i = Some (Registered, b) \<Longrightarrow> inv (load_row i w)"
proof -
  assume w: "inv w" "register w i = Some (Registered, b)"
  show ?thesis
  proof (cases "get_image (rows w) i")
    case None
    then show ?thesis using inv_goto [OF w, of "Ending None"] by (simp add: load_row_def)
  next
    case (Some img)
    show ?thesis
    proof (cases "status img = ''pending''")
      case True
      have "\<not> doomed w i"
        using w(1) Some True by (auto simp: inv_def doomed_ok_def status_of_def)
      moreover have "file_of w i = Some (img_filename img)" using Some by (simp add: file_of_def)
      ultimately show ?thesis
        using inv_goto [OF w, of "Loaded (img_filename img)"] Some True by (simp add: load_row_def)
    next
      case False
      then show ?thesis using inv_goto [OF w, of "Ending None"] Some by (simp add: load_row_def)
    qed
  qed
qed

text \<open>A commit to a row that is there.\<close>

lemma inv_commit:
  assumes "inv w" "mild g" "\<And>r. status (g r) \<noteq> ''pending''" "commit_row i g w = Some w'"
  shows "inv w' \<and> register w' = register w \<and> file_of w' = file_of w"
proof -
  from assms(4) have w': "w' = w\<lparr>rows := upd_image (rows w) i g\<rparr>" by (auto simp: commit_row_def split: option.splits)
  have "inv w'"
    unfolding w'
  proof (rule inv_alike [OF assms(1) alike_upd' [OF assms(2)]])
    fix j assume "doomed w j"
    then obtain s where "status_of w j = Some s" "s \<noteq> ''pending''"
      using assms(1) by (auto simp: inv_def doomed_ok_def)
    with assms(2,3) show "\<exists>s. status_of (w\<lparr>rows := upd_image (rows w) i g\<rparr>) j = Some s \<and> s \<noteq> ''pending''"
      by (auto simp: status_of_def get_mild)
  qed
  moreover have "file_of w' = file_of w" unfolding w' using assms(2) by (simp add: file_of_def fun_eq_iff file_mild)
  ultimately show ?thesis by (simp add: w')
qed

text \<open>Fewer or more derived data of an image that is there.\<close>

lemma inv_trees:
  assumes "inv w" "\<And>j. j \<in> set ts \<Longrightarrow> j \<in> set (trees w) \<or> file_of w j \<noteq> None"
    "\<And>f. f \<in> set fs \<Longrightarrow> f \<in> set (isos w) \<or> (\<exists>j. file_of w j = Some f)"
  shows "inv (w\<lparr>trees := ts, isos := fs\<rparr>)" (is "inv ?w")
proof -
  have same: "file_of ?w = file_of w" "status_of ?w = status_of w" "doomed ?w = doomed w"
    by (simp_all add: file_of_def status_of_def doomed_iff fun_eq_iff)
  have "owned w" using assms(1) by (simp add: inv_def)
  then have "owned ?w"
    unfolding owned_def same
  proof (intro conjI ballI)
    assume o: "(\<forall>i \<in> set (trees w). file_of w i \<noteq> None) \<and> (\<forall>f \<in> set (isos w). \<exists>i. file_of w i = Some f)"
    show "file_of w j \<noteq> None" if "j \<in> set (trees ?w)" for j using that assms(2) [of j] o by auto
    show "\<exists>j. file_of w j = Some f" if "f \<in> set (isos ?w)" for f using that assms(3) [of f] o by auto
  qed
  moreover have "one_owner ?w = one_owner w" "runs_ok ?w = runs_ok w" "removals_ok ?w = removals_ok w" "doomed_ok ?w = doomed_ok w"
    by (simp_all only: one_owner_def runs_ok_def removals_ok_def doomed_ok_def same) simp_all
  ultimately show ?thesis using assms(1) by (simp add: inv_def)
qed

lemma run_file: "inv w \<Longrightarrow> register w i = Some (st, b) \<Longrightarrow> claimed st = Some f \<Longrightarrow> file_of w i = Some f"
  by (simp add: inv_def runs_ok_def)

lemma inv_begin_build:
  assumes "inv w" "register w i = Some (Loaded f, b)"
  shows "inv (begin_build i f w)"
proof (cases "commit_row i (\<lambda>r. r\<lparr>status := ''processing''\<rparr>) w")
  case None
  have "inv (goto i (Ending (Some f)) w)"
    using run_file [OF assms] by (intro inv_goto [OF assms]) simp
  with None show ?thesis by (simp add: begin_build_def)
next
  case (Some w1)
  from inv_commit [OF assms(1) _ _ Some] have w1: "inv w1" "register w1 = register w" "file_of w1 = file_of w" by simp_all
  have "inv (clean_derived_data i w1)"
    using inv_trees [OF w1(1), of "removeAll i (trees w1)" "isos w1"] by (simp add: clean_derived_data_def)
  moreover have "register (clean_derived_data i w1) i = Some (Loaded f, b)" "file_of (clean_derived_data i w1) = file_of w1"
    using assms(2) w1(2) by (simp_all add: clean_derived_data_def file_of_def fun_eq_iff)
  ultimately have "inv (goto i (Working f) (clean_derived_data i w1))"
    using run_file [OF assms] w1(3) by (intro inv_goto) auto
  with Some show ?thesis by (simp add: begin_build_def)
qed

lemma inv_write:
  assumes "inv w" "register w i = Some (Working f, b)"
  shows "inv (write_tree i w)" "inv (write_file f w)"
  using run_file [OF assms] inv_trees [OF assms(1), of "i # trees w" "isos w"] inv_trees [OF assms(1), of "trees w" "f # isos w"]
  by (auto simp: write_tree_def write_file_def)

lemma inv_end:
  assumes "inv w" "register w i = Some (Working f, b)"
  shows "inv (goto i (Ending (Some f)) w)"
  using run_file [OF assms] by (intro inv_goto [OF assms]) simp

lemma inv_finish_build:
  assumes "inv w" "register w i = Some (Working f, b)" "o_status out = ''ready'' \<or> o_status out = ''error''"
  shows "inv (finish_build i f out w)"
proof (cases "commit_row i (record_outcome out) w")
  case None
  with inv_end [OF assms(1,2)] show ?thesis by (simp add: finish_build_def)
next
  case (Some w1)
  have "status (record_outcome out r) \<noteq> ''pending''" for r using assms(3) by (auto simp: record_outcome_def)
  from inv_commit [OF assms(1) _ this Some] have "inv w1" "register w1 = register w" by simp_all
  with inv_end [of w1 i f b] assms(2) Some show ?thesis by (simp add: finish_build_def)
qed

lemma inv_crash:
  assumes "inv w" "register w i = Some (Working f, stop)"
  shows "inv (crash i f msg stop w)"
proof (cases stop)
  case True
  with inv_end [OF assms] show ?thesis by (simp add: crash_def)
next
  case False
  let ?g = "\<lambda>r. r\<lparr>status := ''error'', message := ''Processing failed: '' @ msg\<rparr>"
  have "inv (w\<lparr>rows := upd_image (rows w) i ?g\<rparr>)"
  proof (rule inv_alike [OF assms(1) alike_upd'])
    fix j assume "doomed w j"
    then obtain s where "status_of w j = Some s" "s \<noteq> ''pending''"
      using assms(1) by (auto simp: inv_def doomed_ok_def)
    then show "\<exists>s. status_of (w\<lparr>rows := upd_image (rows w) i ?g\<rparr>) j = Some s \<and> s \<noteq> ''pending''"
      by (auto simp: status_of_def get_mild)
  qed simp
  from inv_end [OF this, of i f stop] assms(2) False show ?thesis by (simp add: crash_def)
qed

lemma inv_leave:
  assumes "inv w" "register w i = Some (Ending f, b)"
  shows "inv (leave i f b w)"
proof -
  have own: "one_owner w" "runs_ok w" "removals_ok w" "owned w" "doomed_ok w"
    using assms(1) by (simp_all add: inv_def)
  let ?w = "leave i f b w"
  have same: "file_of ?w = file_of w" "status_of ?w = status_of w" "rows ?w = rows w" "trees ?w = trees w" "isos ?w = isos w"
    by (simp_all add: leave_def file_of_def status_of_def fun_eq_iff)
  have reg: "register ?w = (register w)(i := None)" by (simp add: leave_def)
  have "one_owner ?w" "owned ?w" using own(1,4) unfolding one_owner_def owned_def same by blast+
  moreover have "runs_ok ?w" using own(2) unfolding runs_ok_def same reg by auto
  moreover have "removals_ok ?w"
  proof -
    have "b \<Longrightarrow> i \<notin> fst ` set (removals w)"
      using removals_quiet [OF own(3) _ assms(2)] by (auto simp: quiet_def)
    moreover have "b \<Longrightarrow> f = Some g \<Longrightarrow> file_of w i = Some g" for g using run_file [OF assms] by simp
    ultimately show ?thesis
      using own(3) unfolding removals_ok_def same reg by (auto simp: leave_def)
  qed
  moreover have "doomed_ok ?w"
  proof -
    have "doomed ?w j \<Longrightarrow> doomed w j" for j
      using assms(2) by (auto simp: doomed_iff leave_def split: if_splits)
    with own(5) show ?thesis unfolding doomed_ok_def same by blast
  qed
  ultimately show ?thesis by (simp add: inv_def)
qed

lemma inv_fewer_removals:
  assumes "inv w"
  shows "inv (w\<lparr>removals := remove1 x (removals w)\<rparr>)" (is "inv ?w")
proof -
  have own: "one_owner w" "runs_ok w" "removals_ok w" "owned w" "doomed_ok w"
    using assms(1) by (simp_all add: inv_def)
  have same: "file_of ?w = file_of w" "status_of ?w = status_of w"
    by (simp_all add: file_of_def status_of_def fun_eq_iff)
  have sub: "set (removals ?w) \<subseteq> set (removals w)" by (simp add: set_remove1_subset)
  have "one_owner ?w" "owned ?w" "runs_ok ?w" using own(1,2,4) unfolding one_owner_def owned_def runs_ok_def same by simp_all
  moreover have "removals_ok ?w"
    unfolding removals_ok_def same
  proof (intro conjI allI impI)
    show "distinct (map fst (removals ?w))"
      using own(3) by (auto simp: removals_ok_def distinct_map intro: inj_on_subset)
    show "file_of w i = Some f" if "(i, Some f) \<in> set (removals ?w)" for i f
      using that sub own(3) by (auto simp: removals_ok_def)
    show "quiet p" if "i \<in> fst ` set (removals ?w)" "register ?w i = Some p" for i p
    proof -
      have "i \<in> fst ` set (removals w)" using that(1) sub by blast
      with removals_quiet [OF own(3)] that(2) show ?thesis by simp
    qed
  qed
  moreover have "doomed_ok ?w"
  proof -
    have "doomed ?w j \<Longrightarrow> doomed w j" for j using sub by (auto simp: doomed_iff)
    with own(5) show ?thesis unfolding doomed_ok_def same by blast
  qed
  ultimately show ?thesis by (simp add: inv_def)
qed

lemma gone_removal:
  assumes "distinct (map fst xs)" "(i, f) \<in> set xs"
  shows "i \<notin> fst ` set (remove1 (i, f) xs)"
  using assms by (induction xs) (auto simp: image_iff)

lemma inv_finish_delete:
  assumes "inv w" "(i, f) \<in> set (removals w)"
  shows "inv (finish_delete i f w)"
proof -
  let ?w = "w\<lparr>removals := remove1 (i, f) (removals w)\<rparr>"
  have w: "inv ?w" by (rule inv_fewer_removals [OF assms(1)])
  have ok: "removals_ok w" using assms(1) by (simp add: inv_def)
  show ?thesis
  proof (cases "get_image (rows w) i")
    case (Some img)
    show ?thesis
    proof (cases "Some (img_filename img) = f")
      case True
      have i: "img_id img = i" using get_row_id [OF Some] .
      have "i \<in> fst ` set (removals w)" using assms(2) by force
      then have q: "register w i = Some p \<Longrightarrow> quiet p" for p using removals_quiet [OF ok] by blast
      have no: "i \<notin> fst ` set (remove1 (i, f) (removals w))"
        using gone_removal [OF _ assms(2)] ok by (simp add: removals_ok_def)
      have "inv (remove_image img ?w)"
      proof (rule inv_remove [OF w])
        show "file_of ?w (img_id img) = Some (img_filename img)" using Some i by (simp add: file_of_def)
        show "\<not> doomed ?w (img_id img)" using no q i by (fastforce simp: doomed_iff quiet_def)
        show "claimed st = None" if "register ?w (img_id img) = Some (st, b)" for st b
          using that q i by (fastforce simp: quiet_def)
      qed
      with Some True show ?thesis by (simp add: finish_delete_def)
    next
      case False
      with Some w show ?thesis by (simp add: finish_delete_def)
    qed
  next
    case None
    then have "file_of w i = None" by (simp add: file_of_def)
    with ok assms(2) have "f = None" by (cases f) (auto simp: removals_ok_def)
    moreover have "inv (clean_derived_data i ?w)"
      using inv_trees [OF w, of "removeAll i (trees w)" "isos w"] by (simp add: clean_derived_data_def)
    ultimately show ?thesis using None by (simp add: finish_delete_def)
  qed
qed

subsection \<open>Startup keeps it\<close>

definition kept :: "(image \<Rightarrow> string option) \<Rightarrow> image list \<Rightarrow> image list" where
  "kept missing db = concat (map (\<lambda>img. case reconcile_row missing img of None \<Rightarrow> [] | Some r \<Rightarrow> [r]) db)"

lemma reconcile_row_id: "reconcile_row missing img = Some r \<Longrightarrow> img_id r = img_id img \<and> img_filename r = img_filename img"
  by (auto simp: reconcile_row_def split: if_splits option.splits)

lemma reconcile_row_None: "reconcile_row missing img = None \<longleftrightarrow> status img = DELETING"
  by (auto simp: reconcile_row_def split: option.splits)

lemma get_kept:
  "distinct (map img_id db) \<Longrightarrow> get_image (kept missing db) i =
     (case get_image db i of None \<Rightarrow> None | Some img \<Rightarrow> reconcile_row missing img)"
proof (induction db)
  case (Cons img db)
  then have IH: "get_image (kept missing db) i =
      (case get_image db i of None \<Rightarrow> None | Some img \<Rightarrow> reconcile_row missing img)" by simp
  have other: "get_image db (img_id img) = None" using Cons.prems by (simp add: get_row_None)
  have kept: "kept missing (img # db) = (case reconcile_row missing img of None \<Rightarrow> [] | Some r \<Rightarrow> [r]) @ kept missing db"
    by (simp add: kept_def)
  show ?case
  proof (cases "img_id img = i")
    case True
    with IH other kept show ?thesis by (auto dest: reconcile_row_id split: option.splits)
  next
    case False
    with IH kept show ?thesis by (auto dest: reconcile_row_id split: option.splits)
  qed
qed (simp add: kept_def)

lemma kept_ids: "set (map img_id (kept missing db)) \<subseteq> set (map img_id db)"
proof -
  have "img_id x \<in> img_id ` set db" if x: "x \<in> set (kept missing db)" for x
  proof -
    obtain img where "img \<in> set db" "reconcile_row missing img = Some x"
      using x by (auto simp: kept_def split: option.splits)
    with reconcile_row_id show ?thesis by force
  qed
  then show ?thesis by auto
qed

lemma distinct_kept: "distinct (map img_id db) \<Longrightarrow> distinct (map img_id (kept missing db))"
proof (induction db)
  case (Cons img db)
  then have "img_id img \<notin> set (map img_id (kept missing db))" using kept_ids [of missing db] by auto
  moreover have "distinct (map img_id (kept missing db))" using Cons by simp
  moreover have "kept missing (img # db) = (case reconcile_row missing img of None \<Rightarrow> [] | Some r \<Rightarrow> [r]) @ kept missing db"
    by (simp add: kept_def)
  ultimately show ?case by (cases "reconcile_row missing img") (auto dest: reconcile_row_id)
qed (simp add: kept_def)

lemma inv_restart: "inv w \<Longrightarrow> inv (restart missing w)"
proof -
  assume w: "inv w"
  let ?w = "restart missing w"
  let ?doomed = "filter (\<lambda>img. status img = DELETING) (rows w)"
  have own: "one_owner w" "owned w" using w by (simp_all add: inv_def)
  have parts: "rows ?w = kept missing (rows w)" "register ?w = (\<lambda>_. None)" "removals ?w = []"
    "isos ?w = filter (\<lambda>f. f \<notin> img_filename ` set ?doomed) (isos w)"
    "trees ?w = filter (\<lambda>i. i \<notin> img_id ` set ?doomed) (trees w)"
    by (simp_all add: restart_def reconcile_statuses_def kept_def Let_def)
  have ids: "distinct (map img_id (rows w))" using own(1) by (simp add: one_owner_def)
  have row: "get_image (rows ?w) i = (case get_image (rows w) i of None \<Rightarrow> None | Some img \<Rightarrow> reconcile_row missing img)" for i
    unfolding parts(1) by (rule get_kept [OF ids])
  have old: "file_of ?w i = Some f \<Longrightarrow> file_of w i = Some f" for i f
    unfolding file_of_def row by (auto dest: reconcile_row_id split: option.splits)
  have stays: "file_of ?w i = Some f" if f: "file_of w i = Some f" and alive: "\<And>img. img \<in> set ?doomed \<Longrightarrow> img_id img \<noteq> i" for i f
  proof -
    obtain img where img: "get_image (rows w) i = Some img" "img_filename img = f"
      using f by (auto simp: file_of_def)
    have "status img \<noteq> DELETING" using alive get_row_in [OF img(1)] get_row_id [OF img(1)] by auto
    then obtain r where "reconcile_row missing img = Some r"
      using reconcile_row_None [of missing img] by (cases "reconcile_row missing img") auto
    with img reconcile_row_id show ?thesis by (simp add: file_of_def row)
  qed
  have "one_owner ?w" using own(1) old distinct_kept [OF ids] unfolding one_owner_def parts(1) by blast
  moreover have "owned ?w"
    unfolding owned_def
  proof (intro conjI ballI)
    fix i assume "i \<in> set (trees ?w)"
    then have i: "i \<in> set (trees w)" "i \<notin> img_id ` set ?doomed" unfolding parts by simp_all
    then obtain f where "file_of w i = Some f" using own(2) by (auto simp: owned_def)
    with stays i(2) show "file_of ?w i \<noteq> None" by blast
  next
    fix f assume "f \<in> set (isos ?w)"
    then have f: "f \<in> set (isos w)" "f \<notin> img_filename ` set ?doomed" unfolding parts by simp_all
    then obtain i where i: "file_of w i = Some f" using own(2) by (auto simp: owned_def)
    have "img_id img \<noteq> i" if "img \<in> set ?doomed" for img
    proof
      assume "img_id img = i"
      moreover have "get_image (rows w) (img_id img) = Some img"
        using that get_row_unique [OF ids] by simp
      ultimately have "img_filename img = f" using i by (simp add: file_of_def)
      with that f(2) show False by blast
    qed
    with stays [OF i] show "\<exists>i. file_of ?w i = Some f" by blast
  qed
  moreover have "runs_ok ?w" "removals_ok ?w" "doomed_ok ?w"
    by (simp_all add: runs_ok_def removals_ok_def doomed_ok_def doomed_iff parts)
  ultimately show ?thesis by (simp add: inv_def)
qed

subsection \<open>Every reachable world satisfies it\<close>

lemma inv_happen:
  assumes "inv w" "patient e w" "happen e w = Some w'"
  shows "inv w'"
proof (cases e)
  case (Retry i)
  with assms inv_retry [of w i] show ?thesis by (auto simp: patient_def)
next
  case (Delete i)
  with assms inv_delete [of w i] show ?thesis by (auto simp: patient_def)
next
  case (BulkReprocess ids)
  with assms inv_bulk_reprocess [of w ids] show ?thesis by (auto simp: patient_def)
next
  case (BulkDelete ids)
  with assms inv_bulk_delete [of w ids] show ?thesis by (auto simp: patient_def)
qed (use assms in \<open>auto simp: inv_upload inv_start_run inv_load_row inv_begin_build inv_write
      inv_end [folded cancel_def] inv_finish_build inv_crash inv_leave inv_finish_delete inv_restart
      split: option.splits prod.splits stage.splits bool.splits if_splits\<close>)

lemma reachable_inv: "reachable w \<Longrightarrow> inv w"
  by (induction rule: reachable.induct) (auto intro: inv_started inv_happen)

section \<open>Properties\<close>


text \<open>A run of events from the start, in which every request is patient.\<close>

fun patiently :: "event list \<Rightarrow> world \<Rightarrow> bool" where
  "patiently [] w = True"
| "patiently (e # es) w = (patient e w \<and> (case happen e w of None \<Rightarrow> True | Some w' \<Rightarrow> patiently es w'))"

lemma reach_history: "reachable w \<Longrightarrow> history es w = Some w' \<Longrightarrow> patiently es w \<Longrightarrow> reachable w'"
proof (induction es arbitrary: w)
  case (Cons e es)
  then obtain w1 where "happen e w = Some w1" by (auto split: option.splits)
  with Cons show ?case by (auto intro: reach_step)
qed simp

definition after :: "event list \<Rightarrow> world" where
  "after es = (case history es started of Some w \<Rightarrow> w | None \<Rightarrow> started)"

definition debian :: event where "debian = Upload ''Debian'' ''debian.iso'' 5"

lemma after_reachable: "history es started \<noteq> None \<Longrightarrow> patiently es started \<Longrightarrow> reachable (after es)"
  using reach_history [OF reach_start] by (auto simp: after_def)

text \<open>A build that is told to stop, up to the removal it owes.\<close>

definition stopped :: "event list" where
  "stopped = [debian, StartRun 1, LoadRow 1, BeginBuild 1, WriteTree 1, Delete 1, Cancel 1, Leave 1]"

lemma stopped_reachable: "reachable (after stopped)"
proof (rule after_reachable)
  show "history stopped started \<noteq> None" by code_simp
  show "patiently stopped started" by code_simp
qed




text \<open>What a request that is not patient can do.  \<open>row_view\<close>: the id, file and status of every image.\<close>

definition row_view :: "world \<Rightarrow> (nat \<times> string \<times> string) list" where
  "row_view w = map (\<lambda>r. (img_id r, img_filename r, status r)) (rows w)"

definition reuploaded :: "event list" where
  "reuploaded = [debian, StartRun 1, LoadRow 1, BeginBuild 1, Delete 1, Delete 1, debian, StartRun 1]"

text \<open>Deleting an image a second time while its build hangs, and uploading the same ISO again, loses the
  upload: SQLite gives the new image the id of the old one, so its own build is dropped as already under way
  and it stays \<open>pending\<close>; and when the old build ends at last, it takes the new image for its own and
  removes its row and its ISO.\<close>

theorem second_delete_loses_next_upload:
  "history reuploaded started \<noteq> None \<and> row_view (after reuploaded) = [(1, ''debian.iso'', ''pending'')]
   \<and> isos (after reuploaded) = [''debian.iso''] \<and> tasks (after reuploaded) = []
   \<and> (let w = after (reuploaded @ [Cancel 1, Leave 1, FinishDelete 1 (Some ''debian.iso'')])
      in history (reuploaded @ [Cancel 1, Leave 1, FinishDelete 1 (Some ''debian.iso'')]) started \<noteq> None
         \<and> row_view w = [] \<and> isos w = [])"
  by code_simp

definition quick_retry :: "event list" where
  "quick_retry = [debian, StartRun 1, LoadRow 1, BeginBuild 1, FinishBuild 1 (failed None ''no kernel''),
     Retry 1, StartRun 1, Leave 1]"

definition early_delete :: "event list" where
  "early_delete = [debian, StartRun 1, Delete 1, LoadRow 1, Leave 1, FinishDelete 1 None]"

text \<open>Two requests can be lost for good, until a restart: Reprocess, when its build starts before the
  one that has just ended has left the register (the image stays \<open>pending\<close> with nothing queued, and a
  further Reprocess leaves it alone); and Delete, when it arrives between the registration of a build
  and its first look at the row (the image stays \<open>deleting\<close>, with its ISO on disk and no build to
  remove it).\<close>

theorem requests_can_be_lost:
  "row_view (after quick_retry) = [(1, ''debian.iso'', ''pending'')] \<and> tasks (after quick_retry) = []
   \<and> register (after quick_retry) 1 = None \<and> row_view (retry 1 (after quick_retry)) = row_view (after quick_retry)
   \<and> tasks (retry 1 (after quick_retry)) = []
   \<and> row_view (after early_delete) = [(1, ''debian.iso'', ''deleting'')] \<and> isos (after early_delete) = [''debian.iso'']
   \<and> register (after early_delete) 1 = None \<and> removals (after early_delete) = []"
  by code_simp

text \<open>Startup settles every image: no image is left queued, building or being deleted, an image still \<open>ready\<close>
  lacks no file it requires, and every other image of before is there with its id, file and,
  unless it was interrupted or lacks files, its status.\<close>

theorem startup_settles:
  assumes "img \<in> set (rows (restart missing w))"
  shows "status img \<notin> set BUSY \<and> (status img = ''ready'' \<longrightarrow> missing img = None)
    \<and> (\<exists>old \<in> set (rows w). status old \<noteq> DELETING \<and> img_id old = img_id img \<and> img_filename old = img_filename img
        \<and> (img = old \<or> status img = NEEDS_REPROCESS \<and> (status old \<in> set IN_FLIGHT \<or> status old = ''ready'' \<and> missing old \<noteq> None)))"
proof -
  have "rows (restart missing w) = kept missing (rows w)"
    by (simp add: restart_def reconcile_statuses_def kept_def Let_def)
  with assms obtain old where old: "old \<in> set (rows w)" "reconcile_row missing old = Some img"
    by (auto simp: kept_def split: option.splits)
  from old(2) have cases: "status old \<noteq> DELETING" "img = old \<and> status old \<notin> set IN_FLIGHT \<and> (status old = ''ready'' \<longrightarrow> missing old = None)
      \<or> status img = NEEDS_REPROCESS \<and> (status old \<in> set IN_FLIGHT \<or> status old = ''ready'' \<and> missing old \<noteq> None)"
    by (auto simp: reconcile_row_def split: if_splits option.splits)
  have "NEEDS_REPROCESS \<notin> set BUSY" "NEEDS_REPROCESS \<noteq> ''ready''" by code_simp+
  then have "status img \<notin> set BUSY \<and> (status img = ''ready'' \<longrightarrow> missing img = None)"
    using cases by (auto simp: BUSY_def)
  with old cases reconcile_row_id [OF old(2)] show ?thesis by metis
qed

definition interrupted :: world where
  "interrupted = started\<lparr>rows := [(image_row 1 ''A'' ''a.iso'')\<lparr>status := ''processing''\<rparr>,
     (image_row 2 ''B'' ''b.iso'')\<lparr>status := ''deleting''\<rparr>, (image_row 3 ''C'' ''c.iso'')\<lparr>status := ''ready''\<rparr>]\<rparr>"

theorem startup_settles_witness:
  "row_view (restart (\<lambda>_. None) interrupted) = [(1, ''a.iso'', ''needs_reprocess''), (3, ''c.iso'', ''ready'')]
   \<and> list_all (\<lambda>img. status img \<notin> set BUSY) (rows (restart (\<lambda>_. None) interrupted))"
proof -
  have "row_view (restart (\<lambda>_. None) interrupted) = [(1, ''a.iso'', ''needs_reprocess''), (3, ''c.iso'', ''ready'')]"
    by code_simp
  moreover have "list_all (\<lambda>img. status img \<notin> set BUSY) (rows (restart (\<lambda>_. None) interrupted))"
    unfolding list_all_iff using startup_settles [of _ "\<lambda>_. None" interrupted] by blast
  ultimately show ?thesis by blast
qed

end
