(* ===== verification/Files.thy ===== *)
theory Files
  imports Prelude
begin

text \<open>
  A file system as the components that unpack archives see it: a table from paths to directories, files
  and symbolic links, with the operations of \<open>pathlib\<close> and \<open>shutil\<close> they call.  A path is the list of
  its components, the root the empty list; a file's content is its list of bytes.  Running out of space
  and refused permissions are not modelled.
\<close>

type_synonym path = "string list"

text \<open>A link holds its target: whether it is absolute, and its components.\<close>

datatype node = Dir | File string | Link bool path

type_synonym tree = "(path \<times> node) list"

definition node_at :: "tree \<Rightarrow> path \<Rightarrow> node option" where
  "node_at t p = (if p = [] then Some Dir else map_of t p)"

definition put :: "path \<Rightarrow> node \<Rightarrow> tree \<Rightarrow> tree" where
  "put p n t = (p, n) # t"

fun is_link :: "node option \<Rightarrow> bool" where
  "is_link (Some (Link a q)) = True"
| "is_link _ = False"

section \<open>Operations\<close>

text \<open>
  \<open>Path.resolve()\<close>: component by component, every link replaced by what its target resolves to.  The
  fuel bounds the links being followed at once; with one for every link of the tree it runs out only on
  links that lead back to themselves, for which \<open>resolve\<close> raises (None).
\<close>

fun real :: "nat \<Rightarrow> tree \<Rightarrow> path \<Rightarrow> path \<Rightarrow> path option" where
  "real n t d [] = Some d"
| "real n t d (c # cs) =
     (if c = [] \<or> c = ''.'' then real n t d cs
      else if c = ''..'' then real n t (butlast d) cs
      else case node_at t (d @ [c]) of
             Some (Link absolute target) \<Rightarrow>
               (case n of 0 \<Rightarrow> None
                | Suc k \<Rightarrow> (case real k t (if absolute then [] else d) target of
                             None \<Rightarrow> None
                           | Some e \<Rightarrow> real n t e cs))
           | _ \<Rightarrow> real n t (d @ [c]) cs)"

definition resolve :: "tree \<Rightarrow> path \<Rightarrow> path option" where
  "resolve t p = real (length (filter (\<lambda>e. is_link (Some (snd e))) t)) t [] p"

text \<open>
  \<open>p.mkdir(parents=True, exist_ok=True)\<close> on a resolved path: None where a component is no directory.
\<close>

fun mkdirs_from :: "path \<Rightarrow> path \<Rightarrow> tree \<Rightarrow> tree option" where
  "mkdirs_from d [] t = Some t"
| "mkdirs_from d (c # cs) t =
     (case node_at t (d @ [c]) of
        None \<Rightarrow> mkdirs_from (d @ [c]) cs (put (d @ [c]) Dir t)
      | Some Dir \<Rightarrow> mkdirs_from (d @ [c]) cs t
      | Some _ \<Rightarrow> None)"

definition mkdirs :: "tree \<Rightarrow> path \<Rightarrow> tree option" where
  "mkdirs t p = mkdirs_from [] p t"

text \<open>Opening a resolved path for writing and writing \<open>s\<close>: None when it is a directory, or has none above it.\<close>

definition write_file :: "path \<Rightarrow> string \<Rightarrow> tree \<Rightarrow> tree option" where
  "write_file p s t =
     (if node_at t (butlast p) \<noteq> Some Dir then None
      else case node_at t p of
             None \<Rightarrow> Some (put p (File s) t)
           | Some (File _) \<Rightarrow> Some (put p (File s) t)
           | _ \<Rightarrow> None)"

definition rmtree :: "path \<Rightarrow> tree \<Rightarrow> tree" where
  "rmtree p t = filter (\<lambda>e. \<not> prefix p (fst e)) t"

text \<open>\<open>Path.is_file()\<close> follows links; \<open>rglob("*")\<close> lists what lies below a folder, without following any.\<close>

definition is_file :: "tree \<Rightarrow> path \<Rightarrow> bool" where
  "is_file t p = (case resolve t p of
     Some q \<Rightarrow> (case node_at t q of Some (File _) \<Rightarrow> True | _ \<Rightarrow> False) | None \<Rightarrow> False)"

definition below :: "tree \<Rightarrow> path \<Rightarrow> path list" where
  "below t p = filter (strict_prefix p) (remdups (map fst t))"

text \<open>\<open>Path.suffix\<close> and \<open>Path.stem\<close> of a file name.\<close>

definition name_suffix :: "string \<Rightarrow> string" where
  "name_suffix s = (case rpartition_at CHR ''.'' s of
     (stem, dot, ext) \<Rightarrow> if dot \<and> stem \<noteq> [] \<and> ext \<noteq> [] then CHR ''.'' # ext else [])"

definition name_stem :: "string \<Rightarrow> string" where
  "name_stem s = (case rpartition_at CHR ''.'' s of
     (stem, dot, ext) \<Rightarrow> if dot \<and> stem \<noteq> [] \<and> ext \<noteq> [] then stem else s)"

section \<open>Lemmas\<close>

lemma node_at_root [simp]: "node_at t [] = Some Dir"
  by (simp add: node_at_def)

lemma node_at_put: "node_at (put p n t) q = (if q = p \<and> p \<noteq> [] then Some n else node_at t q)"
  by (auto simp: node_at_def put_def)

lemma node_at_rmtree: "p \<noteq> [] \<Longrightarrow> node_at (rmtree p t) q = (if prefix p q then None else node_at t q)"
proof (induction t)
  case (Cons e t)
  then show ?case by (cases e) (auto simp: node_at_def rmtree_def)
qed (auto simp: node_at_def rmtree_def)

text \<open>A component that a path walk takes as it stands.\<close>

definition ordinary :: "string \<Rightarrow> bool" where
  "ordinary c \<longleftrightarrow> c \<notin> {[], ''.'', ''..''}"

text \<open>No component of the path is a link.\<close>

definition linkless :: "tree \<Rightarrow> path \<Rightarrow> bool" where
  "linkless t p \<longleftrightarrow> (\<forall>q. prefix q p \<longrightarrow> \<not> is_link (node_at t q))"

lemma linkless_root [simp]: "linkless t []"
  by (simp add: linkless_def)

lemma linkless_prefix: "linkless t p \<Longrightarrow> prefix q p \<Longrightarrow> linkless t q"
  by (meson linkless_def prefix_order.trans)

lemma linkless_butlast: "linkless t p \<Longrightarrow> linkless t (butlast p)"
  by (erule linkless_prefix) (metis append_butlast_last_id butlast.simps(1) prefixI prefix_order.order_refl)

lemma linkless_snoc: "linkless t (p @ [c]) \<longleftrightarrow> linkless t p \<and> \<not> is_link (node_at t (p @ [c]))"
  by (auto simp: linkless_def)

lemma is_link_cases: "is_link x \<longleftrightarrow> (\<exists>a q. x = Some (Link a q))"
  by (cases x rule: is_link.cases) auto

text \<open>What every step of a walk keeps holds of its end.\<close>

lemma real_invariant:
  assumes root: "P []" and up: "\<And>d. P d \<Longrightarrow> P (butlast d)"
    and down: "\<And>d c. P d \<Longrightarrow> ordinary c \<Longrightarrow> \<not> is_link (node_at t (d @ [c])) \<Longrightarrow> P (d @ [c])"
  shows "real n t d cs = Some p \<Longrightarrow> P d \<Longrightarrow> P p"
proof (induction n arbitrary: d cs p rule: less_induct)
  case (less n)
  from less.prems show ?case
  proof (induction cs arbitrary: d)
    case (Cons c cs)
    show ?case
    proof (cases "ordinary c")
      case False
      then show ?thesis using Cons up by (auto simp: ordinary_def split: if_splits)
    next
      case c: True
      then have ne: "c \<noteq> []" "c \<noteq> ''.''" "c \<noteq> ''..''" by (auto simp: ordinary_def)
      show ?thesis
      proof (cases "is_link (node_at t (d @ [c]))")
        case True
        then obtain a target where "node_at t (d @ [c]) = Some (Link a target)" by (auto simp: is_link_cases)
        then obtain k e where k: "n = Suc k" "real k t (if a then [] else d) target = Some e" "real n t e cs = Some p"
          using Cons.prems(1) ne by (cases n) (auto split: option.splits)
        have "P e" using less.IH [OF _ k(2)] k(1) root Cons.prems(2) by simp
        with Cons.IH k(3) show ?thesis by blast
      next
        case False
        then have "real n t (d @ [c]) cs = Some p"
          using Cons.prems(1) ne by (cases "node_at t (d @ [c])" rule: is_link.cases) auto
        with Cons down c False show ?thesis by blast
      qed
    qed
  qed simp
qed

lemma real_linkless: "real n t d cs = Some p \<Longrightarrow> linkless t d \<Longrightarrow> linkless t p"
  by (rule real_invariant [where P = "linkless t"]) (auto simp: linkless_snoc intro: linkless_butlast)

lemma resolve_linkless: "resolve t p = Some q \<Longrightarrow> linkless t q"
  unfolding resolve_def by (erule real_linkless) simp

lemma real_ordinary: "linkless t (d @ cs) \<Longrightarrow> list_all ordinary cs \<Longrightarrow> real n t d cs = Some (d @ cs)"
proof (induction cs arbitrary: d)
  case (Cons c cs)
  have "linkless t (d @ [c])" using Cons.prems(1) by (rule linkless_prefix) simp
  then have "\<not> is_link (node_at t (d @ [c]))" by (simp add: linkless_snoc)
  then have "real n t d (c # cs) = real n t (d @ [c]) cs"
    using Cons.prems(2) by (auto simp: ordinary_def is_link_cases split: option.split node.split)
  with Cons show ?case by simp
qed simp

lemma resolve_ordinary: "linkless t p \<Longrightarrow> list_all ordinary p \<Longrightarrow> resolve t p = Some p"
  using real_ordinary [of t "[]" p] by (simp add: resolve_def)

lemma resolve_again:
  assumes "resolve t p = Some q" "list_all ordinary q" "list_all ordinary cs" "linkless t (q @ cs)"
  shows "resolve t (q @ cs) = Some (q @ cs)"
  using assms by (simp add: resolve_ordinary)

lemma real_components: "real n t d cs = Some p \<Longrightarrow> list_all ordinary d \<Longrightarrow> list_all ordinary p"
  by (rule real_invariant [where P = "list_all ordinary"]) (auto simp: list_all_iff dest: in_set_butlastD)

lemma resolve_components: "resolve t p = Some q \<Longrightarrow> list_all ordinary q"
  unfolding resolve_def by (erule real_components) simp

section \<open>What the operations change\<close>

lemma mkdirs_from_node:
  "mkdirs_from d cs t = Some t' \<Longrightarrow> node_at t' q =
     (if strict_prefix d q \<and> prefix q (d @ cs) \<and> node_at t q = None then Some Dir else node_at t q)"
proof (induction d cs t arbitrary: t' rule: mkdirs_from.induct)
  case (2 d c cs t)
  have step: "strict_prefix d q \<and> prefix q (d @ c # cs) \<longleftrightarrow>
      q = d @ [c] \<or> strict_prefix (d @ [c]) q \<and> prefix q ((d @ [c]) @ cs)"
    by (auto simp: strict_prefix_def prefix_def append_eq_Cons_conv Cons_eq_append_conv)
  show ?case
  proof (cases "node_at t (d @ [c])")
    case None
    then show ?thesis using 2(1) [OF None] 2(3) step by (auto simp: node_at_put)
  next
    case (Some n)
    then have "n = Dir" using 2(3) by (cases n) auto
    then show ?thesis using 2(2) [OF Some] 2(3) Some step by auto
  qed
qed auto

lemma mkdirs_node:
  "mkdirs t p = Some t' \<Longrightarrow> node_at t' q = (if prefix q p \<and> node_at t q = None then Some Dir else node_at t q)"
  unfolding mkdirs_def by (cases "q = []") (auto simp: mkdirs_from_node strict_prefix_def)

lemma mkdirs_from_ok:
  "(\<And>q. prefix q (d @ cs) \<Longrightarrow> node_at t q \<in> {None, Some Dir}) \<Longrightarrow> \<exists>t'. mkdirs_from d cs t = Some t'"
proof (induction d cs t rule: mkdirs_from.induct)
  case (2 d c cs t)
  have here: "node_at t (d @ [c]) \<in> {None, Some Dir}" using 2(3) [of "d @ [c]"] by simp
  show ?case
  proof (cases "node_at t (d @ [c])")
    case None
    have "\<exists>t'. mkdirs_from (d @ [c]) cs (put (d @ [c]) Dir t) = Some t'"
      by (rule 2(1) [OF None]) (use 2(3) in \<open>auto simp: node_at_put\<close>)
    with None show ?thesis by simp
  next
    case (Some n)
    then have n: "n = Dir" using here by simp
    have "\<exists>t'. mkdirs_from (d @ [c]) cs t = Some t'" by (rule 2(2) [OF Some n]) (use 2(3) in auto)
    with Some n show ?thesis by simp
  qed
qed simp

lemma mkdirs_ok: "(\<And>q. prefix q p \<Longrightarrow> node_at t q \<in> {None, Some Dir}) \<Longrightarrow> \<exists>t'. mkdirs t p = Some t'"
  unfolding mkdirs_def by (rule mkdirs_from_ok) simp

lemma write_file_node:
  "write_file p s t = Some t' \<Longrightarrow> node_at t' q = (if q = p then Some (File s) else node_at t q)"
  by (cases "p = []") (auto simp: write_file_def node_at_put split: if_splits option.splits node.splits)

text \<open>Every node lies in a directory.\<close>

definition grounded :: "tree \<Rightarrow> bool" where
  "grounded t \<longleftrightarrow> (\<forall>p. node_at t p \<noteq> None \<longrightarrow> node_at t (butlast p) = Some Dir)"

lemma grounded_above: "grounded t \<Longrightarrow> node_at t (p @ q) \<noteq> None \<Longrightarrow> q \<noteq> [] \<Longrightarrow> node_at t p = Some Dir"
proof (induction q rule: rev_induct)
  case (snoc c q)
  have "node_at t (p @ q) = Some Dir" using snoc.prems(1,2) unfolding grounded_def by (metis append_assoc butlast_snoc)
  with snoc show ?case by (cases "q = []") auto
qed simp

lemma grounded_prefix: "grounded t \<Longrightarrow> node_at t p \<noteq> None \<Longrightarrow> strict_prefix q p \<Longrightarrow> node_at t q = Some Dir"
  by (auto simp: strict_prefix_def prefix_def intro: grounded_above)

lemma grounded_empty: "grounded t \<Longrightarrow> node_at t p = None \<Longrightarrow> prefix p q \<Longrightarrow> node_at t q = None"
  by (metis grounded_prefix option.distinct(1) strict_prefix_def)

end
