(* ===== verification/IsoTree.thy ===== *)
theory IsoTree
  imports Files
begin

text \<open>
  Unpacking a whole ISO for the boot server (\<open>_extract_tree\<close> and \<open>_drop_escaping_links\<close> of \<open>services/images.py\<close>).
  The server follows symbolic links, so those of the ISO that lead out of the unpacked tree are removed.  What the
  unpacking tool leaves is an argument, as is the order in which the tree is walked.
\<close>

section \<open>Removing links\<close>

definition unlink :: "path \<Rightarrow> tree \<Rightarrow> tree" where
  "unlink p t = filter (\<lambda>e. fst e \<noteq> p) t"

text \<open>\<open>os.path.realpath\<close>; \<open>loop\<close> is what it answers for a link that leads back to itself.\<close>

definition realpath :: "(path \<Rightarrow> path) \<Rightarrow> tree \<Rightarrow> path \<Rightarrow> path" where
  "realpath loop t p = (case resolve t p of Some q \<Rightarrow> q | None \<Rightarrow> loop p)"

definition escapes :: "(path \<Rightarrow> path) \<Rightarrow> path \<Rightarrow> tree \<Rightarrow> path \<Rightarrow> bool" where
  "escapes loop root t p \<longleftrightarrow> is_link (node_at t p) \<and> \<not> prefix root (realpath loop t p)"

fun drop_links :: "(path \<Rightarrow> path) \<Rightarrow> path \<Rightarrow> path list \<Rightarrow> tree \<Rightarrow> tree" where
  "drop_links loop root [] t = t"
| "drop_links loop root (p # ps) t =
     drop_links loop root ps (if escapes loop root t p then unlink p t else t)"

text \<open>\<open>os.walk\<close> visits every path below the folder, following no link; \<open>order\<close> is its order.\<close>

definition drop_escaping_links :: "(path \<Rightarrow> path) \<Rightarrow> (path list \<Rightarrow> path list) \<Rightarrow> path \<Rightarrow> tree \<Rightarrow> tree" where
  "drop_escaping_links loop order dest t =
     (let root = realpath loop t dest in drop_links loop root (order (below t root)) t)"

definition extract_tree :: "(path \<Rightarrow> path) \<Rightarrow> (path list \<Rightarrow> path list) \<Rightarrow> (tree \<Rightarrow> tree option) \<Rightarrow> path \<Rightarrow> tree \<Rightarrow> tree option" where
  "extract_tree loop order unpack dest t =
     Option.bind (mkdirs (rmtree dest t) dest) (\<lambda>t.
     Option.bind (unpack t) (\<lambda>t. Some (drop_escaping_links loop order dest t)))"

section \<open>What the server opens\<close>

text \<open>
  Opening a path, as the operating system does it: every component must exist, links are followed.  As for
  \<^const>\<open>resolve\<close>, links may be followed at once as often as there are links.
\<close>

fun opens :: "nat \<Rightarrow> tree \<Rightarrow> path \<Rightarrow> path \<Rightarrow> path option" where
  "opens n t d [] = Some d"
| "opens n t d (c # cs) =
     (if c = [] \<or> c = ''.'' then opens n t d cs
      else if c = ''..'' then opens n t (butlast d) cs
      else case node_at t (d @ [c]) of
             None \<Rightarrow> None
           | Some (Link absolute target) \<Rightarrow>
               (case n of 0 \<Rightarrow> None
                | Suc k \<Rightarrow> (case opens k t (if absolute then [] else d) target of
                             None \<Rightarrow> None
                           | Some e \<Rightarrow> opens n t e cs))
           | _ \<Rightarrow> opens n t (d @ [c]) cs)"

definition links :: "tree \<Rightarrow> nat" where
  "links t = length (filter (\<lambda>e. is_link (Some (snd e))) t)"

definition opened :: "tree \<Rightarrow> path \<Rightarrow> path option" where
  "opened t p = opens (links t) t [] p"

section \<open>Lemmas\<close>

lemma node_at_unlink: "p \<noteq> [] \<Longrightarrow> node_at (unlink p t) q = (if q = p then None else node_at t q)"
proof (induction t)
  case (Cons e t)
  then show ?case by (cases e) (auto simp: node_at_def unlink_def)
qed (auto simp: node_at_def unlink_def)

lemma links_unlink: "links (unlink p t) \<le> links t"
  by (induction t) (auto simp: links_def unlink_def)

text \<open>A step over a link, and what every step of an opening keeps.\<close>

lemma opens_link:
  assumes "opens n t d (c # cs) = Some p" "ordinary c" "node_at t (d @ [c]) = Some (Link a target)"
  obtains k e where "n = Suc k" "opens k t (if a then [] else d) target = Some e" "opens n t e cs = Some p"
proof -
  have "c \<noteq> []" "c \<noteq> ''.''" "c \<noteq> ''..''" using assms(2) by (auto simp: ordinary_def)
  with assms that show ?thesis by (cases n) (auto split: option.splits)
qed

lemma opens_plain:
  "opens n t d (c # cs) = Some p \<Longrightarrow> ordinary c \<Longrightarrow> \<not> is_link (node_at t (d @ [c])) \<Longrightarrow>
     node_at t (d @ [c]) \<noteq> None \<and> opens n t (d @ [c]) cs = Some p"
  by (cases "node_at t (d @ [c])" rule: is_link.cases) (auto simp: ordinary_def split: option.splits node.splits)

lemma opens_invariant:
  assumes root: "P []" and up: "\<And>d. P d \<Longrightarrow> P (butlast d)"
    and down: "\<And>d c. P d \<Longrightarrow> ordinary c \<Longrightarrow> node_at t (d @ [c]) \<noteq> None \<Longrightarrow> \<not> is_link (node_at t (d @ [c])) \<Longrightarrow> P (d @ [c])"
  shows "opens n t d cs = Some p \<Longrightarrow> P d \<Longrightarrow> P p"
proof (induction n arbitrary: d cs p rule: less_induct)
  case (less n)
  from less.prems show ?case
  proof (induction cs arbitrary: d)
    case (Cons c cs)
    show ?case
    proof (cases "ordinary c")
      case False
      then show ?thesis using Cons up by (auto simp: ordinary_def split: if_splits)
    next
      case c: True
      show ?thesis
      proof (cases "is_link (node_at t (d @ [c]))")
        case True
        then obtain a target where "node_at t (d @ [c]) = Some (Link a target)" by (auto simp: is_link_cases)
        with Cons.prems(1) c obtain k e where k: "n = Suc k" "opens k t (if a then [] else d) target = Some e" "opens n t e cs = Some p"
          by (rule opens_link)
        have "P e" using less.IH [OF _ k(2)] k(1) root Cons.prems(2) by simp
        with Cons.IH k(3) show ?thesis by blast
      next
        case False
        with opens_plain [OF Cons.prems(1) c] Cons down c show ?thesis by blast
      qed
    qed
  qed simp
qed

text \<open>What opens in a part of a tree resolves in the whole tree to the same path.\<close>

lemma opens_real:
  assumes sub: "\<And>q x. node_at t q = Some x \<Longrightarrow> node_at t' q = Some x"
  shows "opens n t d cs = Some p \<Longrightarrow> n \<le> k' \<Longrightarrow> real k' t' d cs = Some p"
proof (induction n arbitrary: k' d cs p rule: less_induct)
  case (less n)
  from less.prems(1) show ?case
  proof (induction cs arbitrary: d)
    case (Cons c cs)
    show ?case
    proof (cases "ordinary c")
      case False
      then show ?thesis using Cons by (auto simp: ordinary_def split: if_splits)
    next
      case c: True
      then have ne: "c \<noteq> []" "c \<noteq> ''.''" "c \<noteq> ''..''" by (auto simp: ordinary_def)
      show ?thesis
      proof (cases "is_link (node_at t (d @ [c]))")
        case True
        then obtain a target where l: "node_at t (d @ [c]) = Some (Link a target)" by (auto simp: is_link_cases)
        with Cons.prems c obtain k e where k: "n = Suc k" "opens k t (if a then [] else d) target = Some e" "opens n t e cs = Some p"
          by (rule opens_link)
        obtain j where j: "k' = Suc j" "k \<le> j" using k(1) less.prems(2) by (cases k') auto
        have "real j t' (if a then [] else d) target = Some e" using less.IH [OF _ k(2) j(2)] k(1) by simp
        with Cons.IH [OF k(3)] ne sub [OF l] j(1) show ?thesis by simp
      next
        case False
        with opens_plain [OF Cons.prems c] have p: "node_at t (d @ [c]) \<noteq> None" "opens n t (d @ [c]) cs = Some p" by auto
        then obtain x where x: "node_at t (d @ [c]) = Some x" by auto
        with False Cons.IH [OF p(2)] ne sub [OF x] show ?thesis by (cases x) auto
      qed
    qed
  qed simp
qed

text \<open>A folder that is there: each of its components exists and none is a link.\<close>

definition solid :: "tree \<Rightarrow> path \<Rightarrow> bool" where
  "solid t d \<longleftrightarrow> list_all ordinary d \<and> (\<forall>q. prefix q d \<longrightarrow> node_at t q \<noteq> None \<and> \<not> is_link (node_at t q))"

lemma solid_snoc: "solid t (d @ [c]) \<longleftrightarrow> solid t d \<and> ordinary c \<and> node_at t (d @ [c]) \<noteq> None \<and> \<not> is_link (node_at t (d @ [c]))"
  by (auto simp: solid_def)

lemma solid_nil [simp]: "solid t []"
  by (simp add: solid_def)

lemma opens_solid: "opens n t d cs = Some p \<Longrightarrow> solid t d \<Longrightarrow> solid t p"
proof (rule opens_invariant [where P = "solid t"])
  show "solid t (butlast d)" if "solid t d" for d using that by (cases d rule: rev_cases) (simp_all add: solid_snoc)
qed (auto simp: solid_snoc)

lemma opens_through: "solid t (d @ ds) \<Longrightarrow> opens n t d (ds @ cs) = opens n t (d @ ds) cs"
proof (induction ds arbitrary: d)
  case (Cons c ds)
  have "prefix (d @ [c]) (d @ c # ds)" by simp
  then have "ordinary c" "node_at t (d @ [c]) \<noteq> None" "\<not> is_link (node_at t (d @ [c]))"
    using Cons.prems by (auto simp: solid_def)
  then have "opens n t d (c # ds @ cs) = opens n t (d @ [c]) (ds @ cs)"
    by (cases "node_at t (d @ [c])" rule: is_link.cases) (auto simp: ordinary_def split: node.split)
  with Cons show ?case by simp
qed simp

text \<open>The walk only removes links, each of which led out when it was looked at.\<close>

definition part_of :: "tree \<Rightarrow> tree \<Rightarrow> bool" where
  "part_of t' t \<longleftrightarrow> links t' \<le> links t \<and> (\<forall>q x. node_at t' q = Some x \<longrightarrow> node_at t q = Some x)"

lemma part_of_refl: "part_of t t"
  by (simp add: part_of_def)

lemma part_of_trans: "part_of a b \<Longrightarrow> part_of b c \<Longrightarrow> part_of a c"
  by (auto simp: part_of_def)

lemma unlink_part: "p \<noteq> [] \<Longrightarrow> part_of (unlink p t) t"
  using links_unlink by (auto simp: part_of_def node_at_unlink split: if_splits)

lemma drop_links_part: "[] \<notin> set ps \<Longrightarrow> part_of (drop_links loop root ps t) t"
proof (induction loop root ps t rule: drop_links.induct)
  case (2 loop root p ps t)
  have "p \<noteq> []" using 2(2) by auto
  then have "part_of (if escapes loop root t p then unlink p t else t) t"
    using unlink_part part_of_refl by simp
  with 2 show ?case by (auto intro: part_of_trans)
qed (simp add: part_of_refl)

lemma kept_link:
  "[] \<notin> set ps \<Longrightarrow> p \<in> set ps \<Longrightarrow> is_link (node_at (drop_links loop root ps t) p) \<Longrightarrow>
     \<exists>s. part_of (drop_links loop root ps t) s \<and> prefix root (realpath loop s p)"
proof (induction loop root ps t rule: drop_links.induct)
  case (2 loop root p' ps t)
  let ?s = "if escapes loop root t p' then unlink p' t else t"
  have part: "part_of (drop_links loop root ps ?s) ?s" using 2(2) drop_links_part by simp
  show ?case
  proof (cases "p \<in> set ps")
    case True
    with 2 show ?thesis by simp
  next
    case False
    with 2(3) have p: "p = p'" by simp
    have l: "is_link (node_at ?s p)" using 2(4) part by (auto simp: part_of_def is_link_cases)
    have n: "\<not> escapes loop root t p'"
    proof
      assume "escapes loop root t p'"
      moreover have "p' \<noteq> []" using 2(2) by auto
      ultimately show False using l p by (simp add: node_at_unlink)
    qed
    then have s: "?s = t" by simp
    have "drop_links loop root (p' # ps) t = drop_links loop root ps t" by (simp only: drop_links.simps n if_False)
    moreover have "prefix root (realpath loop t p')" using n l s p by (simp add: escapes_def)
    ultimately show ?thesis using part p unfolding s by auto
  qed
qed simp

lemma dropped_node:
  "[] \<notin> set ps \<Longrightarrow> node_at (drop_links loop root ps t) q \<noteq> node_at t q \<Longrightarrow> q \<in> set ps \<and> is_link (node_at t q)"
proof (induction loop root ps t rule: drop_links.induct)
  case (2 loop root p ps t)
  show ?case
  proof (cases "q = p \<and> escapes loop root t p")
    case True
    then show ?thesis by (simp add: escapes_def)
  next
    case False
    then have "node_at (if escapes loop root t p then unlink p t else t) q = node_at t q"
      using 2(2) by (auto simp: node_at_unlink)
    with 2 show ?thesis by auto
  qed
qed simp

lemma closed_tree:
  assumes "[] \<notin> set ps" "t' = drop_links loop root ps t" "\<And>p. strict_prefix root p \<Longrightarrow> is_link (node_at t' p) \<Longrightarrow> p \<in> set ps"
    "n \<le> links t'"
  shows "solid t' d \<Longrightarrow> prefix root d \<Longrightarrow> list_all ordinary cs \<Longrightarrow> opens n t' d cs = Some q \<Longrightarrow> prefix root q"
proof (induction cs arbitrary: d)
  case (Cons c cs)
  from Cons.prems(3) have c: "ordinary c" by simp
  show ?case
  proof (cases "is_link (node_at t' (d @ [c]))")
    case True
    then obtain a target where l: "node_at t' (d @ [c]) = Some (Link a target)" by (auto simp: is_link_cases)
    with Cons.prems(4) c obtain k e where k: "n = Suc k" "opens k t' (if a then [] else d) target = Some e" "opens n t' e cs = Some q"
      by (rule opens_link)
    have "opens n t' d [c] = Some e" using l k(1,2) c by (simp add: ordinary_def)
    then have e: "opens n t' [] (d @ [c]) = Some e" using opens_through [of t' "[]" d n "[c]"] Cons.prems(1) by simp
    have "strict_prefix root (d @ [c])" using Cons.prems(2) by (auto simp: strict_prefix_def prefix_def)
    then have "d @ [c] \<in> set ps" using assms(3) True by blast
    from kept_link [OF assms(1) this, of loop root t] True
    obtain s where s: "part_of t' s" "prefix root (realpath loop s (d @ [c]))" unfolding assms(2) by blast
    have sub: "\<And>q x. node_at t' q = Some x \<Longrightarrow> node_at s q = Some x" "links t' \<le> links s" using s(1) by (simp_all add: part_of_def)
    have "resolve s (d @ [c]) = Some e"
      unfolding resolve_def using opens_real [OF sub(1) e] sub(2) assms(4) by (simp add: links_def)
    with s(2) have "prefix root e" by (simp add: realpath_def)
    moreover have "solid t' e" by (rule opens_solid [OF k(2)]) (use Cons.prems(1) in simp)
    ultimately show ?thesis using Cons.IH k(3) Cons.prems(3) by simp
  next
    case False
    from opens_plain [OF Cons.prems(4) c False] Cons.prems(1) c False have "solid t' (d @ [c])" "opens n t' (d @ [c]) cs = Some q"
      by (auto simp: solid_snoc)
    with Cons.IH [of "d @ [c]"] Cons.prems(2,3) show ?thesis by simp
  qed
qed simp

section \<open>Properties\<close>

text \<open>C37. Nothing outside an unpacked ISO is served through it: after its tree has been walked, whatever a requested
  path below it opens - through any chain of the links that were kept - lies inside the tree; and the walk removes
  nothing but links.  This holds for every order of the walk.\<close>

theorem unpacked_tree_is_closed:
  assumes "solid t dest" "\<And>ps. set (order ps) = set ps" "list_all ordinary cs"
    "opened (drop_escaping_links loop order dest t) (dest @ cs) = Some q"
  shows "prefix dest q
    \<and> (\<forall>p. node_at (drop_escaping_links loop order dest t) p \<noteq> node_at t p \<longrightarrow> strict_prefix dest p \<and> is_link (node_at t p))"
proof -
  let ?ps = "order (below t dest)" and ?t = "drop_escaping_links loop order dest t"
  have linkless: "linkless t dest" "list_all ordinary dest" using assms(1) by (auto simp: solid_def linkless_def)
  then have "realpath loop t dest = dest" by (simp add: realpath_def resolve_ordinary)
  then have t': "?t = drop_links loop dest ?ps t" by (simp add: drop_escaping_links_def)
  have ps: "set ?ps = {p. strict_prefix dest p \<and> p \<in> fst ` set t}" using assms(2) by (auto simp: below_def)
  then have ne: "[] \<notin> set ?ps" by simp
  have part: "part_of ?t t" unfolding t' by (rule drop_links_part [OF ne])
  have all: "p \<in> set ?ps" if below: "strict_prefix dest p" and link: "is_link (node_at ?t p)" for p
  proof -
    obtain x where "node_at t p = Some x" using link part by (auto simp: part_of_def is_link_cases)
    moreover have "p \<noteq> []" using below by auto
    ultimately have "p \<in> fst ` set t" by (force simp: node_at_def dest: map_of_SomeD)
    with below show ?thesis unfolding ps by simp
  qed
  have only: "strict_prefix dest p \<and> is_link (node_at t p)" if "node_at ?t p \<noteq> node_at t p" for p
    using dropped_node [OF ne, of loop dest t p] that by (simp add: t' ps)
  have "node_at ?t p = node_at t p" if "prefix p dest" for p using only [of p] that prefix_order.leD [of p dest] by blast
  then have solid: "solid ?t dest" using assms(1) by (simp add: solid_def)
  have "opens (links ?t) ?t dest cs = Some q"
    using assms(4) opens_through [of ?t "[]" dest "links ?t" cs] solid by (simp add: opened_def)
  then have "prefix dest q" using closed_tree [OF ne t' all order.refl solid prefix_order.order_refl assms(3)] by simp
  with only show ?thesis by blast
qed

section \<open>Examples\<close>

text \<open>An unpacked ISO with a link to itself, as Debian's have, and one to a file of the server.\<close>

definition sample_iso :: tree where
  "sample_iso = [([''os''], Dir), ([''os'', ''1''], Dir), ([''os'', ''1'', ''x''], File ''x''),
     ([''os'', ''1'', ''debian''], Link False [''.'']), ([''os'', ''1'', ''evil''], Link True [''etc'', ''passwd'']),
     ([''etc''], Dir), ([''etc'', ''passwd''], File ''s'')]"

lemma evil_was_served: "opened sample_iso [''os'', ''1'', ''debian'', ''evil''] = Some [''etc'', ''passwd'']"
  by code_simp

theorem unpacked_tree_is_closed_witness:
  "opened (drop_escaping_links id id [''os'', ''1''] sample_iso) [''os'', ''1'', ''debian'', ''evil''] = None
   \<and> prefix [''os'', ''1''] [''os'', ''1'', ''x'']"
proof -
  have "solid sample_iso ([] @ [''os''] @ [''1''])"
    unfolding append_assoc [symmetric] solid_snoc by (simp add: sample_iso_def node_at_def ordinary_def)
  then have s: "solid sample_iso [''os'', ''1'']" by simp
  have "opened (drop_escaping_links id id [''os'', ''1''] sample_iso) ([''os'', ''1''] @ [''debian'', ''x'']) = Some [''os'', ''1'', ''x'']"
    by code_simp
  from unpacked_tree_is_closed [OF s _ _ this] have "prefix [''os'', ''1''] [''os'', ''1'', ''x'']" by (simp add: ordinary_def)
  moreover have "opened (drop_escaping_links id id [''os'', ''1''] sample_iso) [''os'', ''1'', ''debian'', ''evil''] = None"
    by code_simp
  ultimately show ?thesis by simp
qed

end
