(* ===== verification/Host.thy ===== *)
theory Host
  imports Regex
begin

text \<open>
  What the host looks like (\<open>services/hostinfo.py\<close>): its network interfaces and its IPv4 addresses, read
  from the host's \<open>/proc\<close>.  \<open>read path\<close> is the text of a file, None when it cannot be read.
\<close>

definition host_net :: "string \<Rightarrow> (string \<Rightarrow> string option) \<Rightarrow> string \<Rightarrow> string" where
  "host_net PROC read name =
     (case read (PROC @ ''/1/net/'' @ name) of
        Some text \<Rightarrow> text
      | None \<Rightarrow> (case read (PROC @ ''/net/'' @ name) of Some text \<Rightarrow> text | None \<Rightarrow> []))"

text \<open>The name a line of \<open>net/dev\<close> gives, if any.\<close>

definition interface_of :: "string \<Rightarrow> string option" where
  "interface_of line =
     (case partition_at CHR '':'' line of
        (name, sep, _) \<Rightarrow> if sep \<and> strip name \<noteq> [] \<and> strip name \<noteq> ''lo'' then Some (strip name) else None)"

definition interfaces :: "string \<Rightarrow> (string \<Rightarrow> string option) \<Rightarrow> string set" where
  "interfaces PROC read =
     set (List.map_filter interface_of (drop 2 (splitlines (host_net PROC read ''dev''))))"

definition octet_rx :: rx where "octet_rx = Seq digit_rx (upto_n 2 digit_rx)"

definition TRIE_LEAF :: rx where
  "TRIE_LEAF = Seq (lit ''|--'') (Seq (plus1 (Cls py_space))
     (Seq (Grp 1 (Seq octet_rx (exactly 3 (Seq (Cls (\<lambda>c. c = CHR ''.'')) octet_rx))))
          (Seq (Star (Cls py_space)) AtEnd)))"

text \<open>The loop over the lines of \<open>fib_trie\<close>, with the address of the last leaf.\<close>

fun scan_trie :: "string \<Rightarrow> string list \<Rightarrow> string list" where
  "scan_trie leaf [] = []"
| "scan_trie leaf (line # ls) =
     (case re_search TRIE_LEAF line of
        Some mt \<Rightarrow> scan_trie (case group 1 mt of Some a \<Rightarrow> a | None \<Rightarrow> []) ls
      | None \<Rightarrow> if leaf \<noteq> [] \<and> contains ''host LOCAL'' line then leaf # scan_trie [] ls else scan_trie leaf ls)"

definition local_ipv4s :: "string \<Rightarrow> (string \<Rightarrow> string option) \<Rightarrow> string set" where
  "local_ipv4s PROC read = set (scan_trie [] (splitlines (host_net PROC read ''fib_trie'')))"

end
