(* ===== verification/Restore.thy ===== *)
theory Restore
  imports Host Store Models
begin

text \<open>
  Restoring a backup (\<open>services/restore.py\<close>, and its requests in \<open>routers/settings.py\<close>): an uploaded
  database is staged, inspected, compared with the live one and, once confirmed, rewritten and swapped in.

  A file is the string of its bytes.  What SQLite reads from a file and how it rewrites the settings table
  of one are arguments: \<open>sqlite\<close> and \<open>sql_run\<close>, with the law \<open>sql_law\<close>.  The host's addresses and interfaces
  are the argument \<open>known\<close>, which \<open>host_known\<close> instantiates with theory Host.
\<close>

section \<open>Text outside ASCII\<close>

definition ldquo :: string where "ldquo = [CHR 0xE2, CHR 0x80, CHR 0x9C]"
definition rdquo :: string where "rdquo = [CHR 0xE2, CHR 0x80, CHR 0x9D]"
definition emdash :: string where "emdash = [CHR 0xE2, CHR 0x80, CHR 0x94]"

section \<open>Constants\<close>

definition SQLITE_MAGIC :: string where "SQLITE_MAGIC = ''SQLite format 3'' @ [CHR 0x00]"

definition REQUIRED_TABLES :: "string list" where
  "REQUIRED_TABLES = [''users'', ''settings'', ''images'']"

definition MAX_UPLOAD_BYTES :: nat where "MAX_UPLOAD_BYTES = 256 * 1024 * 1024"

definition HOST_KEYS :: "(string \<times> string) list" where
  "HOST_KEYS = [(''server_ip'', ''an address configured on this host''),
                (''boot_interface'', ''a network interface on this host'')]"

definition NETWORK_KEYS :: "string list" where
  "NETWORK_KEYS = [''dhcp_mode'', ''dhcp_range_start'', ''dhcp_range_end'',
                   ''dhcp_subnet_mask'', ''dhcp_gateway'', ''dhcp_dns'']"

definition DEPLOYMENT_KEY_PREFIX :: string where "DEPLOYMENT_KEY_PREFIX = ''update_''"
definition NOTICE_KEY :: string where "NOTICE_KEY = ''restore_notice''"
definition NOTICE_LEVEL_KEY :: string where "NOTICE_LEVEL_KEY = ''restore_notice_level''"
definition NOTICE_AT_KEY :: string where "NOTICE_AT_KEY = ''restore_notice_at''"

text \<open>The host's own values for the two keys of \<open>HOST_KEYS\<close>, looked up when asked for.\<close>

definition host_known :: "string \<Rightarrow> (string \<Rightarrow> string option) \<Rightarrow> string \<Rightarrow> string set" where
  "host_known PROC read key =
     (if key = ''server_ip'' then local_ipv4s PROC read
      else if key = ''boot_interface'' then interfaces PROC read else {})"

section \<open>Reading a candidate backup\<close>

text \<open>
  The answers of a SQLite file to the queries \<open>inspect_backup\<close> makes, each either an error's text or the rows:
  the integrity check, the tables, the triggers and views, the columns of \<open>users\<close>, and the rows of three tables.
\<close>

record contents =
  integrity :: "string + string option"
  tables :: "string + string list"
  triggers_views :: "string + (string \<times> string) list"
  user_columns :: "string + string list"
  user_rows :: "string + (string \<times> string) list"
  setting_rows :: "string + settings"
  image_rows :: "string + (string \<times> string \<times> string) list"
  event_count :: "string + nat"

record backup =
  bk_size :: nat
  bk_usernames :: "string list"
  bk_admins :: "string list"
  bk_settings :: settings
  bk_images :: "(string \<times> string \<times> string) list"
  bk_events :: nat

text \<open>\<open>except sqlite3.DatabaseError\<close> around the queries.\<close>

definition sql :: "string + 'a \<Rightarrow> string + 'a" where
  "sql q = (case q of Inl exc \<Rightarrow> Inl (''The database could not be read: '' @ exc) | Inr v \<Rightarrow> Inr v)"

definition to_dict :: "settings \<Rightarrow> settings" where
  "to_dict rs = foldl (\<lambda>d row. dict_set d (fst row) (snd row)) [] rs"

definition by_name :: "(string \<times> string \<times> string) list \<Rightarrow> (string \<times> string \<times> string) list" where
  "by_name = sort_by (\<lambda>a b. str_le (fst a) (fst b))"

definition inspect_contents :: "nat \<Rightarrow> contents \<Rightarrow> string + backup" where
  "inspect_contents len c =
     rbind (sql (integrity c)) (\<lambda>check.
     rbind (raise_if (check \<noteq> Some ''ok'')
       (''The database failed SQLite's integrity check '' @ emdash @ '' the file is ''
        @ ''corrupt or was truncated in transfer. Download the backup again.'')) (\<lambda>_.
     rbind (sql (tables c)) (\<lambda>present.
     rbind (let missing = filter (\<lambda>t. t \<notin> set present) REQUIRED_TABLES
            in raise_if (missing \<noteq> []) (''This does not look like a Beacon backup: it has no ''
                 @ join '', '' (sort_by str_le missing) @ '' table.'')) (\<lambda>_.
     rbind (sql (triggers_views c)) (\<lambda>extra.
     rbind (raise_if (extra \<noteq> []) (''This file contains database ''
              @ join '', '' (map (\<lambda>(kind, name). kind @ '' '' @ name) extra)
              @ '', which Beacon never creates. It was not made by Beacon's backup and was not restored.'')) (\<lambda>_.
     rbind (sql (user_columns c)) (\<lambda>user_cols.
     rbind (raise_if (''username'' \<notin> set user_cols \<or> ''role'' \<notin> set user_cols)
       (''The users table is not in Beacon's format '' @ emdash @ '' this backup came ''
        @ ''from a different application.'')) (\<lambda>_.
     rbind (sql (user_rows c)) (\<lambda>users.
     rbind (let admins = sort_by str_le (map fst (filter (\<lambda>u. snd u = ''admin'') users))
            in rbind (raise_if (admins = [])
                 (''This backup contains no admin account, so restoring it would ''
                  @ ''lock you out of Beacon permanently.'')) (\<lambda>_. Inr admins)) (\<lambda>admins.
     rbind (sql (setting_rows c)) (\<lambda>settings.
     rbind (sql (image_rows c)) (\<lambda>images.
     rbind (if ''boot_events'' \<in> set present then sql (event_count c) else Inr 0) (\<lambda>events.
       Inr \<lparr>bk_size = len, bk_usernames = sort_by str_le (map fst users), bk_admins = admins,
            bk_settings = to_dict settings, bk_images = by_name images, bk_events = events\<rparr>)))))))))))))"

definition inspect_backup :: "(string \<Rightarrow> contents option) \<Rightarrow> string option \<Rightarrow> string + backup" where
  "inspect_backup sqlite path =
     (case path of
        None \<Rightarrow> Inl ''The uploaded file could not be read.''
      | Some bytes \<Rightarrow>
          if bytes = [] then Inl ''The uploaded file is empty.''
          else if take 16 bytes \<noteq> SQLITE_MAGIC then
            Inl (''That is not a SQLite database. Upload the beacon-backup.db ''
                 @ ''file downloaded from this page, not an archive or an export.'')
          else case sqlite bytes of
            None \<Rightarrow> Inl ''The file is not a readable SQLite database.''
          | Some c \<Rightarrow> inspect_contents (length bytes) c)"

section \<open>What a restore would do\<close>

record host_row =
  hr_key :: string
  hr_current :: string
  hr_incoming :: string
  hr_action :: string
  hr_reason :: string
  hr_unverified :: bool

definition host_decision :: "(string \<Rightarrow> string set) \<Rightarrow> string \<times> string \<Rightarrow> string \<Rightarrow> string \<Rightarrow> host_row" where
  "host_decision known kd current incoming =
     (let (key, description) = kd;
          row = (\<lambda>action reason unverified. \<lparr>hr_key = key, hr_current = current, hr_incoming = incoming,
                  hr_action = action, hr_reason = reason, hr_unverified = unverified\<rparr>)
      in if incoming = current then row ''restore'' ''unchanged'' False
         else if incoming = [] then row ''keep'' ''the backup has no value for this setting'' False
         else if known key = {} then row ''restore'' ''could not be verified'' True
         else if incoming \<in> known key then row ''restore'' (''confirmed as '' @ description) False
         else row ''keep'' (ldquo @ incoming @ rdquo @ '' is not '' @ description) False)"

definition key_label :: "string \<Rightarrow> string" where
  "key_label key = (if key = ''server_ip'' then ''Server IP''
     else if key = ''boot_interface'' then ''Boot interface'' else key)"

record preview =
  pv_size :: nat
  pv_counts :: "nat list"
  pv_host :: "host_row list"
  pv_settings :: "(string \<times> string \<times> string) list"
  pv_added :: "string list"
  pv_removed :: "string list"
  pv_kept :: "string list"
  pv_admins :: "string list"
  pv_images :: "(string \<times> string \<times> string) list"
  pv_warnings :: "string list"

definition host_rows :: "(string \<Rightarrow> string set) \<Rightarrow> settings \<Rightarrow> settings \<Rightarrow> host_row list" where
  "host_rows known current incoming =
     map (\<lambda>kd. host_decision known kd (dict_get current (fst kd) []) (dict_get incoming (fst kd) [])) HOST_KEYS"

definition host_warning :: "host_row \<Rightarrow> string option" where
  "host_warning row =
     (if hr_action row = ''keep'' then
        Some (key_label (hr_key row) @ '' will keep this host's value '' @ ldquo @ hr_current row @ rdquo
              @ '' '' @ emdash @ '' '' @ hr_reason row @ ''.'')
      else if hr_unverified row then
        Some (key_label (hr_key row) @ '' could not be checked against this host ''
              @ ''(the host's /proc isn't mounted), so the backup's value ''
              @ ldquo @ hr_incoming row @ rdquo @ '' will be restored as-is.'')
      else None)"

definition changed_settings :: "settings \<Rightarrow> settings \<Rightarrow> (string \<times> string \<times> string) list" where
  "changed_settings current incoming =
     List.map_filter (\<lambda>key.
         let before = dict_get current key []; after = dict_get incoming key []
         in if key \<in> fst ` set HOST_KEYS \<or> prefix DEPLOYMENT_KEY_PREFIX key then None
            else if prefix ''restore_notice'' key then None
            else if before \<noteq> after then Some (key, before, after) else None)
       (sort_by str_le (remdups (map fst (current @ incoming))))"

definition sorted_names :: "string list \<Rightarrow> string list" where
  "sorted_names xs = sort_by str_le (remdups xs)"

definition build_preview ::
  "settings \<Rightarrow> (string \<Rightarrow> string set) \<Rightarrow> (string \<Rightarrow> contents option)
     \<Rightarrow> settings \<Rightarrow> string list \<Rightarrow> string option \<Rightarrow> string + preview" where
  "build_preview DEFAULTS known sqlite db db_users path =
     rbind (inspect_backup sqlite path) (\<lambda>backup.
       let current = all_settings DEFAULTS db;
           incoming = bk_settings backup;
           rows = host_rows known current incoming;
           rejected = list_ex (\<lambda>row. hr_action row = ''keep'') rows;
           warnings = List.map_filter host_warning rows
             @ (if rejected \<and> list_ex (\<lambda>k. dict_get incoming k [] \<noteq> []) NETWORK_KEYS
                then [''The backup's DHCP range, gateway and DNS will be restored, but ''
                      @ ''they describe the network the backup was taken on. Review the ''
                      @ ''network settings after the restore '' @ emdash @ '' dnsmasq is regenerated from ''
                      @ ''them as soon as Beacon restarts.''] else [])
             @ (if bk_images backup \<noteq> []
                then [show_nat (length (bk_images backup)) @ '' image(s) will be listed again. Any whose ''
                      @ ''extracted files are missing are marked '' @ ldquo @ ''needs reprocess'' @ rdquo @ '' at ''
                      @ ''startup and stay out of the boot menu until reprocessed.''] else [])
       in Inr \<lparr>pv_size = bk_size backup,
           pv_counts = [length (bk_usernames backup), length (bk_admins backup), length (bk_images backup),
                        length incoming, bk_events backup],
           pv_host = rows, pv_settings = changed_settings current incoming,
           pv_added = sorted_names (filter (\<lambda>u. u \<notin> set db_users) (bk_usernames backup)),
           pv_removed = sorted_names (filter (\<lambda>u. u \<notin> set (bk_usernames backup)) db_users),
           pv_kept = sorted_names (filter (\<lambda>u. u \<in> set db_users) (bk_usernames backup)),
           pv_admins = bk_admins backup, pv_images = bk_images backup, pv_warnings = warnings\<rparr>)"

section \<open>Applying\<close>

text \<open>\<open>key LIKE 'update_%'\<close>: SQLite folds the case of ASCII letters, and the underscore stands for any character.\<close>

definition like_deployment_key :: "string \<Rightarrow> bool" where
  "like_deployment_key key \<longleftrightarrow> 7 \<le> length key \<and> ascii_lower (take 6 key) = ''update''"

text \<open>What \<open>_rewrite_staged\<close> does to the rows of the settings table.\<close>

definition upserts :: "settings \<Rightarrow> settings \<Rightarrow> settings" where
  "upserts kvs rs = foldl (\<lambda>rs kv. set_setting rs (fst kv) (snd kv)) rs kvs"

definition rewrite_staged :: "settings \<Rightarrow> string \<Rightarrow> string \<Rightarrow> string \<Rightarrow> settings \<Rightarrow> settings" where
  "rewrite_staged overrides notice level now rs =
     upserts [(NOTICE_KEY, notice), (NOTICE_LEVEL_KEY, level), (NOTICE_AT_KEY, now)]
       (filter (\<lambda>row. \<not> like_deployment_key (fst row)) (upserts overrides rs))"

text \<open>The files in the data directory.\<close>

record data_dir =
  db_path :: string
  staged :: "string option"
  pre_restore :: "string option"

record restored =
  rs_notice :: string
  rs_level :: string
  rs_kept :: settings

text \<open>A refusal (RestoreError), or any other exception.\<close>

datatype failure = RestoreError string | Crash

definition overrides_of :: "host_row list \<Rightarrow> settings" where
  "overrides_of rows = map (\<lambda>row. (hr_key row, hr_current row)) (filter (\<lambda>row. hr_action row = ''keep'') rows)"

definition outcome_notice :: "settings \<Rightarrow> string \<times> string" where
  "outcome_notice overrides =
     (let kept = map (\<lambda>(k, v). key_label k @ '' '' @ ldquo @ v @ rdquo) overrides
      in if kept \<noteq> []
         then (''Database restored from backup. This host's '' @ join '' and '' kept
               @ '' were kept because the backup's values do not describe ''
               @ ''this machine. Check the network settings below.'', ''warn'')
         else (''Database restored from backup.'', ''ok''))"

text \<open>\<open>sql_run bytes f\<close>: the file after a transaction that changes its settings rows by \<open>f\<close>; None if it fails.\<close>

definition apply_restore ::
  "settings \<Rightarrow> (string \<Rightarrow> string set) \<Rightarrow> (string \<Rightarrow> contents option)
     \<Rightarrow> (string \<Rightarrow> (settings \<Rightarrow> settings) \<Rightarrow> string option) \<Rightarrow> string
     \<Rightarrow> settings \<Rightarrow> string list \<Rightarrow> data_dir \<Rightarrow> data_dir \<times> (failure + restored)" where
  "apply_restore DEFAULTS known sqlite sql_run now db db_users w =
     (case build_preview DEFAULTS known sqlite db db_users (staged w) of
        Inl msg \<Rightarrow> (w, Inl (RestoreError msg))
      | Inr pv \<Rightarrow>
          (let overrides = overrides_of (pv_host pv);
               (notice, level) = outcome_notice overrides
           in case sql_run (case staged w of Some b \<Rightarrow> b | None \<Rightarrow> []) (rewrite_staged overrides notice level now) of
                None \<Rightarrow> (w, Inl Crash)
              | Some bytes \<Rightarrow>
                  (\<lparr>db_path = bytes, staged = None, pre_restore = Some (db_path w)\<rparr>,
                   Inr \<lparr>rs_notice = notice, rs_level = level, rs_kept = overrides\<rparr>)))"

definition clear_staged :: "data_dir \<Rightarrow> data_dir" where
  "clear_staged w = w\<lparr>staged := None\<rparr>"

text \<open>The notice the settings page shows after the restart.\<close>

definition current_notice :: "settings \<Rightarrow> settings \<Rightarrow> (string \<times> string \<times> string) option" where
  "current_notice DEFAULTS db =
     (let t = get_setting DEFAULTS db NOTICE_KEY (Some [])
      in if t = [] then None
         else Some (t, get_setting DEFAULTS db NOTICE_LEVEL_KEY (Some ''ok''),
                    get_setting DEFAULTS db NOTICE_AT_KEY (Some [])))"

definition clear_notice :: "settings \<Rightarrow> settings" where
  "clear_notice db = foldl (\<lambda>db key. set_setting db key []) db [NOTICE_KEY, NOTICE_LEVEL_KEY, NOTICE_AT_KEY]"

section \<open>Requests\<close>

text \<open>
  The upload is read in chunks, up to the size limit; the answer to a preview carries the token of
  the staged file.  \<open>restarts\<close>: the answer to an apply that succeeded has the container restarted after it.
\<close>

datatype answer =
    Previewed preview string
  | Applied restored
  | Refused nat string
  | Failed
  | Done

fun receive :: "nat \<Rightarrow> string list \<Rightarrow> string option" where
  "receive len [] = Some []"
| "receive len (chunk # cs) =
     (if MAX_UPLOAD_BYTES < len + length chunk then None
      else map_option (\<lambda>rest. chunk @ rest) (receive (len + length chunk) cs))"

definition restore_preview ::
  "settings \<Rightarrow> (string \<Rightarrow> string set) \<Rightarrow> (string \<Rightarrow> contents option) \<Rightarrow> (string \<Rightarrow> string)
     \<Rightarrow> settings \<Rightarrow> string list \<Rightarrow> string list \<Rightarrow> data_dir \<Rightarrow> data_dir \<times> answer" where
  "restore_preview DEFAULTS known sqlite sha256 db db_users chunks w =
     (case receive 0 chunks of
        None \<Rightarrow> (clear_staged w, Refused 400 (''That file is far larger than any Beacon database. ''
                  @ ''Upload beacon-backup.db, not an image or an archive.''))
      | Some bytes \<Rightarrow>
          (let w = w\<lparr>staged := Some bytes\<rparr>
           in case build_preview DEFAULTS known sqlite db db_users (staged w) of
                Inl msg \<Rightarrow> (clear_staged w, Refused 400 msg)
              | Inr pv \<Rightarrow> (w, Previewed pv (sha256 bytes))))"

definition restore_apply ::
  "settings \<Rightarrow> (string \<Rightarrow> string set) \<Rightarrow> (string \<Rightarrow> contents option)
     \<Rightarrow> (string \<Rightarrow> (settings \<Rightarrow> settings) \<Rightarrow> string option) \<Rightarrow> (string \<Rightarrow> string) \<Rightarrow> string
     \<Rightarrow> settings \<Rightarrow> string list \<Rightarrow> string \<Rightarrow> data_dir \<Rightarrow> data_dir \<times> answer" where
  "restore_apply DEFAULTS known sqlite sql_run sha256 now db db_users token w =
     (case staged w of
        None \<Rightarrow> (w, Refused 400 ''No backup is staged. Choose a file and preview it first.'')
      | Some bytes \<Rightarrow>
          if token \<noteq> sha256 bytes
          then (clear_staged w, Refused 409 (''The staged file changed since it was previewed. ''
                  @ ''Upload it again and re-check the preview.''))
          else case apply_restore DEFAULTS known sqlite sql_run now db db_users w of
                 (w, Inl (RestoreError msg)) \<Rightarrow> (clear_staged w, Refused 400 msg)
               | (w, Inl Crash) \<Rightarrow> (w, Failed)
               | (w, Inr result) \<Rightarrow> (w, Applied result))"

definition restore_cancel :: "data_dir \<Rightarrow> data_dir \<times> answer" where
  "restore_cancel w = (clear_staged w, Done)"

text \<open>
  The requests in the order they are served, each with the settings, the user names and the time its
  handler reads; \<open>serve_all\<close> keeps the requests with their answers.
\<close>

datatype request = Preview "string list" | Confirm string | Cancel

record moment =
  m_db :: settings
  m_users :: "string list"
  m_now :: string

fun serve ::
  "settings \<Rightarrow> (string \<Rightarrow> string set) \<Rightarrow> (string \<Rightarrow> contents option)
     \<Rightarrow> (string \<Rightarrow> (settings \<Rightarrow> settings) \<Rightarrow> string option) \<Rightarrow> (string \<Rightarrow> string)
     \<Rightarrow> moment \<times> request \<Rightarrow> data_dir \<Rightarrow> data_dir \<times> answer" where
  "serve DEFAULTS known sqlite sql_run sha256 (e, Preview chunks) w =
     restore_preview DEFAULTS known sqlite sha256 (m_db e) (m_users e) chunks w"
| "serve DEFAULTS known sqlite sql_run sha256 (e, Confirm token) w =
     restore_apply DEFAULTS known sqlite sql_run sha256 (m_now e) (m_db e) (m_users e) token w"
| "serve DEFAULTS known sqlite sql_run sha256 (e, Cancel) w = restore_cancel w"

fun serve_all ::
  "(moment \<times> request \<Rightarrow> data_dir \<Rightarrow> data_dir \<times> answer) \<Rightarrow> (moment \<times> request) list \<Rightarrow> data_dir
     \<Rightarrow> data_dir \<times> (request \<times> answer) list" where
  "serve_all sv [] w = (w, [])"
| "serve_all sv (er # es) w =
     (case sv er w of (w1, a) \<Rightarrow> (case serve_all sv es w1 of (w2, log) \<Rightarrow> (w2, (snd er, a) # log)))"

section \<open>Lemmas\<close>

text \<open>The law of SQLite: a transaction that changes the settings rows changes those and nothing else.\<close>

definition sql_law :: "(string \<Rightarrow> contents option) \<Rightarrow> (string \<Rightarrow> (settings \<Rightarrow> settings) \<Rightarrow> string option) \<Rightarrow> string \<Rightarrow> bool" where
  "sql_law sqlite sql_run bytes \<longleftrightarrow>
     (\<forall>f c rs bytes'. sqlite bytes = Some c \<longrightarrow> setting_rows c = Inr rs \<longrightarrow> sql_run bytes f = Some bytes' \<longrightarrow>
        sqlite bytes' = Some (c\<lparr>setting_rows := Inr (f rs)\<rparr>))"

lemma map_of_upserts: "map_of (upserts kvs rs) = map_of rs ++ map_of (rev kvs)"
proof (induction kvs arbitrary: rs)
  case (Cons kv kvs)
  then show ?case by (cases kv) (auto simp: upserts_def map_of_set_setting fun_eq_iff map_add_def split: option.split)
qed (simp add: upserts_def)

lemma map_of_filter_key:
  "map_of (filter (\<lambda>row. P (fst row)) rs) k = (if P k then map_of rs k else None)"
  by (induction rs) auto

lemma map_of_to_dict: "distinct (map fst rs) \<Longrightarrow> map_of (to_dict rs) = map_of rs"
  unfolding to_dict_def using map_of_all_settings [of rs "[]"] by (simp add: all_settings_def)

lemma sql_Inr [simp]: "sql q = Inr v \<longleftrightarrow> q = Inr v"
  by (simp add: sql_def split: sum.split)

text \<open>What an inspection that succeeds has established.\<close>

lemma inspect_contents_Inr:
  assumes "inspect_contents len c = Inr b"
  shows "\<exists>us rs. user_rows c = Inr us \<and> setting_rows c = Inr rs \<and> bk_settings b = to_dict rs
    \<and> integrity c = Inr (Some ''ok'') \<and> triggers_views c = Inr []
    \<and> bk_admins b = sort_by str_le (map fst (filter (\<lambda>u. snd u = ''admin'') us)) \<and> bk_admins b \<noteq> []"
  using assms by (auto simp: inspect_contents_def rbind_eq_Inr Let_def)

lemma inspect_backup_Inr:
  assumes "inspect_backup sqlite path = Inr b"
  obtains bytes c where "path = Some bytes" "sqlite bytes = Some c" "inspect_contents (length bytes) c = Inr b"
  using assms by (auto simp: inspect_backup_def split: option.splits if_splits)

lemma build_preview_Inr:
  assumes "build_preview DEFAULTS known sqlite db db_users path = Inr pv"
  obtains b where "inspect_backup sqlite path = Inr b"
    "pv_host pv = host_rows known (all_settings DEFAULTS db) (bk_settings b)" "pv_admins pv = bk_admins b"
  using assms by (auto simp: build_preview_def rbind_eq_Inr Let_def)

text \<open>When the host's own value is kept.\<close>

definition rejected :: "(string \<Rightarrow> string set) \<Rightarrow> string \<Rightarrow> string \<Rightarrow> string \<Rightarrow> bool" where
  "rejected known key current incoming \<longleftrightarrow>
     incoming \<noteq> current \<and> (incoming = [] \<or> (known key \<noteq> {} \<and> incoming \<notin> known key))"

lemma host_decision_keep:
  "hr_action (host_decision known (key, d) current incoming) = ''keep'' \<longleftrightarrow> rejected known key current incoming"
  by (auto simp: host_decision_def rejected_def Let_def)

lemma host_decision_fields [simp]:
  "hr_key (host_decision known kd current incoming) = fst kd"
  "hr_current (host_decision known kd current incoming) = current"
  by (auto simp: host_decision_def Let_def split: prod.split)

lemma map_of_overrides:
  "map_of (overrides_of (host_rows known current incoming)) k =
     (if k \<in> {''server_ip'', ''boot_interface''}
         \<and> rejected known k (dict_get current k []) (dict_get incoming k [])
      then Some (dict_get current k []) else None)"
  by (auto simp: overrides_of_def host_rows_def HOST_KEYS_def host_decision_keep)

lemma distinct_overrides: "distinct (map fst (overrides_of (host_rows known current incoming)))"
  by (simp add: overrides_of_def host_rows_def HOST_KEYS_def)

lemma distinct_upserts: "distinct (map fst rs) \<Longrightarrow> distinct (map fst (upserts kvs rs))"
  by (induction kvs arbitrary: rs) (simp_all add: upserts_def distinct_set_setting)

lemma distinct_map_filter_fst: "distinct (map fst rs) \<Longrightarrow> distinct (map fst (filter P rs))"
  by (induction rs) auto

lemma distinct_rewrite_staged: "distinct (map fst rs) \<Longrightarrow> distinct (map fst (rewrite_staged ov n l t rs))"
  by (simp add: rewrite_staged_def distinct_upserts distinct_map_filter_fst)

definition notice_values :: "string \<Rightarrow> string \<Rightarrow> string \<Rightarrow> settings" where
  "notice_values notice level now = [(NOTICE_KEY, notice), (NOTICE_LEVEL_KEY, level), (NOTICE_AT_KEY, now)]"

lemma map_of_rewrite_staged:
  assumes "distinct (map fst ov)"
  shows "map_of (rewrite_staged ov notice level now rs) k =
    (case map_of (notice_values notice level now) k of Some v \<Rightarrow> Some v
     | None \<Rightarrow> if like_deployment_key k then None
               else case map_of ov k of Some v \<Rightarrow> Some v | None \<Rightarrow> map_of rs k)"
proof -
  have rev: "map_of (rev ov) = map_of ov" using assms by (metis distinct_rev map_of_inject_set rev_map set_rev)
  have dist: "distinct (map fst (notice_values notice level now))"
    by (simp add: notice_values_def NOTICE_KEY_def NOTICE_LEVEL_KEY_def NOTICE_AT_KEY_def)
  then have revn: "map_of (rev (notice_values notice level now)) = map_of (notice_values notice level now)"
    by (metis distinct_rev map_of_inject_set rev_map set_rev)
  show ?thesis
    unfolding rewrite_staged_def notice_values_def [symmetric] map_of_upserts revn
    by (simp add: map_add_def map_of_filter_key [of "\<lambda>k. \<not> like_deployment_key k"] map_of_upserts rev split: option.split)
qed

lemma apply_restore_Inr:
  assumes "apply_restore DEFAULTS known sqlite sql_run now db db_users w = (w', Inr r)"
  obtains bytes c b bytes' where "staged w = Some bytes" "sqlite bytes = Some c"
    "inspect_contents (length bytes) c = Inr b"
    "rs_kept r = overrides_of (host_rows known (all_settings DEFAULTS db) (bk_settings b))"
    "(rs_notice r, rs_level r) = outcome_notice (rs_kept r)"
    "sql_run bytes (rewrite_staged (rs_kept r) (rs_notice r) (rs_level r) now) = Some bytes'"
    "w' = \<lparr>db_path = bytes', staged = None, pre_restore = Some (db_path w)\<rparr>"
proof -
  from assms obtain pv where pv: "build_preview DEFAULTS known sqlite db db_users (staged w) = Inr pv"
    by (auto simp: apply_restore_def split: sum.splits)
  obtain b where b: "inspect_backup sqlite (staged w) = Inr b"
    "pv_host pv = host_rows known (all_settings DEFAULTS db) (bk_settings b)"
    using build_preview_Inr [OF pv] by metis
  obtain bytes c where c: "staged w = Some bytes" "sqlite bytes = Some c" "inspect_contents (length bytes) c = Inr b"
    using inspect_backup_Inr [OF b(1)] by metis
  obtain bytes' where "sql_run bytes (rewrite_staged (overrides_of (pv_host pv))
      (fst (outcome_notice (overrides_of (pv_host pv)))) (snd (outcome_notice (overrides_of (pv_host pv)))) now) = Some bytes'"
    "w' = \<lparr>db_path = bytes', staged = None, pre_restore = Some (db_path w)\<rparr>"
    "r = \<lparr>rs_notice = fst (outcome_notice (overrides_of (pv_host pv))),
          rs_level = snd (outcome_notice (overrides_of (pv_host pv))), rs_kept = overrides_of (pv_host pv)\<rparr>"
    using assms by (auto simp: apply_restore_def pv [unfolded c(1)] c(1) Let_def split: option.splits prod.splits)
  with that [OF c] b(2) show thesis by simp
qed

text \<open>The value of a setting, through the defaults.\<close>

definition setting :: "settings \<Rightarrow> settings \<Rightarrow> string \<Rightarrow> string" where
  "setting DEFAULTS db key = dict_get (all_settings DEFAULTS db) key []"

text \<open>
  What each setting is after a restore: the notice of the restore itself, the default for the bookkeeping
  of updates, this host's own value where the backup's does not describe it, and the backup's otherwise.
\<close>

definition restored_setting ::
  "settings \<Rightarrow> (string \<Rightarrow> string set) \<Rightarrow> settings \<Rightarrow> settings \<Rightarrow> settings \<Rightarrow> string \<Rightarrow> string" where
  "restored_setting DEFAULTS known notices db rs key =
     (case map_of notices key of
        Some v \<Rightarrow> v
      | None \<Rightarrow>
          if like_deployment_key key then dict_get DEFAULTS key []
          else if key \<in> {''server_ip'', ''boot_interface''}
                  \<and> rejected known key (setting DEFAULTS db key) (dict_get rs key [])
          then setting DEFAULTS db key
          else setting DEFAULTS rs key)"

text \<open>A staged file was previewed, and the answer named its token.\<close>

definition was_previewed ::
  "(string \<Rightarrow> contents option) \<Rightarrow> (string \<Rightarrow> string) \<Rightarrow> (request \<times> answer) list \<Rightarrow> string \<Rightarrow> bool" where
  "was_previewed sqlite sha256 log bytes \<longleftrightarrow>
     (\<exists>chunks pv. (Preview chunks, Previewed pv (sha256 bytes)) \<in> set log \<and> receive 0 chunks = Some bytes
        \<and> pv_admins pv \<noteq> [])"

lemma build_preview_admins:
  assumes "build_preview DEFAULTS known sqlite db users path = Inr pv"
  shows "pv_admins pv \<noteq> []"
proof -
  obtain b where b: "inspect_backup sqlite path = Inr b" "pv_admins pv = bk_admins b"
    using build_preview_Inr [OF assms] by metis
  from inspect_backup_Inr [OF b(1)] obtain bytes c where
    "path = Some bytes" "sqlite bytes = Some c" "inspect_contents (length bytes) c = Inr b" .
  with inspect_contents_Inr [of "length bytes" c b] b(2) show ?thesis by metis
qed

lemma apply_restore_Inl:
  "apply_restore DEFAULTS known sqlite sql_run now db db_users w = (w', Inl e) \<Longrightarrow> w' = w"
  by (auto simp: apply_restore_def Let_def split: sum.splits option.splits prod.splits)

lemma staged_serve:
  assumes "serve DEFAULTS known sqlite sql_run sha256 (e, req) w = (w', a)" "staged w' = Some bytes"
  shows "staged w = Some bytes \<or> was_previewed sqlite sha256 [(req, a)] bytes"
proof (cases req)
  case (Preview chunks)
  with assms show ?thesis
    by (auto simp: restore_preview_def clear_staged_def was_previewed_def Let_def
        dest: build_preview_admins split: option.splits sum.splits)
next
  case (Confirm token)
  with assms show ?thesis
    by (auto simp: restore_apply_def clear_staged_def dest: apply_restore_Inl elim!: apply_restore_Inr
        split: option.splits sum.splits if_splits prod.splits failure.splits)
next
  case Cancel
  with assms show ?thesis by (auto simp: restore_cancel_def clear_staged_def)
qed

lemma staged_serve_all:
  assumes "serve_all (serve DEFAULTS known sqlite sql_run sha256) es w = (w', log)"
    and "staged w' = Some bytes" "staged w = None \<or> was_previewed sqlite sha256 log0 (the (staged w))"
  shows "was_previewed sqlite sha256 (log0 @ log) bytes"
  using assms
proof (induction es arbitrary: w log log0)
  case Nil
  then show ?case by auto
next
  case (Cons er es)
  obtain e req where er: "er = (e, req)" by (cases er)
  obtain w1 a where a: "serve DEFAULTS known sqlite sql_run sha256 (e, req) w = (w1, a)" by fastforce
  obtain log1 where log1: "serve_all (serve DEFAULTS known sqlite sql_run sha256) es w1 = (w', log1)"
    "log = (req, a) # log1" using Cons.prems(1) er a by (auto split: prod.splits)
  have "staged w1 = None \<or> was_previewed sqlite sha256 (log0 @ [(req, a)]) (the (staged w1))"
  proof (cases "staged w1")
    case (Some b)
    with staged_serve [OF a] Cons.prems(3) show ?thesis unfolding was_previewed_def by fastforce
  qed simp
  from Cons.IH [OF log1(1) Cons.prems(2) this] show ?case by (simp add: log1(2))
qed

section \<open>Properties\<close>


text \<open>A data directory in which SQLite is a table of \<open>key=value\<close> lines: the laws can hold.\<close>

definition toy_encode :: "settings \<Rightarrow> string" where
  "toy_encode rs = SQLITE_MAGIC @ concat (map (\<lambda>(k, v). k @ ''='' @ v @ '';'') rs)"

definition toy_decode :: "string \<Rightarrow> settings" where
  "toy_decode bytes = map (\<lambda>l. case partition_at CHR ''='' l of (k, _, v) \<Rightarrow> (k, v))
     (filter (\<lambda>l. l \<noteq> []) (split_on CHR '';'' (drop 16 bytes)))"

definition toy_sqlite :: "string \<Rightarrow> contents option" where
  "toy_sqlite bytes = Some \<lparr>integrity = Inr (Some ''ok''), tables = Inr REQUIRED_TABLES, triggers_views = Inr [],
     user_columns = Inr [''username'', ''role''], user_rows = Inr [(''root'', ''admin'')],
     setting_rows = Inr (toy_decode bytes), image_rows = Inr [], event_count = Inr 0\<rparr>"

definition toy_run :: "string \<Rightarrow> (settings \<Rightarrow> settings) \<Rightarrow> string option" where
  "toy_run bytes f = (let out = toy_encode (f (toy_decode bytes))
     in if toy_decode out = f (toy_decode bytes) then Some out else None)"

lemma toy_law: "sql_law toy_sqlite toy_run bytes"
  by (auto simp: sql_law_def toy_sqlite_def toy_run_def Let_def split: if_splits)

definition other_host :: settings where
  "other_host = [(''server_ip'', ''10.9.9.9''), (''boot_interface'', ''eth0''), (''update_in_progress'', ''1''),
                 (''menu_title'', ''Lab'')]"

definition this_host :: settings where
  "this_host = [(''server_ip'', ''10.1.1.5''), (''boot_interface'', ''eth0'')]"

definition toy_known :: "string \<Rightarrow> string set" where
  "toy_known key = (if key = ''server_ip'' then {''10.1.1.5''} else {''eth0'', ''eth1''})"

definition before_restore :: data_dir where
  "before_restore = \<lparr>db_path = toy_encode this_host, staged = Some (toy_encode other_host), pre_restore = None\<rparr>"

definition toy_apply :: "data_dir \<times> (failure + restored)" where
  "toy_apply = apply_restore [] toy_known toy_sqlite toy_run ''now'' this_host [''root''] before_restore"



definition toy_serve :: "moment \<times> request \<Rightarrow> data_dir \<Rightarrow> data_dir \<times> answer" where
  "toy_serve = serve [] toy_known toy_sqlite toy_run (drop 16)"

definition monday :: moment where
  "monday = \<lparr>m_db = this_host, m_users = [''root''], m_now = ''now''\<rparr>"

definition previewed_first :: "data_dir \<times> (request \<times> answer) list" where
  "previewed_first = serve_all toy_serve [(monday, Preview [SQLITE_MAGIC, ''menu_title=Lab;''])] (before_restore\<lparr>staged := None\<rparr>)"


end
