(* ===== verification/Url.thy ===== *)
theory Url
  imports Net Regex
begin

text \<open>
  URLs as the console reads them: \<open>urllib.parse.urlparse\<close> (of Python 3.12), and the two checks of
  \<open>services/netboot.py\<close> on addresses the admin types, \<open>validate_mirror\<close> and \<open>validate_source_url\<close>, with
  \<open>validate_release\<close>.
\<close>

section \<open>urlparse\<close>

record url_parts =
  scheme :: string
  netloc :: string
  url_path :: string
  params :: string
  query :: string
  fragment :: string

definition scheme_chr :: "char \<Rightarrow> bool" where
  "scheme_chr c \<longleftrightarrow> is_alnum c \<or> c \<in> set ''+-.''"

definition split_scheme :: "string \<Rightarrow> string \<times> string" where
  "split_scheme url =
     (case partition_at CHR '':'' url of
        (s, found, rest) \<Rightarrow>
          if found \<and> s \<noteq> [] \<and> (is_lower (hd s) \<or> is_upper (hd s)) \<and> list_all scheme_chr s
          then (lower s, rest) else ([], url))"

text \<open>Hosts in brackets: an address of the future (\<open>v1.x\<close>) or an IPv6 address.\<close>

definition bracketed_host_ok :: "string \<Rightarrow> bool" where
  "bracketed_host_ok host =
     (case host of
        CHR ''v'' # rest \<Rightarrow>
          (case partition_at CHR ''.'' rest of
             (h, found, t) \<Rightarrow> found \<and> h \<noteq> [] \<and> list_all (\<lambda>c. hex_val c \<noteq> None) h \<and> t \<noteq> [])
      | _ \<Rightarrow> (case ip_address host of Some (V6 _) \<Rightarrow> True | _ \<Rightarrow> False))"

definition bracketed_netloc_ok :: "string \<Rightarrow> bool" where
  "bracketed_netloc_ok nl =
     (let (_, _, host_port) = rpartition_at CHR ''@'' nl; (before, have_open, bracketed) = partition_at CHR ''['' host_port
      in if have_open then
           (let (host, _, port) = partition_at CHR '']'' bracketed
            in before = [] \<and> (port = [] \<or> prefix '':'' port) \<and> bracketed_host_ok host)
         else (let (host, _, _) = partition_at CHR '':'' host_port in bracketed_host_ok host))"

definition uses_params :: "string list" where
  "uses_params = [[], ''ftp'', ''hdl'', ''prospero'', ''http'', ''imap'', ''https'', ''shttp'', ''rtsp'', ''rtsps'',
     ''rtspu'', ''sip'', ''sips'', ''mms'', ''sftp'', ''tel'']"

definition split_params :: "string \<Rightarrow> string \<times> string" where
  "split_params path =
     (let (dir, slash, seg) = rpartition_at CHR ''/'' path; (p, found, ps) = partition_at CHR '';'' seg
      in if found then (if slash then dir @ ''/'' @ p else p, ps) else (path, []))"

text \<open>None: ValueError.\<close>

definition urlparse :: "string \<Rightarrow> url_parts option" where
  "urlparse url =
     (let url = filter (\<lambda>c. c \<notin> {CHR 0x09, CR, NL}) (dropWhile (\<lambda>c. code c \<le> 32) url);
          (sch, url) = split_scheme url;
          has_netloc = prefix ''//'' url;
          nl = (if has_netloc then takeWhile (\<lambda>c. c \<notin> set ''/?#'') (drop 2 url) else []);
          url = (if has_netloc then dropWhile (\<lambda>c. c \<notin> set ''/?#'') (drop 2 url) else url);
          lb = CHR ''['' \<in> set nl; rb = CHR '']'' \<in> set nl
      in if lb \<noteq> rb \<or> (lb \<and> \<not> bracketed_netloc_ok nl) then None
         else (let (url, _, frag) = partition_at CHR ''#'' url; (url, _, q) = partition_at CHR ''?'' url;
                   (p, ps) = (if sch \<in> set uses_params then split_params url else (url, []))
               in Some \<lparr>scheme = sch, netloc = nl, url_path = p, params = ps, query = q, fragment = frag\<rparr>))"

section \<open>The checks\<close>

text \<open>How an operation of the catalog fails: with a message, stopped, or with an exception nothing expects.\<close>

datatype exn = NetbootError string | Cancelled | Crash

definition RELEASE_RE :: rx where
  "RELEASE_RE = Seq (Cls is_alnum) (upto_n 63 (Cls (\<lambda>c. is_alnum c \<or> c \<in> set ''._-'')))"

definition validate_release :: "string \<Rightarrow> exn + string" where
  "validate_release release =
     (let release = strip release
      in if re_fullmatch RELEASE_RE release = None
         then Inl (NetbootError ''Release may only contain letters, digits, '.', '_' and '-' (for example: trixie).'')
         else Inr release)"

text \<open>\<open>[^A-Za-z0-9._~:/@%+-]\<close>\<close>

definition mirror_chr :: "char \<Rightarrow> bool" where
  "mirror_chr c \<longleftrightarrow> is_alnum c \<or> c \<in> set ''._~:/@%+-''"

definition validate_mirror :: "string \<Rightarrow> exn + string" where
  "validate_mirror mirror =
     (let mirror = rstrip_chars ''/'' (strip mirror)
      in case urlparse mirror of
           None \<Rightarrow> Inl Crash
         | Some parsed \<Rightarrow>
             if scheme parsed \<notin> {''http'', ''https''} \<or> netloc parsed = []
                \<or> re_search (Cls (\<lambda>c. \<not> mirror_chr c)) (drop (length (scheme parsed) + 3) mirror) \<noteq> None
                \<or> query parsed \<noteq> [] \<or> fragment parsed \<noteq> [] \<or> params parsed \<noteq> []
             then Inl (NetbootError (''Mirror must be an http:// or https:// URL, for ''
                    @ ''example https://deb.debian.org/debian.''))
             else Inr mirror)"

definition validate_source_url :: "string \<Rightarrow> exn + string" where
  "validate_source_url url =
     (let url = strip url
      in case urlparse url of
           None \<Rightarrow> Inl Crash
         | Some parsed \<Rightarrow>
             if scheme parsed \<notin> {''http'', ''https''} \<or> netloc parsed = [] \<or> re_search (Cls py_space) url \<noteq> None
             then Inl (NetbootError ''Archive URL must be an http:// or https:// URL.'')
             else Inr url)"

section \<open>Lemmas\<close>

lemma search_cls: "re_search (Cls P) s = None \<longleftrightarrow> list_all (\<lambda>c. \<not> P c) s"
proof -
  have "re_search (Cls P) s \<noteq> None \<longleftrightarrow> (\<exists>c \<in> set s. P c)"
    unfolding search_iff by (auto simp: mat_simps) (metis append_Cons append_Nil in_set_conv_decomp)
  then show ?thesis by (auto simp: list_all_iff)
qed

lemma validate_release_iff:
  "validate_release s = Inr r \<longleftrightarrow>
     r = strip s \<and> r \<noteq> [] \<and> length r \<le> 64 \<and> is_alnum (hd r) \<and> list_all (\<lambda>c. is_alnum c \<or> c \<in> set ''._-'') r"
proof -
  have "re_fullmatch RELEASE_RE x \<noteq> None \<longleftrightarrow>
      x \<noteq> [] \<and> length x \<le> 64 \<and> is_alnum (hd x) \<and> list_all (\<lambda>c. is_alnum c \<or> c \<in> set ''._-'') x" for x
    unfolding fullmatch_iff RELEASE_RE_def mat_rules by (cases x) auto
  from this [of "strip s"] show ?thesis
    by (cases "re_fullmatch RELEASE_RE (strip s) = None") (simp_all only: validate_release_def Let_def, auto)
qed

lemma alnum_plain: "is_alnum c \<or> c \<in> set ''._-'' \<Longrightarrow> \<not> py_space c \<and> \<not> is_control c \<and> c \<notin> set ''{}|''"
  by (auto simp: is_alnum_def is_lower_def is_upper_def chr_in_def py_space_def is_control_def)

lemma release_plain:
  assumes "validate_release s = Inr r" "c \<in> set r"
  shows "\<not> py_space c" "\<not> is_control c" "c \<notin> set ''{}|''"
  using assms alnum_plain [of c] by (auto simp: validate_release_iff list_all_iff)

lemma validate_release_idem: "validate_release s = Inr r \<Longrightarrow> validate_release r = Inr r"
proof -
  assume r: "validate_release s = Inr r"
  then have "strip r = r" by (auto simp: validate_release_iff)
  with r show ?thesis by (auto simp: validate_release_iff)
qed

end
