(* ===== verification/Download.thy ===== *)
theory Download
  imports Url
begin

text \<open>
  Downloading a boot file or an ISO (\<open>download\<close> in \<open>services/netboot.py\<close>): up to four requests, each
  resuming where the last one stopped, into a part file that replaces the destination at the end.

  The server is an argument: its reply to each try, given the first byte asked for.  So is the stop flag of
  the run, which may rise at any chunk.  A reply carries its chunks and how it ended.
\<close>

section \<open>Replies\<close>

text \<open>
  The exceptions the loop tells apart: a timeout (also as the reason of a URLError), another URLError,
  and a connection that dropped (ConnectionError, SSLError, HTTPException).
\<close>

datatype net_error = TimedOut | UrlError string | Dropped

record resp =
  r_status :: nat
  content_range :: string
  content_length :: string
  chunks :: "string list"
  broken :: "net_error option"

datatype reply = HttpError nat | OpenFailed net_error | Reply resp

definition DOWNLOAD_ATTEMPTS :: nat where "DOWNLOAD_ATTEMPTS = 4"

definition RANGE_START_RE :: rx where
  "RANGE_START_RE = Seq (Star (Cls py_space)) (Seq (lit ''bytes'') (Seq (plus1 (Cls py_space))
     (Seq (Grp 1 (plus1 digit_rx)) (lit ''-''))))"

definition RANGE_TOTAL_RE :: rx where
  "RANGE_TOTAL_RE = Seq (lit ''/'') (Seq (Grp 1 (plus1 digit_rx)) (Seq (Star (Cls py_space)) AtEnd))"

text \<open>\<open>int(m.group(1)) if m else None\<close>; Inl when \<open>int\<close> raises.\<close>

definition int_group :: "rmatch option \<Rightarrow> exn + nat option" where
  "int_group mt =
     (case mt of
        None \<Rightarrow> Inr None
      | Some x \<Rightarrow> (case py_int (case group 1 x of Some s \<Rightarrow> s | None \<Rightarrow> []) of
            None \<Rightarrow> Inl Crash | Some i \<Rightarrow> Inr (Some (nat i))))"

definition range_start :: "resp \<Rightarrow> exn + nat option" where
  "range_start r = int_group (re_match RANGE_START_RE (content_range r))"

definition expected_size :: "resp \<Rightarrow> exn + nat option" where
  "expected_size r =
     (if r_status r = 206 then int_group (re_search RANGE_TOTAL_RE (content_range r))
      else if py_isdigit (content_length r) then
        (case py_int (content_length r) of None \<Rightarrow> Inl Crash | Some i \<Rightarrow> Inr (Some (nat i)))
      else Inr None)"

section \<open>One try\<close>

text \<open>The loop over the chunks, into the part file; \<open>stop k\<close>: the stop flag at the \<open>k\<close>th chunk.\<close>

fun read_body :: "nat \<Rightarrow> (nat \<Rightarrow> bool) \<Rightarrow> nat \<Rightarrow> nat \<Rightarrow> string \<Rightarrow> string list \<Rightarrow> nat \<times> string \<times> exn option" where
  "read_body max_bytes stop k len part [] = (len, part, None)"
| "read_body max_bytes stop k len part (chunk # cs) =
     (if stop k then (len, part, Some Cancelled)
      else (let len = len + length chunk
            in if max_bytes < len
               then (len, part, Some (NetbootError ''Download exceeded the size limit; refusing to continue.''))
               else read_body max_bytes stop (Suc k) len (part @ chunk) cs))"

datatype tried = Got string | Failed exn | Again net_error nat string

definition attempt :: "nat \<Rightarrow> (nat \<Rightarrow> bool) \<Rightarrow> string \<Rightarrow> reply \<Rightarrow> nat \<Rightarrow> string \<Rightarrow> tried" where
  "attempt max_bytes stop url rep len part =
     (case rep of
        HttpError status_code \<Rightarrow>
          Failed (NetbootError (''Download failed: the server answered '' @ show_nat status_code @ '' for '' @ url
                  @ ''. Check the release name and mirror.''))
      | OpenFailed e \<Rightarrow> Again e len part
      | Reply r \<Rightarrow>
          (case (if r_status r = 206 then range_start r else Inr (Some 0)) of
             Inl e \<Rightarrow> Failed e
           | Inr start \<Rightarrow>
               (let useless = (len \<noteq> 0 \<and> start \<noteq> Some len)
                in if useless \<and> start \<noteq> Some 0 then Again Dropped 0 part
                   else (let len = (if useless then 0 else len)
                         in case expected_size r of
                              Inl e \<Rightarrow> Failed e
                            | Inr expected \<Rightarrow>
                                (case read_body max_bytes stop 0 len (if len = 0 then [] else part) (chunks r) of
                                   (len, part, Some e) \<Rightarrow> Failed e
                                 | (len, part, None) \<Rightarrow>
                                     (case broken r of
                                        Some e \<Rightarrow> Again e len part
                                      | None \<Rightarrow>
                                          (case expected of
                                             Some n \<Rightarrow> if len < n then Again Dropped len part else Got part
                                           | None \<Rightarrow> Got part)))))))"

section \<open>All tries\<close>

definition give_up :: "string \<Rightarrow> net_error \<Rightarrow> exn" where
  "give_up url e =
     (case e of
        TimedOut \<Rightarrow> NetbootError (''Download timed out ('' @ show_nat DOWNLOAD_ATTEMPTS
            @ '' tries). Check the Beacon host's internet access and try again.'')
      | UrlError reason \<Rightarrow> NetbootError (''Download failed ('' @ reason @ ''). ''
            @ ''The Beacon host needs internet access, or upload the archive instead.'')
      | Dropped \<Rightarrow> NetbootError (''Download failed: the connection to '' @ url @ '' kept dropping (''
            @ show_nat DOWNLOAD_ATTEMPTS @ '' tries).''))"

text \<open>The tries left, from try \<open>k\<close> on; a request asks for a range when some bytes are there.\<close>

fun tries ::
  "(nat \<Rightarrow> nat option \<Rightarrow> reply) \<Rightarrow> (nat \<Rightarrow> nat \<Rightarrow> bool) \<Rightarrow> nat \<Rightarrow> string \<Rightarrow> nat \<Rightarrow> nat \<Rightarrow> nat \<Rightarrow> string \<Rightarrow> exn + string" where
  "tries server stop max_bytes url k 0 len part = Inl Crash"
| "tries server stop max_bytes url k (Suc left) len part =
     (case attempt max_bytes (stop k) url (server k (if len = 0 then None else Some len)) len part of
        Got file_bytes \<Rightarrow> Inr file_bytes
      | Failed e \<Rightarrow> Inl e
      | Again e len part \<Rightarrow>
          if left = 0 then Inl (give_up url e)
          else tries server stop max_bytes url (Suc k) left len part)"

record disk =
  dest :: "string option"
  part_file :: "string option"

definition download ::
  "(nat \<Rightarrow> nat option \<Rightarrow> reply) \<Rightarrow> (nat \<Rightarrow> nat \<Rightarrow> bool) \<Rightarrow> nat \<Rightarrow> string \<Rightarrow> disk \<Rightarrow> disk \<times> exn option" where
  "download server stop max_bytes url d =
     (case tries server stop max_bytes url 1 DOWNLOAD_ATTEMPTS 0 [] of
        Inr file_bytes \<Rightarrow> (d\<lparr>dest := Some file_bytes, part_file := None\<rparr>, None)
      | Inl e \<Rightarrow> (d\<lparr>part_file := None\<rparr>, Some e))"

section \<open>Lemmas\<close>

text \<open>
  A server that serves the bytes \<open>F\<close>: a reply to a range starts where it says it does, a reply to no range
  at the start; it carries a part of the file from there, announces the right total if it announces
  one, and is complete if it ends well without having announced a total.
\<close>

definition reply_start :: "resp \<Rightarrow> nat option" where
  "reply_start r = (if r_status r = 206 then (case range_start r of Inr s \<Rightarrow> s | Inl _ \<Rightarrow> None) else Some 0)"

definition honest :: "string \<Rightarrow> nat option \<Rightarrow> resp \<Rightarrow> bool" where
  "honest F asked r \<longleftrightarrow>
     (case reply_start r of
        None \<Rightarrow> False
      | Some s \<Rightarrow> (asked = None \<longrightarrow> s = 0) \<and> prefix (concat (chunks r)) (drop s F)
          \<and> (case expected_size r of
               Inl _ \<Rightarrow> True
             | Inr (Some n) \<Rightarrow> n = length F
             | Inr None \<Rightarrow> broken r = None \<longrightarrow> concat (chunks r) = drop s F))"

definition serves :: "string \<Rightarrow> (nat \<Rightarrow> nat option \<Rightarrow> reply) \<Rightarrow> bool" where
  "serves F server \<longleftrightarrow> (\<forall>k asked r. server k asked = Reply r \<longrightarrow> honest F asked r)"

text \<open>What is on disk is the beginning of the file.\<close>

definition good_part :: "string \<Rightarrow> nat \<Rightarrow> string \<Rightarrow> bool" where
  "good_part F len part \<longleftrightarrow> len = 0 \<or> (len = length part \<and> prefix part F)"

lemma read_body_ok:
  "read_body max_bytes stop k len part cs = (len', part', None) \<Longrightarrow>
     len' = len + length (concat cs) \<and> part' = part @ concat cs"
proof (induction max_bytes stop k len part cs arbitrary: len' part' rule: read_body.induct)
  case (2 max_bytes stop k len part chunk cs)
  then show ?case by (simp add: Let_def split: if_splits) force
qed simp

lemma read_body_cap:
  "read_body max_bytes stop k len part cs = (len', part', None) \<Longrightarrow> len \<le> max_bytes \<Longrightarrow> len' \<le> max_bytes"
  by (induction max_bytes stop k len part cs arbitrary: len' part' rule: read_body.induct)
    (auto simp: Let_def split: if_splits)

lemma read_body_fits:
  "(\<And>i. \<not> stop i) \<Longrightarrow> len + length (concat cs) \<le> max_bytes \<Longrightarrow>
     read_body max_bytes stop k len part cs = (len + length (concat cs), part @ concat cs, None)"
  by (induction max_bytes stop k len part cs rule: read_body.induct) (auto simp: Let_def)

lemma good_part_prefix: "good_part F len part \<Longrightarrow> prefix (if len = 0 then [] else part) F"
  by (auto simp: good_part_def)

lemma prefix_drop_append:
  "prefix p F \<Longrightarrow> prefix q (drop (length p) F) \<Longrightarrow> prefix (p @ q) F"
  by (auto simp: prefix_def)

text \<open>A reply whose headers can be read: useless, or a body that ends the try.\<close>

definition restart_len :: "nat \<Rightarrow> nat option \<Rightarrow> nat" where
  "restart_len len start = (if start = Some len then len else 0)"

definition after_body :: "net_error option \<Rightarrow> nat option \<Rightarrow> nat \<times> string \<times> exn option \<Rightarrow> tried" where
  "after_body br expected x =
     (case x of
        (len, part, Some e) \<Rightarrow> Failed e
      | (len, part, None) \<Rightarrow>
          (case br of
             Some e \<Rightarrow> Again e len part
           | None \<Rightarrow> (case expected of Some n \<Rightarrow> if len < n then Again Dropped len part else Got part | None \<Rightarrow> Got part)))"

lemma attempt_reply:
  assumes "(if r_status r = 206 then range_start r else Inr (Some 0)) = Inr start" "expected_size r = Inr expected"
  shows "attempt max_bytes stop url (Reply r) len part =
    (if len \<noteq> 0 \<and> start \<noteq> Some len \<and> start \<noteq> Some 0 then Again Dropped 0 part
     else after_body (broken r) expected
       (read_body max_bytes stop 0 (restart_len len start) (if restart_len len start = 0 then [] else part) (chunks r)))"
  using assms by (simp add: attempt_def Let_def after_body_def restart_len_def)

lemma attempt_unreadable:
  assumes "(if r_status r = 206 then range_start r else Inr (Some 0)) = Inl e \<or> expected_size r = Inl e"
  shows "attempt max_bytes stop url (Reply r) len part = Again Dropped 0 part
    \<or> (\<exists>e. attempt max_bytes stop url (Reply r) len part = Failed e)"
  using assms by (cases "if r_status r = 206 then range_start r else Inr (Some 0)") (auto simp: attempt_def Let_def)

lemma readable:
  obtains e where "(if r_status r = 206 then range_start r else Inr (Some 0)) = Inl e \<or> expected_size r = Inl e"
  | start expected where "(if r_status r = 206 then range_start r else Inr (Some 0)) = Inr start" "expected_size r = Inr expected"
  by (cases "if r_status r = 206 then range_start r else Inr (Some 0)"; cases "expected_size r") auto

lemma reply_start_eq:
  "(if r_status r = 206 then range_start r else Inr (Some 0)) = Inr start \<Longrightarrow> reply_start r = start"
  by (auto simp: reply_start_def split: if_splits)

text \<open>What an honest reply adds to the beginning of the file.\<close>

lemma honest_body:
  assumes "good_part F len part" "honest F (if len = 0 then None else Some len) r"
    and "(if r_status r = 206 then range_start r else Inr (Some 0)) = Inr start" "expected_size r = Inr expected"
    and "len = 0 \<or> start = Some len \<or> start = Some 0"
  shows "prefix ((if restart_len len start = 0 then [] else part) @ concat (chunks r)) F"
    "length (if restart_len len start = 0 then [] else part) = restart_len len start"
    "\<And>n. expected = Some n \<Longrightarrow> n = length F"
    "expected = None \<Longrightarrow> broken r = None \<Longrightarrow> (if restart_len len start = 0 then [] else part) @ concat (chunks r) = F"
proof -
  let ?l = "restart_len len start" and ?p = "if restart_len len start = 0 then [] else part"
  have start: "start = Some ?l" "prefix (concat (chunks r)) (drop ?l F)"
    "\<And>n. expected = Some n \<Longrightarrow> n = length F" "expected = None \<Longrightarrow> broken r = None \<Longrightarrow> concat (chunks r) = drop ?l F"
    using assms(2,5) reply_start_eq [OF assms(3)] assms(4)
    by (auto simp: honest_def restart_len_def split: option.splits if_splits)
  have p: "prefix ?p F" "length ?p = ?l" using assms(1) by (auto simp: good_part_def restart_len_def)
  then show "length ?p = ?l" by simp
  show "prefix (?p @ concat (chunks r)) F" by (rule prefix_drop_append) (use p start(2) in simp_all)
  show "\<And>n. expected = Some n \<Longrightarrow> n = length F" by (rule start(3))
  obtain v where v: "F = ?p @ v" using p(1) by (auto simp: prefix_def)
  then have "drop ?l F = v" using p(2) by (metis append_eq_conv_conj)
  with v start(4) show "expected = None \<Longrightarrow> broken r = None \<Longrightarrow> ?p @ concat (chunks r) = F" by simp
qed

text \<open>One try against a server of \<open>F\<close>: it gets the whole of \<open>F\<close>, or the beginning of it.\<close>

lemma attempt_honest:
  assumes "good_part F len part" "\<And>r. rep = Reply r \<Longrightarrow> honest F (if len = 0 then None else Some len) r"
  shows "(\<forall>b. attempt max_bytes stop url rep len part = Got b \<longrightarrow> b = F)
    \<and> (\<forall>e len' part'. attempt max_bytes stop url rep len part = Again e len' part' \<longrightarrow> good_part F len' part')"
proof (cases rep)
  case (Reply r)
  show ?thesis
  proof (rule readable [of r])
    fix e assume "(if r_status r = 206 then range_start r else Inr (Some 0)) = Inl e \<or> expected_size r = Inl e"
    from attempt_unreadable [OF this, of max_bytes stop url len part] show ?thesis by (auto simp: Reply good_part_def)
  next
    fix start expected
    assume se: "(if r_status r = 206 then range_start r else Inr (Some 0)) = Inr start" "expected_size r = Inr expected"
    show ?thesis
    proof (cases "len = 0 \<or> start = Some len \<or> start = Some 0")
      case True
      let ?l = "restart_len len start" and ?p = "if restart_len len start = 0 then [] else part"
      note h = honest_body [OF assms(1) assms(2) [OF Reply] se True]
      obtain len2 part2 x where rb: "read_body max_bytes stop 0 ?l ?p (chunks r) = (len2, part2, x)"
        by (cases "read_body max_bytes stop 0 ?l ?p (chunks r)")
      show ?thesis
      proof (cases x)
        case None
        have two: "part2 = ?p @ concat (chunks r)" "len2 = length part2"
          using read_body_ok [OF rb [unfolded None]] h(2) by simp_all
        then have "prefix part2 F" using h(1) by simp
        moreover from this two(2) have "length F \<le> len2 \<Longrightarrow> part2 = F" by (auto simp: prefix_def)
        ultimately have "after_body (broken r) expected (len2, part2, None) = Got b \<Longrightarrow> b = F"
          "after_body (broken r) expected (len2, part2, None) = Again e l q \<Longrightarrow> good_part F l q" for b e l q
          using h(3,4) two by (auto simp: after_body_def good_part_def split: option.splits if_splits)
        moreover have "good_part F 0 part" by (simp add: good_part_def)
        ultimately show ?thesis using True rb by (simp add: Reply attempt_reply [OF se] None)
      next
        case (Some e)
        with True rb show ?thesis by (auto simp: Reply attempt_reply [OF se] after_body_def)
      qed
    qed (simp add: Reply attempt_reply [OF se] good_part_def)
  qed
qed (use assms in \<open>auto simp: attempt_def\<close>)

lemma tries_honest:
  assumes "serves F server" "good_part F len part" "tries server stop max_bytes url k left len part = Inr b"
  shows "b = F"
  using assms(2,3)
proof (induction left arbitrary: k len part)
  case (Suc left)
  let ?t = "attempt max_bytes (stop k) url (server k (if len = 0 then None else Some len)) len part"
  have "honest F (if len = 0 then None else Some len) r"
    if "server k (if len = 0 then None else Some len) = Reply r" for r
    using that assms(1) unfolding serves_def by blast
  note att = attempt_honest [OF Suc.prems(1) this, where max_bytes = max_bytes and stop = "stop k" and url = url]
  show ?case
  proof (cases ?t)
    case (Got c)
    with Suc.prems(2) att show ?thesis by simp
  next
    case (Again e len' part')
    with att have "good_part F len' part'" by simp
    with Suc.IH Suc.prems(2) Again show ?thesis by (auto split: if_splits)
  qed (use Suc.prems(2) in simp)
qed simp

text \<open>The cap holds whatever the server does.\<close>

lemma attempt_cap:
  assumes "len \<le> max_bytes" "len = 0 \<or> len = length part"
  shows "(\<forall>b. attempt max_bytes stop url rep len part = Got b \<longrightarrow> length b \<le> max_bytes)
    \<and> (\<forall>e len' part'. attempt max_bytes stop url rep len part = Again e len' part' \<longrightarrow>
         len' \<le> max_bytes \<and> (len' = 0 \<or> len' = length part'))"
proof (cases rep)
  case (Reply r)
  show ?thesis
  proof (rule readable [of r])
    fix e assume "(if r_status r = 206 then range_start r else Inr (Some 0)) = Inl e \<or> expected_size r = Inl e"
    from attempt_unreadable [OF this, of max_bytes stop url len part] show ?thesis by (auto simp: Reply)
  next
    fix start expected
    assume se: "(if r_status r = 206 then range_start r else Inr (Some 0)) = Inr start" "expected_size r = Inr expected"
    let ?l = "restart_len len start" and ?p = "if restart_len len start = 0 then [] else part"
    have l: "?l \<le> max_bytes" "length ?p = ?l" using assms by (auto simp: restart_len_def)
    obtain len2 part2 x where rb: "read_body max_bytes stop 0 ?l ?p (chunks r) = (len2, part2, x)"
      by (cases "read_body max_bytes stop 0 ?l ?p (chunks r)")
    have "len2 = length part2 \<and> len2 \<le> max_bytes" if "x = None"
      using read_body_ok [OF rb [unfolded that]] read_body_cap [OF rb [unfolded that]] l by simp
    then have "after_body (broken r) expected (len2, part2, x) = Got b \<Longrightarrow> length b \<le> max_bytes"
      "after_body (broken r) expected (len2, part2, x) = Again e k q \<Longrightarrow> k \<le> max_bytes \<and> (k = 0 \<or> k = length q)" for b e k q
      by (auto simp: after_body_def split: option.splits if_splits)
    then show ?thesis by (simp add: Reply attempt_reply [OF se] rb)
  qed
qed (use assms in \<open>auto simp: attempt_def\<close>)

lemma tries_cap:
  "tries server stop max_bytes url k left len part = Inr b \<Longrightarrow> len \<le> max_bytes \<Longrightarrow> len = 0 \<or> len = length part \<Longrightarrow>
     length b \<le> max_bytes"
proof (induction left arbitrary: k len part)
  case (Suc left)
  let ?t = "attempt max_bytes (stop k) url (server k (if len = 0 then None else Some len)) len part"
  note att = attempt_cap [OF Suc.prems(2,3), where stop = "stop k" and url = url
      and rep = "server k (if len = 0 then None else Some len)"]
  show ?case
  proof (cases ?t)
    case (Got c)
    with Suc.prems(1) att show ?thesis by simp
  next
    case (Again e len' part')
    with att have "len' \<le> max_bytes" "len' = 0 \<or> len' = length part'" by simp_all
    with Suc.IH Suc.prems(1) Again show ?thesis by (auto split: if_splits)
  qed (use Suc.prems(1) in simp)
qed simp

text \<open>
  A reply that completes the download from the first byte asked for, or from the start: it ends well, and
  nothing but the size it announces could make it look incomplete.
\<close>

definition completes :: "string \<Rightarrow> nat option \<Rightarrow> resp \<Rightarrow> bool" where
  "completes F asked r \<longleftrightarrow>
     honest F asked r \<and> broken r = None \<and> (\<exists>e. expected_size r = Inr e)
     \<and> (\<exists>s. (s = 0 \<or> asked = Some s) \<and> reply_start r = Some s \<and> concat (chunks r) = drop s F)"

lemma attempt_completes:
  assumes "good_part F len part" "completes F (if len = 0 then None else Some len) r"
    and "\<And>i. \<not> stop i" "length F \<le> max_bytes"
  shows "attempt max_bytes stop url (Reply r) len part = Got F"
proof -
  obtain expected where ex: "expected_size r = Inr expected" using assms(2) by (auto simp: completes_def)
  obtain s where s: "s = 0 \<or> len = s" "reply_start r = Some s" "concat (chunks r) = drop s F"
    using assms(2) by (auto simp: completes_def split: if_splits)
  have h: "honest F (if len = 0 then None else Some len) r" "broken r = None" using assms(2) by (simp_all add: completes_def)
  have st: "(if r_status r = 206 then range_start r else Inr (Some 0)) = Inr (Some s)"
    using s(2) by (auto simp: reply_start_def split: if_splits sum.splits)
  let ?l = "restart_len len (Some s)" and ?p = "if restart_len len (Some s) = 0 then [] else part"
  have ok: "len = 0 \<or> Some s = Some len \<or> Some s = Some 0" using s(1) by auto
  note b = honest_body [OF assms(1) h(1) st ex ok]
  have "?l = s" using s(1) h(1) s(2) by (auto simp: restart_len_def honest_def split: if_splits option.splits)
  moreover obtain v where "F = ?p @ v" using b(1) by (auto simp: prefix_def)
  ultimately have whole: "?p @ concat (chunks r) = F" using s(3) b(2) by simp
  then have "?l + length (concat (chunks r)) = length F" using b(2) by (metis length_append)
  then have "read_body max_bytes stop 0 ?l ?p (chunks r) = (length F, F, None)"
    using read_body_fits [of stop ?l "chunks r" max_bytes 0 ?p] assms(3,4) whole by simp
  then show ?thesis
    using ok b(3) h(2) by (auto simp: attempt_reply [OF st ex] after_body_def split: option.splits)
qed

text \<open>A reply, or a failure to get one, that the loop survives.\<close>

definition survivable :: "reply \<Rightarrow> bool" where
  "survivable rep \<longleftrightarrow>
     (case rep of HttpError _ \<Rightarrow> False | OpenFailed _ \<Rightarrow> True
      | Reply r \<Rightarrow> (case range_start r of Inl _ \<Rightarrow> False | Inr _ \<Rightarrow> True) \<and> (case expected_size r of Inl _ \<Rightarrow> False | Inr _ \<Rightarrow> True))"

lemma attempt_survives:
  assumes "good_part F len part" "survivable rep" "\<And>r. rep = Reply r \<Longrightarrow> honest F (if len = 0 then None else Some len) r"
    and "\<And>i. \<not> stop i" "length F \<le> max_bytes"
  shows "attempt max_bytes stop url rep len part \<noteq> Failed x"
proof (cases rep)
  case (Reply r)
  obtain start expected where ex: "expected_size r = Inr expected"
    and st: "(if r_status r = 206 then range_start r else Inr (Some 0)) = Inr start"
    using assms(2) Reply readable [of r thesis] by (cases "r_status r = 206") (auto simp: survivable_def split: sum.splits)
  show ?thesis
  proof (cases "len = 0 \<or> start = Some len \<or> start = Some 0")
    case True
    let ?l = "restart_len len start" and ?p = "if restart_len len start = 0 then [] else part"
    note b = honest_body [OF assms(1) assms(3) [OF Reply] st ex True]
    have "?l + length (concat (chunks r)) \<le> length F" using prefix_length_le [OF b(1)] b(2) by simp
    then have "read_body max_bytes stop 0 ?l ?p (chunks r) = (?l + length (concat (chunks r)), ?p @ concat (chunks r), None)"
      using read_body_fits [of stop ?l "chunks r" max_bytes 0 ?p] assms(4,5) by simp
    with True show ?thesis
      by (simp only: Reply attempt_reply [OF st ex]) (auto simp: after_body_def split: option.splits)
  qed (simp add: Reply attempt_reply [OF st ex])
qed (use assms(2) in \<open>auto simp: attempt_def survivable_def\<close>)

text \<open>Up to some try the server is reachable, and that try is answered completely.\<close>

lemma tries_completes:
  assumes "serves F server" "good_part F len part" "length F \<le> max_bytes" "\<And>k i. \<not> stop k i"
    and "k \<le> j" "j < k + left" "\<And>i asked. k \<le> i \<Longrightarrow> i < j \<Longrightarrow> survivable (server i asked)"
    and "\<And>asked. \<exists>r. server j asked = Reply r \<and> completes F asked r"
  shows "tries server stop max_bytes url k left len part = Inr F"
  using assms(2,5-7)
proof (induction left arbitrary: k len part)
  case (Suc left)
  let ?asked = "if len = 0 then None else Some len"
  let ?t = "attempt max_bytes (stop k) url (server k ?asked) len part"
  have hon: "honest F ?asked r" if "server k ?asked = Reply r" for r
    using that assms(1) unfolding serves_def by blast
  show ?case
  proof (cases "k = j")
    case True
    then obtain r where "server k ?asked = Reply r" "completes F ?asked r" using assms(8) by blast
    with attempt_completes [OF Suc.prems(1) _ assms(4) assms(3)] show ?thesis by simp
  next
    case False
    with Suc.prems have "survivable (server k ?asked)" by simp
    then have no: "?t \<noteq> Failed x" for x
      by (rule attempt_survives [OF Suc.prems(1)]) (use hon assms(3,4) in auto)
    note att = attempt_honest [OF Suc.prems(1) hon, where max_bytes = max_bytes and stop = "stop k" and url = url]
    show ?thesis
    proof (cases ?t)
      case (Got b)
      with att show ?thesis by simp
    next
      case (Again e len' part')
      with att have "good_part F len' part'" by simp
      moreover have "Suc k \<le> j" "j < Suc k + left" using False Suc.prems by simp_all
      ultimately have "tries server stop max_bytes url (Suc k) left len' part' = Inr F"
        using Suc.IH Suc.prems(4) by simp
      with Again \<open>Suc k \<le> j\<close> \<open>j < Suc k + left\<close> show ?thesis by simp
    qed (use no in simp)
  qed
qed simp

section \<open>Properties\<close>

text \<open>C10. A download that succeeds stores exactly the file the server serves, however often the connection broke
  and wherever it was resumed; and whatever the server does, the stored file keeps within the size limit,
  a download that fails leaves the destination as it was, and no part file is left behind.\<close>

theorem download_is_faithful:
  assumes "download server stop max_bytes url d = (d', res)"
  shows "part_file d' = None
    \<and> (res \<noteq> None \<longrightarrow> dest d' = dest d)
    \<and> (res = None \<longrightarrow> (\<exists>b. dest d' = Some b \<and> length b \<le> max_bytes \<and> (\<forall>F. serves F server \<longrightarrow> b = F)))"
proof (cases "tries server stop max_bytes url 1 DOWNLOAD_ATTEMPTS 0 []")
  case (Inr b)
  have "length b \<le> max_bytes" using tries_cap [OF Inr] by simp
  moreover have "b = F" if "serves F server" for F
    using tries_honest [OF that _ Inr] by (simp add: good_part_def)
  ultimately show ?thesis using assms Inr by (auto simp: download_def)
qed (use assms in \<open>auto simp: download_def\<close>)

text \<open>One good answer is enough: if each of the tries before the \<open>j\<close>th fails in a way that can be retried
  and the \<open>j\<close>th of the four is answered completely (the file, or the rest of it), the download succeeds.\<close>

theorem one_good_answer_suffices:
  assumes "serves F server" "length F \<le> max_bytes" "\<And>k i. \<not> stop k i" "1 \<le> j" "j \<le> DOWNLOAD_ATTEMPTS"
    and "\<And>i asked. i < j \<Longrightarrow> survivable (server i asked)"
    and "\<And>asked. \<exists>r. server j asked = Reply r \<and> completes F asked r"
  shows "download server stop max_bytes url d = (d\<lparr>dest := Some F, part_file := None\<rparr>, None)"
proof -
  have "tries server stop max_bytes url 1 DOWNLOAD_ATTEMPTS 0 [] = Inr F"
    by (rule tries_completes [where j = j]) (use assms in \<open>auto simp: good_part_def\<close>)
  then show ?thesis by (simp add: download_def)
qed

text \<open>A server of eleven bytes that drops the first connection after five of them.\<close>

definition whole_reply :: resp where
  "whole_reply = \<lparr>r_status = 200, content_range = [], content_length = ''11'', chunks = [''hello'', '' world''], broken = None\<rparr>"

definition dropped_reply :: resp where
  "dropped_reply = whole_reply\<lparr>chunks := [''hello''], broken := Some Dropped\<rparr>"

definition rest_reply :: resp where
  "rest_reply = \<lparr>r_status = 206, content_range = ''bytes 5-10/11'', content_length = ''6'', chunks = ['' world''], broken = None\<rparr>"

definition flaky :: "nat \<Rightarrow> nat option \<Rightarrow> reply" where
  "flaky k asked = (if k < 2 then Reply dropped_reply else if asked = Some 5 then Reply rest_reply else Reply whole_reply)"

lemma flaky_replies:
  "honest ''hello world'' asked whole_reply" "honest ''hello world'' asked dropped_reply"
  "honest ''hello world'' (Some 5) rest_reply"
  "completes ''hello world'' asked whole_reply" "completes ''hello world'' (Some 5) rest_reply"
proof -
  have 1: "reply_start whole_reply = Some 0" "reply_start dropped_reply = Some 0" "reply_start rest_reply = Some 5"
    "expected_size whole_reply = Inr (Some 11)" "expected_size dropped_reply = Inr (Some 11)"
    "expected_size rest_reply = Inr (Some 11)" by code_simp+
  have 2: "concat (chunks whole_reply) = drop 0 ''hello world''" "concat (chunks dropped_reply) = ''hello''"
    "concat (chunks rest_reply) = drop 5 ''hello world''" "broken whole_reply = None" "broken rest_reply = None" by code_simp+
  have 3: "length ''hello world'' = 11" by simp
  show h: "honest ''hello world'' asked whole_reply" "honest ''hello world'' asked dropped_reply"
    "honest ''hello world'' (Some 5) rest_reply" for asked
    by (simp_all only: honest_def 1 2 3 option.case sum.case) simp_all
  show "completes ''hello world'' asked whole_reply" "completes ''hello world'' (Some 5) rest_reply"
    unfolding completes_def using h 1 2 by blast+
qed

theorem one_good_answer_suffices_witness:
  "download flaky (\<lambda>k i. False) 100 ''http://mirror/vmlinuz'' \<lparr>dest = None, part_file = None\<rparr>
     = (\<lparr>dest = Some ''hello world'', part_file = None\<rparr>, None)"
proof -
  have serves: "serves ''hello world'' flaky"
    unfolding serves_def flaky_def using flaky_replies(1-3) by (auto split: if_splits)
  have early: "survivable (Reply dropped_reply)" by code_simp
  show ?thesis
    using one_good_answer_suffices [OF serves, where j = 2 and max_bytes = 100 and stop = "\<lambda>k i. False"
        and url = "''http://mirror/vmlinuz''" and d = "\<lparr>dest = None, part_file = None\<rparr>"]
      flaky_replies(4,5) early by (simp add: flaky_def DOWNLOAD_ATTEMPTS_def)
qed

theorem download_is_faithful_witness:
  "(case download flaky (\<lambda>k i. False) 100 ''http://mirror/vmlinuz'' \<lparr>dest = Some ''old'', part_file = None\<rparr> of
     (d', res) \<Rightarrow> res = None \<and> part_file d' = None \<and> length (the (dest d')) \<le> 100)"
proof -
  let ?r = "download flaky (\<lambda>k i. False) 100 ''http://mirror/vmlinuz'' \<lparr>dest = Some ''old'', part_file = None\<rparr>"
  have "snd ?r = None" by code_simp
  then obtain d' where d': "?r = (d', None)" by (metis prod.collapse)
  from download_is_faithful [OF d'] show ?thesis unfolding d' by auto
qed

end
