(* ===== verification/Template.thy ===== *)
theory Template
  imports Url
begin

text \<open>
  Format templates: \<open>string.Formatter().parse\<close>, \<open>str.format\<close> on named fields, and \<open>_template_fields\<close> of
  \<open>services/netboot.py\<close>, which decides what an admin's template may hold before it is filled.
\<close>

section \<open>Parsing\<close>

text \<open>
  A piece is literal text, with the replacement field after it: its name, its format spec and its
  conversion.  None: ValueError.
\<close>

type_synonym field = "string \<times> string \<times> char option"
type_synonym piece = "string \<times> field option"

text \<open>A field name ends at \<open>}\<close>, \<open>:\<close> or \<open>!\<close>; what stands in brackets does not end it.\<close>

fun scan_field :: "bool \<Rightarrow> string \<Rightarrow> string \<Rightarrow> (string \<times> char \<times> string) option" where
  "scan_field inside acc [] = None"
| "scan_field True acc (c # cs) = scan_field (c \<noteq> CHR '']'') (c # acc) cs"
| "scan_field False acc (c # cs) =
     (if c = CHR ''{'' then None
      else if c = CHR ''['' then scan_field True (c # acc) cs
      else if c \<in> set ''}:!'' then Some (rev acc, c, cs)
      else scan_field False (c # acc) cs)"

fun scan_spec :: "nat \<Rightarrow> string \<Rightarrow> string \<Rightarrow> (string \<times> string) option" where
  "scan_spec n acc [] = None"
| "scan_spec n acc (c # cs) =
     (if c = CHR ''{'' then scan_spec (Suc n) (c # acc) cs
      else if c = CHR ''}'' then (if n \<le> 1 then Some (rev acc, cs) else scan_spec (n - 1) (c # acc) cs)
      else scan_spec n (c # acc) cs)"

definition parse_field :: "string \<Rightarrow> (field \<times> string) option" where
  "parse_field s =
     (case scan_field False [] s of
        None \<Rightarrow> None
      | Some (name, c, rest) \<Rightarrow>
          if c = CHR ''}'' then Some ((name, [], None), rest)
          else if c = CHR ''!'' then
            (case rest of
               conv # CHR ''}'' # rest \<Rightarrow> Some ((name, [], Some conv), rest)
             | conv # CHR '':'' # rest \<Rightarrow>
                 (case scan_spec 1 [] rest of None \<Rightarrow> None | Some (spec, rest) \<Rightarrow> Some ((name, spec, Some conv), rest))
             | _ \<Rightarrow> None)
          else (case scan_spec 1 [] rest of None \<Rightarrow> None | Some (spec, rest) \<Rightarrow> Some ((name, spec, None), rest)))"

lemma scan_field_shorter: "scan_field b acc s = Some (n, c, rest) \<Longrightarrow> length rest < length s"
  by (induction b acc s rule: scan_field.induct) (auto split: if_splits)

lemma scan_spec_shorter: "scan_spec n acc s = Some (sp, rest) \<Longrightarrow> length rest < length s"
  by (induction n acc s rule: scan_spec.induct) (auto split: if_splits)

lemma parse_field_shorter: "parse_field s = Some (f, rest) \<Longrightarrow> length rest < length s"
  by (auto simp: parse_field_def dest!: scan_field_shorter scan_spec_shorter
      split: option.splits prod.splits if_splits list.splits char.splits bool.splits)

definition is_brace :: "char \<Rightarrow> bool" where
  "is_brace c \<longleftrightarrow> c = CHR ''{'' \<or> c = CHR ''}''"

function parse_template :: "string \<Rightarrow> piece list option" where
  "parse_template s =
     (if s = [] then Some []
      else (case dropWhile (\<lambda>c. \<not> is_brace c) s of
              [] \<Rightarrow> Some [(s, None)]
            | [c] \<Rightarrow> None
            | c # d # r \<Rightarrow>
                if c = d then
                  map_option (Cons (takeWhile (\<lambda>c. \<not> is_brace c) s @ [c], None)) (parse_template r)
                else if c = CHR ''}'' then None
                else (case parse_field (d # r) of
                        None \<Rightarrow> None
                      | Some (f, rest) \<Rightarrow>
                          map_option (Cons (takeWhile (\<lambda>c. \<not> is_brace c) s, Some f)) (parse_template rest))))"
  by pat_completeness auto
termination
proof (relation "measure length", goal_cases)
  case 1
  show ?case by simp
next
  case (2 s c x d r)
  from arg_cong [OF 2(2), of length] length_dropWhile_le [of "\<lambda>c. \<not> is_brace c" s] 2(3) show ?case by simp
next
  case (3 s c x d r y f rest)
  then have "length (c # d # r) \<le> length s" by (metis length_dropWhile_le)
  moreover have "length rest < length (d # r)" using 3 parse_field_shorter by (metis prod.collapse)
  ultimately show ?case by simp
qed

declare parse_template.simps [simp del]

section \<open>Filling\<close>

text \<open>
  \<open>template.format(**args)\<close> for plain fields.  None: an exception, or a field with an attribute,
  index, spec or conversion, which no template that is filled may hold.
\<close>

fun fill_pieces :: "(string \<times> string) list \<Rightarrow> piece list \<Rightarrow> string option" where
  "fill_pieces args [] = Some []"
| "fill_pieces args ((text, None) # ps) = map_option (\<lambda>r. text @ r) (fill_pieces args ps)"
| "fill_pieces args ((text, Some (name, spec, conv)) # ps) =
     (if spec \<noteq> [] \<or> conv \<noteq> None then None
      else case map_of args name of
             None \<Rightarrow> None
           | Some v \<Rightarrow> map_option (\<lambda>r. text @ v @ r) (fill_pieces args ps))"

definition fill :: "(string \<times> string) list \<Rightarrow> string \<Rightarrow> string option" where
  "fill args template = (case parse_template template of None \<Rightarrow> None | Some ps \<Rightarrow> fill_pieces args ps)"

section \<open>Checking\<close>

definition braces_note :: string where
  "braces_note = ''Write a literal { or } as {{ or }} (an iPXE variable is ${{name}}).''"

definition show_field :: "field \<Rightarrow> string" where
  "show_field f = (case f of (name, spec, conv) \<Rightarrow>
     ''{'' @ name @ (case conv of None \<Rightarrow> [] | Some c \<Rightarrow> ''!'' @ [c]) @ (if spec = [] then [] else '':'' @ spec) @ ''}'')"

fun used_fields :: "string \<Rightarrow> string list \<Rightarrow> piece list \<Rightarrow> exn + string list" where
  "used_fields label allowed [] = Inr []"
| "used_fields label allowed ((text, None) # ps) = used_fields label allowed ps"
| "used_fields label allowed ((text, Some (name, spec, conv)) # ps) =
     (if name \<notin> set allowed \<or> spec \<noteq> [] \<or> conv \<noteq> None
      then Inl (NetbootError (label @ '' has an unknown placeholder '' @ show_field (name, spec, conv) @ ''. Placeholders: ''
             @ join '', '' (map (\<lambda>f. ''{'' @ f @ ''}'') allowed) @ ''. '' @ braces_note))
      else rbind (used_fields label allowed ps) (\<lambda>used. Inr (name # used)))"

definition template_fields :: "string \<Rightarrow> string \<Rightarrow> string list \<Rightarrow> exn + string list" where
  "template_fields value label allowed =
     (case parse_template value of
        None \<Rightarrow> Inl (NetbootError (label @ '' has an unmatched { or }. '' @ braces_note))
      | Some ps \<Rightarrow> used_fields label allowed ps)"

section \<open>Lemmas\<close>

text \<open>The names a template uses.\<close>

definition field_names :: "piece list \<Rightarrow> string list" where
  "field_names ps = concat (map (\<lambda>(_, f). case f of None \<Rightarrow> [] | Some (name, _) \<Rightarrow> [name]) ps)"

lemma used_fields_Inr:
  "used_fields label allowed ps = Inr used \<Longrightarrow> used = field_names ps \<and> set used \<subseteq> set allowed
     \<and> list_all (\<lambda>(_, f). case f of None \<Rightarrow> True | Some (_, spec, conv) \<Rightarrow> spec = [] \<and> conv = None) ps"
proof (induction label allowed ps arbitrary: used rule: used_fields.induct)
  case (3 label allowed t name spec conv ps)
  then obtain us where us: "used_fields label allowed ps = Inr us" "used = name # us"
    "name \<in> set allowed" "spec = []" "conv = None" by (auto simp: rbind_eq_Inr split: if_splits)
  with 3 have "us = field_names ps" "set us \<subseteq> set allowed"
     "list_all (\<lambda>(_, f). case f of None \<Rightarrow> True | Some (_, spec, conv) \<Rightarrow> spec = [] \<and> conv = None) ps" by blast+
  moreover have "field_names ((t, Some (name, spec, conv)) # ps) = name # field_names ps" by (simp add: field_names_def)
  ultimately show ?case using us(2-5) by simp
qed (simp_all add: field_names_def)

text \<open>A template that passes the check can be filled by any arguments for the allowed names.\<close>

lemma fill_pieces_total:
  "used_fields label allowed ps = Inr used \<Longrightarrow> set allowed \<subseteq> fst ` set args \<Longrightarrow> fill_pieces args ps \<noteq> None"
proof (induction label allowed ps arbitrary: used rule: used_fields.induct)
  case (3 label allowed t name spec conv ps)
  then have "name \<in> fst ` set args" by (auto split: if_splits)
  then obtain v where "map_of args name = Some v" by (metis map_of_eq_None_iff option.exhaust)
  with 3 show ?case by (auto simp: rbind_eq_Inr split: if_splits)
qed auto

lemma template_fields_Inr:
  assumes "template_fields value label allowed = Inr used"
  obtains ps where "parse_template value = Some ps" "used_fields label allowed ps = Inr used"
  using assms by (auto simp: template_fields_def split: option.splits)

lemma fill_total:
  assumes "template_fields value label allowed = Inr used" "set allowed \<subseteq> fst ` set args"
  shows "\<exists>s. fill args value = Some s"
proof -
  obtain ps where "parse_template value = Some ps" "used_fields label allowed ps = Inr used"
    using template_fields_Inr [OF assms(1)] .
  with fill_pieces_total [OF _ assms(2)] show ?thesis by (auto simp: fill_def)
qed

text \<open>Filling puts nothing into the text but the template's own characters and the values.\<close>

lemma fill_pieces_chars:
  "fill_pieces args ps = Some s \<Longrightarrow> c \<in> set s \<Longrightarrow> (\<exists>p \<in> set ps. c \<in> set (fst p)) \<or> (\<exists>v \<in> snd ` set args. c \<in> set v)"
proof (induction args ps arbitrary: s rule: fill_pieces.induct)
  case (3 args t name spec conv ps)
  then obtain v r where v: "map_of args name = Some v" "fill_pieces args ps = Some r" "s = t @ v @ r"
    by (auto split: if_splits option.splits)
  from v(1) have "v \<in> snd ` set args" by (force dest: map_of_SomeD)
  with 3 v show ?case by (auto split: if_splits)
qed auto

lemma scan_field_rest: "scan_field b acc s = Some (n, c, rest) \<Longrightarrow> set rest \<subseteq> set s"
  by (induction b acc s rule: scan_field.induct) (auto split: if_splits)

lemma scan_spec_rest: "scan_spec n acc s = Some (sp, rest) \<Longrightarrow> set rest \<subseteq> set s"
  by (induction n acc s rule: scan_spec.induct) (auto split: if_splits)

lemma parse_field_rest: "parse_field s = Some (f, rest) \<Longrightarrow> set rest \<subseteq> set s"
  by (fastforce simp: parse_field_def dest!: scan_field_rest scan_spec_rest
      split: option.splits prod.splits if_splits list.splits char.splits bool.splits)

lemma parse_template_chars: "parse_template s = Some ps \<Longrightarrow> p \<in> set ps \<Longrightarrow> set (fst p) \<subseteq> set s"
proof (induction s arbitrary: ps rule: parse_template.induct)
  case (1 s)
  have lit: "set (takeWhile (\<lambda>c. \<not> is_brace c) s) \<subseteq> set s" by (auto dest: set_takeWhileD)
  show ?case
  proof (cases "dropWhile (\<lambda>c. \<not> is_brace c) s")
    case Nil
    then have "parse_template s = Some (if s = [] then [] else [(s, None)])"
      using parse_template.simps [of s, unfolded Nil] by simp
    with 1(3,4) show ?thesis by (auto split: if_splits)
  next
    case (Cons c t)
    then have sub: "set (c # t) \<subseteq> set s" by (metis set_dropWhileD subsetI)
    with Cons have s: "s \<noteq> []" by auto
    show ?thesis
    proof (cases t)
      case Nil
      then have "parse_template s = None" using parse_template.simps [of s, unfolded Cons Nil] s by simp
      with 1(3) show ?thesis by simp
    next
      case t: (Cons d r)
      note eq = parse_template.simps [of s, unfolded Cons t]
      show ?thesis
      proof (cases "c = d")
        case True
        with 1(3) s eq obtain ps' where ps': "parse_template r = Some ps'"
          "ps = (takeWhile (\<lambda>c. \<not> is_brace c) s @ [c], None) # ps'" by auto
        from 1(1) [OF s Cons t True ps'(1)] 1(4) ps'(2) lit sub t show ?thesis by fastforce
      next
        case False
        with 1(3) s eq obtain f rest ps' where ps': "c \<noteq> CHR ''}''" "parse_field (d # r) = Some (f, rest)"
          "parse_template rest = Some ps'" "ps = (takeWhile (\<lambda>c. \<not> is_brace c) s, Some f) # ps'"
          by (auto split: if_splits option.splits)
        from 1(2) [OF s Cons t False ps'(1,2) refl ps'(3)] 1(4) ps'(4) lit sub t parse_field_rest [OF ps'(2)]
        show ?thesis by fastforce
      qed
    qed
  qed
qed

lemma fill_chars:
  "fill args template = Some s \<Longrightarrow> c \<in> set s \<Longrightarrow> c \<in> set template \<or> (\<exists>v \<in> snd ` set args. c \<in> set v)"
  using fill_pieces_chars parse_template_chars by (fastforce simp: fill_def split: option.splits)

end
