(* ===== verification/Json.thy ===== *)
theory Json
  imports Clock Regex
begin

text \<open>
  Values read by \<open>json.loads\<close> and what the console does with them: \<open>str\<close>, truth values, dictionary
  access; and ISO dates as \<open>datetime.date.fromisoformat\<close> reads them.
\<close>

section \<open>Values\<close>

text \<open>A float is kept as the text \<open>repr\<close> gives it.\<close>

datatype json =
    JNull | JBool bool | JInt int | JFloat string | JStr string
  | JList "json list" | JObj "(string \<times> json) list"

definition jget :: "(string \<times> json) list \<Rightarrow> string \<Rightarrow> json option" where
  "jget d k = map_of d k"

text \<open>\<open>repr\<close> of a string: quotes, backslashes and characters that do not print are escaped.\<close>

definition hex2 :: "nat \<Rightarrow> string" where
  "hex2 n = (let d = (\<lambda>k. char_of (if k < 10 then 48 + k else 87 + k)) in [d (n div 16), d (n mod 16)])"

definition repr_chr :: "char \<Rightarrow> char \<Rightarrow> string" where
  "repr_chr quote c =
     (if c = quote \<or> c = CHR 0x5C then [CHR 0x5C, c]
      else if c = NL then [CHR 0x5C, CHR ''n''] else if c = CR then [CHR 0x5C, CHR ''r'']
      else if c = CHR 0x09 then [CHR 0x5C, CHR ''t'']
      else if code c < 32 \<or> (127 \<le> code c \<and> code c \<le> 160) \<or> code c = 173
      then [CHR 0x5C, CHR ''x''] @ hex2 (code c) else [c])"

definition repr_str :: "string \<Rightarrow> string" where
  "repr_str s =
     (let quote = (if CHR 0x27 \<in> set s \<and> CHR 0x22 \<notin> set s then CHR 0x22 else CHR 0x27)
      in quote # concat (map (repr_chr quote) s) @ [quote])"

fun py_repr :: "json \<Rightarrow> string" where
  "py_repr JNull = ''None''"
| "py_repr (JBool b) = (if b then ''True'' else ''False'')"
| "py_repr (JInt i) = show_int i"
| "py_repr (JFloat t) = t"
| "py_repr (JStr s) = repr_str s"
| "py_repr (JList xs) = ''['' @ join '', '' (map py_repr xs) @ '']''"
| "py_repr (JObj kvs) = ''{'' @ join '', '' (map (\<lambda>(k, v). repr_str k @ '': '' @ py_repr v) kvs) @ ''}''"

definition py_str :: "json \<Rightarrow> string" where
  "py_str j = (case j of JStr s \<Rightarrow> s | _ \<Rightarrow> py_repr j)"

text \<open>\<open>bool(j)\<close>, and \<open>j in (None, False, True)\<close>, to which the numbers zero and one belong.\<close>

definition zero_text :: "string \<Rightarrow> bool" where
  "zero_text t \<longleftrightarrow> t \<in> {''0.0'', ''-0.0''}"

definition truthy :: "json \<Rightarrow> bool" where
  "truthy j = (case j of JNull \<Rightarrow> False | JBool b \<Rightarrow> b | JInt i \<Rightarrow> i \<noteq> 0 | JFloat t \<Rightarrow> \<not> zero_text t
     | JStr s \<Rightarrow> s \<noteq> [] | JList xs \<Rightarrow> xs \<noteq> [] | JObj kvs \<Rightarrow> kvs \<noteq> [])"

definition none_or_bool :: "json \<Rightarrow> bool" where
  "none_or_bool j = (case j of JNull \<Rightarrow> True | JBool b \<Rightarrow> True | JInt i \<Rightarrow> i = 0 \<or> i = 1
     | JFloat t \<Rightarrow> zero_text t \<or> t = ''1.0'' | _ \<Rightarrow> False)"

section \<open>Dates\<close>

text \<open>
  \<open>date.fromisoformat\<close>, as a number of days from 0001-01-01: \<open>YYYY-MM-DD\<close>, \<open>YYYYMMDD\<close>, and the week forms
  \<open>YYYY-Www\<close>, \<open>YYYY-Www-D\<close>, \<open>YYYYWww\<close>, \<open>YYYYWwwD\<close> (after which the parser reads no further).
\<close>

definition month_day :: "nat \<Rightarrow> nat \<Rightarrow> nat \<Rightarrow> nat option" where
  "month_day y mo d =
     (if y = 0 \<or> mo = 0 \<or> 12 < mo \<or> d = 0 \<or> month_lengths y ! (mo - 1) < d then None
      else Some (days_before_year y + sum_list (take (mo - 1) (month_lengths y)) + (d - 1)))"

definition first_weekday :: "nat \<Rightarrow> nat" where
  "first_weekday y = days_before_year y mod 7"

definition week_day :: "nat \<Rightarrow> nat \<Rightarrow> nat \<Rightarrow> nat option" where
  "week_day y w d =
     (let long = (first_weekday y = 3 \<or> (first_weekday y = 2 \<and> leap y));
          monday = (if first_weekday y \<le> 3 then int (days_before_year y) - int (first_weekday y)
                    else int (days_before_year y) + 7 - int (first_weekday y));
          n = monday + int (7 * (w - 1) + (d - 1))
      in if y = 0 \<or> w = 0 \<or> 53 < w \<or> (w = 53 \<and> \<not> long) \<or> d = 0 \<or> 7 < d \<or> n < 0 \<or> int (days_before_year 10000) \<le> n
         then None else Some (nat n))"

definition iso_date :: "string \<Rightarrow> nat option" where
  "iso_date s =
     (if length s \<notin> {7, 8, 10} then None
      else case digits_at 0 4 s of
        None \<Rightarrow> None
      | Some y \<Rightarrow>
          (let sep = (s ! 4 = CHR ''-''); p = (if sep then 5 else 4)
           in if s ! p = CHR ''W'' then
                (case digits_at (p + 1) 2 s of
                   None \<Rightarrow> None
                 | Some w \<Rightarrow>
                     if length s \<le> p + 3 then week_day y w 1
                     else if sep \<and> s ! (p + 3) \<noteq> CHR ''-'' then None
                     else (case digits_at (if sep then p + 4 else p + 3) 1 s of
                             None \<Rightarrow> None | Some d \<Rightarrow> week_day y w d))
              else (case digits_at p 2 s of
                      None \<Rightarrow> None
                    | Some mo \<Rightarrow>
                        if length s \<noteq> (if sep then 10 else 8) \<or> (sep \<and> s ! 7 \<noteq> CHR ''-'') then None
                        else (case digits_at (if sep then 8 else 6) 2 s of
                                None \<Rightarrow> None | Some d \<Rightarrow> month_day y mo d))))"

end
