(* ===== verification/Entries.thy ===== *)
theory Entries
  imports Template Json Names Models
begin

text \<open>
  Custom catalog entries (\<open>services/netboot.py\<close>, "Custom entries"): the check of an entry an admin types or
  imports, the texts of its releases, and the rows that keep the entries.
\<close>

section \<open>The shape of an entry\<close>

record release =
  rel_id :: string
  rel_label :: string
  rel_number :: "string option"
  rel_eol :: "string option"
  rel_default :: bool
  rel_prerelease :: bool

text \<open>The boot files: an archive with its two members, or a kernel and an initrd of their own.\<close>

datatype boot_files = Archive string string string | Files string string

record entry =
  e_id :: string
  e_name :: string
  e_mirror :: string
  e_files :: boot_files
  e_args :: string
  e_releases :: "release list"

definition URL_FIELDS :: "string list" where "URL_FIELDS = [''mirror'', ''version'']"

definition ARGS_FIELDS :: "string list" where
  "ARGS_FIELDS = [''mirror'', ''version'', ''mirror_proto'', ''mirror_host'', ''mirror_path'']"

definition ENTRY_FIELDS :: "(string \<times> string) list" where
  "ENTRY_FIELDS = [(''id'', ''ID''), (''name'', ''Name''), (''default_mirror'', ''Default mirror''),
     (''archive_url'', ''Archive URL''), (''kernel_member'', ''Kernel in the archive''),
     (''initrd_member'', ''Initrd in the archive''), (''kernel_url'', ''Kernel URL''),
     (''initrd_url'', ''Initrd URL''), (''boot_args'', ''Kernel arguments''), (''releases'', ''Releases'')]"

definition RELEASE_FIELDS :: "string list" where
  "RELEASE_FIELDS = [''id'', ''label'', ''number'', ''default'', ''eol'', ''prerelease'']"

definition ID_RE :: rx where
  "ID_RE = (let a = (\<lambda>c. is_lower c \<or> is_digit c) in Seq (Cls a) (upto_n 31 (Cls (\<lambda>c. a c \<or> c = CHR ''-''))))"

definition MEMBER_RE :: rx where
  "MEMBER_RE = (let part = plus1 (Cls (\<lambda>c. is_alnum c \<or> c \<in> set ''._+-'')) in Seq part (Star (Seq (lit ''/'') part)))"

definition NUMBER_RE :: rx where
  "NUMBER_RE = Seq digit_rx (upto_n 15 (Cls (\<lambda>c. is_digit c \<or> c = CHR ''.'')))"

definition MAX_CUSTOM_ENTRIES :: nat where "MAX_CUSTOM_ENTRIES = 100"
definition MAX_RELEASES :: nat where "MAX_RELEASES = 50"
definition IMPORT_MAX_BYTES :: nat where "IMPORT_MAX_BYTES = 256 * 1024"

definition entry_label :: "string \<Rightarrow> string" where
  "entry_label key = (case map_of ENTRY_FIELDS key of Some l \<Rightarrow> l | None \<Rightarrow> [])"

text \<open>The id of an entry made from its name.\<close>

definition entry_id_for :: "string \<Rightarrow> string" where
  "entry_id_for name =
     (let s = strip_chars ''-'' (sub_runs (\<lambda>c. \<not> (is_lower c \<or> is_digit c)) ''-'' (lower name));
          t = strip_chars ''-'' (take 32 s)
      in if t = [] then ''custom'' else t)"

section \<open>Checking\<close>

abbreviation err :: "string \<Rightarrow> exn + 'a" where
  "err msg \<equiv> Inl (NetbootError msg)"

definition entry_text :: "(string \<times> json) list \<Rightarrow> string \<Rightarrow> nat \<Rightarrow> bool \<Rightarrow> exn + string" where
  "entry_text raw key limit required =
     (let label = entry_label key
      in case (case jget raw key of None \<Rightarrow> JStr [] | Some JNull \<Rightarrow> JStr [] | Some v \<Rightarrow> v) of
           JStr value \<Rightarrow>
             (let value = strip value
              in if re_search (Cls is_control) value \<noteq> None then err (label @ '' must be on one line.'')
                 else if limit < length value
                 then err (label @ '' is longer than '' @ show_nat limit @ '' characters.'')
                 else if required \<and> value = [] then err (label @ '' is required.'') else Inr value)
         | _ \<Rightarrow> err (label @ '' must be text.''))"

text \<open>The parts of one release; \<open>rp\<close> names it in messages.\<close>

definition quoted :: "string \<Rightarrow> string" where
  "quoted s = [CHR 0x27] @ s @ [CHR 0x27]"

definition release_id_of :: "json \<Rightarrow> exn + string" where
  "release_id_of jid =
     (case validate_release (py_str jid) of
        Inr rid \<Rightarrow> Inr rid
      | Inl (NetbootError e) \<Rightarrow> err (''Release '' @ quoted (py_str jid) @ '': '' @ e)
      | Inl e \<Rightarrow> Inl e)"

definition release_label_of :: "string \<Rightarrow> string \<Rightarrow> json \<Rightarrow> exn + string" where
  "release_label_of rp auto jlabel =
     (case (if truthy jlabel then jlabel else JStr auto) of
        JStr l \<Rightarrow>
          if 128 < length l \<or> re_search (Cls is_control) l \<noteq> None
          then err (rp @ '': the label must be one line of text, at most 128 characters.'') else Inr (strip l)
      | _ \<Rightarrow> err (rp @ '': the label must be one line of text, at most 128 characters.''))"

definition release_number_of :: "string \<Rightarrow> json \<Rightarrow> exn + string option" where
  "release_number_of rp number =
     (if number = JNull \<or> number = JStr [] then Inr None
      else if re_fullmatch NUMBER_RE (py_str number) = None
      then err (rp @ '': number must be a version number such as 44 or 3.21.'')
      else Inr (Some (py_str number)))"

definition release_eol_of :: "string \<Rightarrow> json \<Rightarrow> exn + string option" where
  "release_eol_of rp eol =
     (if eol = JNull \<or> eol = JStr [] then Inr None
      else if iso_date (py_str eol) = None then err (rp @ '': eol must be a date such as 2030-06-30.'')
      else Inr (Some (py_str eol)))"

definition release_flag_of :: "string \<Rightarrow> string \<Rightarrow> json \<Rightarrow> exn + bool" where
  "release_flag_of rp key j =
     (if none_or_bool j then Inr (truthy j) else err (rp @ '': '' @ key @ '' must be true or false.''))"

text \<open>One release; \<open>seen\<close>: the ids before it, in lower case.\<close>

definition entry_release :: "string \<Rightarrow> string list \<Rightarrow> json \<Rightarrow> exn + release" where
  "entry_release name seen item =
     (case (case item of JStr s \<Rightarrow> JObj [(''id'', JStr s)] | j \<Rightarrow> j) of
        JObj d \<Rightarrow>
          (let unknown = sort_by str_le (remdups (filter (\<lambda>k. k \<notin> set RELEASE_FIELDS) (map fst d)));
               jfield = (\<lambda>k. case jget d k of None \<Rightarrow> JNull | Some v \<Rightarrow> v);
               jid = (case jget d ''id'' of None \<Rightarrow> JStr [] | Some v \<Rightarrow> v)
           in rbind (raise_if (unknown \<noteq> []) (NetbootError (''Releases: unsupported field '' @ join '', '' unknown
                 @ '' (a release takes '' @ join '', '' (sort_by str_le RELEASE_FIELDS) @ '').''))) (\<lambda>_.
              rbind (release_id_of jid) (\<lambda>rid.
              let rp = ''Release '' @ quoted rid
              in rbind (raise_if (lower rid \<in> set seen) (NetbootError (rp @ '' is listed twice.''))) (\<lambda>_.
                 rbind (release_label_of rp (name @ '' '' @ rid) (jfield ''label'')) (\<lambda>label.
                 rbind (release_number_of rp (jfield ''number'')) (\<lambda>number.
                 rbind (release_eol_of rp (jfield ''eol'')) (\<lambda>eol.
                 rbind (release_flag_of rp ''default'' (jfield ''default'')) (\<lambda>dflt.
                 rbind (release_flag_of rp ''prerelease'' (jfield ''prerelease'')) (\<lambda>pre.
                   Inr \<lparr>rel_id = rid, rel_label = label, rel_number = number, rel_eol = eol,
                        rel_default = dflt, rel_prerelease = pre\<rparr>)))))))))
      | _ \<Rightarrow> err (''Releases: each release is a name or an object with an '' @ [CHR 0x22] @ ''id'' @ [CHR 0x22] @ ''.''))"

fun entry_release_list :: "string \<Rightarrow> string list \<Rightarrow> json list \<Rightarrow> exn + release list" where
  "entry_release_list name seen [] = Inr []"
| "entry_release_list name seen (item # items) =
     rbind (entry_release name seen item) (\<lambda>r.
     rbind (entry_release_list name (lower (rel_id r) # seen) items) (\<lambda>rs. Inr (r # rs)))"

text \<open>Without a default the first release is it.\<close>

fun default_first :: "release list \<Rightarrow> release list" where
  "default_first [] = []"
| "default_first (r # rs) = r\<lparr>rel_default := True\<rparr> # rs"

definition entry_releases :: "json option \<Rightarrow> string \<Rightarrow> exn + release list" where
  "entry_releases value name =
     (case value of
        Some (JList items) \<Rightarrow>
          if items = [] then err ''Releases: list at least one release.''
          else if MAX_RELEASES < length items
          then err (''Releases: at most '' @ show_nat MAX_RELEASES @ '' per entry.'')
          else rbind (entry_release_list name [] items) (\<lambda>out.
            let defaults = filter rel_default out
            in if 1 < length defaults then err ''Releases: only one release can be the default.''
               else if defaults = [] then Inr (default_first out) else Inr out)
      | _ \<Rightarrow> err ''Releases: list at least one release.'')"

section \<open>What an entry gives\<close>

text \<open>Python raises KeyError or ValueError where a template cannot be filled.\<close>

definition filled :: "(string \<times> string) list \<Rightarrow> string \<Rightarrow> exn + string" where
  "filled args template = (case fill args template of None \<Rightarrow> Inl Crash | Some s \<Rightarrow> Inr s)"

definition url_args :: "string \<Rightarrow> string \<Rightarrow> (string \<times> string) list" where
  "url_args mirror rid = [(''mirror'', mirror), (''version'', rid)]"

definition boot_file_urls :: "entry \<Rightarrow> string \<Rightarrow> string \<Rightarrow> exn + (string \<times> string) list" where
  "boot_file_urls e mirror rid =
     (case e_files e of
        Files k i \<Rightarrow> rbind (filled (url_args mirror rid) k) (\<lambda>k.
          rbind (filled (url_args mirror rid) i) (\<lambda>i. Inr [(''Kernel'', k), (''Initrd'', i)]))
      | Archive a _ _ \<Rightarrow> rbind (filled (url_args mirror rid) a) (\<lambda>a. Inr [(''Archive'', a)]))"

text \<open>\<open>boot_args\<close>, for an entry whose releases have no arguments of their own, as a custom entry's do not.\<close>

definition entry_boot_args :: "entry \<Rightarrow> string \<Rightarrow> string \<Rightarrow> nat \<Rightarrow> exn + string" where
  "entry_boot_args e mirror rid image_id =
     (case urlparse mirror of
        None \<Rightarrow> Inl Crash
      | Some parsed \<Rightarrow>
          filled [(''mirror'', mirror), (''version'', rid), (''mirror_proto'', scheme parsed),
                  (''mirror_host'', netloc parsed),
                  (''mirror_path'', if url_path parsed = [] then ''/'' else url_path parsed),
                  (''image_id'', show_nat image_id)] (e_args e))"

section \<open>validate\_entry\<close>

definition split_dotdot :: "string \<Rightarrow> bool" where
  "split_dotdot member \<longleftrightarrow> ''..'' \<in> set (split_on CHR ''/'' member)"

definition entry_member :: "(string \<times> json) list \<Rightarrow> string \<Rightarrow> exn + string" where
  "entry_member raw key =
     rbind (entry_text raw key 255 True) (\<lambda>t.
       let member = removeprefix ''./'' t
       in if re_fullmatch MEMBER_RE member = None \<or> split_dotdot member
          then err (entry_label key @ '' must be a path inside the archive, such as debian-installer/amd64/linux.'')
          else Inr member)"

text \<open>The two ways to name the boot files, with the templates that give URLs and their labels.\<close>

definition entry_files :: "(string \<times> json) list \<Rightarrow> exn + boot_files \<times> (string \<times> string) list" where
  "entry_files raw =
     rbind (entry_text raw ''archive_url'' 512 False) (\<lambda>archive.
     rbind (entry_text raw ''kernel_url'' 512 False) (\<lambda>kernel_url.
     rbind (entry_text raw ''initrd_url'' 512 False) (\<lambda>initrd_url.
       if archive \<noteq> [] \<and> (kernel_url \<noteq> [] \<or> initrd_url \<noteq> [])
       then err ''Give either an archive URL, or a kernel URL and an initrd URL, not both.''
       else if archive \<noteq> [] then
         rbind (entry_member raw ''kernel_member'') (\<lambda>k. rbind (entry_member raw ''initrd_member'') (\<lambda>i.
           Inr (Archive archive k i, [(''archive_url'', archive)])))
       else if kernel_url \<noteq> [] \<and> initrd_url \<noteq> [] then
         Inr (Files kernel_url initrd_url, [(''kernel_url'', kernel_url), (''initrd_url'', initrd_url)])
       else err ''Give an archive URL, or both a kernel URL and an initrd URL.'')))"

fun check_url_templates :: "release list \<Rightarrow> (string \<times> string) list \<Rightarrow> exn + unit" where
  "check_url_templates rels [] = Inr ()"
| "check_url_templates rels ((key, t) # ts) =
     rbind (template_fields t (entry_label key) URL_FIELDS) (\<lambda>used.
       if 1 < length rels \<and> ''version'' \<notin> set used
       then err (entry_label key @ '' has no {version}, so every release would boot the same files. Add {version} ''
                 @ ''where the release goes, or list one release.'')
       else check_url_templates rels ts)"

fun check_urls :: "string \<Rightarrow> string \<Rightarrow> (string \<times> string) list \<Rightarrow> exn + unit" where
  "check_urls mirror rid [] = Inr ()"
| "check_urls mirror rid ((key, t) # ts) =
     rbind (case rbind (filled (url_args mirror rid) t) validate_source_url of
              Inr _ \<Rightarrow> Inr ()
            | Inl (NetbootError _) \<Rightarrow> err (entry_label key @ '' does not give an http:// or https:// URL for release '' @ rid @ ''.'')
            | Inl e \<Rightarrow> Inl e) (\<lambda>_. check_urls mirror rid ts)"

fun check_releases :: "entry \<Rightarrow> (string \<times> string) list \<Rightarrow> release list \<Rightarrow> exn + unit" where
  "check_releases e ts [] = Inr ()"
| "check_releases e ts (r # rs) =
     rbind (check_urls (e_mirror e) (rel_id r) ts) (\<lambda>_.
     rbind (entry_boot_args e (e_mirror e) (rel_id r) 0) (\<lambda>args.
       if 2048 < length args then err ''Kernel arguments are longer than 2048 characters once filled in.''
       else check_releases e ts rs))"

definition entry_mirror :: "(string \<times> json) list \<Rightarrow> exn + string" where
  "entry_mirror raw =
     (case rbind (entry_text raw ''default_mirror'' 255 True) validate_mirror of
        Inl (NetbootError e) \<Rightarrow> err (''Default mirror: '' @ e) | x \<Rightarrow> x)"

definition validate_entry :: "json \<Rightarrow> exn + entry" where
  "validate_entry j =
     (case j of
        JObj raw \<Rightarrow>
          (let unknown = sort_by str_le (remdups (filter (\<lambda>k. k \<notin> fst ` set ENTRY_FIELDS) (map fst raw)))
           in rbind (raise_if (unknown \<noteq> []) (NetbootError (''Unsupported field '' @ join '', '' unknown
                @ ''. Custom entries are installers and take: '' @ join '', '' (map fst ENTRY_FIELDS) @ ''.''))) (\<lambda>_.
              rbind (entry_text raw ''name'' 64 True) (\<lambda>name.
              rbind (entry_text raw ''id'' 32 False) (\<lambda>given.
              let eid = (if lower given = [] then entry_id_for name else lower given)
              in rbind (raise_if (re_fullmatch ID_RE eid = None) (NetbootError
                   ''ID may only contain lowercase letters, digits and '-' (for example: fedora).'')) (\<lambda>_.
                 rbind (entry_mirror raw) (\<lambda>mirror.
                 rbind (entry_files raw) (\<lambda>(files, urls).
                 rbind (entry_text raw ''boot_args'' 1024 False) (\<lambda>args.
                 rbind (entry_releases (jget raw ''releases'') name) (\<lambda>rels.
                 let e = \<lparr>e_id = eid, e_name = name, e_mirror = mirror, e_files = files, e_args = args, e_releases = rels\<rparr>
                 in rbind (template_fields args (entry_label ''boot_args'') ARGS_FIELDS) (\<lambda>_.
                    rbind (check_url_templates rels urls) (\<lambda>_.
                    rbind (check_releases e urls rels) (\<lambda>_. Inr e))))))))))))
      | _ \<Rightarrow> err ''An entry must be a JSON object.'')"

section \<open>Releases as text\<close>

text \<open>\<open>parse_releases\<close>: one release a line, the first being the default.\<close>

definition parse_release_line :: "string \<Rightarrow> json option" where
  "parse_release_line line =
     (case partition_at CHR ''|'' line of
        (rid, _, label) \<Rightarrow>
          if strip rid = [] then None
          else if strip label = [] then Some (JObj [(''id'', JStr (strip rid))])
          else Some (JObj [(''id'', JStr (strip rid)), (''label'', JStr (strip label))]))"

definition parse_releases :: "string \<Rightarrow> json list" where
  "parse_releases t = List.map_filter parse_release_line (splitlines t)"

definition release_line :: "string \<Rightarrow> release \<Rightarrow> string" where
  "release_line name r =
     (if rel_label r = name @ '' '' @ rel_id r then rel_id r else rel_id r @ '' | '' @ rel_label r)"

text \<open>\<open>sorted\<close> on a flag: the default first, the others in their order.\<close>

definition release_lines :: "entry \<Rightarrow> string" where
  "release_lines e =
     join [NL] (map (release_line (e_name e)) (filter rel_default (e_releases e) @ filter (\<lambda>r. \<not> rel_default r) (e_releases e)))"

text \<open>
  The form has no box for a release's number, end of life and pre-release mark: an edited entry keeps them
  for the releases it still lists.
\<close>

definition kept_fields :: "release \<Rightarrow> (string \<times> json) list" where
  "kept_fields r =
     (case rel_number r of None \<Rightarrow> [] | Some n \<Rightarrow> [(''number'', JStr n)])
     @ (case rel_eol r of None \<Rightarrow> [] | Some d \<Rightarrow> [(''eol'', JStr d)])
     @ (if rel_prerelease r then [(''prerelease'', JBool True)] else [])"

definition form_release :: "release list \<Rightarrow> json \<Rightarrow> json" where
  "form_release old j =
     (case j of
        JObj d \<Rightarrow> (case jget d ''id'' of
            Some (JStr i) \<Rightarrow> (case find (\<lambda>r. rel_id r = i) old of None \<Rightarrow> j | Some r \<Rightarrow> JObj (d @ kept_fields r))
          | _ \<Rightarrow> j)
      | _ \<Rightarrow> j)"

section \<open>The stored entries\<close>

text \<open>
  The table \<open>CatalogEntry\<close>: the rows in the order of their ids, each with the entry it holds (None when its
  text is not JSON or not an object).  \<open>json.dumps\<close> and \<open>json.loads\<close> are inverse on entries.
\<close>

type_synonym entry_table = "(string \<times> entry option) list"

definition custom_entries :: "entry_table \<Rightarrow> entry list" where
  "custom_entries db = sort_by (\<lambda>a b. str_le (lower (e_name a)) (lower (e_name b))) (List.map_filter snd db)"

definition custom_entry :: "entry_table \<Rightarrow> string \<Rightarrow> entry option" where
  "custom_entry db eid = (case map_of db eid of None \<Rightarrow> None | Some row \<Rightarrow> row)"

definition store_entry :: "entry \<Rightarrow> entry_table \<Rightarrow> entry_table" where
  "store_entry e db =
     (if e_id e \<in> fst ` set db then map (\<lambda>row. if fst row = e_id e then (e_id e, Some e) else row) db
      else insert_by (\<lambda>a b. str_le (fst a) (fst b)) (e_id e, Some e) db)"

definition delete_entry :: "string \<Rightarrow> entry_table \<Rightarrow> entry_table \<times> bool" where
  "delete_entry eid db =
     (if eid \<in> fst ` set db then (filter (\<lambda>row. fst row \<noteq> eid) db, True) else (db, False))"

section \<open>Import\<close>

definition import_label :: "nat \<Rightarrow> json \<Rightarrow> string" where
  "import_label n raw =
     (case raw of
        JObj d \<Rightarrow> (case jget d ''name'' of
            Some (JStr s) \<Rightarrow> if strip s = [] then ''Entry '' @ show_nat n else strip s
          | _ \<Rightarrow> ''Entry '' @ show_nat n)
      | _ \<Rightarrow> ''Entry '' @ show_nat n)"

text \<open>The loop: the good entries and the problems, or an exception that is not a NetbootError.\<close>

fun import_items :: "nat \<Rightarrow> json list \<Rightarrow> exn + entry list \<times> string list" where
  "import_items n [] = Inr ([], [])"
| "import_items n (raw # items) =
     (case validate_entry raw of
        Inr e \<Rightarrow> rbind (import_items (Suc n) items) (\<lambda>(es, ps). Inr (e # es, ps))
      | Inl (NetbootError msg) \<Rightarrow>
          rbind (import_items (Suc n) items) (\<lambda>(es, ps). Inr (es, (import_label n raw @ '': '' @ msg) # ps))
      | Inl e \<Rightarrow> Inl e)"

text \<open>\<open>parsed\<close>: what \<open>json.loads\<close> makes of the text, or why it fails.\<close>

definition parse_import :: "string + json \<Rightarrow> exn + entry list" where
  "parse_import parsed =
     (case parsed of
        Inl why \<Rightarrow> err (''The file is not valid JSON ('' @ why @ '').'')
      | Inr data \<Rightarrow>
          (let items = (case data of
               JObj d \<Rightarrow> (case jget d ''distros'' of Some v \<Rightarrow> v | None \<Rightarrow> JList [data])
             | _ \<Rightarrow> data)
           in case items of
                JList items \<Rightarrow>
                  if items = [] then err (''The file holds no entries. It should be an entry, a list of ''
                       @ ''entries, or {'' @ [CHR 0x22] @ ''distros'' @ [CHR 0x22] @ '': [...]} as in the built-in catalog.'')
                  else if MAX_CUSTOM_ENTRIES < length items
                  then err (''The file holds more than '' @ show_nat MAX_CUSTOM_ENTRIES @ '' entries.'')
                  else rbind (import_items 1 items) (\<lambda>(es, problems).
                    let ids = map e_id es;
                        problems = problems @ map (\<lambda>i. ''ID '' @ i @ '' is used by more than one entry in the file.'')
                          (sort_by str_le (remdups (filter (\<lambda>i. 1 < length (filter (\<lambda>j. j = i) ids)) ids)))
                    in if problems \<noteq> [] then err (''Nothing was imported. '' @ join '' '' problems) else Inr es)
              | _ \<Rightarrow> err (''The file holds no entries. It should be an entry, a list of ''
                       @ ''entries, or {'' @ [CHR 0x22] @ ''distros'' @ [CHR 0x22] @ '': [...]} as in the built-in catalog.'')))"

text \<open>The request: nothing is stored unless every entry is good, none has a built-in id, and all fit.\<close>

definition import_entries :: "string list \<Rightarrow> bool \<Rightarrow> string + json \<Rightarrow> entry_table \<Rightarrow> entry_table \<times> (exn + entry list)" where
  "import_entries builtin saving parsed db =
     (case parse_import parsed of
        Inl e \<Rightarrow> (db, Inl e)
      | Inr es \<Rightarrow>
          (let clash = filter (\<lambda>i. i \<in> set builtin) (map e_id es);
               existing = map e_id (custom_entries db);
               added = filter (\<lambda>e. e_id e \<notin> set existing) es
           in if clash \<noteq> [] then (db, err (''Nothing was imported. The ID '' @ join '', '' clash
                     @ '' belongs to a built-in entry; give the entry another '' @ [CHR 0x22] @ ''id'' @ [CHR 0x22] @ ''.''))
              else if MAX_CUSTOM_ENTRIES < length (remdups existing) + length added
              then (db, err (''Nothing was imported: it would make more than '' @ show_nat MAX_CUSTOM_ENTRIES @ '' custom entries.''))
              else if saving then (foldl (\<lambda>db e. store_entry e db) db es, Inr es) else (db, Inr es)))"

end
