(* ===== verification/EntryProps.thy ===== *)
theory EntryProps
  imports Entries
begin

text \<open>
  What the check of a custom entry guarantees: everything the entry is used for later works, for every release
  it lists; its release texts can be edited and read back; and an import stores all of a file or nothing.
\<close>

section \<open>The parts of an entry\<close>

definition one_line :: "string \<Rightarrow> bool" where
  "one_line s \<longleftrightarrow> list_all (\<lambda>c. \<not> is_control c) s"

lemma one_lineD: "one_line s \<Longrightarrow> c \<in> set s \<Longrightarrow> \<not> is_control c"
  by (simp add: one_line_def list_all_iff)

lemma entry_text_Inr:
  assumes "entry_text raw key limit required = Inr v"
  shows "one_line v" "strip v = v" "length v \<le> limit" "required \<Longrightarrow> v \<noteq> []"
  using assms by (auto simp: entry_text_def Let_def one_line_def search_cls split: json.splits option.splits if_splits)

lemma validate_mirror_Inr:
  assumes "validate_mirror s = Inr v"
  obtains p where "urlparse v = Some p" "scheme p \<in> {''http'', ''https''}" "netloc p \<noteq> []" "set v \<subseteq> set s"
proof -
  have "set (rstrip_chars ''/'' (strip s)) \<subseteq> set s"
    using strip_subset by (fastforce simp: rstrip_chars_def dest: set_dropWhileD)
  with assms that show thesis by (auto simp: validate_mirror_def Let_def split: option.splits if_splits)
qed

lemma entry_mirror_Inr:
  assumes "entry_mirror raw = Inr v"
  obtains p where "urlparse v = Some p" "scheme p \<in> {''http'', ''https''}" "one_line v"
proof -
  obtain t where t: "entry_text raw ''default_mirror'' 255 True = Inr t" "validate_mirror t = Inr v"
    using assms by (auto simp: entry_mirror_def rbind_eq_Inr split: sum.splits exn.splits)
  obtain p where p: "urlparse v = Some p" "scheme p \<in> {''http'', ''https''}" "set v \<subseteq> set t"
    using validate_mirror_Inr [OF t(2)] by metis
  with entry_text_Inr(1) [OF t(1)] have "one_line v" by (auto simp: one_line_def list_all_iff)
  with p that show thesis by blast
qed

text \<open>The host and the path of a URL are parts of it.\<close>

lemma partition_at_chars: "partition_at c s = (a, f, b) \<Longrightarrow> set a \<subseteq> set s \<and> set b \<subseteq> set s"
  by (auto simp: partition_at_def dest!: set_takeWhileD list.set_sel(2)[rotated] split: if_splits)
    (metis list.set_sel(2) list.sel(2) set_dropWhileD)+

lemma rpartition_at_chars: "rpartition_at c s = (a, f, b) \<Longrightarrow> set a \<subseteq> set s \<and> set b \<subseteq> set s"
  by (auto simp: rpartition_at_def dest!: set_takeWhileD split: if_splits)
    (metis list.set_sel(2) list.sel(2) set_dropWhileD set_rev)+

lemma split_scheme_chars: "split_scheme s = (a, b) \<Longrightarrow> set b \<subseteq> set s"
  using partition_at_chars by (fastforce simp: split_scheme_def split: prod.splits if_splits)

lemma split_params_chars: "split_params s = (a, b) \<Longrightarrow> set a \<subseteq> insert CHR ''/'' (set s)"
  using partition_at_chars rpartition_at_chars
  by (fastforce simp: split_params_def Let_def split: prod.splits if_splits)

lemma urlparse_chars:
  assumes "urlparse s = Some p"
  shows "set (netloc p) \<subseteq> set s" "set (url_path p) \<subseteq> insert CHR ''/'' (set s)"
proof -
  define u where "u = filter (\<lambda>c. c \<notin> {CHR 0x09, CR, NL}) (dropWhile (\<lambda>c. code c \<le> 32) s)"
  obtain sch v where v: "split_scheme u = (sch, v)" by (cases "split_scheme u")
  define nl where "nl = (if prefix ''//'' v then takeWhile (\<lambda>c. c \<notin> set ''/?#'') (drop 2 v) else [])"
  define w where "w = (if prefix ''//'' v then dropWhile (\<lambda>c. c \<notin> set ''/?#'') (drop 2 v) else v)"
  obtain x f frag where x: "partition_at CHR ''#'' w = (x, f, frag)" by (cases "partition_at CHR ''#'' w")
  obtain y g q where y: "partition_at CHR ''?'' x = (y, g, q)" by (cases "partition_at CHR ''?'' x")
  have "set u \<subseteq> set s" by (auto simp: u_def dest: set_dropWhileD)
  then have sv: "set v \<subseteq> set s" using split_scheme_chars [OF v] by blast
  then have "set nl \<subseteq> set s" "set w \<subseteq> set s"
    by (auto simp: nl_def w_def dest!: set_takeWhileD set_dropWhileD in_set_dropD)
  moreover have "set y \<subseteq> set w" using partition_at_chars [OF x] partition_at_chars [OF y] by blast
  moreover have "netloc p = nl" "url_path p = (if sch \<in> set uses_params then fst (split_params y) else y)"
    using assms x y unfolding urlparse_def Let_def u_def [symmetric] v prod.case nl_def [symmetric] w_def [symmetric]
    by (auto split: if_splits prod.splits)
  ultimately show "set (netloc p) \<subseteq> set s" "set (url_path p) \<subseteq> insert CHR ''/'' (set s)"
    using split_params_chars [of y] by (auto split: if_splits, (metis insertE prod.collapse subsetD)+)
qed

text \<open>Filling depends on the allowed names only.\<close>

lemma fill_pieces_cong:
  "used_fields label allowed ps = Inr used \<Longrightarrow> (\<And>k. k \<in> set allowed \<Longrightarrow> map_of args k = map_of args' k) \<Longrightarrow>
     fill_pieces args ps = fill_pieces args' ps"
  by (induction label allowed ps arbitrary: used rule: used_fields.induct)
    (auto simp: rbind_eq_Inr split: if_splits option.split)

lemma fill_cong:
  assumes "template_fields value label allowed = Inr used" "\<And>k. k \<in> set allowed \<Longrightarrow> map_of args k = map_of args' k"
  shows "fill args value = fill args' value"
proof -
  obtain ps where "parse_template value = Some ps" "used_fields label allowed ps = Inr used"
    using template_fields_Inr [OF assms(1)] .
  with fill_pieces_cong [OF this(2) assms(2)] show ?thesis by (simp add: fill_def)
qed

section \<open>Releases\<close>

lemma length_strip: "length (strip s) \<le> length s"
proof -
  have "length (strip s) \<le> length (dropWhile py_space s)"
    unfolding strip_def using length_dropWhile_le [of py_space "rev (dropWhile py_space s)"] by simp
  then show ?thesis using length_dropWhile_le [of py_space s] by simp
qed

text \<open>What the check of a release ensures.\<close>

definition ok_release :: "release \<Rightarrow> bool" where
  "ok_release r \<longleftrightarrow> (case validate_release (rel_id r) of Inr rid \<Rightarrow> rid = rel_id r | Inl _ \<Rightarrow> False)
     \<and> strip (rel_label r) = rel_label r \<and> one_line (rel_label r) \<and> length (rel_label r) \<le> 128
     \<and> (case rel_number r of None \<Rightarrow> True | Some n \<Rightarrow> re_fullmatch NUMBER_RE n \<noteq> None)
     \<and> (case rel_eol r of None \<Rightarrow> True | Some d \<Rightarrow> iso_date d \<noteq> None)"

lemma ok_id: "ok_release r \<Longrightarrow> validate_release (rel_id r) = Inr (rel_id r)"
  by (auto simp: ok_release_def split: sum.splits)

lemma release_id_Inr: "release_id_of j = Inr rid \<Longrightarrow> validate_release rid = Inr rid"
  by (auto simp: release_id_of_def dest: validate_release_idem split: sum.splits exn.splits)

lemma entry_release_Inr:
  assumes "entry_release name seen item = Inr r"
  shows "ok_release r" "lower (rel_id r) \<notin> set seen"
proof -
  have sub: "one_line s \<Longrightarrow> one_line (strip s)" for s using strip_subset [of s] by (auto simp: one_line_def list_all_iff)
  have len: "length s \<le> 128 \<Longrightarrow> length (strip s) \<le> 128" for s using length_strip [of s] by simp
  have lab: "release_label_of rp auto j = Inr l \<Longrightarrow> strip l = l \<and> one_line l \<and> length l \<le> 128" for rp auto j l
    using sub len by (auto simp: release_label_of_def search_cls one_line_def split: json.splits if_splits)
  have num: "release_number_of rp j = Inr (Some n) \<Longrightarrow> re_fullmatch NUMBER_RE n \<noteq> None" for rp j n
    by (auto simp: release_number_of_def split: if_splits)
  have eol: "release_eol_of rp j = Inr (Some d) \<Longrightarrow> iso_date d \<noteq> None" for rp j d
    by (auto simp: release_eol_of_def split: if_splits)
  obtain jid rp auto jl jn je where parts: "release_id_of jid = Inr (rel_id r)" "release_label_of rp auto jl = Inr (rel_label r)"
    "release_number_of rp jn = Inr (rel_number r)" "release_eol_of rp je = Inr (rel_eol r)" "lower (rel_id r) \<notin> set seen"
    using assms by (auto simp: entry_release_def Let_def rbind_eq_Inr split: json.splits)
  show "lower (rel_id r) \<notin> set seen" by (rule parts(5))
  show "ok_release r"
    unfolding ok_release_def
    using release_id_Inr [OF parts(1)] lab [OF parts(2)] num [of rp jn] eol [of rp je] parts(3,4)
    by (auto split: option.split)
qed

lemma entry_release_list_Inr:
  "entry_release_list name seen items = Inr rs \<Longrightarrow>
     distinct (map (\<lambda>r. lower (rel_id r)) rs) \<and> length rs = length items
     \<and> list_all ok_release rs \<and> (\<forall>r \<in> set rs. lower (rel_id r) \<notin> set seen)"
proof (induction items arbitrary: seen rs)
  case (Cons item items)
  then obtain r rs' where r: "entry_release name seen item = Inr r"
    "entry_release_list name (lower (rel_id r) # seen) items = Inr rs'" "rs = r # rs'" by (auto simp: rbind_eq_Inr)
  from Cons.IH [OF r(2)] entry_release_Inr [OF r(1)] r(3) show ?case by (auto simp: image_iff)
qed simp

lemma ok_release_default [simp]: "ok_release (r\<lparr>rel_default := b\<rparr>) = ok_release r"
  unfolding ok_release_def by (simp split: sum.split)

lemma default_first_simps:
  "map rel_id (default_first rs) = map rel_id rs" "length (default_first rs) = length rs"
  "list_all ok_release rs \<Longrightarrow> list_all ok_release (default_first rs)"
  "\<forall>r \<in> set rs. \<not> rel_default r \<Longrightarrow> rs \<noteq> [] \<Longrightarrow> length (filter rel_default (default_first rs)) = 1"
proof -
  show "map rel_id (default_first rs) = map rel_id rs" "length (default_first rs) = length rs" by (cases rs; simp)+
  show "list_all ok_release (default_first rs)" if "list_all ok_release rs"
    using that by (cases rs) simp_all
  show "length (filter rel_default (default_first rs)) = 1" if "\<forall>r \<in> set rs. \<not> rel_default r" "rs \<noteq> []"
    using that by (cases rs) (simp_all add: filter_empty_conv)
qed

lemma entry_releases_cases:
  assumes "entry_releases v name = Inr rs"
  obtains items out where "entry_release_list name [] items = Inr out" "items \<noteq> []" "length items \<le> MAX_RELEASES"
    "\<not> 1 < length (filter rel_default out)" "rs = (if filter rel_default out = [] then default_first out else out)"
proof -
  obtain items where items: "v = Some (JList items)" "items \<noteq> []" "\<not> MAX_RELEASES < length items"
    using assms unfolding entry_releases_def by (cases v; simp split: json.splits if_splits)
  obtain out where out: "entry_release_list name [] items = Inr out"
    using assms items unfolding entry_releases_def by (cases "entry_release_list name [] items") simp_all
  show thesis
  proof (rule that [OF out items(2)])
    show "length items \<le> MAX_RELEASES" using items(3) by simp
    show "\<not> 1 < length (filter rel_default out)" "rs = (if filter rel_default out = [] then default_first out else out)"
      using assms unfolding entry_releases_def items(1) by (simp_all add: items(2,3) out Let_def del: One_nat_def split: if_splits)
  qed
qed

lemma entry_releases_Inr:
  assumes "entry_releases v name = Inr rs"
  shows "length (filter rel_default rs) = 1 \<and> distinct (map (\<lambda>r. lower (rel_id r)) rs) \<and> list_all ok_release rs
    \<and> rs \<noteq> [] \<and> length rs \<le> MAX_RELEASES"
proof -
  obtain items out where out: "entry_release_list name [] items = Inr out" "items \<noteq> []" "length items \<le> MAX_RELEASES"
    "\<not> 1 < length (filter rel_default out)" "rs = (if filter rel_default out = [] then default_first out else out)"
    using entry_releases_cases [OF assms] .
  note facts = entry_release_list_Inr [OF out(1)]
  have len: "length rs = length items" using facts unfolding out(5) by (simp add: default_first_simps)
  have ids: "map rel_id rs = map rel_id out" unfolding out(5) by (simp add: default_first_simps)
  have "distinct (map (\<lambda>r. lower (rel_id r)) rs)"
    using facts arg_cong [OF ids, of "map lower"] by (simp add: comp_def)
  moreover have "list_all ok_release rs" unfolding out(5) using facts by (simp add: default_first_simps)
  moreover have "length (filter rel_default rs) = 1"
  proof (cases "filter rel_default out = []")
    case True
    moreover have "out \<noteq> []" using facts out(2) by auto
    ultimately show ?thesis using default_first_simps(4) [of out] unfolding out(5) by (simp add: filter_empty_conv)
  next
    case False
    with out(4) have "length (filter rel_default out) = 1" by (cases "filter rel_default out") auto
    with False out(5) show ?thesis by simp
  qed
  ultimately show ?thesis using len out(2,3) by auto
qed

section \<open>Whole entries\<close>

text \<open>The templates of the boot files, by the field they come from.\<close>

fun url_templates :: "boot_files \<Rightarrow> (string \<times> string) list" where
  "url_templates (Archive a k i) = [(''archive_url'', a)]"
| "url_templates (Files k i) = [(''kernel_url'', k), (''initrd_url'', i)]"

lemma entry_files_Inr: "entry_files raw = Inr (fs, ts) \<Longrightarrow> ts = url_templates fs"
  by (auto simp: entry_files_def rbind_eq_Inr split: if_splits)

lemma check_urls_Inr:
  "check_urls mirror rid ts = Inr u \<Longrightarrow> (key, t) \<in> set ts \<Longrightarrow>
     \<exists>s v. filled (url_args mirror rid) t = Inr s \<and> validate_source_url s = Inr v"
  by (induction mirror rid ts rule: check_urls.induct) (auto simp: rbind_eq_Inr split: sum.splits exn.splits)

lemma check_releases_Inr:
  "check_releases e ts rs = Inr u \<Longrightarrow> r \<in> set rs \<Longrightarrow>
     check_urls (e_mirror e) (rel_id r) ts = Inr ()
     \<and> (\<exists>args. entry_boot_args e (e_mirror e) (rel_id r) 0 = Inr args \<and> length args \<le> 2048)"
  by (induction e ts rs rule: check_releases.induct) (auto simp: rbind_eq_Inr split: if_splits)

lemma validate_entry_Inr:
  assumes "validate_entry j = Inr e"
  obtains raw used where "j = JObj raw" "entry_mirror raw = Inr (e_mirror e)"
    "entry_text raw ''boot_args'' 1024 False = Inr (e_args e)"
    "entry_releases (jget raw ''releases'') (e_name e) = Inr (e_releases e)"
    "template_fields (e_args e) (entry_label ''boot_args'') ARGS_FIELDS = Inr used"
    "check_releases e (url_templates (e_files e)) (e_releases e) = Inr ()"
proof (cases j)
  case (JObj raw)
  with assms that show thesis
    by (auto simp: validate_entry_def Let_def rbind_eq_Inr dest!: entry_files_Inr split: prod.splits)
qed (use assms in \<open>simp_all add: validate_entry_def\<close>)

lemma boot_args_one_line:
  assumes "entry_boot_args e mirror rid k = Inr args"
    and "one_line (e_args e)" "one_line mirror" "one_line rid"
    and "urlparse mirror = Some p" "scheme p \<in> {''http'', ''https''}"
  shows "one_line args"
proof -
  have "fill [(''mirror'', mirror), (''version'', rid), (''mirror_proto'', scheme p), (''mirror_host'', netloc p),
      (''mirror_path'', if url_path p = [] then ''/'' else url_path p), (''image_id'', show_nat k)] (e_args e) = Some args"
    using assms(1,5) by (auto simp: entry_boot_args_def filled_def split: option.splits)
  note chars = fill_chars [OF this]
  have "\<not> is_control c" if "c \<in> set args" for c
  proof -
    have sch: "\<not> is_control d" if "d \<in> set (scheme p)" for d using assms(6) that by (auto simp: is_control_def)
    have slash: "\<not> is_control CHR ''/''" by (simp add: is_control_def)
    show ?thesis
      using chars [OF that] assms(2-4) [THEN one_lineD] urlparse_chars [OF assms(5)] sch slash
        show_nat_plain [of c k] by (auto split: if_splits)
  qed
  then show ?thesis by (simp add: one_line_def list_all_iff)
qed

lemma boot_args_any_image:
  assumes "template_fields (e_args e) label ARGS_FIELDS = Inr used"
  shows "entry_boot_args e mirror rid k = entry_boot_args e mirror rid n"
proof -
  have "fill [(''mirror'', mirror), (''version'', rid), (''mirror_proto'', a), (''mirror_host'', b), (''mirror_path'', c),
        (''image_id'', show_nat k)] (e_args e)
      = fill [(''mirror'', mirror), (''version'', rid), (''mirror_proto'', a), (''mirror_host'', b), (''mirror_path'', c),
        (''image_id'', show_nat n)] (e_args e)" for a b c
    by (rule fill_cong [OF assms]) (auto simp: ARGS_FIELDS_def)
  then show ?thesis by (simp add: entry_boot_args_def filled_def split: option.split)
qed

section \<open>Releases as text\<close>

lemma splitlines_acc_line:
  "list_all (\<lambda>c. \<not> line_end c) l \<Longrightarrow> splitlines_acc w (l @ NL # t) = (rev w @ l) # splitlines_acc [] t"
proof (induction l arbitrary: w)
  case Nil
  then show ?case by (simp add: line_end_def)
next
  case (Cons c l)
  then have "\<not> line_end c" "c \<noteq> CR" by (auto simp: line_end_def)
  with Cons show ?case by simp
qed

lemma splitlines_acc_last: "list_all (\<lambda>c. \<not> line_end c) l \<Longrightarrow> l \<noteq> [] \<or> w \<noteq> [] \<Longrightarrow> splitlines_acc w l = [rev w @ l]"
proof (induction l arbitrary: w)
  case (Cons c l)
  then have "\<not> line_end c" "c \<noteq> CR" by (auto simp: line_end_def)
  with Cons show ?case by simp
qed simp

lemma splitlines_join:
  "list_all (\<lambda>l. l \<noteq> [] \<and> list_all (\<lambda>c. \<not> line_end c) l) ls \<Longrightarrow> splitlines (join [NL] ls) = ls"
proof (induction "[NL]" ls rule: join.induct)
  case 1
  then show ?case by (simp add: splitlines_def)
next
  case (2 x)
  then show ?case by (simp add: splitlines_def splitlines_acc_last)
next
  case (3 x y zs)
  then show ?case by (simp add: splitlines_def splitlines_acc_line)
qed

lemma strip_space_left: "strip (CHR '' '' # s) = strip s"
  by (simp add: strip_def)

lemma strip_space_right: "s \<noteq> [] \<Longrightarrow> list_all (\<lambda>c. \<not> py_space c) s \<Longrightarrow> strip (s @ '' '') = s"
proof -
  assume s: "s \<noteq> []" "list_all (\<lambda>c. \<not> py_space c) s"
  then have "dropWhile py_space (s @ '' '') = s @ '' ''" by (cases s) auto
  moreover have "dropWhile py_space (rev s) = rev s" using s by (cases "rev s") (auto simp: list_all_iff rev_eq_Cons_iff)
  ultimately show ?thesis by (simp add: strip_def)
qed

text \<open>A release whose text can be read back: its label is not empty and has no line end (the check lets NEL through).\<close>

definition plain_release :: "release \<Rightarrow> bool" where
  "plain_release r \<longleftrightarrow> ok_release r \<and> rel_label r \<noteq> [] \<and> list_all (\<lambda>c. \<not> line_end c) (rel_label r)"

lemma plain_id:
  assumes "plain_release r"
  shows "validate_release (rel_id r) = Inr (rel_id r)" "rel_id r \<noteq> []" "list_all (\<lambda>c. \<not> py_space c) (rel_id r)"
    "CHR ''|'' \<notin> set (rel_id r)" "list_all (\<lambda>c. \<not> line_end c) (rel_id r)"
proof -
  show v: "validate_release (rel_id r) = Inr (rel_id r)" using assms by (simp add: plain_release_def ok_id)
  then show "rel_id r \<noteq> []" by (simp add: validate_release_iff)
  note plain = release_plain [OF v]
  then show "list_all (\<lambda>c. \<not> py_space c) (rel_id r)" "CHR ''|'' \<notin> set (rel_id r)" by (auto simp: list_all_iff)
  have "line_end c \<Longrightarrow> py_space c" for c by (auto simp: line_end_def py_space_def)
  with plain(1) show "list_all (\<lambda>c. \<not> line_end c) (rel_id r)" by (auto simp: list_all_iff)
qed

lemma release_line_ok:
  assumes "plain_release r"
  shows "release_line name r \<noteq> [] \<and> list_all (\<lambda>c. \<not> line_end c) (release_line name r)"
proof -
  have "list_all (\<lambda>c. \<not> line_end c) (rel_label r)" using assms by (auto simp: plain_release_def list_all_iff)
  moreover have "list_all (\<lambda>c. \<not> line_end c) '' | ''" by (simp add: line_end_def)
  ultimately show ?thesis using plain_id(2,5) [OF assms] by (auto simp: release_line_def)
qed

definition release_json :: "string \<Rightarrow> release \<Rightarrow> json" where
  "release_json name r =
     (if rel_label r = name @ '' '' @ rel_id r then JObj [(''id'', JStr (rel_id r))]
      else JObj [(''id'', JStr (rel_id r)), (''label'', JStr (rel_label r))])"

lemma partition_at_append: "c \<notin> set u \<Longrightarrow> partition_at c (u @ c # v) = (u, True, v)"
  by (induction u) (auto simp: partition_at_def split: if_splits)

lemma parse_release_line_inv:
  assumes "plain_release r"
  shows "parse_release_line (release_line name r) = Some (release_json name r)"
proof -
  note p = plain_id [OF assms]
  have strip_id: "strip (rel_id r) = rel_id r" using p(3) by (rule strip_all)
  have lab: "strip (rel_label r) = rel_label r" "rel_label r \<noteq> []"
    using assms by (simp_all add: plain_release_def ok_release_def)
  show ?thesis
  proof (cases "rel_label r = name @ '' '' @ rel_id r")
    case True
    have "partition_at CHR ''|'' (rel_id r) = (rel_id r, False, [])" using p(4) by (simp add: partition_at_def)
    moreover have "strip [] = []" by (simp add: strip_def)
    ultimately show ?thesis
      using True p(2) strip_id by (simp add: release_line_def parse_release_line_def release_json_def)
  next
    case False
    have "CHR ''|'' \<notin> set (rel_id r @ '' '')" using p(4) by auto
    from partition_at_append [OF this, of "CHR '' '' # rel_label r"]
    have "partition_at CHR ''|'' (rel_id r @ '' | '' @ rel_label r) = (rel_id r @ '' '', True, CHR '' '' # rel_label r)"
      by simp
    with False p(2,3) lab show ?thesis
      by (simp add: release_line_def parse_release_line_def release_json_def strip_space_left strip_space_right)
  qed
qed

lemma parse_releases_inv:
  assumes "list_all plain_release rs"
  shows "parse_releases (join [NL] (map (release_line name) rs)) = map (release_json name) rs"
proof -
  have "splitlines (join [NL] (map (release_line name) rs)) = map (release_line name) rs"
    by (rule splitlines_join) (use assms release_line_ok in \<open>auto simp: list_all_iff\<close>)
  moreover have "List.map_filter parse_release_line (map (release_line name) rs) = map (release_json name) rs"
    using assms by (induction rs) (simp_all add: List.map_filter_simps parse_release_line_inv)
  ultimately show ?thesis by (simp add: parse_releases_def)
qed

text \<open>
  Editing an entry (\<open>_form_to_entry\<close>): the form has no box for a release's number, end of life and pre-release
  mark, so the releases it still lists get them from the entry as it was.
\<close>

lemma form_release_json:
  assumes "find (\<lambda>x. rel_id x = rel_id r) old = Some r"
  shows "form_release old (release_json name r) =
    JObj ((''id'', JStr (rel_id r)) # (if rel_label r = name @ '' '' @ rel_id r then [] else [(''label'', JStr (rel_label r))])
      @ kept_fields r)"
  using assms by (auto simp: form_release_def release_json_def jget_def)

lemma entry_release_form:
  assumes "plain_release r" "lower (rel_id r) \<notin> set seen" "find (\<lambda>x. rel_id x = rel_id r) old = Some r"
  shows "entry_release name seen (form_release old (release_json name r)) = Inr (r\<lparr>rel_default := False\<rparr>)"
proof -
  have id: "release_id_of (JStr (rel_id r)) = Inr (rel_id r)"
    using plain_id(1) [OF assms(1)] by (simp add: release_id_of_def py_str_def)
  have "strip (rel_label r) = rel_label r" "re_search (Cls is_control) (rel_label r) = None"
    "length (rel_label r) \<le> 128" "rel_label r \<noteq> []"
    using assms(1) by (auto simp: plain_release_def ok_release_def one_line_def search_cls)
  then have lab: "release_label_of rp (name @ '' '' @ rel_id r) (JStr (rel_label r)) = Inr (rel_label r)"
    "rel_label r = name @ '' '' @ rel_id r \<Longrightarrow> release_label_of rp (name @ '' '' @ rel_id r) JNull = Inr (rel_label r)" for rp
    by (simp_all add: release_label_of_def truthy_def)
  have "re_fullmatch NUMBER_RE [] = None" "iso_date [] = None" by code_simp+
  then have num: "release_number_of rp (case rel_number r of None \<Rightarrow> JNull | Some n \<Rightarrow> JStr n) = Inr (rel_number r)"
    and eol: "release_eol_of rp (case rel_eol r of None \<Rightarrow> JNull | Some d \<Rightarrow> JStr d) = Inr (rel_eol r)" for rp
    using assms(1) by (auto simp: plain_release_def ok_release_def release_number_of_def release_eol_of_def py_str_def
        split: option.splits)
  define d where "d = (''id'', JStr (rel_id r))
    # (if rel_label r = name @ '' '' @ rel_id r then [] else [(''label'', JStr (rel_label r))]) @ kept_fields r"
  have get: "jget d ''id'' = Some (JStr (rel_id r))"
    "jget d ''label'' = (if rel_label r = name @ '' '' @ rel_id r then None else Some (JStr (rel_label r)))"
    "jget d ''number'' = map_option JStr (rel_number r)" "jget d ''eol'' = map_option JStr (rel_eol r)"
    "jget d ''default'' = None" "jget d ''prerelease'' = (if rel_prerelease r then Some (JBool True) else None)"
    by (simp_all add: d_def jget_def kept_fields_def split: option.split)
  have keys: "filter (\<lambda>k. k \<notin> set RELEASE_FIELDS) (map fst d) = []"
    by (auto simp: d_def kept_fields_def RELEASE_FIELDS_def split: option.splits)
  have label: "release_label_of rp (name @ '' '' @ rel_id r) (case jget d ''label'' of None \<Rightarrow> JNull | Some v \<Rightarrow> v) = Inr (rel_label r)" for rp
    using lab unfolding get by simp
  have number: "release_number_of rp (case jget d ''number'' of None \<Rightarrow> JNull | Some v \<Rightarrow> v) = Inr (rel_number r)"
    "release_eol_of rp (case jget d ''eol'' of None \<Rightarrow> JNull | Some v \<Rightarrow> v) = Inr (rel_eol r)" for rp
    using num [of rp] eol [of rp] unfolding get by (cases "rel_number r"; cases "rel_eol r"; simp)+
  have flags: "release_flag_of rp k (case jget d ''default'' of None \<Rightarrow> JNull | Some v \<Rightarrow> v) = Inr False"
    "release_flag_of rp k (case jget d ''prerelease'' of None \<Rightarrow> JNull | Some v \<Rightarrow> v) = Inr (rel_prerelease r)" for rp k
    unfolding get by (simp_all add: release_flag_of_def none_or_bool_def truthy_def)
  show ?thesis
    unfolding form_release_json [OF assms(3)] d_def [symmetric] entry_release_def json.case keys Let_def
    using id assms(2) by (simp add: label [simplified] number flags get(1) raise_if_def)
qed

lemma entry_release_list_form:
  assumes "\<And>r. r \<in> set rs \<Longrightarrow> plain_release r \<and> find (\<lambda>x. rel_id x = rel_id r) old = Some r"
    and "distinct (map (\<lambda>r. lower (rel_id r)) rs)" "\<And>r. r \<in> set rs \<Longrightarrow> lower (rel_id r) \<notin> set seen"
  shows "entry_release_list name seen (map (form_release old) (map (release_json name) rs)) = Inr (map (\<lambda>r. r\<lparr>rel_default := False\<rparr>) rs)"
  using assms
proof (induction rs arbitrary: seen)
  case (Cons r rs)
  have "entry_release name seen (form_release old (release_json name r)) = Inr (r\<lparr>rel_default := False\<rparr>)"
    by (rule entry_release_form) (use Cons.prems in auto)
  moreover have "entry_release_list name (lower (rel_id r) # seen) (map (form_release old) (map (release_json name) rs))
      = Inr (map (\<lambda>r. r\<lparr>rel_default := False\<rparr>) rs)"
    by (rule Cons.IH) (use Cons.prems in \<open>auto simp: image_iff\<close>)
  ultimately show ?case by simp
qed simp

text \<open>The default first.\<close>

definition defaults_first :: "release list \<Rightarrow> release list" where
  "defaults_first rs = filter rel_default rs @ filter (\<lambda>r. \<not> rel_default r) rs"

lemma defaults_first_distinct: "distinct (map f rs) \<Longrightarrow> distinct (map f (defaults_first rs))"
  by (auto simp: defaults_first_def distinct_map inj_on_def)

lemma defaults_first_length: "length (defaults_first rs) = length rs"
  by (simp add: defaults_first_def sum_length_filter_compl)

section \<open>Properties\<close>

text \<open>C29. An entry that passes the check works: exactly one of its releases is the default, no two have the same
  name, and for each of them every file's template gives an http or https address and the kernel command line
  can be built, for any image, is one line, and holds at most 2048 characters.\<close>

theorem valid_entry_works:
  assumes "validate_entry j = Inr e" "r \<in> set (e_releases e)"
  shows "length (filter rel_default (e_releases e)) = 1 \<and> distinct (map (\<lambda>r. lower (rel_id r)) (e_releases e))
    \<and> (\<exists>urls. boot_file_urls e (e_mirror e) (rel_id r) = Inr urls \<and> urls \<noteq> []
         \<and> (\<forall>(l, u) \<in> set urls. \<exists>v. validate_source_url u = Inr v))
    \<and> (\<exists>args. entry_boot_args e (e_mirror e) (rel_id r) k = Inr args \<and> length args \<le> 2048 \<and> one_line args)"
proof -
  obtain raw used where v: "entry_mirror raw = Inr (e_mirror e)"
    "entry_text raw ''boot_args'' 1024 False = Inr (e_args e)"
    "entry_releases (jget raw ''releases'') (e_name e) = Inr (e_releases e)"
    "template_fields (e_args e) (entry_label ''boot_args'') ARGS_FIELDS = Inr used"
    "check_releases e (url_templates (e_files e)) (e_releases e) = Inr ()"
    using validate_entry_Inr [OF assms(1)] by metis
  note rels = entry_releases_Inr [OF v(3)] and checked = check_releases_Inr [OF v(5) assms(2)]
  obtain p where p: "urlparse (e_mirror e) = Some p" "scheme p \<in> {''http'', ''https''}" "one_line (e_mirror e)"
    using entry_mirror_Inr [OF v(1)] .
  have "validate_release (rel_id r) = Inr (rel_id r)" using rels assms(2) by (auto simp: list_all_iff ok_id)
  then have rid: "one_line (rel_id r)" using release_plain(2) by (auto simp: one_line_def list_all_iff)
  obtain args where args: "entry_boot_args e (e_mirror e) (rel_id r) k = Inr args" "length args \<le> 2048"
    using checked boot_args_any_image [OF v(4)] by metis
  have url: "\<exists>u v. filled (url_args (e_mirror e) (rel_id r)) t = Inr u \<and> validate_source_url u = Inr v"
    if "(key, t) \<in> set (url_templates (e_files e))" for key t
    using check_urls_Inr [of _ _ _ "()"] checked that by blast
  have "\<exists>urls. boot_file_urls e (e_mirror e) (rel_id r) = Inr urls \<and> urls \<noteq> []
         \<and> (\<forall>(l, u) \<in> set urls. \<exists>v. validate_source_url u = Inr v)"
  proof (cases "e_files e")
    case (Archive a m1 m2)
    with url [of "''archive_url''" a] show ?thesis by (auto simp: boot_file_urls_def)
  next
    case (Files a b)
    with url [of "''kernel_url''" a] url [of "''initrd_url''" b] show ?thesis by (auto simp: boot_file_urls_def)
  qed
  with rels args boot_args_one_line [OF args(1) entry_text_Inr(1) [OF v(2)] p(3) rid p(1,2)] show ?thesis by blast
qed

definition fedora :: json where
  "fedora = JObj [(''name'', JStr ''Fedora''), (''default_mirror'', JStr ''https://dl.fedora.org/pub/''),
     (''kernel_url'', JStr ''{mirror}/{version}/vmlinuz''), (''initrd_url'', JStr ''{mirror}/{version}/initrd.img''),
     (''boot_args'', JStr ''inst.repo={mirror}/{version} ip=dhcp''),
     (''releases'', JList [JStr ''44'', JObj [(''id'', JInt 43), (''label'', JStr ''Old one'')]])]"

theorem valid_entry_works_witness:
  "\<exists>e r args. validate_entry fedora = Inr e \<and> e_id e = ''fedora'' \<and> r \<in> set (e_releases e)
     \<and> entry_boot_args e (e_mirror e) (rel_id r) 7 = Inr args \<and> one_line args"
proof -
  have ok: "(case validate_entry fedora of Inr e \<Rightarrow> e_id e = ''fedora'' \<and> e_releases e \<noteq> [] | Inl _ \<Rightarrow> False)" by code_simp
  then obtain e where e: "validate_entry fedora = Inr e" "e_id e = ''fedora''" "e_releases e \<noteq> []"
    by (auto split: sum.splits)
  then obtain r where "r \<in> set (e_releases e)" by (cases "e_releases e") auto
  with valid_entry_works [OF e(1) this, of 7] e show ?thesis by blast
qed

lemma defaults_first_cases:
  assumes "length (filter rel_default rs) = 1"
  obtains d others where "defaults_first rs = d # others" "rel_default d" "\<forall>r \<in> set others. \<not> rel_default r"
    "set (defaults_first rs) = set rs"
proof -
  obtain d where d: "filter rel_default rs = [d]" using assms by (cases "filter rel_default rs") auto
  then have "d \<in> set (filter rel_default rs)" by simp
  then have on: "rel_default d" by simp
  show thesis
  proof (rule that)
    show "defaults_first rs = d # filter (\<lambda>r. \<not> rel_default r) rs" using d by (simp add: defaults_first_def)
    show "rel_default d" by (rule on)
    show "\<forall>r \<in> set (filter (\<lambda>r. \<not> rel_default r) rs). \<not> rel_default r" by simp
    show "set (defaults_first rs) = set rs" by (auto simp: defaults_first_def)
  qed
qed

lemma find_unique: "distinct (map f rs) \<Longrightarrow> r \<in> set rs \<Longrightarrow> find (\<lambda>x. f x = f r) rs = Some r"
  by (induction rs) (auto simp: image_iff)

lemma default_off [simp]: "\<not> rel_default r \<Longrightarrow> r\<lparr>rel_default := False\<rparr> = r" "rel_default r \<Longrightarrow> r\<lparr>rel_default := True\<rparr> = r"
  by (cases r; simp)+

text \<open>Editing a custom entry loses nothing: the text of its releases that the form shows, saved again without a
  change, gives every release back with its label, number, end of life and pre-release mark, the default one
  first - for the releases of any entry that passed the check, if no label is empty or holds the line end NEL.\<close>

theorem edit_keeps_releases:
  assumes "validate_entry j = Inr e"
    and "list_all (\<lambda>r. rel_label r \<noteq> [] \<and> list_all (\<lambda>c. \<not> line_end c) (rel_label r)) (e_releases e)"
  shows "entry_releases (Some (JList (map (form_release (e_releases e)) (parse_releases (release_lines e))))) (e_name e)
    = Inr (defaults_first (e_releases e))"
proof -
  let ?rs = "e_releases e" and ?ds = "defaults_first (e_releases e)"
  obtain raw where rels: "entry_releases (jget raw ''releases'') (e_name e) = Inr ?rs"
    using validate_entry_Inr [OF assms(1)] by metis
  note facts = entry_releases_Inr [OF rels]
  obtain d others where ds: "?ds = d # others" "rel_default d" "\<forall>r \<in> set others. \<not> rel_default r" "set ?ds = set ?rs"
    using defaults_first_cases facts by metis
  have plain: "list_all plain_release ?ds"
    using facts assms(2) unfolding list_all_iff ds(4) by (auto simp: plain_release_def list_all_iff)
  have dist: "distinct (map (\<lambda>r. lower (rel_id r)) ?rs)" using facts by blast
  then have ids: "distinct (map rel_id ?rs)" by (auto simp: distinct_map inj_on_def)
  have found: "find (\<lambda>x. rel_id x = rel_id r) ?rs = Some r" if "r \<in> set ?rs" for r
    using find_unique [OF ids that] .
  have "parse_releases (release_lines e) = map (release_json (e_name e)) ?ds"
    unfolding release_lines_def defaults_first_def [symmetric] using parse_releases_inv [OF plain] .
  moreover have "entry_release_list (e_name e) [] (map (form_release ?rs) (map (release_json (e_name e)) ?ds))
      = Inr (map (\<lambda>r. r\<lparr>rel_default := False\<rparr>) ?ds)"
    by (rule entry_release_list_form)
      (use plain found ds(4) defaults_first_distinct [OF dist] in \<open>auto simp: list_all_iff\<close>)
  moreover have "length ?ds \<le> MAX_RELEASES" unfolding defaults_first_length using facts by blast
  moreover have "?ds \<noteq> []" using ds(1) by simp
  moreover have "filter rel_default (map (\<lambda>r. r\<lparr>rel_default := False\<rparr>) ?ds) = []" by (simp add: filter_empty_conv)
  moreover have "default_first (map (\<lambda>r. r\<lparr>rel_default := False\<rparr>) ?ds) = ?ds"
    unfolding ds(1) using ds(2,3) by (simp add: map_idI)
  ultimately show ?thesis by (simp add: entry_releases_def)
qed

definition mixed :: json where
  "mixed = (case fedora of JObj d \<Rightarrow> JObj (filter (\<lambda>kv. fst kv \<noteq> ''releases'') d @ [(''releases'', JList
     [JObj [(''id'', JStr ''43''), (''eol'', JStr ''2026-12-02''), (''label'', JStr ''Fedora 43 | old'')],
      JObj [(''id'', JStr ''44''), (''number'', JInt 44), (''default'', JBool True)]])]) | j \<Rightarrow> j)"

theorem edit_keeps_releases_witness:
  "(case validate_entry mixed of Inl _ \<Rightarrow> False
    | Inr e \<Rightarrow> release_lines e = ''44'' @ [NL] @ ''43 | Fedora 43 | old''
        \<and> entry_releases (Some (JList (map (form_release (e_releases e)) (parse_releases (release_lines e))))) (e_name e)
            = Inr (defaults_first (e_releases e)))"
proof -
  have ok: "(case validate_entry mixed of Inl _ \<Rightarrow> False
    | Inr e \<Rightarrow> release_lines e = ''44'' @ [NL] @ ''43 | Fedora 43 | old''
        \<and> list_all (\<lambda>r. rel_label r \<noteq> [] \<and> list_all (\<lambda>c. \<not> line_end c) (rel_label r)) (e_releases e))" by code_simp
  then obtain e where e: "validate_entry mixed = Inr e" by (auto split: sum.splits)
  from ok edit_keeps_releases [OF e] show ?thesis unfolding e sum.case by blast
qed

section \<open>Stored entries\<close>

lemma map_of_insert_by: "k \<notin> fst ` set db \<Longrightarrow> map_of (insert_by le (k, v) db) = (map_of db)(k \<mapsto> v)"
  by (induction db) (auto simp: fun_eq_iff)

lemma map_of_replace: "k \<in> fst ` set db \<Longrightarrow> map_of (map (\<lambda>row. if fst row = k then (k, v) else row) db) = (map_of db)(k \<mapsto> v)"
proof -
  have "map_of (map (\<lambda>row. if fst row = k then (k, v) else row) db) i
      = (if i = k then map_option (\<lambda>_. v) (map_of db k) else map_of db i)" for i
    by (induction db) auto
  moreover assume "k \<in> fst ` set db"
  then have "map_of db k \<noteq> None" by (simp add: map_of_eq_None_iff)
  ultimately show ?thesis by (auto simp: fun_eq_iff)
qed

lemma map_of_store_entry: "map_of (store_entry e db) = (map_of db)(e_id e \<mapsto> Some e)"
  by (cases "e_id e \<in> fst ` set db") (simp_all add: store_entry_def map_of_replace map_of_insert_by)

lemma map_of_store_entries:
  "distinct (map e_id es) \<Longrightarrow> map_of (foldl (\<lambda>db e. store_entry e db) db es) i =
     (case find (\<lambda>e. e_id e = i) es of Some e \<Rightarrow> Some (Some e) | None \<Rightarrow> map_of db i)"
proof (induction es arbitrary: db)
  case (Cons e es)
  have "find (\<lambda>x. e_id x = e_id e) es = None" using Cons.prems by (auto simp: find_None_iff image_iff)
  with Cons show ?case by (auto simp: map_of_store_entry split: option.split)
qed simp

lemma import_items_Inr:
  "import_items n items = Inr (es, []) \<Longrightarrow> list_all2 (\<lambda>raw e. validate_entry raw = Inr e) items es"
  by (induction n items arbitrary: es rule: import_items.induct)
    (auto simp: rbind_eq_Inr split: sum.splits exn.splits)

definition import_list :: "json \<Rightarrow> json list" where
  "import_list data =
     (case (case data of JObj d \<Rightarrow> (case jget d ''distros'' of Some v \<Rightarrow> v | None \<Rightarrow> JList [data]) | _ \<Rightarrow> data) of
        JList items \<Rightarrow> items | _ \<Rightarrow> [])"

lemma distinct_count_le_1: "(\<And>i. count_list l i \<le> 1) \<Longrightarrow> distinct l"
proof (induction l)
  case (Cons x l)
  have "count_list l i \<le> 1" for i using Cons.prems [of i] by (simp split: if_splits)
  moreover have "count_list l x = 0" using Cons.prems [of x] by simp
  ultimately show ?case using Cons.IH by (simp add: count_list_0_iff)
qed simp

lemma parse_import_Inr:
  assumes "parse_import (Inr data) = Inr es"
  shows "list_all2 (\<lambda>raw e. validate_entry raw = Inr e) (import_list data) es" "distinct (map e_id es)" "es \<noteq> []"
proof -
  define items where "items = (case data of JObj d \<Rightarrow> (case jget d ''distros'' of Some v \<Rightarrow> v | None \<Rightarrow> JList [data]) | _ \<Rightarrow> data)"
  obtain xs where xs: "items = JList xs" "xs \<noteq> []" "\<not> MAX_CUSTOM_ENTRIES < length xs"
    using assms unfolding parse_import_def sum.case items_def [symmetric] Let_def
    by (cases items; simp split: if_splits)
  obtain es' ps where es': "import_items 1 xs = Inr (es', ps)"
    using assms unfolding parse_import_def sum.case items_def [symmetric] Let_def xs
    by (cases "import_items 1 xs") (auto simp: xs(2,3))
  define dups where "dups = filter (\<lambda>i. 1 < length (filter (\<lambda>j. j = i) (map e_id es'))) (map e_id es')"
  have "ps = [] \<and> sort_by str_le (remdups dups) = [] \<and> es' = es"
    using assms unfolding parse_import_def sum.case items_def [symmetric] Let_def xs(1) json.case dups_def
    by (simp add: xs(2,3) es' [simplified] split: if_splits)
  moreover have "l = []" if "sort_by str_le l = []" for l
    using that length_sort_by [of str_le l] by simp
  ultimately have e: "ps = []" "dups = []" "es' = es" by (metis remdups_eq_nil_iff)+
  have il: "import_list data = xs" unfolding import_list_def items_def [symmetric] xs(1) by simp
  show "list_all2 (\<lambda>raw e. validate_entry raw = Inr e) (import_list data) es"
    unfolding il using import_items_Inr es' e by blast
  with xs(2) il show "es \<noteq> []" by auto
  have "\<not> 1 < length (filter (\<lambda>j. j = i) (map e_id es))" if "i \<in> set (map e_id es)" for i
    using e(2) that unfolding dups_def e(3) filter_empty_conv by blast
  moreover have "count_list l i = length (filter (\<lambda>j. j = i) l)" for l :: "string list" and i
    by (induction l) simp_all
  ultimately have "count_list (map e_id es) i \<le> 1" for i
    by (metis count_notin not_less zero_le)
  then show "distinct (map e_id es)" by (rule distinct_count_le_1)
qed

text \<open>C31. An import is all or nothing: when it fails, the stored entries are unchanged; when it is saved, every
  entry of the file has passed the check, none has the id of a built-in one or of another in the file, each is
  stored under its id, and all other stored entries are as before.\<close>

theorem import_all_or_nothing:
  "case import_entries builtin saving (Inr data) db of
     (db', Inl e) \<Rightarrow> db' = db
   | (db', Inr es) \<Rightarrow> list_all2 (\<lambda>raw e. validate_entry raw = Inr e) (import_list data) es
       \<and> distinct (map e_id es) \<and> set (map e_id es) \<inter> set builtin = {}
       \<and> custom_entry db' i = (case (if saving then find (\<lambda>e. e_id e = i) es else None) of
            Some e \<Rightarrow> Some e | None \<Rightarrow> custom_entry db i)"
proof (cases "parse_import (Inr data)")
  case (Inr es)
  note p = parse_import_Inr [OF Inr]
  have "filter (\<lambda>i. i \<in> set builtin) (map e_id es) = [] \<Longrightarrow> set (map e_id es) \<inter> set builtin = {}"
    by (auto simp: filter_empty_conv)
  with p show ?thesis
    by (auto simp: import_entries_def Inr Let_def custom_entry_def map_of_store_entries split: option.split)
qed (simp add: import_entries_def)

end
