(* ===== verification/EntryForms.thy ===== *)
theory EntryForms
  imports EntryProps
begin

text \<open>
  The form for custom entries (\<open>_entry_to_form\<close>, \<open>_form_to_entry\<close>, \<open>save_entry\<close> and \<open>delete_entry\<close> of \<open>routers/images.py\<close>, \<open>preview_entry\<close> of
  \<open>services/netboot.py\<close>): an entry as the form shows it, what saving the form stores, and the preview.
\<close>

section \<open>The form\<close>

text \<open>\<open>ef_original\<close> is the id of the entry that is edited, empty for a new one; \<open>ef_kind\<close> says that it has files.\<close>

record entry_form =
  ef_original :: string
  ef_name :: string
  ef_mirror :: string
  ef_kind :: bool
  ef_archive :: string
  ef_kmember :: string
  ef_imember :: string
  ef_kurl :: string
  ef_iurl :: string
  ef_args :: string
  ef_releases :: string

definition entry_to_form :: "entry \<Rightarrow> entry_form" where
  "entry_to_form e =
     (let f = \<lparr>ef_original = e_id e, ef_name = e_name e, ef_mirror = e_mirror e, ef_kind = False, ef_archive = [], ef_kmember = [],
            ef_imember = [], ef_kurl = [], ef_iurl = [], ef_args = e_args e, ef_releases = release_lines e\<rparr>
      in case e_files e of
           Archive a k i \<Rightarrow> f\<lparr>ef_archive := a, ef_kmember := k, ef_imember := i\<rparr>
         | Files k i \<Rightarrow> f\<lparr>ef_kind := True, ef_kurl := k, ef_iurl := i\<rparr>)"

definition form_raw :: "entry_form \<Rightarrow> json list \<Rightarrow> (string \<times> json) list \<Rightarrow> (string \<times> json) list" where
  "form_raw f rels own =
     [(''name'', JStr (ef_name f)), (''default_mirror'', JStr (ef_mirror f)), (''boot_args'', JStr (ef_args f))]
     @ (if ef_kind f then [(''kernel_url'', JStr (ef_kurl f)), (''initrd_url'', JStr (ef_iurl f))]
        else [(''archive_url'', JStr (ef_archive f)), (''kernel_member'', JStr (ef_kmember f)), (''initrd_member'', JStr (ef_imember f))])
     @ [(''releases'', JList rels)] @ own"

definition form_to_entry :: "entry_table \<Rightarrow> entry_form \<Rightarrow> exn + entry" where
  "form_to_entry db f =
     (let rels = parse_releases (ef_releases f)
      in if ef_original f = [] then validate_entry (JObj (form_raw f rels []))
         else case custom_entry db (ef_original f) of
                None \<Rightarrow> err ''This entry no longer exists; add it again.''
              | Some old \<Rightarrow> validate_entry (JObj (form_raw f (map (form_release (e_releases old)) rels) [(''id'', JStr (e_id old))])))"

section \<open>Saving\<close>

text \<open>\<open>builtin\<close>: the ids of the built-in entries.  With more ids taken than rounds the loop would not end (None).\<close>

definition checked_form :: "string list \<Rightarrow> bool \<Rightarrow> entry_table \<Rightarrow> entry_form \<Rightarrow> exn + entry" where
  "checked_form builtin saving db f =
     rbind (form_to_entry db f) (\<lambda>e.
       if saving \<and> ef_original f = []
       then (if MAX_CUSTOM_ENTRIES \<le> length (custom_entries db)
             then err (''There are already '' @ show_nat MAX_CUSTOM_ENTRIES @ '' custom entries.'')
             else case free_entry_id (builtin @ map fst db) (e_id e) of
                    None \<Rightarrow> Inl Crash
                  | Some i \<Rightarrow> Inr (e\<lparr>e_id := i\<rparr>))
       else Inr e)"

definition save_entry :: "string list \<Rightarrow> bool \<Rightarrow> entry_form \<Rightarrow> entry_table \<Rightarrow> entry_table \<times> (exn + entry)" where
  "save_entry builtin saving f db =
     (case checked_form builtin saving db f of
        Inl e \<Rightarrow> (db, Inl e)
      | Inr e \<Rightarrow> (if saving then store_entry e db else db, Inr e))"

text \<open>The preview: for each release its files, each with the answer of the mirror, and its kernel command line.\<close>

definition preview_row :: "(string \<Rightarrow> 'c) \<Rightarrow> entry \<Rightarrow> release \<Rightarrow> exn + (string \<times> (string \<times> string \<times> 'c) list \<times> string)" where
  "preview_row check_url e r =
     rbind (boot_file_urls e (e_mirror e) (rel_id r)) (\<lambda>files.
     rbind (entry_boot_args e (e_mirror e) (rel_id r) 0) (\<lambda>args.
       Inr (rel_id r, map (\<lambda>(label, url). (label, url, check_url url)) files, args)))"

definition preview_entry :: "(string \<Rightarrow> 'c) \<Rightarrow> entry \<Rightarrow> exn + (string \<times> (string \<times> string \<times> 'c) list \<times> string) list" where
  "preview_entry check_url e = rmap (preview_row check_url e) (e_releases e)"

section \<open>Reading the fields back\<close>

lemma entry_text_again:
  assumes "entry_text raw key limit required = Inr v" "jget raw' key' = Some (JStr v)"
  shows "entry_text raw' key' limit required = Inr v"
  using entry_text_Inr [OF assms(1)] assms(2) by (auto simp: entry_text_def one_line_def search_cls)

lemma entry_text_absent: "jget raw key = None \<Longrightarrow> entry_text raw key limit False = Inr []"
  by (simp add: entry_text_def search_cls strip_def)

lemma urlparse_length:
  assumes "urlparse s = Some p" "scheme p \<noteq> []" "netloc p \<noteq> []"
  shows "length (scheme p) + 4 \<le> length s"
proof -
  define u where "u = filter (\<lambda>c. c \<notin> {CHR 0x09, CR, NL}) (dropWhile (\<lambda>c. code c \<le> 32) s)"
  obtain sch v where v: "split_scheme u = (sch, v)" by (cases "split_scheme u")
  define nl where "nl = (if prefix ''//'' v then takeWhile (\<lambda>c. c \<notin> set ''/?#'') (drop 2 v) else [])"
  have p: "scheme p = sch" "netloc p = nl"
    using assms(1) unfolding urlparse_def Let_def u_def [symmetric] v prod.case nl_def [symmetric]
    by (auto split: if_splits prod.splits)
  have "length u \<le> length s"
    unfolding u_def by (rule order.trans [OF length_filter_le length_dropWhile_le])
  moreover have "length u = length sch + 1 + length v"
  proof -
    have "sch \<noteq> []" using p(1) assms(2) by simp
    with v have "CHR '':'' \<in> set u" "sch = lower (takeWhile (\<lambda>c. c \<noteq> CHR '':'') u)" "v = tl (dropWhile (\<lambda>c. c \<noteq> CHR '':'') u)"
      by (auto simp: split_scheme_def partition_at_def split: if_splits)
    moreover have "length (takeWhile (\<lambda>c. c \<noteq> CHR '':'') u) + length (dropWhile (\<lambda>c. c \<noteq> CHR '':'') u) = length u"
      by (metis length_append takeWhile_dropWhile_id)
    moreover have "dropWhile (\<lambda>c. c \<noteq> CHR '':'') u \<noteq> []" using calculation(1) by (auto simp: dropWhile_eq_Nil_conv)
    ultimately show ?thesis by (cases "dropWhile (\<lambda>c. c \<noteq> CHR '':'') u") (auto simp: lower_def)
  qed
  moreover have "3 \<le> length v" using assms(3) p(2) by (auto simp: nl_def prefix_def Suc_le_eq split: if_splits)
  ultimately show ?thesis using p(1) by simp
qed

lemma mirror_chr_plain: "mirror_chr c \<Longrightarrow> \<not> py_space c"
  by (auto simp: mirror_chr_def is_alnum_def is_lower_def is_upper_def chr_in_def py_space_def)

lemma rstrip_chars_idem: "rstrip_chars cs (rstrip_chars cs s) = rstrip_chars cs s"
  by (simp add: rstrip_chars_def dropWhile_idem)

lemma hd_rstrip_chars: "rstrip_chars cs s \<noteq> [] \<Longrightarrow> hd (rstrip_chars cs s) = hd s"
proof -
  have "s = rstrip_chars cs s @ rev (takeWhile (\<lambda>c. c \<in> set cs) (rev s))"
    unfolding rstrip_chars_def by (metis rev_append rev_rev_ident takeWhile_dropWhile_id)
  then show "rstrip_chars cs s \<noteq> [] \<Longrightarrow> hd (rstrip_chars cs s) = hd s" by (metis hd_append2)
qed

text \<open>A mirror that was checked once passes again as it is.\<close>

lemma validate_mirror_again: "validate_mirror s = Inr v \<Longrightarrow> validate_mirror v = Inr v \<and> strip v = v"
proof -
  assume ok: "validate_mirror s = Inr v"
  then have v: "v = rstrip_chars ''/'' (strip s)" by (auto simp: validate_mirror_def Let_def split: option.splits if_splits)
  with ok obtain p where p: "urlparse v = Some p" "scheme p \<in> {''http'', ''https''}" "netloc p \<noteq> []"
      "list_all mirror_chr (drop (length (scheme p) + 3) v)"
    by (auto simp: validate_mirror_def Let_def search_cls split: option.splits if_splits)
  have "scheme p \<noteq> []" using p(2) by auto
  then have len: "length (scheme p) + 4 \<le> length v" using urlparse_length p by blast
  then have ne: "v \<noteq> []" "drop (length (scheme p) + 3) v \<noteq> []" by auto
  then have "last v \<in> set (drop (length (scheme p) + 3) v)" by (metis last_drop last_in_set drop_eq_Nil not_le)
  then have "\<not> py_space (last v)" using p(4) mirror_chr_plain by (auto simp: list_all_iff)
  moreover have "\<not> py_space (hd v)"
  proof -
    have "strip s \<noteq> []" using v ne(1) by (auto simp: rstrip_chars_def)
    then show ?thesis using strip_ends [of s] hd_rstrip_chars [of "''/''" "strip s"] v ne(1) by simp
  qed
  ultimately have sv: "strip v = v" by (intro strip_fixed ne(1))
  have "rstrip_chars ''/'' v = v" unfolding v by (rule rstrip_chars_idem)
  with ok sv show ?thesis by (simp add: validate_mirror_def Let_def v [symmetric] split: option.splits if_splits)
qed

lemma id_chars:
  assumes "re_fullmatch ID_RE i \<noteq> None"
  shows "i \<noteq> []" "length i \<le> 32" "list_all (\<lambda>c. is_lower c \<or> is_digit c \<or> c = CHR ''-'') i"
proof -
  have "i \<noteq> [] \<and> length i \<le> 32 \<and> list_all (\<lambda>c. is_lower c \<or> is_digit c \<or> c = CHR ''-'') i"
    using assms unfolding fullmatch_iff ID_RE_def Let_def mat_rules by (cases i) (auto simp: list_all_iff)
  then show "i \<noteq> []" "length i \<le> 32" "list_all (\<lambda>c. is_lower c \<or> is_digit c \<or> c = CHR ''-'') i" by auto
qed

lemma id_chr_plain:
  assumes "is_lower c \<or> is_digit c \<or> c = CHR ''-''"
  shows "\<not> py_space c" "\<not> is_control c" "lower_chr c = c"
  using assms by (auto simp: is_lower_def chr_in_def py_space_def is_control_def lower_chr_def is_upper_def)

lemma id_again:
  assumes "re_fullmatch ID_RE i \<noteq> None" "jget raw ''id'' = Some (JStr i)"
  shows "entry_text raw ''id'' 32 False = Inr i" "lower i = i"
proof -
  note i = id_chars [OF assms(1)]
  have "list_all (\<lambda>c. \<not> py_space c) i" "list_all (\<lambda>c. \<not> is_control c) i"
    using i(3) id_chr_plain by (auto simp: list_all_iff)
  then have "strip i = i" "re_search (Cls is_control) i = None" by (simp_all add: strip_all search_cls)
  with assms(2) i(2) show "entry_text raw ''id'' 32 False = Inr i" by (simp add: entry_text_def Let_def)
  show "lower i = i" unfolding lower_def using i(3) id_chr_plain(3) by (intro map_idI) (auto simp: list_all_iff)
qed

text \<open>All that a checked entry has passed.\<close>

lemma validate_entry_parts:
  assumes "validate_entry j = Inr e"
  obtains raw where "entry_text raw ''name'' 64 True = Inr (e_name e)" "re_fullmatch ID_RE (e_id e) \<noteq> None"
    "entry_mirror raw = Inr (e_mirror e)" "entry_files raw = Inr (e_files e, url_templates (e_files e))"
    "entry_text raw ''boot_args'' 1024 False = Inr (e_args e)"
    "check_url_templates (e_releases e) (url_templates (e_files e)) = Inr ()"
proof (cases j)
  case (JObj raw)
  with assms obtain ts where p: "entry_text raw ''name'' 64 True = Inr (e_name e)" "re_fullmatch ID_RE (e_id e) \<noteq> None"
    "entry_mirror raw = Inr (e_mirror e)" "entry_files raw = Inr (e_files e, ts)"
    "entry_text raw ''boot_args'' 1024 False = Inr (e_args e)" "check_url_templates (e_releases e) ts = Inr ()"
    by (auto simp: validate_entry_def Let_def rbind_eq_Inr raise_if_eq split: prod.splits)
  have "ts = url_templates (e_files e)" using entry_files_Inr [OF p(4)] .
  with p that show thesis by blast
qed (use assms in \<open>simp_all add: validate_entry_def\<close>)

lemma mirror_again:
  assumes "entry_mirror raw = Inr v" "jget raw' ''default_mirror'' = Some (JStr v)"
  shows "entry_mirror raw' = Inr v"
proof -
  obtain t where t: "entry_text raw ''default_mirror'' 255 True = Inr t" "validate_mirror t = Inr v"
    using assms(1) by (auto simp: entry_mirror_def rbind_eq_Inr split: sum.splits exn.splits)
  note e = entry_text_Inr [OF t(1)] and v = validate_mirror_again [OF t(2)]
  have vt: "v = rstrip_chars ''/'' (strip t)" using t(2) by (auto simp: validate_mirror_def Let_def split: option.splits if_splits)
  have len: "length (rstrip_chars ''/'' x) \<le> length x" for x
    unfolding rstrip_chars_def using length_dropWhile_le [of "\<lambda>c. c \<in> set ''/''" "rev x"] by simp
  have "length v \<le> 255" using len [of "strip t"] length_strip [of t] e(3) unfolding vt by simp
  moreover have "one_line v"
  proof -
    have "set v \<subseteq> set t" using strip_subset unfolding vt rstrip_chars_def by (fastforce dest: set_dropWhileD)
    with e(1) show ?thesis by (auto simp: one_line_def list_all_iff)
  qed
  moreover have "v \<noteq> []"
  proof
    assume "v = []"
    with v have "validate_mirror [] = Inr ([] :: string)" by simp
    then show False by code_simp
  qed
  ultimately have "entry_text raw' ''default_mirror'' 255 True = Inr v"
    using v assms(2) by (simp add: entry_text_def Let_def one_line_def search_cls)
  with v show ?thesis by (simp add: entry_mirror_def)
qed

lemma check_releases_same:
  assumes "check_releases e ts rs = Inr ()" "set rs' \<subseteq> set rs"
    "e_mirror e' = e_mirror e" "e_args e' = e_args e"
  shows "check_releases e' ts rs' = Inr ()"
  using assms(2)
proof (induction rs')
  case (Cons r rs')
  then have "check_urls (e_mirror e) (rel_id r) ts = Inr ()
      \<and> (\<exists>args. entry_boot_args e (e_mirror e) (rel_id r) 0 = Inr args \<and> length args \<le> 2048)"
    using check_releases_Inr [OF assms(1)] by simp
  moreover have "entry_boot_args e' m' i k = entry_boot_args e m' i k" for m' i k
    by (simp only: entry_boot_args_def assms(4))
  ultimately show ?case using Cons assms(3) by auto
qed simp

lemma check_templates_same:
  "length rs' = length rs \<Longrightarrow> check_url_templates rs ts = Inr () \<Longrightarrow> check_url_templates rs' ts = Inr ()"
  by (induction rs ts rule: check_url_templates.induct) (auto simp: rbind_eq_Inr split: if_splits)

text \<open>A member whose name does not start as a path from the archive's root does: one such prefix was taken off when it was checked.\<close>

fun rooted_members :: "boot_files \<Rightarrow> bool" where
  "rooted_members (Archive a k i) \<longleftrightarrow> \<not> prefix ''./'' k \<and> \<not> prefix ''./'' i"
| "rooted_members (Files k i) \<longleftrightarrow> True"

text \<open>The characters a pattern can match.\<close>

fun within :: "(char \<Rightarrow> bool) \<Rightarrow> rx \<Rightarrow> bool" where
  "within P (Cls Q) \<longleftrightarrow> (\<forall>c. Q c \<longrightarrow> P c)"
| "within P (Seq a b) \<longleftrightarrow> within P a \<and> within P b"
| "within P (Alt a b) \<longleftrightarrow> within P a \<and> within P b"
| "within P (Star r) \<longleftrightarrow> within P r"
| "within P (Grp k r) \<longleftrightarrow> within P r"
| "within P _ \<longleftrightarrow> True"

lemma mat_within: "mat r pre w post \<Longrightarrow> within P r \<Longrightarrow> list_all P w"
  by (induction rule: mat.induct) auto

lemma member_plain:
  assumes "re_fullmatch MEMBER_RE s \<noteq> None"
  shows "s \<noteq> []" "strip s = s" "one_line s"
proof -
  let ?P = "\<lambda>c. is_alnum c \<or> c \<in> set ''._+-/''"
  have m: "mat MEMBER_RE [] s []" using assms unfolding fullmatch_iff .
  have "within ?P MEMBER_RE" by (auto simp: MEMBER_RE_def plus1_def Let_def)
  with mat_within [OF m] have all: "list_all ?P s" by blast
  have "?P c \<Longrightarrow> \<not> py_space c \<and> \<not> is_control c" for c
    by (auto simp: is_alnum_def is_lower_def is_upper_def chr_in_def py_space_def is_control_def)
  with all have "list_all (\<lambda>c. \<not> py_space c) s" "list_all (\<lambda>c. \<not> is_control c) s" by (auto simp: list_all_iff)
  then show "strip s = s" "one_line s" by (simp_all add: strip_all one_line_def)
  show "s \<noteq> []" using m by (auto simp: MEMBER_RE_def plus1_def Let_def mat_simps)
qed

lemma member_again:
  assumes "entry_member raw key = Inr v" "\<not> prefix ''./'' v" "jget raw' key = Some (JStr v)"
  shows "entry_member raw' key = Inr v"
proof -
  obtain t where t: "entry_text raw key 255 True = Inr t" "v = removeprefix ''./'' t" "re_fullmatch MEMBER_RE v \<noteq> None" "\<not> split_dotdot v"
    using assms(1) by (auto simp: entry_member_def Let_def rbind_eq_Inr split: if_splits)
  note plain = member_plain [OF t(3)]
  have "length v \<le> 255" using entry_text_Inr(3) [OF t(1)] t(2) by (simp add: removeprefix_def split: if_splits)
  then have "entry_text raw' key 255 True = Inr v"
    using plain assms(3) by (simp add: entry_text_def Let_def one_line_def search_cls)
  with t(3,4) assms(2) show ?thesis by (simp add: entry_member_def removeprefix_def)
qed

section \<open>Properties\<close>

lemma jget_form_raw [simp]:
  "jget (form_raw f rels own) ''name'' = Some (JStr (ef_name f))"
  "jget (form_raw f rels own) ''default_mirror'' = Some (JStr (ef_mirror f))"
  "jget (form_raw f rels own) ''boot_args'' = Some (JStr (ef_args f))"
  "jget (form_raw f rels own) ''releases'' = Some (JList rels)"
  "jget (form_raw f rels [(''id'', j)]) ''id'' = Some j"
  "ef_kind f \<Longrightarrow> jget (form_raw f rels [(''id'', j)]) ''kernel_url'' = Some (JStr (ef_kurl f))"
  "ef_kind f \<Longrightarrow> jget (form_raw f rels [(''id'', j)]) ''initrd_url'' = Some (JStr (ef_iurl f))"
  "ef_kind f \<Longrightarrow> jget (form_raw f rels [(''id'', j)]) ''archive_url'' = None"
  "\<not> ef_kind f \<Longrightarrow> jget (form_raw f rels [(''id'', j)]) ''archive_url'' = Some (JStr (ef_archive f))"
  "\<not> ef_kind f \<Longrightarrow> jget (form_raw f rels [(''id'', j)]) ''kernel_member'' = Some (JStr (ef_kmember f))"
  "\<not> ef_kind f \<Longrightarrow> jget (form_raw f rels [(''id'', j)]) ''initrd_member'' = Some (JStr (ef_imember f))"
  "\<not> ef_kind f \<Longrightarrow> jget (form_raw f rels [(''id'', j)]) ''kernel_url'' = None"
  "\<not> ef_kind f \<Longrightarrow> jget (form_raw f rels [(''id'', j)]) ''initrd_url'' = None"
  by (simp_all add: form_raw_def jget_def)

lemma files_again:
  assumes "entry_files raw = Inr (fs, ts)" "rooted_members fs" "e_files e = fs"
  shows "entry_files (form_raw (entry_to_form e) rels [(''id'', j)]) = Inr (fs, url_templates fs)"
proof (cases fs)
  case (Archive a k i)
  with assms(1) have p: "entry_text raw ''archive_url'' 512 False = Inr a" "a \<noteq> []"
    "entry_member raw ''kernel_member'' = Inr k" "entry_member raw ''initrd_member'' = Inr i"
    by (auto simp: entry_files_def rbind_eq_Inr split: if_splits)
  let ?raw = "form_raw (entry_to_form e) rels [(''id'', j)]"
  have f: "\<not> ef_kind (entry_to_form e)" "ef_archive (entry_to_form e) = a" "ef_kmember (entry_to_form e) = k" "ef_imember (entry_to_form e) = i"
    using assms(3) Archive by (simp_all add: entry_to_form_def)
  have "entry_text ?raw ''archive_url'' 512 False = Inr a" using entry_text_again [OF p(1)] f by simp
  moreover have "entry_text ?raw ''kernel_url'' 512 False = Inr []" "entry_text ?raw ''initrd_url'' 512 False = Inr []"
    using f by (simp_all add: entry_text_absent)
  moreover have "entry_member ?raw ''kernel_member'' = Inr k" "entry_member ?raw ''initrd_member'' = Inr i"
    using member_again [OF p(3)] member_again [OF p(4)] assms(2) f Archive by simp_all
  ultimately show ?thesis using p(2) Archive by (simp add: entry_files_def)
next
  case (Files k i)
  with assms(1) have p: "entry_text raw ''kernel_url'' 512 False = Inr k" "k \<noteq> []" "entry_text raw ''initrd_url'' 512 False = Inr i" "i \<noteq> []"
    by (auto simp: entry_files_def rbind_eq_Inr split: if_splits)
  let ?raw = "form_raw (entry_to_form e) rels [(''id'', j)]"
  have f: "ef_kind (entry_to_form e)" "ef_kurl (entry_to_form e) = k" "ef_iurl (entry_to_form e) = i"
    using assms(3) Files by (simp_all add: entry_to_form_def)
  have "entry_text ?raw ''kernel_url'' 512 False = Inr k" "entry_text ?raw ''initrd_url'' 512 False = Inr i"
    using entry_text_again [OF p(1)] entry_text_again [OF p(3)] f by simp_all
  moreover have "entry_text ?raw ''archive_url'' 512 False = Inr []" using f by (simp add: entry_text_absent)
  ultimately show ?thesis using p(2,4) Files by (simp add: entry_files_def)
qed


lemma defaults_first_set: "set (defaults_first rs) = set rs"
  by (auto simp: defaults_first_def)




text \<open>A new entry gets an id that no built-in and no stored entry has, and replaces nothing; what is refused changes nothing.\<close>

lemma saved_entry_is_new:
  assumes "save_entry builtin saving f db = (db', r)"
  shows "(\<exists>x. r = Inl x) \<or> \<not> saving \<Longrightarrow> db' = db"
    "r = Inr e \<Longrightarrow> saving \<Longrightarrow> ef_original f = [] \<Longrightarrow>
       e_id e \<notin> set builtin \<and> e_id e \<notin> fst ` set db \<and> map_of db' = (map_of db)(e_id e \<mapsto> Some e)"
proof -
  show "(\<exists>x. r = Inl x) \<or> \<not> saving \<Longrightarrow> db' = db"
    using assms by (auto simp: save_entry_def split: sum.splits if_splits)
  assume r: "r = Inr e" "saving" "ef_original f = []"
  then have c: "checked_form builtin True db f = Inr e" "db' = store_entry e db"
    using assms by (auto simp: save_entry_def split: sum.splits)
  then obtain e0 i where i: "free_entry_id (builtin @ map fst db) (e_id e0) = Some i" "e = e0\<lparr>e_id := i\<rparr>"
    using r(3) by (auto simp: checked_form_def rbind_eq_Inr split: if_splits option.splits)
  have "i \<notin> set (builtin @ map fst db)"
    using first_free_Some [OF i(1) [unfolded free_entry_id_def]] by blast
  with i(2) c(2) show "e_id e \<notin> set builtin \<and> e_id e \<notin> fst ` set db \<and> map_of db' = (map_of db)(e_id e \<mapsto> Some e)"
    by (simp add: map_of_store_entry)
qed

text \<open>The preview of an entry that passed the check raises nothing: it has a row for each release.\<close>

lemma preview_total:
  assumes "validate_entry j = Inr e"
  shows "\<exists>rows. preview_entry check_url e = Inr rows \<and> map fst rows = map rel_id (e_releases e)"
proof -
  have cr: "check_releases e (url_templates (e_files e)) (e_releases e) = Inr ()" using validate_entry_Inr [OF assms] by metis
  have row: "\<exists>files args. preview_row check_url e r = Inr (rel_id r, files, args)" if here: "r \<in> set (e_releases e)" for r
  proof -
    have c: "check_urls (e_mirror e) (rel_id r) (url_templates (e_files e)) = Inr ()" using check_releases_Inr [OF cr here] by simp
    obtain args where args: "entry_boot_args e (e_mirror e) (rel_id r) 0 = Inr args" using check_releases_Inr [OF cr here] by auto
    have url: "\<exists>u. filled (url_args (e_mirror e) (rel_id r)) t = Inr u" if "(key, t) \<in> set (url_templates (e_files e))" for key t
      using check_urls_Inr [OF c that] by blast
    have "\<exists>urls. boot_file_urls e (e_mirror e) (rel_id r) = Inr urls"
    proof (cases "e_files e")
      case (Archive a k i)
      with url [of "''archive_url''" a] show ?thesis by (auto simp: boot_file_urls_def)
    next
      case (Files k i)
      with url [of "''kernel_url''" k] url [of "''initrd_url''" i] show ?thesis by (auto simp: boot_file_urls_def)
    qed
    with args show ?thesis by (auto simp: preview_row_def simp del: split_paired_Ex)
  qed
  have "\<exists>rows. rmap (preview_row check_url e) rs = Inr rows \<and> map fst rows = map rel_id rs" if "set rs \<subseteq> set (e_releases e)" for rs
    using that
  proof (induction rs)
    case (Cons r rs)
    then obtain rows where "rmap (preview_row check_url e) rs = Inr rows" "map fst rows = map rel_id rs" by auto
    moreover obtain files args where "preview_row check_url e r = Inr (rel_id r, files, args)" using row [of r] Cons.prems by auto
    ultimately show ?case by simp
  qed simp
  then show ?thesis unfolding preview_entry_def by simp
qed

text \<open>The check takes one leading dot and slash off a member; with two of them it stores a name that no archive member has.\<close>

lemma dotted_member_stored:
  "entry_member [(''kernel_member'', JStr ''././linux'')] ''kernel_member'' = Inr ''./linux''"
  by code_simp

end
