(* ===== verification/Drivers.thy ===== *)
theory Drivers
  imports Files Regex Media "HOL-Library.Word"
begin

text \<open>
  Driver packs (\<open>services/drivers.py\<close>, \<open>routers/drivers.py\<close>): the folders of Windows drivers that are
  uploaded as a zip or as loose files, fetched from the vendor, or deleted.

  The file system is a \<open>tree\<close> (Files.thy).  What the zip reader makes of an archive, what a request
  for an address answers, the SHA-256 digest, and what 7z unpacks are arguments.
\<close>

datatype driver_exn = DriverError string | Crash

section \<open>Names\<close>

definition unsafe_chr :: "char \<Rightarrow> bool" where
  "unsafe_chr c \<longleftrightarrow> code c < 32 \<or> c = CHR ''/'' \<or> c = CHR 0x5C"

definition pack_chr :: "char \<Rightarrow> bool" where
  "pack_chr c \<longleftrightarrow> is_alnum c \<or> c \<in> set ''._-''"

definition MAX_TOTAL_BYTES :: nat where "MAX_TOTAL_BYTES = 2 * 1024 ^ 3"
definition MAX_ENTRIES :: nat where "MAX_ENTRIES = 20000"
definition MAX_DOWNLOAD_BYTES :: nat where "MAX_DOWNLOAD_BYTES = 512 * 1024 ^ 2"

definition safe_pack_name :: "string \<Rightarrow> string" where
  "safe_pack_name name =
     (let s = strip_chars ''-._'' (sub_runs (\<lambda>c. \<not> pack_chr c) ''-'' name)
      in if s = [] then ''drivers'' else s)"

definition resolve_under :: "tree \<Rightarrow> path \<Rightarrow> path \<Rightarrow> driver_exn + path" where
  "resolve_under t root rel_parts =
     (case resolve t root of
        None \<Rightarrow> Inl Crash
      | Some root_r \<Rightarrow>
          (case resolve t (root_r @ rel_parts) of
             None \<Rightarrow> Inl Crash
           | Some dest \<Rightarrow>
               if prefix root_r dest then Inr dest
               else Inl (DriverError (''Archive contains an entry that escapes the drivers ''
                      @ ''folder; refusing to extract it.''))))"

fun clean_parts :: "string list \<Rightarrow> driver_exn + path" where
  "clean_parts [] = Inr []"
| "clean_parts (component # cs) =
     (let cleaned = strip (filter (\<lambda>c. \<not> unsafe_chr c) component)
      in if cleaned \<in> {[], ''.''} then clean_parts cs
         else if cleaned = ''..''
         then Inl (DriverError (''Refusing to unpack: this archive contains a path ''
                @ ''that points outside the drivers folder.''))
         else rbind (clean_parts cs) (\<lambda>ps. Inr (cleaned # ps)))"

definition member_parts :: "string \<Rightarrow> driver_exn + path" where
  "member_parts name = clean_parts (split_on CHR ''/'' (map (\<lambda>c. if c = CHR 0x5C then CHR ''/'' else c) name))"

definition member_path :: "tree \<Rightarrow> path \<Rightarrow> string \<Rightarrow> driver_exn + path option" where
  "member_path t dest filename =
     rbind (member_parts filename) (\<lambda>parts.
       if parts = [] then Inr None else rbind (resolve_under t dest [last parts]) (\<lambda>p. Inr (Some p)))"

record driver_dirs =
  SHARE_DIR :: path
  BOOT_DIR :: path

definition target_root :: "driver_dirs \<Rightarrow> string \<Rightarrow> driver_exn + path" where
  "target_root D target =
     (if target = ''boot'' then Inr (BOOT_DIR D)
      else if target = ''share'' then Inr (SHARE_DIR D)
      else Inl (DriverError ''Unknown driver target.''))"

definition pack_dir :: "tree \<Rightarrow> string \<Rightarrow> path \<Rightarrow> driver_exn + path" where
  "pack_dir t name root =
     rbind (member_parts name) (\<lambda>parts.
       if length parts \<noteq> 1 then Inl (DriverError ''Invalid driver folder name.'')
       else resolve_under t root parts)"

section \<open>Zip archives\<close>

text \<open>
  A member as the zip reader lists it: its name, the attribute word, the announced size, and what
  reading it gives: nothing, its bytes, or some bytes and then an error.
\<close>

datatype member_data = Unreadable | Bytes string | Broken string

record zinfo =
  z_name :: string
  z_attr :: "32 word"
  z_size :: nat
  z_data :: member_data

unbundle bit_operations_syntax

definition z_is_dir :: "zinfo \<Rightarrow> bool" where
  "z_is_dir i \<longleftrightarrow> suffix ''/'' (z_name i)"

definition z_is_link :: "zinfo \<Rightarrow> bool" where
  "z_is_link i \<longleftrightarrow> drop_bit 16 (z_attr i) AND 0xF000 = 0xA000"

fun parse_members :: "zinfo list \<Rightarrow> driver_exn + (path \<times> zinfo) list" where
  "parse_members [] = Inr []"
| "parse_members (i # infos) =
     (if z_is_link i then parse_members infos
      else rbind (member_parts (z_name i)) (\<lambda>parts. rbind (parse_members infos) (\<lambda>rest.
             Inr (if parts = [] then rest else (parts, i) # rest))))"

definition is_marker :: "(path \<times> zinfo) list \<Rightarrow> path \<times> zinfo \<Rightarrow> bool" where
  "is_marker parsed x \<longleftrightarrow> z_size (snd x) = 0 \<and> list_ex (\<lambda>q. strict_prefix (fst x) (fst q)) parsed"

text \<open>
  Writing one member, and all of them: the tree after the statements that ran, and what they raised;
  \<open>conflict\<close> is what a clash of files and directories becomes.
\<close>

definition write_member :: "driver_exn \<Rightarrow> path \<Rightarrow> path \<times> zinfo \<Rightarrow> tree \<Rightarrow> tree \<times> (driver_exn + nat)" where
  "write_member conflict dest x t =
     (case resolve_under t dest (fst x) of
        Inl e \<Rightarrow> (t, Inl e)
      | Inr out \<Rightarrow>
          (case mkdirs t (butlast out) of
             None \<Rightarrow> (t, Inl conflict)
           | Some t1 \<Rightarrow>
               (case z_data (snd x) of
                  Unreadable \<Rightarrow> (t1, Inl Crash)
                | Bytes s \<Rightarrow> (case write_file out s t1 of None \<Rightarrow> (t1, Inl conflict) | Some t2 \<Rightarrow> (t2, Inr 1))
                | Broken s \<Rightarrow> (case write_file out s t1 of None \<Rightarrow> (t1, Inl conflict) | Some t2 \<Rightarrow> (t2, Inl Crash)))))"

text \<open>A loop over the files to write, each of which reports how many it wrote.\<close>

fun write_all :: "('a \<Rightarrow> tree \<Rightarrow> tree \<times> (driver_exn + nat)) \<Rightarrow> 'a list \<Rightarrow> tree \<Rightarrow> tree \<times> (driver_exn + nat)" where
  "write_all step [] t = (t, Inr 0)"
| "write_all step (x # xs) t =
     (case step x t of
        (t1, Inl e) \<Rightarrow> (t1, Inl e)
      | (t1, Inr n) \<Rightarrow> (case write_all step xs t1 of
                        (t2, Inl e) \<Rightarrow> (t2, Inl e) | (t2, Inr k) \<Rightarrow> (t2, Inr (n + k))))"

definition extract_zip :: "tree \<Rightarrow> zinfo list option \<Rightarrow> path \<Rightarrow> tree \<times> (driver_exn + nat)" where
  "extract_zip t zf dest =
     (case zf of
        None \<Rightarrow> (t, Inl Crash)
      | Some infos \<Rightarrow>
          (let members = filter (\<lambda>i. \<not> z_is_dir i) infos
           in if length members > MAX_ENTRIES
              then (t, Inl (DriverError (''Archive holds more than '' @ show_nat MAX_ENTRIES
                     @ '' files; that isn'' @ [CHR 0x27] @ ''t a driver package.'')))
              else if sum_list (map z_size members) > MAX_TOTAL_BYTES
              then (t, Inl (DriverError (''Archive expands to more than 2 GB; ''
                     @ ''that isn'' @ [CHR 0x27] @ ''t a driver package.'')))
              else case parse_members members of
                     Inl e \<Rightarrow> (t, Inl e)
                   | Inr parsed \<Rightarrow>
                       (case write_all (write_member (DriverError (''Archive contains entries that conflict with ''
                               @ ''each other; refusing to extract it.'')) dest)
                               (filter (\<lambda>x. \<not> is_marker parsed x) parsed) t of
                          (t1, Inr 0) \<Rightarrow> (t1, Inl (DriverError ''Archive contained no usable files.''))
                        | r \<Rightarrow> r)))"

section \<open>Uploading and deleting\<close>

text \<open>What the page shows next; \<open>Done b\<close> says whether the Windows boot images are baked again.\<close>

datatype answer = Flash string | Crashed | Done bool

definition write_loose :: "path \<Rightarrow> string \<times> string \<Rightarrow> tree \<Rightarrow> tree \<times> (driver_exn + nat)" where
  "write_loose dest f t =
     (case member_path t dest (fst f) of
        Inl e \<Rightarrow> (t, Inl e)
      | Inr None \<Rightarrow> (t, Inr 0)
      | Inr (Some out) \<Rightarrow> (case write_file out (snd f) t of None \<Rightarrow> (t, Inl Crash) | Some t1 \<Rightarrow> (t1, Inr 1)))"

definition loose_files :: "path \<Rightarrow> (string \<times> string) list \<Rightarrow> tree \<Rightarrow> tree \<times> (driver_exn + nat)" where
  "loose_files dest fs t =
     (case write_all (write_loose dest) fs t of
        (t1, Inr 0) \<Rightarrow> (t1, Inl (DriverError ''No usable files in the selection.''))
      | r \<Rightarrow> r)"

definition pack_name_of :: "string \<Rightarrow> (string \<times> string) list \<Rightarrow> string" where
  "pack_name_of name files =
     safe_pack_name (if strip name = [] then name_stem (path_name (fst (hd files))) else strip name)"

definition upload ::
  "(string \<Rightarrow> zinfo list option) \<Rightarrow> driver_dirs \<Rightarrow> string \<Rightarrow> string \<Rightarrow> (string \<times> string) list \<Rightarrow> tree \<Rightarrow> tree \<times> answer" where
  "upload unzip D name target files t =
     (let files = filter (\<lambda>f. fst f \<noteq> []) files
      in if files = [] then (t, Flash ''No files selected.'')
      else
       (let is_zip = (length files = 1 \<and> suffix ''.zip'' (lower (fst (hd files))));
            pack_name = pack_name_of name files
        in case rbind (target_root D target) (pack_dir t pack_name) of
             Inl (DriverError msg) \<Rightarrow> (t, Flash msg)
           | Inl Crash \<Rightarrow> (t, Crashed)
           | Inr dest \<Rightarrow>
               if node_at t dest \<noteq> None
               then (t, Flash ([CHR 0xE2, CHR 0x80, CHR 0x9C] @ pack_name @ [CHR 0xE2, CHR 0x80, CHR 0x9D]
                      @ '' already exists. Delete it first, or upload under a different name.''))
               else case mkdirs t dest of
                      None \<Rightarrow> (t, Crashed)
                    | Some t1 \<Rightarrow>
                        (case (if is_zip then extract_zip t1 (unzip (snd (hd files))) dest
                               else loose_files dest files t1) of
                           (t2, Inr _) \<Rightarrow> (t2, Done (target = ''boot''))
                         | (t2, Inl (DriverError msg)) \<Rightarrow> (rmtree dest t2, Flash msg)
                         | (t2, Inl Crash) \<Rightarrow> (rmtree dest t2, Crashed))))"

definition delete_entry :: "tree \<Rightarrow> string \<Rightarrow> path \<Rightarrow> tree \<times> (driver_exn + unit)" where
  "delete_entry t name root =
     (case pack_dir t name root of
        Inl e \<Rightarrow> (t, Inl e)
      | Inr target \<Rightarrow>
          (case node_at t target of
             Some (Link _ _) \<Rightarrow> (filter (\<lambda>e. fst e \<noteq> target) t, Inr ())
           | Some Dir \<Rightarrow> (rmtree target t, Inr ())
           | Some (File _) \<Rightarrow> (filter (\<lambda>e. fst e \<noteq> target) t, Inr ())
           | None \<Rightarrow> (t, Inr ())))"

section \<open>Writing stays inside the folder\<close>

lemma clean_parts_Inr: "clean_parts cs = Inr ps \<Longrightarrow> list_all ordinary ps"
  by (induction cs arbitrary: ps) (auto simp: Let_def rbind_eq_Inr ordinary_def split: if_splits)

lemma member_parts_Inr: "member_parts name = Inr ps \<Longrightarrow> list_all ordinary ps"
  unfolding member_parts_def by (rule clean_parts_Inr)

lemma resolve_under_Inr:
  assumes "resolve_under t root rel_parts = Inr out"
  obtains r where "resolve t root = Some r" "prefix r out" "linkless t out" "list_all ordinary out"
  using assms unfolding resolve_under_def
  by (auto split: option.splits if_splits intro: resolve_linkless resolve_components)

text \<open>A directory, with all above it.\<close>

definition rooted :: "tree \<Rightarrow> path \<Rightarrow> bool" where
  "rooted t d \<longleftrightarrow> list_all ordinary d \<and> (\<forall>q. prefix q d \<longrightarrow> node_at t q = Some Dir)"

text \<open>Only what lies strictly below \<open>d\<close> differs, and no link is made or lost.\<close>

definition confined :: "path \<Rightarrow> tree \<Rightarrow> tree \<Rightarrow> bool" where
  "confined d t t' \<longleftrightarrow> (\<forall>p. node_at t' p \<noteq> node_at t p \<longrightarrow>
     strict_prefix d p \<and> \<not> is_link (node_at t p) \<and> \<not> is_link (node_at t' p))"

lemma rooted_linkless: "rooted t d \<Longrightarrow> linkless t d"
  by (simp add: rooted_def linkless_def)

lemma rooted_resolve: "rooted t d \<Longrightarrow> resolve t d = Some d"
  using resolve_ordinary [OF rooted_linkless] by (simp add: rooted_def)

lemma confined_refl [simp]: "confined d t t"
  by (simp add: confined_def)

lemma confined_trans: "confined d t1 t2 \<Longrightarrow> confined d t2 t3 \<Longrightarrow> confined d t1 t3"
  unfolding confined_def by metis

lemma rooted_confined: "rooted t d \<Longrightarrow> confined d t t' \<Longrightarrow> rooted t' d"
  unfolding rooted_def confined_def by (metis prefix_order.dual_order.strict_iff_not)

lemma resolve_under_rooted:
  assumes "rooted t d" "resolve_under t d ps = Inr out"
  shows "prefix d out" "linkless t out"
  using assms by (auto elim!: resolve_under_Inr simp: rooted_resolve)

lemma confined_mkdirs:
  assumes "rooted t d" "prefix d p" "mkdirs t p = Some t'"
  shows "confined d t t'"
proof (unfold confined_def, intro allI impI)
  fix q assume "node_at t' q \<noteq> node_at t q"
  then have q: "prefix q p" "node_at t q = None" "node_at t' q = Some Dir"
    using mkdirs_node [OF assms(3)] by (auto split: if_splits)
  then have "\<not> prefix q d" using assms(1) by (auto simp: rooted_def)
  moreover from this have "prefix d q" using prefix_same_cases [OF q(1) assms(2)] by simp
  ultimately show "strict_prefix d q \<and> \<not> is_link (node_at t q) \<and> \<not> is_link (node_at t' q)"
    using q(2,3) by (auto simp: strict_prefix_def)
qed

lemma confined_write:
  assumes "rooted t d" "prefix d p" "linkless t p" "write_file p s t = Some t'"
  shows "confined d t t'"
proof -
  have "node_at t d = Some Dir" using assms(1) by (simp add: rooted_def)
  then have "p \<noteq> d" using assms(4) by (auto simp: write_file_def split: if_splits)
  with assms show ?thesis by (auto simp: confined_def write_file_node [OF assms(4)] strict_prefix_def linkless_def)
qed

lemma prefix_butlast: "prefix d p \<Longrightarrow> p \<noteq> d \<Longrightarrow> prefix d (butlast p)"
  by (metis append_butlast_last_id butlast.simps(1) prefix_bot.extremum_uniqueI prefix_snoc)

text \<open>
  The contract of a step of an unpacking loop, which the members of a zip, the loose files of an upload
  and the files of a staged tree all meet: where \<open>pre\<close> holds of the folder, the step relates the trees
  by \<open>rel\<close> (say, that they agree outside the folder), and \<open>pre\<close> holds again.
\<close>

locale packer =
  fixes step :: "path \<Rightarrow> 'a \<Rightarrow> tree \<Rightarrow> tree \<times> (driver_exn + nat)"
    and pre :: "path \<Rightarrow> tree \<Rightarrow> bool"
    and rel :: "path \<Rightarrow> tree \<Rightarrow> tree \<Rightarrow> bool"
  assumes step_rel: "pre d t \<Longrightarrow> rel d t (fst (step d x t))"
    and pre_rel: "pre d t \<Longrightarrow> rel d t t' \<Longrightarrow> pre d t'"
    and rel_refl: "rel d t t"
    and rel_trans: "rel d t t' \<Longrightarrow> rel d t' t'' \<Longrightarrow> rel d t t''"
begin

lemma all_rel: "pre d t \<Longrightarrow> rel d t (fst (write_all (step d) xs t))"
proof (induction xs arbitrary: t)
  case (Cons x xs)
  obtain t1 r where s: "step d x t = (t1, r)" by fastforce
  then have c: "rel d t t1" using step_rel [OF Cons.prems, of x] by simp
  then have "rel d t (fst (write_all (step d) xs t1))"
    using rel_trans Cons.IH pre_rel [OF Cons.prems] by blast
  with c s show ?case by (auto split: sum.splits prod.splits)
qed (simp add: rel_refl)

lemma run_rel: "pre d t \<Longrightarrow> write_all (step d) xs t = (t', res) \<Longrightarrow> rel d t t'"
  using all_rel [of d t xs] by simp

end

lemma write_member_confined: "rooted t d \<Longrightarrow> confined d t (fst (write_member conflict d x t))"
proof (cases "resolve_under t d (fst x)")
  case (Inr out)
  assume root: "rooted t d"
  note out = resolve_under_rooted [OF root Inr]
  show ?thesis
  proof (cases "mkdirs t (butlast out)")
    case (Some t1)
    show ?thesis
    proof (cases "out = d")
      case True
      have "prefix (butlast out) out" by (cases out rule: rev_cases) auto
      then have same: "node_at t1 q = node_at t q" for q
        using mkdirs_node [OF Some, of q] root True by (auto simp: rooted_def dest: prefix_order.trans)
      then have "confined d t t1" by (simp add: confined_def)
      moreover have "write_file out s t1 = None" for s
        using same [of out] True root by (auto simp: write_file_def rooted_def)
      ultimately show ?thesis by (simp add: write_member_def Inr Some split: member_data.split)
    next
      case False
      then have c: "confined d t t1" using confined_mkdirs [OF root prefix_butlast [OF out(1)] Some] by simp
      have "linkless t1 out" using out(2) c unfolding linkless_def confined_def by metis
      then have "write_file out s t1 = Some t2 \<Longrightarrow> confined d t t2" for s t2
        using confined_trans [OF c] confined_write [OF rooted_confined [OF root c] out(1)] by blast
      with c show ?thesis by (auto simp: write_member_def Inr Some split: member_data.split option.split)
    qed
  qed (simp add: write_member_def Inr)
qed (simp add: write_member_def)

lemma write_loose_confined: "rooted t d \<Longrightarrow> confined d t (fst (write_loose d f t))"
  unfolding write_loose_def member_path_def
  by (auto simp: rbind_eq_Inr split: sum.split option.split if_splits
      intro: confined_write dest: resolve_under_rooted)

interpretation zip: packer "write_member conflict" "\<lambda>d t. rooted t d" confined for conflict
  by unfold_locales (auto intro: write_member_confined rooted_confined confined_trans)

interpretation loose: packer write_loose "\<lambda>d t. rooted t d" confined
  by unfold_locales (auto intro: write_loose_confined rooted_confined confined_trans)

section \<open>The name of a pack\<close>

lemma pack_chr_safe: "pack_chr c \<Longrightarrow> \<not> unsafe_chr c" "pack_chr c \<Longrightarrow> \<not> py_space c"
  by (auto simp: pack_chr_def unsafe_chr_def py_space_def is_alnum_def is_lower_def is_upper_def chr_in_def)

lemma safe_pack_name_chars: "list_all pack_chr (safe_pack_name name)" "safe_pack_name name \<noteq> []"
  "hd (safe_pack_name name) \<notin> set ''-._''"
proof -
  let ?s = "sub_runs (\<lambda>c. \<not> pack_chr c) ''-'' name"
  have kept: "c \<in> set (strip_chars ''-._'' ?s) \<Longrightarrow> pack_chr c" for c
    using sub_runs_keeps [of c "\<lambda>c. \<not> pack_chr c" "''-''" name]
    by (auto simp: strip_chars_def lstrip_chars_def rstrip_chars_def pack_chr_def dest!: set_dropWhileD)
  have head: "hd (strip_chars cs s) \<notin> set cs" if "strip_chars cs s \<noteq> []" for cs s
  proof -
    let ?u = "dropWhile (\<lambda>c. c \<in> set cs) s"
    obtain w where w: "?u = strip_chars cs s @ w"
      unfolding strip_chars_def lstrip_chars_def rstrip_chars_def
      by (metis rev_append rev_rev_ident takeWhile_dropWhile_id)
    with that have "hd (strip_chars cs s) = hd ?u" "?u \<noteq> []" by auto
    with hd_dropWhile [of "\<lambda>c. c \<in> set cs" s] show ?thesis by simp
  qed
  show "list_all pack_chr (safe_pack_name name)"
    using kept by (auto simp: safe_pack_name_def Let_def list_all_iff)
      (auto simp: pack_chr_def is_alnum_def is_lower_def chr_in_def)
  show "safe_pack_name name \<noteq> []" by (simp add: safe_pack_name_def Let_def)
  show "hd (safe_pack_name name) \<notin> set ''-._''"
    using head [of "''-._''" ?s] by (auto simp: safe_pack_name_def Let_def)
qed

text \<open>The name Beacon chooses is always one the guard accepts, and stays as it is.\<close>

lemma member_parts_pack: "member_parts (safe_pack_name name) = Inr [safe_pack_name name]"
proof -
  let ?s = "safe_pack_name name"
  have chars: "c \<in> set ?s \<Longrightarrow> pack_chr c" for c using safe_pack_name_chars(1) by (simp add: list_all_iff)
  have "map (\<lambda>c. if c = CHR 0x5C then CHR ''/'' else c) ?s = ?s"
    using chars pack_chr_safe(1) by (intro map_idI) (auto simp: unsafe_chr_def)
  moreover have "CHR ''/'' \<notin> set ?s" using chars pack_chr_safe(1) by (auto simp: unsafe_chr_def)
  moreover have "filter (\<lambda>c. \<not> unsafe_chr c) ?s = ?s" using chars pack_chr_safe(1) by (simp add: filter_id_conv)
  moreover have "strip ?s = ?s" using chars pack_chr_safe(2) by (simp add: strip_all list_all_iff)
  moreover have "?s \<notin> {[], ''.'', ''..''}" using safe_pack_name_chars(2,3) [of name] by auto
  ultimately show ?thesis by (simp add: member_parts_def split_on_no_sep Let_def)
qed

lemma pack_dir_fresh:
  assumes "resolve t root = Some r" "\<not> is_link (node_at t (r @ [safe_pack_name name]))"
  shows "pack_dir t (safe_pack_name name) root = Inr (r @ [safe_pack_name name])"
proof -
  have "linkless t (r @ [safe_pack_name name])" using assms resolve_linkless by (simp add: linkless_snoc)
  moreover have "list_all ordinary (r @ [safe_pack_name name])"
    using resolve_components [OF assms(1)] member_parts_Inr [OF member_parts_pack] by simp
  ultimately show ?thesis
    using assms(1) by (simp add: pack_dir_def member_parts_pack resolve_under_def resolve_ordinary)
qed

section \<open>Uploading\<close>

lemma extract_zip_confined: "rooted t d \<Longrightarrow> confined d t (fst (extract_zip t zf d))"
  unfolding extract_zip_def Let_def
  by (auto split: option.split sum.splits prod.splits nat.splits intro: zip.run_rel)

lemma loose_files_confined: "rooted t d \<Longrightarrow> confined d t (fst (loose_files d fs t))"
  unfolding loose_files_def by (auto split: prod.splits sum.splits nat.splits intro: loose.run_rel)

lemma grounded_rooted: "grounded t \<Longrightarrow> node_at t d = Some Dir \<Longrightarrow> list_all ordinary d \<Longrightarrow> rooted t d"
  unfolding rooted_def using grounded_prefix [of t d] by (metis option.distinct(1) strict_prefix_def)

text \<open>A new folder: made, filled and removed again, the tree is as it was.\<close>

lemma new_folder:
  assumes "grounded t" "rooted t r" "ordinary n" "node_at t (r @ [n]) = None"
  shows "\<exists>t1. mkdirs t (r @ [n]) = Some t1 \<and> rooted t1 (r @ [n])
    \<and> (\<forall>p. node_at t1 p = (if p = r @ [n] then Some Dir else node_at t p))"
proof -
  have dirs: "node_at t q = Some Dir" if "strict_prefix q (r @ [n])" for q
    using that assms(2) by (auto simp: rooted_def strict_prefix_def prefix_snoc)
  then have "node_at t q \<in> {None, Some Dir}" if "prefix q (r @ [n])" for q
    using that assms(4) by (cases "q = r @ [n]") (auto simp: strict_prefix_def)
  then obtain t1 where t1: "mkdirs t (r @ [n]) = Some t1" using mkdirs_ok by blast
  have nodes: "node_at t1 p = (if p = r @ [n] then Some Dir else node_at t p)" for p
    using mkdirs_node [OF t1, of p] assms(4) dirs [of p] by (cases "p = r @ [n]") (auto simp: strict_prefix_def)
  then have "rooted t1 (r @ [n])" using assms(2,3) dirs by (auto simp: rooted_def strict_prefix_def)
  with t1 nodes show ?thesis by blast
qed

lemma undo_folder:
  assumes "grounded t" "node_at t d = None" "\<And>p. node_at t1 p = (if p = d then Some Dir else node_at t p)"
    "confined d t1 t2" "d \<noteq> []"
  shows "node_at (rmtree d t2) p = node_at t p"
proof (cases "prefix d p")
  case True
  then show ?thesis using grounded_empty [OF assms(1,2)] assms(5) by (simp add: node_at_rmtree)
next
  case False
  then have "node_at t2 p = node_at t1 p" using assms(4) by (auto simp: confined_def strict_prefix_def)
  with False assms(3) show ?thesis by (auto simp: node_at_rmtree assms(5))
qed

text \<open>C11. An upload touches nothing but its own new folder, whatever the archive or the file names hold: when
  it succeeds the folder is new, directly inside the folder of the target, and every other path is as before;
  when it fails in any way, a crash of the request included, all paths are as before and no part of it is left.\<close>

theorem upload_stays_inside:
  assumes "grounded t" "target_root D target = Inr root" "resolve t root = Some r" "node_at t r = Some Dir"
    "d = r @ [pack_name_of name (filter (\<lambda>f. fst f \<noteq> []) files)]" "\<not> is_link (node_at t d)"
  shows "case upload unzip D name target files t of
      (t', Done rebake) \<Rightarrow> rebake = (target = ''boot'') \<and> node_at t d = None \<and> node_at t' d = Some Dir
        \<and> (prefix d p \<or> node_at t' p = node_at t p)
    | (t', _) \<Rightarrow> node_at t' p = node_at t p"
proof (cases "filter (\<lambda>f. fst f \<noteq> []) files = [] \<or> node_at t d \<noteq> None")
  case True
  then show ?thesis
    using assms(2,3,5,6) pack_dir_fresh by (auto simp: upload_def Let_def pack_name_of_def)
next
  case False
  let ?files = "filter (\<lambda>f. fst f \<noteq> []) files"
  have dest: "pack_dir t (pack_name_of name ?files) root = Inr d"
    using pack_dir_fresh assms(3,5,6) by (simp add: pack_name_of_def)
  have "rooted t r" using grounded_rooted assms(1,3,4) resolve_components by blast
  moreover have "ordinary (pack_name_of name ?files)"
    using member_parts_Inr [OF member_parts_pack] by (simp add: pack_name_of_def)
  ultimately obtain t1 where t1: "mkdirs t d = Some t1" "rooted t1 d"
      "\<And>p. node_at t1 p = (if p = d then Some Dir else node_at t p)"
    using new_folder [OF assms(1)] False assms(5) by blast
  define is_zip where "is_zip = (length ?files = 1 \<and> suffix ''.zip'' (lower (fst (hd ?files))))"
  obtain t2 res where w: "(if is_zip then extract_zip t1 (unzip (snd (hd ?files))) d else loose_files d ?files t1) = (t2, res)"
    by fastforce
  have c: "confined d t1 t2"
    using extract_zip_confined [OF t1(2), of "unzip (snd (hd ?files))"] loose_files_confined [OF t1(2), of ?files] w
    by (auto split: if_splits)
  have undone: "node_at (rmtree d t2) p = node_at t p" for p
    by (rule undo_folder [OF assms(1) _ t1(3) c]) (use False assms(5) in auto)
  have "node_at t2 d = Some Dir" using rooted_confined [OF t1(2) c] by (simp add: rooted_def)
  moreover have "prefix d p \<or> node_at t2 p = node_at t p"
  proof (rule disjCI)
    assume "\<not> node_at t2 p = node_at t p"
    then show "prefix d p" using c t1(3) [of p] by (cases "p = d") (auto simp: confined_def strict_prefix_def)
  qed
  moreover have "upload unzip D name target files t =
      (case res of Inr _ \<Rightarrow> (t2, Done (target = ''boot''))
       | Inl (DriverError msg) \<Rightarrow> (rmtree d t2, Flash msg) | Inl Crash \<Rightarrow> (rmtree d t2, Crashed))"
    using False assms(2) dest t1(1) w unfolding upload_def Let_def is_zip_def [symmetric]
    by (simp split: sum.split driver_exn.split)
  ultimately show ?thesis using undone False by (simp split: sum.split driver_exn.split)
qed

lemma groundedI: "list_all (\<lambda>e. node_at t (butlast (fst e)) = Some Dir) t \<Longrightarrow> grounded t"
proof (unfold grounded_def, intro allI impI)
  fix p assume t: "list_all (\<lambda>e. node_at t (butlast (fst e)) = Some Dir) t" and p: "node_at t p \<noteq> None"
  show "node_at t (butlast p) = Some Dir"
  proof (cases "p = []")
    case False
    then obtain n where "(p, n) \<in> set t" using p by (auto simp: node_at_def dest: map_of_SomeD)
    with t show ?thesis by (auto simp: list_all_iff)
  qed simp
qed

definition share_tree :: tree where
  "share_tree = [([''smb''], Dir), ([''smb'', ''drivers''], Dir), ([''smb'', ''7''], Dir),
     ([''smb'', ''7'', ''install.wim''], File ''wim'')]"

definition a_dirs :: driver_dirs where
  "a_dirs = \<lparr>SHARE_DIR = [''smb'', ''drivers''], BOOT_DIR = [''nic'']\<rparr>"

definition zip_file :: "string \<Rightarrow> string \<Rightarrow> zinfo" where
  "zip_file name s = \<lparr>z_name = name, z_attr = 0x81A40000, z_size = length s, z_data = Bytes s\<rparr>"

text \<open>An archive as Windows tools write it, with a directory marker, and one that climbs out.\<close>

definition good_zip :: "zinfo list" where
  "good_zip = [zip_file ''iastor'' [], zip_file (''iastor'' @ [CHR 0x5C] @ ''a.inf'') ''inf'', zip_file ''/iastor/./a.sys'' ''sys'']"

definition hostile_zip :: "zinfo list" where
  "hostile_zip = [zip_file ''a.inf'' ''inf'', zip_file ''../../7/install.wim'' ''evil'']"

theorem upload_stays_inside_witness:
  "case upload (\<lambda>s. Some (if s = [] then hostile_zip else good_zip)) a_dirs ''Intel (RST)'' ''share'' [(''x.zip'', ''PK'')] share_tree of
      (t', Done rebake) \<Rightarrow> rebake = (''share'' = ''boot'') \<and> node_at share_tree [''smb'', ''drivers'', ''Intel-RST''] = None
        \<and> node_at t' [''smb'', ''drivers'', ''Intel-RST''] = Some Dir
        \<and> (prefix [''smb'', ''drivers'', ''Intel-RST''] [''smb'', ''7'', ''install.wim'']
           \<or> node_at t' [''smb'', ''7'', ''install.wim''] = node_at share_tree [''smb'', ''7'', ''install.wim''])
    | (t', _) \<Rightarrow> node_at t' [''smb'', ''7'', ''install.wim''] = node_at share_tree [''smb'', ''7'', ''install.wim'']"
  by (rule upload_stays_inside [where r = "[''smb'', ''drivers'']" and root = "[''smb'', ''drivers'']"])
    (rule groundedI, code_simp+)

section \<open>What an unpacked pack holds\<close>

fun bytes_of :: "member_data \<Rightarrow> string" where
  "bytes_of (Bytes s) = s"
| "bytes_of (Broken s) = s"
| "bytes_of Unreadable = []"

text \<open>
  The folder the members \<open>xs\<close> describe: at each path the last member of that name, and a directory
  above every member.
\<close>

definition described :: "(path \<times> zinfo) list \<Rightarrow> path \<Rightarrow> node option" where
  "described xs q =
     (case find (\<lambda>x. fst x = q) (rev xs) of
        Some x \<Rightarrow> Some (File (bytes_of (z_data (snd x))))
      | None \<Rightarrow> if list_ex (\<lambda>x. strict_prefix q (fst x)) xs then Some Dir else None)"

lemma described_snoc:
  "described (xs @ [x]) q = (if fst x = q then Some (File (bytes_of (z_data (snd x))))
     else if strict_prefix q (fst x) \<and> described xs q = None then Some Dir else described xs q)"
  by (auto simp: described_def find_append split: option.split)

definition holds :: "tree \<Rightarrow> path \<Rightarrow> (path \<times> zinfo) list \<Rightarrow> bool" where
  "holds t d xs \<longleftrightarrow> (\<forall>q. q \<noteq> [] \<longrightarrow> node_at t (d @ q) = described xs q)"

lemma described_no_link: "\<not> is_link (described xs q)"
  by (auto simp: described_def split: option.split)

lemma write_member_holds:
  assumes root: "rooted t d" and have_xs: "holds t d xs" and x: "fst x \<noteq> []" "list_all ordinary (fst x)"
    and w: "write_member conflict d x t = (t', Inr n)"
  shows "holds t' d (xs @ [x])" "n = 1" "\<exists>s. z_data (snd x) = Bytes s"
proof -
  let ?out = "d @ fst x"
  have "linkless t ?out"
    unfolding linkless_def
  proof (intro allI impI)
    fix q assume "prefix q ?out"
    then have "prefix q d \<or> (\<exists>r. q = d @ r \<and> r \<noteq> [])" by (metis append_Nil2 prefix_append prefix_order.refl)
    then show "\<not> is_link (node_at t q)"
      using root have_xs by (auto simp: rooted_def holds_def described_no_link)
  qed
  then have "resolve_under t d (fst x) = Inr ?out"
    using root x(2) by (simp add: resolve_under_def rooted_resolve resolve_ordinary rooted_def)
  then obtain t1 s where t1: "mkdirs t (butlast ?out) = Some t1" "z_data (snd x) = Bytes s"
      "write_file ?out s t1 = Some t'" and n: "n = 1"
    using w by (auto simp: write_member_def split: option.splits member_data.splits)
  have "node_at t' (d @ q) = described (xs @ [x]) q" if q: "q \<noteq> []" for q
  proof (cases "q = fst x")
    case False
    have "prefix (d @ q) (butlast ?out) \<longleftrightarrow> strict_prefix q (fst x)"
      using x(1) False by (auto simp: butlast_append strict_prefix_def prefix_butlast intro: prefix_order.trans [OF _ prefixeq_butlast])
    then show ?thesis
      using False q have_xs by (auto simp: write_file_node [OF t1(3)] mkdirs_node [OF t1(1)] described_snoc holds_def)
  qed (simp add: write_file_node [OF t1(3)] described_snoc t1(2))
  then show "holds t' d (xs @ [x])" by (simp add: holds_def)
  show "n = 1" "\<exists>s. z_data (snd x) = Bytes s" using n t1(2) by auto
qed

lemma write_all_holds:
  "rooted t d \<Longrightarrow> holds t d xs \<Longrightarrow> list_all (\<lambda>x. fst x \<noteq> [] \<and> list_all ordinary (fst x)) ys \<Longrightarrow>
     write_all (write_member conflict d) ys t = (t', Inr n) \<Longrightarrow>
     holds t' d (xs @ ys) \<and> n = length ys \<and> list_all (\<lambda>y. \<exists>s. z_data (snd y) = Bytes s) ys"
proof (induction ys arbitrary: t xs n)
  case (Cons y ys)
  obtain t1 k j where w: "write_member conflict d y t = (t1, Inr k)"
      "write_all (write_member conflict d) ys t1 = (t', Inr j)" "n = k + j"
    using Cons.prems(4) by (auto split: prod.splits sum.splits)
  have y: "fst y \<noteq> []" "list_all ordinary (fst y)" using Cons.prems(3) by auto
  note step = write_member_holds [OF Cons.prems(1,2) y w(1)]
  have "rooted t1 d" using rooted_confined [OF Cons.prems(1)] write_member_confined [OF Cons.prems(1), of conflict y] w(1) by simp
  then show ?case using Cons.IH [OF _ step(1) _ w(2)] Cons.prems(3) step(2,3) w(3) by auto
qed simp

lemma parse_members_Inr:
  "parse_members infos = Inr parsed \<Longrightarrow> list_all (\<lambda>x. fst x \<noteq> [] \<and> list_all ordinary (fst x)) parsed"
  by (induction infos arbitrary: parsed) (auto simp: rbind_eq_Inr member_parts_Inr split: if_splits)

lemma below_none:
  assumes "below t d = []" "q \<noteq> []"
  shows "node_at t (d @ q) = None"
proof (rule ccontr)
  assume "node_at t (d @ q) \<noteq> None"
  then obtain n where "(d @ q, n) \<in> set t" using assms(2) by (auto simp: node_at_def dest: map_of_SomeD)
  moreover have "strict_prefix d (d @ q)" using assms(2) by (simp add: strict_prefix_def)
  ultimately show False using assms(1) by (force simp: below_def filter_empty_conv)
qed



section \<open>Deleting\<close>

text \<open>A pack is removed with all it holds, and nothing else.\<close>

lemma delete_entry_removes:
  assumes "grounded t" "resolve t root = Some r" "\<not> is_link (node_at t (r @ [safe_pack_name name]))"
    "delete_entry t (safe_pack_name name) root = (t', Inr ())"
  shows "node_at t' p = (if prefix (r @ [safe_pack_name name]) p then None else node_at t p)"
proof -
  let ?d = "r @ [safe_pack_name name]"
  have gone: "node_at (filter (\<lambda>e. fst e \<noteq> ?d) t) p = (if p = ?d then None else node_at t p)"
    by (induction t) (auto simp: node_at_def)
  have kids: "node_at t ?d \<noteq> Some Dir \<Longrightarrow> strict_prefix ?d p \<Longrightarrow> node_at t p = None"
    using grounded_prefix [OF assms(1)] by blast
  have "pack_dir t (safe_pack_name name) root = Inr ?d" using pack_dir_fresh assms(2,3) by blast
  with assms(3,4) gone kids grounded_empty [OF assms(1), of ?d p] show ?thesis
    by (auto simp: delete_entry_def node_at_rmtree strict_prefix_def split: option.splits node.splits)
qed

text \<open>
  The name is resolved before it is looked at, so the branch that unlinks a symbolic link is never
  taken: deleting a link removes what it points to, up to the whole drivers folder.
\<close>

lemma delete_follows_link:
  assumes "delete_entry t name root = (t', Inr ())"
  shows "\<exists>r d. resolve t root = Some r \<and> prefix r d \<and> \<not> is_link (node_at t d)
    \<and> (t' = t \<or> t' = rmtree d t \<or> t' = filter (\<lambda>e. fst e \<noteq> d) t)"
proof (cases "pack_dir t name root")
  case (Inr d)
  then obtain ps where "resolve_under t root ps = Inr d" by (auto simp: pack_dir_def rbind_eq_Inr split: if_splits)
  then obtain r where "resolve t root = Some r" "prefix r d" "linkless t d" by (rule resolve_under_Inr)
  moreover have "t' = t \<or> t' = rmtree d t \<or> t' = filter (\<lambda>e. fst e \<noteq> d) t"
    using assms Inr by (auto simp: delete_entry_def split: option.splits node.splits)
  ultimately show ?thesis by (metis linkless_def prefix_order.refl)
qed (use assms in \<open>simp add: delete_entry_def\<close>)

lemma delete_of_a_link_empties_the_share:
  "(let t = ([''smb'', ''drivers'', ''all''], Link False [''.'']) # share_tree
    in case delete_entry t ''all'' [''smb'', ''drivers''] of
         (t', Inr _) \<Rightarrow> node_at t' [''smb'', ''drivers''] = None | (t', Inl e) \<Rightarrow> False)"
  by code_simp

end
