(* ===== verification/DriverFetch.thy ===== *)
theory DriverFetch
  imports Drivers
begin

text \<open>
  Fetching a driver pack from its vendor (\<open>fetch_pack\<close> and its helpers in \<open>services/drivers.py\<close>): every
  part is downloaded and compared with its pinned digest, unpacked beside the drivers folder, and only
  then copied into place.
\<close>

section \<open>Downloading a part\<close>

datatype fetch_error = UrlError string | Timeout | OtherError

text \<open>What a request gives: an error, or the chunks read and the error that ended the reading, if any.\<close>

datatype fetched = NoAnswer fetch_error | Answer "string list" "fetch_error option"

definition raised :: "fetch_error \<Rightarrow> driver_exn" where
  "raised e =
     (case e of
        UrlError reason \<Rightarrow> DriverError (''Download failed ('' @ reason @ ''). The Beacon host ''
          @ ''needs internet access to fetch drivers '' @ [CHR 0xE2, CHR 0x80, CHR 0x94] @ '' on an offline network, ''
          @ ''download the package elsewhere and upload it here instead.'')
      | Timeout \<Rightarrow> DriverError (''Download timed out. Check the Beacon host'' @ [CHR 0x27] @ ''s ''
          @ ''internet access and try again.'')
      | OtherError \<Rightarrow> Crash)"

fun read_chunks :: "nat \<Rightarrow> string \<Rightarrow> string list \<Rightarrow> fetch_error option \<Rightarrow> driver_exn + string" where
  "read_chunks cap got [] ending = (case ending of None \<Rightarrow> Inr got | Some e \<Rightarrow> Inl (raised e))"
| "read_chunks cap got (chunk # cs) ending =
     (if cap < length (got @ chunk)
      then Inl (DriverError (''Download exceeded the size limit; '' @ ''refusing to continue.''))
      else read_chunks cap (got @ chunk) cs ending)"

text \<open>The bytes written to the archive file; the code returns their digest.\<close>

definition download_part :: "(string \<Rightarrow> string \<Rightarrow> fetched) \<Rightarrow> string \<Rightarrow> string \<Rightarrow> driver_exn + string" where
  "download_part get url referer =
     (if \<not> prefix ''https://'' (lower url) then Inl (DriverError ''Driver pack URLs must be https.'')
      else case get url referer of
             NoAnswer e \<Rightarrow> Inl (raised e)
           | Answer chunks ending \<Rightarrow> read_chunks MAX_DOWNLOAD_BYTES [] chunks ending)"

section \<open>Unpacking a part\<close>

text \<open>What 7z writes below its output folder, or its error text.\<close>

definition extract_archive :: "(string \<Rightarrow> string + tree) \<Rightarrow> string \<Rightarrow> path \<Rightarrow> tree \<Rightarrow> tree \<times> (driver_exn + unit)" where
  "extract_archive seven_zip archive dest t =
     (case mkdirs t dest of
        None \<Rightarrow> (t, Inl Crash)
      | Some t1 \<Rightarrow>
          (case seven_zip archive of
             Inl err \<Rightarrow> (t1, Inl (DriverError (''Could not unpack the downloaded driver package: '' @ err)))
           | Inr nodes \<Rightarrow> (map (\<lambda>(p, n). (dest @ p, n)) nodes @ t1, Inr ())))"

definition wanted_prefix :: "path list \<Rightarrow> path \<Rightarrow> bool" where
  "wanted_prefix want parts \<longleftrightarrow> want = [] \<or> list_ex (\<lambda>w. prefix w (map lower parts)) want"

definition extract_zip_subset ::
  "tree \<Rightarrow> zinfo list option \<Rightarrow> path \<Rightarrow> string list \<Rightarrow> tree \<times> (driver_exn + nat)" where
  "extract_zip_subset t zf dest included =
     (case rmap member_parts included of
        Inl e \<Rightarrow> (t, Inl e)
      | Inr want \<Rightarrow>
          (case zf of
             None \<Rightarrow> (t, Inl Crash)
           | Some infos \<Rightarrow>
               (case parse_members (filter (\<lambda>i. \<not> z_is_dir i) infos) of
                  Inl e \<Rightarrow> (t, Inl e)
                | Inr all_members \<Rightarrow>
                    (let parsed = filter (\<lambda>x. wanted_prefix (map (map lower) want) (fst x)) all_members
                     in if length parsed > MAX_ENTRIES
                        then (t, Inl (DriverError ''Archive holds too many files; refusing it.''))
                        else if sum_list (map (\<lambda>x. z_size (snd x)) parsed) > MAX_TOTAL_BYTES
                        then (t, Inl (DriverError ''Archive expands too large; refusing it.''))
                        else write_all (write_member Crash dest) (filter (\<lambda>x. \<not> is_marker parsed x) parsed) t))))"

section \<open>Staging a pack\<close>

fun path_le :: "path \<Rightarrow> path \<Rightarrow> bool" where
  "path_le [] q = True"
| "path_le (c # p) [] = False"
| "path_le (c # p) (d # q) = (c \<noteq> d \<and> str_le c d \<or> c = d \<and> path_le p q)"

text \<open>One path of the staged tree: a regular file is copied under its cleaned path.\<close>

definition install_file :: "path \<Rightarrow> path \<Rightarrow> path \<Rightarrow> tree \<Rightarrow> tree \<times> (driver_exn + nat)" where
  "install_file src dest p t =
     (case node_at t p of
        Some (File s) \<Rightarrow>
          (case member_parts (join ''/'' (drop (length src) p)) of
             Inl e \<Rightarrow> (t, Inl e)
           | Inr parts \<Rightarrow>
               if parts = [] then (t, Inr 0)
               else case resolve_under t dest parts of
                      Inl e \<Rightarrow> (t, Inl e)
                    | Inr out \<Rightarrow>
                        (case mkdirs t (butlast out) of
                           None \<Rightarrow> (t, Inl Crash)
                         | Some t1 \<Rightarrow>
                             (case write_file out s t1 of None \<Rightarrow> (t1, Inl Crash) | Some t2 \<Rightarrow> (t2, Inr 1))))
      | _ \<Rightarrow> (t, Inr 0))"

definition install_tree :: "path \<Rightarrow> path \<Rightarrow> tree \<Rightarrow> tree \<times> (driver_exn + nat)" where
  "install_tree src dest t = write_all (install_file src dest) (sort_by path_le (below t src)) t"

record part =
  part_url :: string
  part_referer :: string
  part_sha256 :: string
  part_name :: string
  part_include :: "string list"

record pack =
  pack_id :: string
  pack_title :: string
  pack_target :: string
  pack_files :: "part list"

text \<open>What a fetch uses of the outside: the network, the digest, the zip reader, and 7z.\<close>

record vendor =
  get :: "string \<Rightarrow> string \<Rightarrow> fetched"
  sha256 :: "string \<Rightarrow> string"
  unzip :: "string \<Rightarrow> zinfo list option"
  seven_zip :: "string \<Rightarrow> string + tree"

definition stage_part :: "vendor \<Rightarrow> string \<Rightarrow> path \<Rightarrow> nat \<Rightarrow> part \<Rightarrow> tree \<Rightarrow> tree \<times> (driver_exn + unit)" where
  "stage_part V title staging i part t =
     (case download_part (get V) (part_url part) (part_referer part) of
        Inl e \<Rightarrow> (t, Inl e)
      | Inr archive \<Rightarrow>
          if sha256 V archive \<noteq> lower (part_sha256 part)
          then (t, Inl (DriverError (''Checksum mismatch for '' @ title @ '' '' @ [CHR 0xE2, CHR 0x80, CHR 0x94]
                 @ '' the file at the vendor URL is not the one this Beacon release verified. ''
                 @ ''Refusing to stage it. An update may have moved the ''
                 @ ''package; try again after updating Beacon, or download it ''
                 @ ''manually and upload it here.'')))
          else
            (let part_dir = staging @ [safe_pack_name (if part_name part = [] then ''part'' @ show_nat i else part_name part)]
             in if suffix ''.zip'' (lower (part_url part))
                then (case extract_zip_subset t (unzip V archive) part_dir (part_include part) of
                        (t1, Inl e) \<Rightarrow> (t1, Inl e) | (t1, Inr _) \<Rightarrow> (t1, Inr ()))
                else extract_archive (seven_zip V) archive part_dir t))"

fun stage_parts :: "vendor \<Rightarrow> string \<Rightarrow> path \<Rightarrow> nat \<Rightarrow> part list \<Rightarrow> tree \<Rightarrow> tree \<times> (driver_exn + unit)" where
  "stage_parts V title staging i [] t = (t, Inr ())"
| "stage_parts V title staging i (part # ps) t =
     (case stage_part V title staging i part t of
        (t1, Inl e) \<Rightarrow> (t1, Inl e) | (t1, Inr _) \<Rightarrow> stage_parts V title staging (Suc i) ps t1)"

definition count_infs :: "tree \<Rightarrow> path \<Rightarrow> nat" where
  "count_infs t staging = length (filter (\<lambda>p. suffix ''.inf'' (last p) \<and> is_file t p) (below t staging))"

text \<open>
  The whole of \<open>fetch_pack\<close>; \<open>tmp\<close> is the temporary directory, which goes away at the end.
\<close>

definition fetch_pack :: "vendor \<Rightarrow> driver_dirs \<Rightarrow> path \<Rightarrow> pack \<Rightarrow> tree \<Rightarrow> tree \<times> (driver_exn + nat)" where
  "fetch_pack V D tmp pack t =
     (case rbind (target_root D (if pack_target pack = [] then ''share'' else pack_target pack))
             (\<lambda>root. pack_dir t (pack_id pack) root) of
        Inl e \<Rightarrow> (t, Inl e)
      | Inr dest \<Rightarrow>
          if node_at t dest \<noteq> None
          then (t, Inl (DriverError ([CHR 0xE2, CHR 0x80, CHR 0x9C] @ pack_id pack @ [CHR 0xE2, CHR 0x80, CHR 0x9D]
                 @ '' is already staged. Delete it first to fetch a fresh copy.'')))
          else
            (let staging = tmp @ [''stage'']
             in case stage_parts V (pack_title pack) staging 0 (pack_files pack) (put tmp Dir t) of
                  (t1, Inl e) \<Rightarrow> (rmtree tmp t1, Inl e)
                | (t1, Inr _) \<Rightarrow>
                    if count_infs t1 staging = 0
                    then (rmtree tmp t1, Inl (DriverError (''The downloaded '' @ pack_title pack @ '' package ''
                           @ ''contained no .inf '' @ [CHR 0xE2, CHR 0x80, CHR 0x94]
                           @ '' upstream layout changed; refusing to stage it.'')))
                    else case install_tree staging dest t1 of
                           (t2, Inl e) \<Rightarrow> (rmtree tmp (rmtree dest t2), Inl e)
                         | (t2, Inr n) \<Rightarrow> (rmtree tmp t2, Inr n)))"

section \<open>The routes\<close>

definition catalog_pack :: "pack list \<Rightarrow> string \<Rightarrow> pack option" where
  "catalog_pack catalog i = find (\<lambda>p. pack_id p = i) catalog"

definition fetch_route :: "vendor \<Rightarrow> driver_dirs \<Rightarrow> path \<Rightarrow> pack list \<Rightarrow> string \<Rightarrow> tree \<Rightarrow> tree \<times> answer" where
  "fetch_route V D tmp catalog i t =
     (case catalog_pack catalog i of
        None \<Rightarrow> (t, Flash ''Unknown driver pack.'')
      | Some p \<Rightarrow>
          (case fetch_pack V D tmp p t of
             (t1, Inl (DriverError msg)) \<Rightarrow> (t1, Flash msg)
           | (t1, Inl Crash) \<Rightarrow> (t1, Crashed)
           | (t1, Inr _) \<Rightarrow> (t1, Done (pack_target p = ''boot''))))"

definition delete_route :: "driver_dirs \<Rightarrow> string \<Rightarrow> string \<Rightarrow> tree \<Rightarrow> tree \<times> answer" where
  "delete_route D name target t =
     (case target_root D target of
        Inl (DriverError msg) \<Rightarrow> (t, Flash msg)
      | Inl Crash \<Rightarrow> (t, Crashed)
      | Inr root \<Rightarrow>
          (case delete_entry t name root of
             (t1, Inl (DriverError msg)) \<Rightarrow> (t1, Flash msg)
           | (t1, Inl Crash) \<Rightarrow> (t1, Crashed)
           | (t1, Inr _) \<Rightarrow> (t1, Done (target = ''boot''))))"

section \<open>Writing below a folder that need not exist yet\<close>

text \<open>Only paths at or below \<open>d\<close> differ, and no link is made or lost.\<close>

definition inside :: "path \<Rightarrow> tree \<Rightarrow> tree \<Rightarrow> bool" where
  "inside d t t' \<longleftrightarrow> (\<forall>p. node_at t' p \<noteq> node_at t p \<longrightarrow>
     prefix d p \<and> \<not> is_link (node_at t p) \<and> \<not> is_link (node_at t' p))"

text \<open>The place of a folder: a directory above it, and no link on the way.\<close>

definition placed :: "path \<Rightarrow> tree \<Rightarrow> bool" where
  "placed d t \<longleftrightarrow> d \<noteq> [] \<and> rooted t (butlast d) \<and> linkless t d \<and> list_all ordinary d"

lemma inside_refl: "inside d t t"
  by (simp add: inside_def)

lemma inside_trans: "inside d t t' \<Longrightarrow> inside d t' t'' \<Longrightarrow> inside d t t''"
  unfolding inside_def by metis

lemma inside_weaken: "inside e t t' \<Longrightarrow> prefix d e \<Longrightarrow> inside d t t'"
  unfolding inside_def by (meson prefix_order.trans)

lemma inside_linkless: "inside d t t' \<Longrightarrow> linkless t p \<Longrightarrow> linkless t' p"
  unfolding inside_def linkless_def by metis

lemma placed_inside: "placed d t \<Longrightarrow> inside d t t' \<Longrightarrow> placed d t'"
proof -
  assume p: "placed d t" and i: "inside d t t'"
  have "\<not> prefix d q" if "prefix q (butlast d)" for q
    using that p prefix_length_le [of d q] prefix_length_le [OF that]
    by (cases d rule: rev_cases) (auto simp: placed_def)
  then have "node_at t' q = node_at t q" if "prefix q (butlast d)" for q
    using that i unfolding inside_def by blast
  with p i show ?thesis by (auto simp: placed_def rooted_def intro: inside_linkless)
qed

lemma placed_resolve: "placed d t \<Longrightarrow> resolve t d = Some d"
  by (simp add: placed_def resolve_ordinary)

lemma inside_mkdirs:
  assumes "placed d t" "prefix d out" "mkdirs t (butlast out) = Some t'"
  shows "inside d t t'"
proof (unfold inside_def, intro allI impI)
  fix q assume "node_at t' q \<noteq> node_at t q"
  then have q: "prefix q (butlast out)" "node_at t q = None" "node_at t' q = Some Dir"
    using mkdirs_node [OF assms(3)] by (auto split: if_splits)
  then have up: "\<not> prefix q (butlast d)" using assms(1) by (auto simp: placed_def rooted_def)
  have "prefix q out" using q(1) prefixeq_butlast prefix_order.trans by blast
  then have "prefix d q \<or> prefix q d" using prefix_same_cases assms(2) by blast
  then have "prefix d q" using up prefix_butlast [of q d] by (cases "q = d") auto
  with q(2,3) show "prefix d q \<and> \<not> is_link (node_at t q) \<and> \<not> is_link (node_at t' q)" by simp
qed

lemma inside_write: "prefix d p \<Longrightarrow> linkless t p \<Longrightarrow> write_file p s t = Some t' \<Longrightarrow> inside d t t'"
  by (auto simp: inside_def write_file_node linkless_def)

lemma inside_store:
  assumes "placed d t" "prefix d out" "linkless t out" "mkdirs t (butlast out) = Some t1" "write_file out s t1 = Some t2"
  shows "inside d t t2"
  using inside_mkdirs [OF assms(1,2,4)] inside_write [OF assms(2) _ assms(5)] inside_linkless [OF _ assms(3)]
  by (blast intro: inside_trans)

text \<open>A folder \<open>e\<close> below the placed \<open>d\<close>, such as that of one part below the temporary directory.\<close>

lemma write_member_inside:
  assumes "placed d t" "prefix d e" "linkless t e" "list_all ordinary e"
  shows "inside d t (fst (write_member conflict e x t))"
proof (cases "resolve_under t e (fst x)")
  case (Inr out)
  then have out: "prefix e out" "linkless t out"
    using resolve_ordinary [OF assms(3,4)] by (auto elim!: resolve_under_Inr)
  then have d: "prefix d out" using assms(2) prefix_order.trans by blast
  show ?thesis
    using inside_mkdirs [OF assms(1) d] inside_store [OF assms(1) d out(2)]
    by (auto simp: write_member_def Inr inside_refl split: option.split member_data.split)
qed (simp add: write_member_def inside_refl)

lemma install_file_inside:
  assumes "placed d t"
  shows "inside d t (fst (install_file src d p t))"
proof -
  have "prefix d out \<and> linkless t out" if "resolve_under t d parts = Inr out" for parts out
    using that placed_resolve [OF assms] by (auto elim!: resolve_under_Inr)
  with inside_mkdirs [OF assms] inside_store [OF assms] show ?thesis
    by (auto simp: install_file_def inside_refl split: option.split node.split sum.split) blast+
qed

interpretation install: packer "\<lambda>d. install_file src d" placed inside for src
  by unfold_locales (auto intro: install_file_inside placed_inside inside_refl inside_trans)

interpretation subset: packer "\<lambda>e. write_member conflict e"
  "\<lambda>e t. placed d t \<and> prefix d e \<and> linkless t e \<and> list_all ordinary e" "\<lambda>_. inside d" for conflict d
  by unfold_locales (auto intro: write_member_inside placed_inside inside_refl inside_trans inside_linkless)

section \<open>Fetching is all or nothing\<close>

text \<open>
  The temporary directory while parts are unpacked into it: it is placed, and the folders \<open>stage\<close> and
  those of the parts are no links (7z may make links inside of them).
\<close>

definition workshop :: "path \<Rightarrow> tree \<Rightarrow> bool" where
  "workshop tmp t \<longleftrightarrow> placed tmp t \<and>
     (\<forall>q. prefix tmp q \<and> length q \<le> length tmp + 2 \<longrightarrow> \<not> is_link (node_at t q))"

definition same_outside :: "path \<Rightarrow> tree \<Rightarrow> tree \<Rightarrow> bool" where
  "same_outside d t t' \<longleftrightarrow> (\<forall>p. \<not> prefix d p \<longrightarrow> node_at t' p = node_at t p)"

lemma inside_same: "inside d t t' \<Longrightarrow> same_outside d t t'"
  unfolding inside_def same_outside_def by metis

lemma same_outside_trans: "same_outside d t t' \<Longrightarrow> same_outside d t' t'' \<Longrightarrow> same_outside d t t''"
  by (simp add: same_outside_def)

lemma workshop_inside: "workshop tmp t \<Longrightarrow> inside tmp t t' \<Longrightarrow> workshop tmp t'"
  unfolding workshop_def using placed_inside by (metis inside_def)

lemma workshop_linkless:
  assumes "workshop tmp t" "prefix tmp q" "length q \<le> length tmp + 2"
  shows "linkless t q"
  unfolding linkless_def
proof (intro allI impI)
  fix p assume p: "prefix p q"
  then have "length p \<le> length tmp + 2" using assms(3) prefix_length_le by fastforce
  moreover have "prefix tmp p \<or> prefix p tmp" using prefix_same_cases [OF assms(2) p] .
  ultimately show "\<not> is_link (node_at t p)" using assms(1) by (auto simp: workshop_def placed_def linkless_def)
qed

lemma node_at_unpacked:
  assumes "list_all (\<lambda>(k, n). k \<noteq> []) nodes" "\<not> strict_prefix d p"
  shows "node_at (map (\<lambda>(p, n). (d @ p, n)) nodes @ t) p = node_at t p"
proof -
  have "map_of (map (\<lambda>(p, n). (d @ p, n)) nodes) p = None"
    using assms by (auto simp: map_of_eq_None_iff list_all_iff strict_prefix_def)
  then show ?thesis by (simp add: node_at_def map_add_def)
qed

text \<open>7z writes below its output folder: it never replaces that folder itself.\<close>

definition writes_below :: "vendor \<Rightarrow> bool" where
  "writes_below V \<longleftrightarrow> (\<forall>a nodes. seven_zip V a = Inr nodes \<longrightarrow> list_all (\<lambda>(k, n). k \<noteq> []) nodes)"

lemma writes_belowD: "writes_below V \<Longrightarrow> seven_zip V a = Inr nodes \<Longrightarrow> list_all (\<lambda>(k, n). k \<noteq> []) nodes"
  by (simp add: writes_below_def)

lemma stage_part_works:
  assumes shop: "workshop tmp t" and law: "writes_below V"
    and run: "stage_part V title (tmp @ [''stage'']) i part t = (t', res)"
  shows "workshop tmp t' \<and> same_outside tmp t t'"
proof -
  define name where "name = safe_pack_name (if part_name part = [] then ''part'' @ show_nat i else part_name part)"
  let ?d = "tmp @ [''stage'', name]"
  have place: "placed tmp t" "prefix tmp ?d" using shop by (simp_all add: workshop_def)
  have free: "linkless t ?d" using workshop_linkless [OF shop] by simp
  have "ordinary ''stage''" by code_simp
  then have ord: "list_all ordinary ?d"
    using place(1) member_parts_Inr [OF member_parts_pack] by (simp add: placed_def name_def)
  have fine: ?thesis if "inside tmp t t'"
    using that shop workshop_inside inside_same by blast
  consider (zip) a n where "extract_zip_subset t (unzip V a) ?d (part_include part) = (t', n)"
    | (cab) a where "extract_archive (seven_zip V) a ?d t = (t', res)" | (none) "t' = t"
    using run unfolding stage_part_def name_def [symmetric] Let_def
    by (auto split: sum.splits if_splits prod.splits)
  then show ?thesis
  proof cases
    case (zip a n)
    then have "t' = t \<or> (\<exists>xs r. write_all (write_member Crash ?d) xs t = (t', r))"
      unfolding extract_zip_subset_def Let_def by (auto split: sum.splits option.splits if_splits)
    then show ?thesis
      using fine inside_refl subset.run_rel [of tmp t ?d Crash] place free ord by blast
  next
    case (cab a)
    show ?thesis
    proof (cases "mkdirs t ?d")
      case None
      with cab show ?thesis using fine inside_refl by (simp add: extract_archive_def)
    next
      case (Some t1)
      have i: "inside tmp t t1" by (rule inside_mkdirs [of tmp t "?d @ [''x'']"]) (use Some place in \<open>auto simp: butlast_append\<close>)
      then have t1: "workshop tmp t1" "same_outside tmp t t1" using shop workshop_inside inside_same by blast+
      show ?thesis
      proof (cases "seven_zip V a")
        case (Inl e)
        with cab Some t1 show ?thesis by (simp add: extract_archive_def)
      next
        case (Inr nodes)
        then have "t' = map (\<lambda>(p, n). (?d @ p, n)) nodes @ t1" using cab Some by (simp add: extract_archive_def)
        then have same: "node_at t' p = node_at t1 p" if "\<not> strict_prefix ?d p" for p
          using node_at_unpacked [OF writes_belowD [OF law Inr] that] by simp
        have short: "\<not> strict_prefix ?d p" if "length p \<le> length tmp + 2" for p
          using that prefix_length_less [of ?d p] by auto
        have "\<not> strict_prefix ?d p" if "\<not> prefix tmp p" for p
          using that by (metis append_prefixD strict_prefix_def)
        then have "same_outside tmp t1 t'" using same by (simp add: same_outside_def)
        moreover have "node_at t' p = node_at t1 p" if "prefix p tmp" for p
          using same short prefix_length_le [OF that] by simp
        then have "placed tmp t'" using t1(1) prefixeq_butlast prefix_order.trans
          unfolding workshop_def placed_def rooted_def linkless_def by metis
        then have "workshop tmp t'" using t1(1) same short by (auto simp: workshop_def)
        ultimately show ?thesis using t1(2) same_outside_trans by blast
      qed
    qed
  qed (use fine inside_refl in blast)
qed

lemma stage_parts_works:
  assumes law: "writes_below V"
  shows "workshop tmp t \<Longrightarrow> stage_parts V title (tmp @ [''stage'']) i parts t = (t', res) \<Longrightarrow>
    workshop tmp t' \<and> same_outside tmp t t'"
proof (induction parts arbitrary: i t)
  case (Cons part parts)
  obtain t1 r where s: "stage_part V title (tmp @ [''stage'']) i part t = (t1, r)" by fastforce
  note w = stage_part_works [OF Cons.prems(1) law s]
  show ?case
  proof (cases r)
    case (Inr u)
    with Cons.prems(2) s have "stage_parts V title (tmp @ [''stage'']) (Suc i) parts t1 = (t', res)" by simp
    with Cons.IH w show ?thesis using same_outside_trans by blast
  qed (use w s Cons.prems(2) in simp)
qed (simp add: same_outside_def)

definition verified :: "vendor \<Rightarrow> part \<Rightarrow> bool" where
  "verified V part \<longleftrightarrow> (case download_part (get V) (part_url part) (part_referer part) of
     Inr archive \<Rightarrow> sha256 V archive = lower (part_sha256 part) | Inl e \<Rightarrow> False)"

lemma stage_parts_verified:
  "stage_parts V title staging i parts t = (t', Inr ()) \<Longrightarrow> list_all (verified V) parts"
proof (induction parts arbitrary: i t)
  case (Cons part parts)
  obtain t1 r where s: "stage_part V title staging i part t = (t1, r)" by fastforce
  with Cons.prems have r: "r = Inr ()" by (cases r) auto
  with s have "verified V part"
    unfolding stage_part_def verified_def by (auto split: sum.splits if_splits)
  with Cons s r show ?case by auto
qed simp

lemma placed_fresh: "grounded t \<Longrightarrow> rooted t r \<Longrightarrow> ordinary n \<Longrightarrow> \<not> is_link (node_at t (r @ [n])) \<Longrightarrow> placed (r @ [n]) t"
  using linkless_snoc rooted_linkless by (auto simp: placed_def rooted_def)

lemma placed_same: "placed d t \<Longrightarrow> same_outside e t t' \<Longrightarrow> \<not> prefix e d \<Longrightarrow> placed d t'"
proof -
  assume p: "placed d t" and s: "same_outside e t t'" and n: "\<not> prefix e d"
  have "node_at t' q = node_at t q" if "prefix q d" for q
    using that n s prefix_order.trans unfolding same_outside_def by blast
  with p show ?thesis
    unfolding placed_def rooted_def linkless_def using prefixeq_butlast prefix_order.trans by metis
qed


definition a_vendor :: vendor where
  "a_vendor = \<lparr>get = (\<lambda>url referer. Answer [''MS'', ''CF''] None), sha256 = (\<lambda>s. lower (rev s)),
     unzip = (\<lambda>s. None), seven_zip = (\<lambda>s. Inr [([''a.inf''], File ''inf''), ([''a.sys''], File ''sys'')])\<rparr>"

definition a_pack :: pack where
  "a_pack = \<lparr>pack_id = ''intel-rst'', pack_title = ''Intel RST'', pack_target = [],
     pack_files = [\<lparr>part_url = ''https://vendor/rst.cab'', part_referer = [], part_sha256 = ''FCSM'',
       part_name = [], part_include = []\<rparr>]\<rparr>"

lemma a_vendor_below: "writes_below a_vendor"
  by (simp add: writes_below_def a_vendor_def)


end
