(* ===== verification/ImageMenu.thy ===== *)
theory ImageMenu
  imports Ipxe
begin

text \<open>
  The operations of the Images page that arrange the boot menu (\<open>routers/images.py\<close>): hiding an image,
  choosing the default, the display order, the boot arguments; and the stream of status changes the
  page listens to.
\<close>

section \<open>Operations\<close>

definition toggle :: "nat \<Rightarrow> image_table \<Rightarrow> image_table" where
  "toggle i db =
     (case get_image db i of
        None \<Rightarrow> db
      | Some img \<Rightarrow> upd_image db i (\<lambda>r. r\<lparr>enabled := \<not> enabled img\<rparr>))"

definition set_default :: "nat \<Rightarrow> image_table \<Rightarrow> image_table" where
  "set_default i db =
     (case get_image db i of
        None \<Rightarrow> db
      | Some target \<Rightarrow>
          (let cleared = map (\<lambda>r. r\<lparr>is_default := False\<rparr>) db
           in if \<not> is_default target then upd_image cleared i (\<lambda>r. r\<lparr>is_default := True\<rparr>) else cleared))"

text \<open>
  The ids of an order, None when \<open>int()\<close> raises on what \<open>isdigit()\<close> let through.
\<close>

fun order_ids :: "string list \<Rightarrow> nat list option" where
  "order_ids [] = Some []"
| "order_ids (x # xs) =
     (if py_isdigit (strip x)
      then (case py_int x of
              None \<Rightarrow> None
            | Some i \<Rightarrow> map_option (Cons (nat i)) (order_ids xs))
      else order_ids xs)"

fun place_ids :: "nat \<Rightarrow> nat list \<Rightarrow> image_table \<Rightarrow> image_table" where
  "place_ids pos [] db = db"
| "place_ids pos (i # ids) db = place_ids (Suc pos) ids (upd_image db i (\<lambda>r. r\<lparr>display_order := Some (int pos)\<rparr>))"

definition reorder :: "string \<Rightarrow> image_table \<Rightarrow> image_table option" where
  "reorder order db = map_option (\<lambda>ids. place_ids 0 ids db) (order_ids (split_on CHR '','' order))"

definition update_args :: "nat \<Rightarrow> string \<Rightarrow> image_table \<Rightarrow> image_table" where
  "update_args i args db = upd_image db i (\<lambda>r. r\<lparr>boot_args := strip_control_chars (strip args)\<rparr>)"

definition ordered_images :: "image_table \<Rightarrow> image list" where
  "ordered_images db = sort_by menu_le db"

text \<open>
  One round of the event stream: what is sent for the rows of a snapshot, and the statuses seen then.
\<close>

definition sse_round :: "(nat \<times> string) list \<Rightarrow> (nat \<times> string \<times> string) list \<Rightarrow> (nat \<times> string \<times> string) list \<times> (nat \<times> string) list" where
  "sse_round seen items =
     (filter (\<lambda>(i, st, msg). map_of seen i \<noteq> None \<and> map_of seen i \<noteq> Some st) items
      @ map (\<lambda>(i, st). (i, ''deleted'', [])) (filter (\<lambda>(i, st). i \<notin> fst ` set items) seen),
      map (\<lambda>(i, st, msg). (i, st)) items)"

section \<open>The default image\<close>

definition defaults :: "image_table \<Rightarrow> nat list" where
  "defaults db = map img_id (filter is_default db)"

lemma defaults_map: "(\<And>r. img_id (f r) = img_id r \<and> is_default (f r) = is_default r) \<Longrightarrow> defaults (map f db) = defaults db"
  by (induction db) (simp_all add: defaults_def)

lemma defaults_cleared: "defaults (map (\<lambda>r. r\<lparr>is_default := False\<rparr>) db) = []"
  by (induction db) (simp_all add: defaults_def)

lemma defaults_on:
  "defaults db = [] \<Longrightarrow> defaults (upd_image db i (\<lambda>r. r\<lparr>is_default := True\<rparr>)) = filter (\<lambda>j. j = i) (map img_id db)"
proof (induction db)
  case (Cons r db)
  then have "\<not> is_default r" "defaults db = []" by (simp_all add: defaults_def split: if_splits)
  with Cons.IH show ?case by (cases "img_id r = i") (simp_all add: upd_row_def defaults_def)
qed (simp add: upd_row_def defaults_def)

lemma filter_one: "distinct xs \<Longrightarrow> filter (\<lambda>j. j = i) xs = (if i \<in> set xs then [i] else [])"
  by (induction xs) auto

lemma defaults_only:
  "defaults db = [] \<Longrightarrow> distinct (map img_id db) \<Longrightarrow>
     defaults (upd_image db i (\<lambda>r. r\<lparr>is_default := True\<rparr>)) = (if i \<in> set (map img_id db) then [i] else [])"
  using defaults_on filter_one by metis

lemma defaults_set_default:
  assumes "distinct (map img_id db)" "get_image db i = Some img"
  shows "defaults (set_default i db) = (if is_default img then [] else [i])"
proof -
  have "i \<in> set (map img_id db)" using assms(2) get_row_id get_row_in by fastforce
  moreover have ids: "map img_id (map (\<lambda>r. r\<lparr>is_default := False\<rparr>) db) = map img_id db" by simp
  ultimately show ?thesis
    using defaults_only [OF defaults_cleared, of db i] assms unfolding ids
    by (simp add: set_default_def Let_def defaults_cleared)
qed

section \<open>The order\<close>

lemma ids_place: "map img_id (place_ids pos ids db) = map img_id db"
  by (induction pos ids db rule: place_ids.induct) (simp_all add: ids_upd_row)

lemma defaults_place: "defaults (place_ids pos ids db) = defaults db"
  by (induction pos ids db rule: place_ids.induct) (simp_all add: upd_row_def defaults_map)

text \<open>The position of an id, and that an order puts it there.\<close>

definition position :: "nat list \<Rightarrow> nat \<Rightarrow> nat" where
  "position ids i = length (takeWhile (\<lambda>j. j \<noteq> i) ids)"

lemma place_ids_other: "r \<in> set (place_ids pos ids db) \<Longrightarrow> img_id r \<notin> set ids \<Longrightarrow> r \<in> set db"
proof (induction pos ids db rule: place_ids.induct)
  case (2 pos i ids db)
  then have "r \<in> set (upd_image db i (\<lambda>r. r\<lparr>display_order := Some (int pos)\<rparr>))" by simp
  then obtain x where x: "x \<in> set db" "r = (if img_id x = i then x\<lparr>display_order := Some (int pos)\<rparr> else x)"
    unfolding upd_row_def by (simp only: set_map image_iff) blast
  with 2(3) show ?case by (cases "img_id x = i") simp_all
qed simp

lemma placed_at:
  "distinct ids \<Longrightarrow> r \<in> set (place_ids pos ids db) \<Longrightarrow> img_id r \<in> set ids \<Longrightarrow>
     display_order r = Some (int (pos + position ids (img_id r)))"
proof (induction ids arbitrary: pos db)
  case (Cons i ids)
  let ?db = "upd_image db i (\<lambda>r. r\<lparr>display_order := Some (int pos)\<rparr>)"
  have r: "r \<in> set (place_ids (Suc pos) ids ?db)" using Cons.prems(2) by simp
  show ?case
  proof (cases "img_id r = i")
    case False
    with Cons.IH [OF _ r] Cons.prems show ?thesis by (simp add: position_def)
  next
    case True
    then have "r \<in> set ?db" using place_ids_other [OF r] Cons.prems(1) by simp
    then obtain x where "x \<in> set db" "r = (if img_id x = i then x\<lparr>display_order := Some (int pos)\<rparr> else x)"
      unfolding upd_row_def by (simp only: set_map image_iff) blast
    with True show ?thesis by (cases "img_id x = i") (simp_all add: position_def)
  qed
qed simp

lemma position_nth: "distinct ids \<Longrightarrow> map (position ids) ids = [0..<length ids]"
proof (induction ids)
  case (Cons i ids)
  have "map (position (i # ids)) ids = map Suc (map (position ids) ids)"
    using Cons.prems by (auto simp: position_def)
  also have "\<dots> = [1..<Suc (length ids)]" using Cons by (simp add: map_Suc_upt)
  finally have "map (position (i # ids)) ids = [1..<Suc (length ids)]" .
  moreover have "position (i # ids) i = 0" by (simp add: position_def)
  ultimately show ?case by (simp add: upt_conv_Cons del: upt_Suc)
qed simp

lemma position_inj: "distinct ids \<Longrightarrow> inj_on (position ids) (set ids)"
  using position_nth [of ids] distinct_map [of "position ids" ids] by simp

section \<open>Properties\<close>

text \<open>The operations an admin arranges the menu with.\<close>

datatype menu_op = Toggle nat | SetDefault nat | Reorder string | UpdateArgs nat string

definition arrange :: "image_table \<Rightarrow> menu_op \<Rightarrow> image_table" where
  "arrange db x =
     (case x of
        Toggle i \<Rightarrow> toggle i db
      | SetDefault i \<Rightarrow> set_default i db
      | Reorder order \<Rightarrow> (case reorder order db of None \<Rightarrow> db | Some db' \<Rightarrow> db')
      | UpdateArgs i args \<Rightarrow> update_args i args db)"

lemma arrange_ids: "map img_id (arrange db x) = map img_id db"
proof (cases x)
  case (SetDefault i)
  have "map img_id (map (\<lambda>r. r\<lparr>is_default := False\<rparr>) db) = map img_id db" by simp
  then show ?thesis using SetDefault
    by (simp add: arrange_def set_default_def Let_def ids_upd_row split: option.split)
qed (simp_all add: arrange_def toggle_def reorder_def update_args_def ids_upd_row ids_place split: option.split)

lemma arrange_defaults:
  "distinct (map img_id db) \<Longrightarrow> length (defaults db) \<le> 1 \<Longrightarrow> length (defaults (arrange db x)) \<le> 1"
proof (cases x)
  case (SetDefault i)
  assume "distinct (map img_id db)" "length (defaults db) \<le> 1"
  then show ?thesis using SetDefault defaults_set_default
    by (cases "get_image db i") (simp_all add: arrange_def set_default_def)
qed (simp_all add: arrange_def toggle_def reorder_def update_args_def upd_row_def defaults_map defaults_place split: option.split)

text \<open>C18. At most one image is the default: however an admin arranges a table with at most one default - hiding,
  choosing, reordering, editing arguments, in any sequence - it keeps at most one, no image is added, lost or
  renumbered, and choosing an image makes exactly that one the default, or none when it was it already.\<close>

theorem at_most_one_default:
  assumes "distinct (map img_id db)" "length (defaults db) \<le> 1"
  shows "length (defaults (foldl arrange db xs)) \<le> 1 \<and> map img_id (foldl arrange db xs) = map img_id db
    \<and> (i \<in> set (map img_id db) \<longrightarrow>
        defaults (set_default i (foldl arrange db xs)) = (if i \<in> set (defaults (foldl arrange db xs)) then [] else [i]))"
proof -
  have run: "length (defaults (foldl arrange db xs)) \<le> 1 \<and> map img_id (foldl arrange db xs) = map img_id db"
  proof (induction xs rule: rev_induct)
    case (snoc x xs)
    then show ?case using arrange_defaults [of "foldl arrange db xs" x] assms(1) by (simp add: arrange_ids)
  qed (use assms in simp)
  let ?db = "foldl arrange db xs"
  have "defaults (set_default i ?db) = (if i \<in> set (defaults ?db) then [] else [i])" if i: "i \<in> set (map img_id db)"
  proof -
    have d: "distinct (map img_id ?db)" using run assms(1) by simp
    obtain img where img: "img \<in> set ?db" "img_id img = i" using i run by (metis image_iff set_map)
    then have g: "get_image ?db i = Some img" using get_row_unique [OF d] by blast
    have "i \<in> set (defaults ?db) \<longleftrightarrow> is_default img"
      using img d by (auto simp: defaults_def distinct_map dest: inj_onD)
    with defaults_set_default [OF d g] show ?thesis by simp
  qed
  with run show ?thesis by blast
qed

text \<open>The menu follows the order that was dragged: when the ids sent are exactly those of the table, in some
  order, the page - and with it the boot menu, which shows its ready and enabled rows - lists the images in
  that order.\<close>

theorem menu_follows_order:
  assumes "distinct (map img_id db)" "order_ids (split_on CHR '','' order) = Some ids"
    "distinct ids" "set ids = set (map img_id db)"
  shows "map_option (\<lambda>db. map img_id (ordered_images db)) (reorder order db) = Some ids"
proof -
  let ?db = "place_ids 0 ids db"
  let ?rows = "ordered_images ?db"
  have ids: "set (map img_id ?rows) = set ids"
    using assms(4) ids_place [of 0 ids db] by (metis ordered_images_def set_map set_sort_by)
  have dist: "distinct (map img_id ?rows)"
    using assms(1) ids_place [of 0 ids db] by (simp add: ordered_images_def distinct_map_sort_by)
  have at: "display_order r = Some (int (position ids (img_id r)))" if "r \<in> set ?rows" for r
  proof -
    have "img_id r \<in> set ids" using that ids by (metis image_iff set_map)
    then show ?thesis using placed_at [OF assms(3), of r 0 db] that by (simp add: ordered_images_def)
  qed
  have "sorted_wrt menu_le ?rows" unfolding ordered_images_def by (rule sorted_sort_by [OF menu_le_total_preorder])
  then have "sorted_wrt (\<lambda>a b. position ids (img_id a) \<le> position ids (img_id b)) ?rows"
    by (rule sorted_wrt_mono_rel [rotated]) (use at in \<open>auto simp: menu_le_def\<close>)
  then have "sorted (map (position ids) (map img_id ?rows))" by (simp add: sorted_wrt_map)
  moreover have "sorted (map (position ids) ids)" "distinct (map (position ids) ids)"
    using position_nth [OF assms(3)] by simp_all
  moreover have inj: "inj_on (position ids) (set ids)" by (rule position_inj [OF assms(3)])
  moreover from dist inj ids have "distinct (map (position ids) (map img_id ?rows))"
    unfolding distinct_map [of "position ids"] by simp
  ultimately have "map img_id ?rows = ids"
    using map_sorted_distinct_set_unique [of "position ids" "map img_id ?rows" ids] ids by simp
  then show ?thesis by (simp add: reorder_def assms(2))
qed

section \<open>Witnesses\<close>

definition two_images :: image_table where
  "two_images = [image_row 1 ''Debian'' ''deb.iso'', (image_row 2 ''Windows 11'' ''win.iso'')\<lparr>is_default := True\<rparr>]"

lemma two_images_ids: "map img_id two_images = [1, 2]"
  by (simp add: two_images_def image_row_def)

lemma two_images_defaults: "defaults two_images = [2]"
  by (simp add: defaults_def two_images_def image_row_def)

theorem at_most_one_default_witness:
  "length (defaults (foldl arrange two_images [SetDefault 1, Reorder ''2,1'', Toggle 2])) \<le> 1
    \<and> defaults (set_default 1 two_images) = [1] \<and> defaults (set_default 2 two_images) = []"
  using at_most_one_default [of two_images "[SetDefault 1, Reorder ''2,1'', Toggle 2]"]
    at_most_one_default [of two_images "[]" 1] at_most_one_default [of two_images "[]" 2]
  by (simp add: two_images_ids two_images_defaults)

theorem menu_follows_order_witness:
  "map_option (\<lambda>db. map img_id (ordered_images db)) (reorder ''2, x,1'' two_images) = Some [2, 1]"
proof -
  have "order_ids (split_on CHR '','' ''2, x,1'') = Some [2, 1]" by code_simp
  then show ?thesis using menu_follows_order [of two_images "''2, x,1''" "[2, 1]"]
    by (simp add: two_images_ids insert_commute)
qed

end
