(* ===== verification/Discovery.thy ===== *)
theory Discovery
  imports Entries Ratelimit
begin

text \<open>
  What the mirrors of the built-in distros carry (\<open>services/netboot.py\<close>, release discovery): the suites of a
  distro with numbered releases, the releases and pre-releases of a folder listing, the published support
  dates, and the caches that keep an answer for a while.  What a request returns is an argument; a
  pattern of the catalog is a compiled one, and its templates use only the fields they are given.
\<close>

section \<open>Version numbers in names\<close>

definition ARCH_NAMES :: "string list" where
  "ARCH_NAMES = [''x86_64'', ''amd64'', ''arm64'', ''aarch64'', ''ppc64le'', ''s390x'', ''i386'', ''i486'', ''i586'', ''i686'']"

function drop_archs :: "string \<Rightarrow> string" where
  "drop_archs [] = []"
| "drop_archs (c # cs) =
     (case find (\<lambda>a. prefix a (c # cs)) ARCH_NAMES of
        Some a \<Rightarrow> drop_archs (drop (length a - 1) cs)
      | None \<Rightarrow> c # drop_archs cs)"
  by pat_completeness auto
termination by (relation "measure length") auto

fun digit_runs :: "string \<Rightarrow> string \<Rightarrow> string list" where
  "digit_runs acc [] = (if acc = [] then [] else [rev acc])"
| "digit_runs acc (c # cs) =
     (if is_digit c then digit_runs (c # acc) cs
      else if acc = [] then digit_runs [] cs else rev acc # digit_runs [] cs)"

definition version_key :: "string \<Rightarrow> nat list" where
  "version_key name = map nat_of_digits (digit_runs [] (drop_archs name))"

text \<open>The order of lists of numbers, and of names by it.\<close>

fun key_le :: "nat list \<Rightarrow> nat list \<Rightarrow> bool" where
  "key_le [] ys = True"
| "key_le (x # xs) [] = False"
| "key_le (x # xs) (y # ys) = (x < y \<or> (x = y \<and> key_le xs ys))"

definition newer_first :: "('a \<Rightarrow> nat list) \<Rightarrow> 'a list \<Rightarrow> 'a list" where
  "newer_first key xs = sort_by (\<lambda>a b. key_le (key b) (key a)) xs"

section \<open>Releases the mirror carries\<close>

record found =
  f_number :: string
  f_codename :: string
  f_testing :: bool
  f_eol :: "string option"

record lookup =
  lk_url :: string
  lk_suites :: "string list"
  lk_testing :: "string option"

definition format :: "(string \<times> string) list \<Rightarrow> string \<Rightarrow> string" where
  "format args t = (case fill args t of Some s \<Rightarrow> s | None \<Rightarrow> [])"

text \<open>The field of a line of a Release file; of several of a name the last counts.\<close>

definition suite_line :: "string \<Rightarrow> (string \<times> string) list" where
  "suite_line line = concat (map (\<lambda>k.
     if prefix (k @ '':'') line
     then (let v = takeWhile (\<lambda>c. \<not> py_space c) (dropWhile (\<lambda>c. c = CHR '' '') (drop (length k + 1) line))
           in if v = [] then [] else [(k, v)])
     else []) [''Codename'', ''Version''])"

definition suite_info :: "(string \<Rightarrow> string option) \<Rightarrow> string \<Rightarrow> (string \<times> string) list" where
  "suite_info fetch url =
     (case fetch url of
        None \<Rightarrow> []
      | Some text \<Rightarrow> rev (concat (map suite_line (split_on NL text))))"

definition suite_url :: "lookup \<Rightarrow> string \<Rightarrow> string \<Rightarrow> string" where
  "suite_url lk mirror suite = format [(''mirror'', mirror), (''suite'', suite)] (lk_url lk)"

definition released_suite :: "(string \<Rightarrow> string option) \<Rightarrow> lookup \<Rightarrow> string \<Rightarrow> string \<Rightarrow> found list" where
  "released_suite fetch lk mirror suite =
     (let info = map_of (suite_info fetch (suite_url lk mirror suite));
          major = takeWhile is_digit (case info ''Version'' of None \<Rightarrow> [] | Some v \<Rightarrow> v)
      in case info ''Codename'' of
           Some c \<Rightarrow> if major = [] then [] else [\<lparr>f_number = major, f_codename = c, f_testing = False, f_eol = None\<rparr>]
         | None \<Rightarrow> [])"

definition lookup_suites :: "(string \<Rightarrow> string option) \<Rightarrow> lookup option \<Rightarrow> string \<Rightarrow> found list" where
  "lookup_suites fetch lookup mirror =
     (case lookup of
        None \<Rightarrow> []
      | Some lk \<Rightarrow>
          (let found = concat (map (released_suite fetch lk mirror) (lk_suites lk))
           in if found = [] then []
              else case lk_testing lk of
                     None \<Rightarrow> found
                   | Some t \<Rightarrow>
                       if t = [] then found
                       else (case map_of (suite_info fetch (suite_url lk mirror t)) ''Codename'' of
                               None \<Rightarrow> found
                             | Some c \<Rightarrow> found @ [\<lparr>f_number = show_nat (Max (set (map (nat_of_digits \<circ> f_number) found)) + 1),
                                 f_codename = c, f_testing = True, f_eol = None\<rparr>])))"

text \<open>A typed name without the distro's own name before it.\<close>

definition drop_name :: "string \<Rightarrow> string \<Rightarrow> string" where
  "drop_name name s =
     (let n = lower name; rest = drop (length n) s
      in if prefix n s \<and> rest \<noteq> [] \<and> py_space (hd rest) then dropWhile py_space rest else s)"

definition lookup_release :: "(string \<Rightarrow> string option) \<Rightarrow> string \<Rightarrow> lookup option \<Rightarrow> string \<Rightarrow> string \<Rightarrow> found option" where
  "lookup_release fetch name lookup mirror text =
     (let wanted = drop_name name (lower (strip text))
      in find (\<lambda>r. wanted = f_number r \<or> wanted = lower (f_codename r)) (lookup_suites fetch lookup mirror))"

definition lookup_codename :: "(string \<Rightarrow> string option) \<Rightarrow> string \<Rightarrow> lookup option \<Rightarrow> string \<Rightarrow> string \<Rightarrow> string option" where
  "lookup_codename fetch name lookup mirror text =
     (if re_fullmatch (Seq digit_rx (upto_n 2 digit_rx)) (drop_name name (lower (strip text))) = None then None
      else map_option f_codename (lookup_release fetch name lookup mirror text))"

section \<open>A folder listing\<close>

text \<open>\<open>ls_rx\<close> captures the release in group 1; \<open>ls_count\<close> is ten where the catalog gives none.\<close>

record listing =
  ls_url :: string
  ls_rx :: rx
  ls_min :: "string option"
  ls_count :: nat
  ls_prefer :: "rx option"

definition href_rx :: "rx \<Rightarrow> rx" where
  "href_rx r = Seq (lit (''href='' @ [CHR 0x22])) (Seq (opt (lit ''./'')) (Seq r (lit [CHR 0x22])))"

text \<open>The ids are a set in the code; here they are in the order of the listing, which only orders ties.\<close>

definition listed_ids :: "listing \<Rightarrow> string \<Rightarrow> string list" where
  "listed_ids ls text =
     (let ids = remdups (map (\<lambda>x. case group 1 x of None \<Rightarrow> [] | Some i \<Rightarrow> i) (re_finditer (href_rx (ls_rx ls)) text))
      in case ls_min ls of
           None \<Rightarrow> ids
         | Some lo \<Rightarrow> if lo = [] then ids else filter (\<lambda>i. key_le (version_key lo) (version_key i)) ids)"

definition listing_url :: "listing \<Rightarrow> string \<Rightarrow> string" where
  "listing_url ls mirror = rstrip_chars ''/'' (format [(''mirror'', mirror)] (ls_url ls))"

definition discover_listing ::
  "(string \<Rightarrow> string option) \<Rightarrow> (string \<rightharpoonup> string) \<Rightarrow> string list \<Rightarrow> listing \<Rightarrow> string \<Rightarrow> found list option" where
  "discover_listing read_listing dates coming ls mirror =
     (case read_listing (listing_url ls mirror) of
        None \<Rightarrow> None
      | Some text \<Rightarrow>
          (let newest = take (ls_count ls) (newer_first version_key (listed_ids ls text))
           in if newest = [] then None
              else Some (map (\<lambda>i. \<lparr>f_number = i, f_codename = i, f_testing = lower i \<in> set coming, f_eol = dates (lower i)\<rparr>) newest)))"

section \<open>Published dates\<close>

text \<open>
  The rows \<open>csv.DictReader\<close> reads from distro-info-data, each the fields it has.
\<close>

type_synonym csv_row = "(string \<times> string) list"

definition col :: "csv_row \<Rightarrow> string \<Rightarrow> string" where
  "col row k = (case map_of row k of None \<Rightarrow> [] | Some v \<Rightarrow> v)"

definition row_number :: "csv_row \<Rightarrow> string" where
  "row_number row = strip (hd (split_on CHR '' '' (col row ''version'')))"

definition row_series :: "csv_row \<Rightarrow> string" where
  "row_series row = lower (strip (col row ''series''))"

fun eol_dates :: "(string \<rightharpoonup> string) \<Rightarrow> csv_row list \<Rightarrow> (string \<rightharpoonup> string)" where
  "eol_dates dates [] = dates"
| "eol_dates dates (row # rows) =
     (let day = strip (if col row ''eol-lts'' \<noteq> [] then col row ''eol-lts'' else col row ''eol'')
      in if iso_date day = None then eol_dates dates rows
         else (let dates = dates(row_series row \<mapsto> day)
               in eol_dates (if row_number row \<noteq> [] \<and> dates (row_number row) = None
                             then dates(row_number row \<mapsto> day) else dates) rows))"

text \<open>Releases whose day is still to come; the days are compared as texts.\<close>

definition unreleased :: "string \<Rightarrow> csv_row list \<Rightarrow> string list" where
  "unreleased today rows =
     concat (map (\<lambda>row.
       (let day = strip (col row ''release'')
        in if iso_date day = None \<or> str_le day today then []
           else row_series row # (if row_number row = [] then [] else [row_number row]))) rows)"

definition discover_releases ::
  "(string \<Rightarrow> string option) \<Rightarrow> (string \<Rightarrow> string option) \<Rightarrow> (string \<rightharpoonup> string) \<Rightarrow> string list \<Rightarrow> listing option
     \<Rightarrow> lookup option \<Rightarrow> string \<Rightarrow> found list option" where
  "discover_releases fetch read_listing dates coming listing lookup mirror =
     (case listing of
        Some ls \<Rightarrow> discover_listing read_listing dates coming ls mirror
      | None \<Rightarrow> (case lookup of
            None \<Rightarrow> None
          | Some lk \<Rightarrow>
              if suite_info fetch (suite_url lk mirror (hd (lk_suites lk))) = [] then None
              else (let found = lookup_suites fetch lookup mirror
                    in if found = [] then None
                       else Some (sort_by (\<lambda>a b. nat_of_digits (f_number b) \<le> nat_of_digits (f_number a))
                              (map (\<lambda>r. r\<lparr>f_eol := dates (lower (f_codename r))\<rparr>) found)))))"

section \<open>Catalog releases\<close>

text \<open>A release of a built-in distro: the fields of a custom one and those only the catalog has.\<close>

record crel = release +
  rel_name :: "string option"
  rel_ended :: bool
  rel_build :: "string option"
  rel_base_url :: "string option"
  rel_unlisted :: "string option"
  rel_mirror :: "string option"
  rel_folder :: "string option \<times> string"      \<comment> \<open>\<open>dir_regex\<close> and \<open>subpath\<close>\<close>

definition DASH :: string where "DASH = [CHR '' '', CHR 0xE2, CHR 0x80, CHR 0x94, CHR '' '']"

definition new_rel :: "string \<Rightarrow> string \<Rightarrow> crel" where
  "new_rel i label = \<lparr>rel_id = i, rel_label = label, rel_number = None, rel_eol = None, rel_default = False,
     rel_prerelease = False, rel_name = None, rel_ended = False, rel_build = None, rel_base_url = None,
     rel_unlisted = None, rel_mirror = None, rel_folder = (None, [])\<rparr>"

section \<open>Pre-releases\<close>

text \<open>
  Where a distro says what its pre-releases are: a fixed list, a folder listing whose pattern has named
  groups, or the states of its own release data (\<open>st_released\<close>: those of a release that is out).
\<close>

record pre_item =
  it_id :: string
  it_number :: "string option"
  it_stage :: string
  it_label :: string

record pre_listing =
  pl_url :: string
  pl_rx :: rx
  pl_groups :: "(string \<times> nat) list"
  pl_id :: string
  pl_label :: string

record pre_states =
  st_id :: string
  st_state :: string
  st_released :: "string list"
  st_label :: string

record pre_spec =
  ps_mirror :: "string option"
  ps_ids :: "pre_item list"
  ps_listing :: "pre_listing option"
  ps_states :: "pre_states option"
  ps_match :: "rx option"
  ps_live :: bool           \<comment> \<open>False where the catalog says the pre-release has no live desktop\<close>

text \<open>The names of a listing and their groups; a later one of the same id takes the place of the first.\<close>

fun put :: "'k \<Rightarrow> 'v \<Rightarrow> ('k \<times> 'v) list \<Rightarrow> ('k \<times> 'v) list" where
  "put k v [] = [(k, v)]"
| "put k v ((k', v') # xs) = (if k' = k then (k, v) # xs else (k', v') # put k v xs)"

definition named_items :: "pre_listing \<Rightarrow> string \<Rightarrow> (string \<times> (string \<times> string) list) list" where
  "named_items pl text =
     foldl (\<lambda>named x.
       (let groups = concat (map (\<lambda>(g, k). case group k x of None \<Rightarrow> [] | Some v \<Rightarrow> [(g, v)]) (pl_groups pl))
        in put (format groups (pl_id pl)) groups named)) [] (re_finditer (href_rx (pl_rx pl)) text)"

text \<open>Of each major release only the newest; one without a number always stays.\<close>

fun newest_majors :: "nat list list \<Rightarrow> (string \<times> (string \<times> string) list) list \<Rightarrow> (string \<times> (string \<times> string) list) list" where
  "newest_majors majors [] = []"
| "newest_majors majors ((rid, groups) # xs) =
     (let number = (case map_of groups ''number'' of None \<Rightarrow> [] | Some n \<Rightarrow> n);
          major = take 1 (version_key (if number = [] then rid else number))
      in if major \<noteq> [] \<and> major \<in> set majors then newest_majors majors xs
         else (rid, groups) # newest_majors (major # majors) xs)"

definition listed_item :: "pre_listing \<Rightarrow> string \<times> (string \<times> string) list \<Rightarrow> pre_item" where
  "listed_item pl x =
     \<lparr>it_id = fst x, it_number = map_of (snd x) ''number'',
      it_stage = (case map_of (snd x) ''stage'' of None \<Rightarrow> [] | Some t \<Rightarrow> t), it_label = pl_label pl\<rparr>"

definition STAGE_RE :: rx where
  "STAGE_RE = (let c = Cls (\<lambda>c. is_alnum c \<or> c \<in> set '' ._-'') in Seq c (upto_n 19 c))"

definition jtext :: "(string \<times> json) list \<Rightarrow> string \<Rightarrow> string" where
  "jtext d k = (case jget d k of None \<Rightarrow> [] | Some j \<Rightarrow> py_str j)"

definition state_item :: "pre_states \<Rightarrow> json \<Rightarrow> pre_item list" where
  "state_item st item =
     (case item of
        JObj d \<Rightarrow>
          (if (case jget d (st_state st) of Some (JStr s) \<Rightarrow> s \<in> set (st_released st) | _ \<Rightarrow> False) then []
           else (let number = jtext d (st_id st); stage = jtext d (st_state st)
                 in if re_fullmatch STAGE_RE stage = None then []
                    else [\<lparr>it_id = number, it_number = Some number, it_stage = stage, it_label = st_label st\<rparr>]))
      | _ \<Rightarrow> [])"

definition pre_release :: "string \<Rightarrow> string option \<Rightarrow> pre_item \<Rightarrow> crel list" where
  "pre_release name mirror it =
     (if re_fullmatch RELEASE_RE (it_id it) = None then []
      else (let number = (case it_number it of None \<Rightarrow> [] | Some n \<Rightarrow> n);
                shown = format [(''name'', name), (''number'', number), (''stage'', it_stage it)] (it_label it)
            in [(new_rel (it_id it) (shown @ DASH @ ''pre-release''))
                  \<lparr>rel_name := Some shown, rel_prerelease := True,
                   rel_number := (if number = [] then None else Some number), rel_mirror := mirror\<rparr>]))"

text \<open>
  \<open>items\<close>: the list in the release data, None if it cannot be read.
\<close>

definition discover_prereleases ::
  "(string \<Rightarrow> string option) \<Rightarrow> json list option \<Rightarrow> string \<Rightarrow> string \<Rightarrow> pre_spec \<Rightarrow> crel list option" where
  "discover_prereleases read_listing items name default_mirror spec =
     (let mirror = (case ps_mirror spec of None \<Rightarrow> default_mirror | Some mi \<Rightarrow> mi);
          listed = (case ps_listing spec of
            None \<Rightarrow> Some []
          | Some pl \<Rightarrow> map_option (\<lambda>text. map (listed_item pl) (newest_majors [] (newer_first (version_key \<circ> fst) (named_items pl text))))
                        (read_listing (rstrip_chars ''/'' (format [(''mirror'', mirror)] (pl_url pl)))));
          states = (case ps_states spec of
            None \<Rightarrow> Some []
          | Some st \<Rightarrow> map_option (\<lambda>js. concat (map (state_item st) js)) items)
      in case (listed, states) of
           (Some l, Some s) \<Rightarrow> Some (concat (map (pre_release name (ps_mirror spec)) (ps_ids spec @ l @ s)))
         | _ \<Rightarrow> None)"

section \<open>Answers kept for a while\<close>

definition DISCOVERY_TTL :: real where "DISCOVERY_TTL = 6 * 3600"
definition DISCOVERY_RETRY :: real where "DISCOVERY_RETRY = 600"

text \<open>A key and the time until which its answer is served; \<open>answer\<close> is what the mirror would say now.\<close>

type_synonym ('k, 'v) cache = "'k \<rightharpoonup> real \<times> 'v"

definition cached :: "('v \<Rightarrow> bool) \<Rightarrow> 'k \<Rightarrow> real \<Rightarrow> 'v \<Rightarrow> ('k, 'v) cache \<Rightarrow> 'v \<times> bool \<times> ('k, 'v) cache" where
  "cached good k now answer c =
     (case c k of
        Some (until, v) \<Rightarrow>
          if now < until then (v, False, c)
          else (answer, True, c(k \<mapsto> (now + (if good answer then DISCOVERY_TTL else DISCOVERY_RETRY), answer)))
      | None \<Rightarrow> (answer, True, c(k \<mapsto> (now + (if good answer then DISCOVERY_TTL else DISCOVERY_RETRY), answer))))"

text \<open>\<open>if found\<close>: an answer that is not empty.\<close>

definition answered :: "'a list option \<Rightarrow> bool" where
  "answered f \<longleftrightarrow> f \<noteq> None \<and> f \<noteq> Some []"

definition cached_discovery ::
  "string \<Rightarrow> real \<Rightarrow> found list option \<Rightarrow> (string, found list option) cache \<Rightarrow> found list option \<times> bool \<times> (string, found list option) cache" where
  "cached_discovery = cached answered"

definition cached_build ::
  "string \<times> string \<Rightarrow> real \<Rightarrow> string option \<Rightarrow> (string \<times> string, string option) cache
     \<Rightarrow> string option \<times> bool \<times> (string \<times> string, string option) cache" where
  "cached_build = cached answered"

definition cached_prereleases ::
  "pre_spec option \<Rightarrow> string \<Rightarrow> real \<Rightarrow> crel list option \<Rightarrow> (string, crel list option) cache
     \<Rightarrow> crel list option \<times> bool \<times> (string, crel list option) cache" where
  "cached_prereleases spec k now answer c =
     (case spec of
        None \<Rightarrow> (None, False, c)
      | Some sp \<Rightarrow>
          if ps_ids sp = [] \<and> ps_listing sp = None \<and> ps_states sp = None then (None, False, c)
          else cached (\<lambda>f. f \<noteq> None) k now answer c)"

text \<open>
  A history of page loads: for each the key, the time, what was shown and whether the mirror was asked.
\<close>

record ('k, 'v) shown =
  sh_key :: 'k
  sh_time :: real
  sh_value :: 'v
  sh_asked :: bool

fun cache_run ::
  "('k \<Rightarrow> real \<Rightarrow> 'v \<Rightarrow> ('k, 'v) cache \<Rightarrow> 'v \<times> bool \<times> ('k, 'v) cache) \<Rightarrow> ('k, 'v) cache \<Rightarrow> ('k \<times> real \<times> 'v) list
     \<Rightarrow> ('k, 'v) shown list" where
  "cache_run ask c [] = []"
| "cache_run ask c ((k, now, answer) # es) =
     (case ask k now answer c of
        (v, asked, c') \<Rightarrow> \<lparr>sh_key = k, sh_time = now, sh_value = v, sh_asked = asked\<rparr> # cache_run ask c' es)"

definition term_of :: "('v \<Rightarrow> bool) \<Rightarrow> 'v \<Rightarrow> real" where
  "term_of good v = (if good v then DISCOVERY_TTL else DISCOVERY_RETRY)"

lemma term_pos: "0 < term_of good v" "DISCOVERY_RETRY \<le> term_of good v" "term_of good v \<le> DISCOVERY_TTL"
  by (simp_all add: term_of_def DISCOVERY_TTL_def DISCOVERY_RETRY_def)

lemma cached_kept: "c k = Some (t, v) \<Longrightarrow> now < t \<Longrightarrow> cached good k now answer c = (v, False, c)"
  by (simp add: cached_def)

lemma cached_fresh:
  "\<forall>t v. c k = Some (t, v) \<longrightarrow> t \<le> now \<Longrightarrow>
     cached good k now answer c = (answer, True, c(k \<mapsto> (now + term_of good answer, answer)))"
  by (cases "c k") (force simp: cached_def term_of_def)+

lemma until_cases:
  "(\<exists>t v. c k = Some (t, v) \<and> (now :: real) < t) \<or> (\<forall>t v. c k = Some (t, v) \<longrightarrow> t \<le> now)"
  by (meson not_less)

definition asked_for :: "'k \<Rightarrow> ('k, 'v) shown list \<Rightarrow> ('k, 'v) shown list" where
  "asked_for k rows = filter (\<lambda>s. sh_key s = k \<and> sh_asked s) rows"

definition askings :: "('k, 'v) shown list \<Rightarrow> ('k \<times> real \<times> 'v) set" where
  "askings rows = (\<lambda>s. (sh_key s, sh_time s, sh_value s)) ` {s \<in> set rows. sh_asked s}"

lemma askings_Cons:
  "askings (s # rows) = (if sh_asked s then insert (sh_key s, sh_time s, sh_value s) (askings rows) else askings rows)"
  by (auto simp: askings_def)

subsection \<open>The contract\<close>

text \<open>
  A cache serves the answer it holds until its term is over, and then asks and keeps the new one.
\<close>

locale keeper =
  fixes ask :: "'k \<Rightarrow> real \<Rightarrow> 'v \<Rightarrow> ('k, 'v) cache \<Rightarrow> 'v \<times> bool \<times> ('k, 'v) cache"
    and lasts :: "'v \<Rightarrow> real"
  assumes kept: "c k = Some (t, v) \<Longrightarrow> now < t \<Longrightarrow> ask k now answer c = (v, False, c)"
    and fresh: "\<forall>t v. c k = Some (t, v) \<longrightarrow> t \<le> now \<Longrightarrow> ask k now answer c = (answer, True, c(k \<mapsto> (now + lasts answer, answer)))"
    and pos: "0 < lasts v"
begin

lemma asked_spaced:
  "sorted_wrt (\<lambda>a b. sh_time a + lasts (sh_value a) \<le> sh_time b) (asked_for k (cache_run ask c es))
   \<and> (\<forall>t v. c k = Some (t, v) \<longrightarrow> (\<forall>b \<in> set (asked_for k (cache_run ask c es)). t \<le> sh_time b))"
proof (induction es arbitrary: c)
  case (Cons e es)
  obtain k' now answer where e: "e = (k', now, answer)" by (cases e)
  from until_cases [of c k' now] show ?case
  proof
    assume "\<exists>t v. c k' = Some (t, v) \<and> now < t"
    then obtain t v where c: "c k' = Some (t, v)" "now < t" by blast
    show ?thesis using Cons.IH [of c] by (simp add: e kept [of c k' t v] c asked_for_def)
  next
    assume old: "\<forall>t v. c k' = Some (t, v) \<longrightarrow> t \<le> now"
    let ?c = "c(k' \<mapsto> (now + lasts answer, answer))"
    have run: "cache_run ask c (e # es) =
        \<lparr>sh_key = k', sh_time = now, sh_value = answer, sh_asked = True\<rparr> # cache_run ask ?c es"
      using old fresh [of c k' now answer] by (simp add: e)
    show ?thesis
    proof (cases "k' = k")
      case False
      have "?c k = c k" using False by simp
      then show ?thesis using Cons.IH [of ?c] False unfolding run by (simp add: asked_for_def del: fun_upd_apply)
    next
      case True
      then have later: "\<forall>b \<in> set (asked_for k (cache_run ask ?c es)). now + lasts answer \<le> sh_time b"
        using Cons.IH [of ?c] by (simp del: fun_upd_apply add: fun_upd_same)
      moreover have "t \<le> sh_time b" if "c k = Some (t, v)" "b \<in> set (asked_for k (cache_run ask ?c es))" for t v b
      proof -
        from that(2) later have "now + lasts answer \<le> sh_time b" by blast
        moreover from that(1) old True have "t \<le> now" by blast
        ultimately show ?thesis using pos [of answer] by linarith
      qed
      ultimately show ?thesis using Cons.IH [of ?c] True old unfolding run by (auto simp: asked_for_def simp del: fun_upd_apply)
    qed
  qed
qed (simp add: asked_for_def)

text \<open>\<open>backed\<close>: what the cache holds was answered by now, to one of the askings given.\<close>

definition backed :: "('k \<times> real \<times> 'v) set \<Rightarrow> real \<Rightarrow> ('k, 'v) cache \<Rightarrow> bool" where
  "backed past now c \<longleftrightarrow>
     (\<forall>k t v. c k = Some (t, v) \<longrightarrow> (\<exists>a. (k, a, v) \<in> past \<and> a \<le> now \<and> t = a + lasts v))"

lemma shown_backed:
  assumes "backed past now0 c" "sorted (now0 # map (\<lambda>e. fst (snd e)) es)" "s \<in> set (cache_run ask c es)"
  shows "\<exists>a. (sh_key s, a, sh_value s) \<in> past \<union> askings (cache_run ask c es) \<and> a \<le> sh_time s
    \<and> sh_time s < a + lasts (sh_value s)"
  using assms
proof (induction es arbitrary: c now0 past)
  case (Cons e es)
  obtain k now answer where e: "e = (k, now, answer)" by (cases e)
  have later: "sorted (now # map (\<lambda>e. fst (snd e)) es)" "now0 \<le> now" using Cons.prems(2) by (auto simp: e)
  from until_cases [of c k now] show ?case
  proof
    assume "\<exists>t v. c k = Some (t, v) \<and> now < t"
    then obtain t v where c: "c k = Some (t, v)" "now < t" by blast
    let ?s = "\<lparr>sh_key = k, sh_time = now, sh_value = v, sh_asked = False\<rparr>"
    have run: "cache_run ask c (e # es) = ?s # cache_run ask c es"
      by (simp add: e kept [of c k t v] c)
    have "backed past now c" using Cons.prems(1) later(2) unfolding backed_def by (meson order_trans)
    from Cons.IH [OF this later(1)] Cons.prems(1,3) c later(2) show ?thesis
      unfolding run by (fastforce simp: askings_Cons backed_def)
  next
    assume old: "\<forall>t v. c k = Some (t, v) \<longrightarrow> t \<le> now"
    let ?s = "\<lparr>sh_key = k, sh_time = now, sh_value = answer, sh_asked = True\<rparr>"
    let ?c = "c(k \<mapsto> (now + lasts answer, answer))"
    have run: "cache_run ask c (e # es) = ?s # cache_run ask ?c es"
      using old fresh [of c k now answer] by (simp add: e)
    have "backed (insert (k, now, answer) past) now ?c"
      using Cons.prems(1) later(2) unfolding backed_def by (auto, force)
    from Cons.IH [OF this later(1)] Cons.prems(3) pos [of answer] show ?thesis
      unfolding run by (fastforce simp: askings_Cons)
  qed
qed simp

end

subsection \<open>The caches of the code\<close>

interpretation cached_found: keeper cached_discovery "term_of answered"
  unfolding cached_discovery_def by unfold_locales (rule cached_kept cached_fresh term_pos; assumption)+

interpretation cached_builds: keeper cached_build "term_of answered"
  unfolding cached_build_def by unfold_locales (rule cached_kept cached_fresh term_pos; assumption)+

section \<open>Properties\<close>

definition found_term :: "found list option \<Rightarrow> real" where
  "found_term v = (if v = None \<or> v = Some [] then 600 else 6 * 3600)"

lemma found_term_eq: "term_of answered = found_term"
  by (auto simp: term_of_def found_term_def answered_def DISCOVERY_TTL_def DISCOVERY_RETRY_def)

text \<open>C24. A mirror is asked rarely and its answer is never stale: over any sequence of page loads in time order, a
  distro's mirror is asked again only six hours after it answered, or ten minutes after it failed, and every
  list shown was answered by an earlier asking for the same distro no longer ago than that.\<close>

theorem mirror_asked_rarely:
  assumes "sorted (map (\<lambda>e. fst (snd e)) es)"
  shows "sorted_wrt (\<lambda>a b. sh_time a + found_term (sh_value a) \<le> sh_time b)
      (asked_for k (cache_run cached_discovery Map.empty es))
    \<and> (\<forall>s \<in> set (cache_run cached_discovery Map.empty es). \<exists>a \<in> set (cache_run cached_discovery Map.empty es).
        sh_asked a \<and> sh_key a = sh_key s \<and> sh_value a = sh_value s
        \<and> sh_time a \<le> sh_time s \<and> sh_time s < sh_time a + found_term (sh_value s))"
proof -
  let ?rows = "cache_run cached_discovery Map.empty es"
  have "\<exists>a \<in> set ?rows. sh_asked a \<and> sh_key a = sh_key s \<and> sh_value a = sh_value s
      \<and> sh_time a \<le> sh_time s \<and> sh_time s < sh_time a + found_term (sh_value s)" if s: "s \<in> set ?rows" for s
  proof -
    define now0 where "now0 = (case es of [] \<Rightarrow> 0 | e # _ \<Rightarrow> fst (snd e))"
    have sorted: "sorted (now0 # map (\<lambda>e. fst (snd e)) es)" using assms by (cases es) (auto simp: now0_def)
    have "cached_found.backed {} now0 Map.empty" by (simp add: cached_found.backed_def)
    from cached_found.shown_backed [OF this sorted s] show ?thesis
      unfolding found_term_eq askings_def by auto
  qed
  with cached_found.asked_spaced [of k Map.empty es] show ?thesis unfolding found_term_eq by blast
qed

text \<open>Two loads of the page within the term of a failed lookup, one of another distro between them.\<close>

theorem mirror_asked_rarely_witness:
  "asked_for ''debian'' (cache_run cached_discovery Map.empty
      [(''debian'', 0, None), (''arch'', 10, None), (''debian'', 300, Some []), (''debian'', 700, Some [])]) =
     [\<lparr>sh_key = ''debian'', sh_time = 0, sh_value = None, sh_asked = True\<rparr>,
      \<lparr>sh_key = ''debian'', sh_time = 700, sh_value = Some [], sh_asked = True\<rparr>]
   \<and> sorted_wrt (\<lambda>a b. sh_time a + found_term (sh_value a) \<le> sh_time b)
       (asked_for ''debian'' (cache_run cached_discovery Map.empty
         [(''debian'', 0, None), (''arch'', 10, None), (''debian'', 300, Some []), (''debian'', 700, Some [])]))"
proof
  show "sorted_wrt (\<lambda>a b. sh_time a + found_term (sh_value a) \<le> sh_time b)
       (asked_for ''debian'' (cache_run cached_discovery Map.empty
         [(''debian'', 0, None), (''arch'', 10, None), (''debian'', 300, Some []), (''debian'', 700, Some [])]))"
    by (rule conjunct1 [OF mirror_asked_rarely]) simp
qed (simp add: asked_for_def cached_discovery_def cached_def answered_def DISCOVERY_RETRY_def DISCOVERY_TTL_def)

end
