(* ===== verification/Releases.thy ===== *)
theory Releases
  imports Discovery Store
begin

text \<open>
  The release lists of the built-in distros as the Images page offers them (\<open>services/netboot.py\<close>): the
  catalog's own list, rebuilt from what the mirror carries, the newest builds, the pre-releases on top,
  and what the settings hide; and the checks the form makes of a release that was picked or typed.
\<close>

section \<open>The catalog\<close>

record build_spec =
  bs_show :: string
  bs_installer_only :: bool

record flavour =
  fl_id :: string
  fl_label :: string
  fl_only :: "string list"

text \<open>The live desktops of a distro; \<open>lv_unlisted\<close> is the first of the folders for unlisted releases.\<close>

record live_part =
  lv_folder :: "string option"
  lv_testing :: "string option"
  lv_unlisted :: string
  lv_releases :: "crel list"
  lv_flavours :: "flavour list"

record distro =
  d_id :: string
  d_name :: string
  d_mirror :: string
  d_installer :: bool
  d_releases :: "crel list"
  d_live :: "live_part option"
  d_listing :: "listing option"
  d_lookup :: "lookup option"
  d_builds :: "build_spec option"
  d_pre :: "pre_spec option"
  d_custom :: bool

text \<open>\<open>today\<close> is the day as \<^const>\<open>iso_date\<close> counts it.\<close>

definition past :: "nat \<Rightarrow> string option \<Rightarrow> bool" where
  "past today day =
     (case day of
        None \<Rightarrow> False
      | Some d \<Rightarrow> (case (if d = [] then None else iso_date d) of None \<Rightarrow> False | Some n \<Rightarrow> n < today))"

section \<open>The lists as the mirror carries them\<close>

definition release_label :: "string \<Rightarrow> found \<Rightarrow> string" where
  "release_label name f =
     (if f_codename f = f_number f then name @ '' '' @ f_number f
      else if f_testing f then name @ '' '' @ f_number f @ '' ('' @ f_codename f @ '', testing'' @ DASH @ ''pre-release)''
      else name @ '' '' @ f_number f @ '' ('' @ f_codename f @ '')'')"

definition plain_release :: "string \<Rightarrow> found \<Rightarrow> crel" where
  "plain_release name f = (new_rel (f_codename f) (release_label name f))\<lparr>rel_number := Some (f_number f)\<rparr>"

definition live_release_for :: "string \<Rightarrow> live_part \<Rightarrow> found \<Rightarrow> crel" where
  "live_release_for name lv f =
     (let r = (plain_release name f)\<lparr>rel_name := Some (name @ '' '' @ f_number f)\<rparr>
      in if f_testing f then r\<lparr>rel_base_url := lv_testing lv\<rparr>
         else r\<lparr>rel_base_url := Some (lv_unlisted lv), rel_unlisted := Some (f_number f)\<rparr>)"

text \<open>The default release: the newest that is out, or the newest of the preferred ones.\<close>

definition stable_release :: "listing option \<Rightarrow> found list \<Rightarrow> string option" where
  "stable_release listing found =
     (let first = (\<lambda>P. map_option f_codename (find (\<lambda>f. P f \<and> \<not> f_testing f) found));
          dflt = first (\<lambda>f. True)
      in case Option.bind listing ls_prefer of
           None \<Rightarrow> dflt
         | Some p \<Rightarrow> (case first (\<lambda>f. re_search p (f_codename f) \<noteq> None) of None \<Rightarrow> dflt | Some c \<Rightarrow> Some c))"

definition refreshed :: "nat \<Rightarrow> string option \<Rightarrow> found \<Rightarrow> crel \<Rightarrow> crel" where
  "refreshed today dflt f r =
     (let r = (if f_testing f
               then r\<lparr>rel_prerelease := True,
                      rel_label := (if contains ''pre-release'' (rel_label r) then rel_label r
                                    else rel_label r @ DASH @ ''pre-release'')\<rparr>
               else r);
          eol = (case f_eol f of None \<Rightarrow> rel_eol r | Some d \<Rightarrow> if d = [] then rel_eol r else Some d)
      in r\<lparr>rel_eol := eol, rel_default := (dflt = Some (f_codename f)), rel_ended := past today eol\<rparr>)"

definition merged :: "nat \<Rightarrow> string option \<Rightarrow> found list \<Rightarrow> (found \<Rightarrow> crel) \<Rightarrow> crel list \<Rightarrow> crel list" where
  "merged today dflt found new listed =
     map (\<lambda>f. refreshed today dflt f
             (case map_of (rev (map (\<lambda>r. (rel_id r, r)) listed)) (f_codename f) of None \<Rightarrow> new f | Some r \<Rightarrow> r)) found
     @ filter (\<lambda>r. rel_id r \<notin> f_codename ` set found) listed"

definition with_discovered :: "nat \<Rightarrow> found list \<Rightarrow> distro \<Rightarrow> distro" where
  "with_discovered today found d =
     (let dflt = stable_release (d_listing d) found; name = d_name d
      in d\<lparr>d_releases := (if d_installer d then merged today dflt found (plain_release name) (d_releases d) else d_releases d),
           d_live := map_option (\<lambda>lv. lv\<lparr>lv_releases := merged today dflt found
             (if lv_folder lv \<noteq> None then plain_release name else live_release_for name lv) (lv_releases lv)\<rparr>) (d_live d)\<rparr>)"

section \<open>Builds\<close>

definition built :: "build_spec \<Rightarrow> (string \<Rightarrow> string option) \<Rightarrow> crel \<Rightarrow> crel" where
  "built bs builds r =
     (case builds (rel_id r) of
        None \<Rightarrow> r
      | Some b \<Rightarrow>
          if b \<noteq> [] \<and> b \<noteq> rel_id r \<and> b \<noteq> (case rel_number r of None \<Rightarrow> [] | Some n \<Rightarrow> n)
          then r\<lparr>rel_build := Some b, rel_label := rel_label r @ DASH @ replace ''{build}'' b (bs_show bs)\<rparr>
          else r)"

definition with_builds :: "(string \<Rightarrow> string option) \<Rightarrow> distro \<Rightarrow> distro" where
  "with_builds builds d =
     (case d_builds d of
        None \<Rightarrow> d
      | Some bs \<Rightarrow>
          d\<lparr>d_releases := map (built bs builds) (d_releases d),
            d_live := (if bs_installer_only bs then d_live d
                       else map_option (\<lambda>lv. lv\<lparr>lv_releases := map (built bs builds) (lv_releases lv)\<rparr>) (d_live d))\<rparr>)"

definition release_ids :: "distro \<Rightarrow> string list" where
  "release_ids d =
     (let ids = map rel_id (d_releases d)
      in case (d_live d, d_builds d) of
           (Some lv, Some bs) \<Rightarrow>
             if bs_installer_only bs then ids else ids @ filter (\<lambda>i. i \<notin> set ids) (map rel_id (lv_releases lv))
         | _ \<Rightarrow> ids)"

section \<open>Pre-releases\<close>

definition superseded :: "string option \<Rightarrow> string list \<Rightarrow> bool" where
  "superseded number released =
     (let want = version_key (case number of None \<Rightarrow> [] | Some n \<Rightarrow> n)
      in want \<noteq> [] \<and> list_ex (\<lambda>v. let have = version_key v
           in have \<noteq> [] \<and> hd have = hd want \<and> key_le want (take (length want) have)) released)"

definition versions_out :: "crel list \<Rightarrow> string list" where
  "versions_out listed =
     concat (map (\<lambda>r. if rel_prerelease r then []
        else filter (\<lambda>v. v \<noteq> []) [rel_id r, case rel_number r of None \<Rightarrow> [] | Some n \<Rightarrow> n, case rel_build r of None \<Rightarrow> [] | Some b \<Rightarrow> b])
       listed)"

definition put_on_top :: "crel list \<Rightarrow> crel list \<Rightarrow> crel list" where
  "put_on_top found listed =
     filter (\<lambda>p. rel_id p \<notin> rel_id ` set listed \<and> \<not> superseded (rel_number p) (versions_out listed)) found @ listed"

definition with_prereleases :: "crel list \<Rightarrow> distro \<Rightarrow> distro" where
  "with_prereleases found d =
     d\<lparr>d_releases := (if d_installer d then put_on_top found (d_releases d) else d_releases d),
       d_live := (if (case d_pre d of None \<Rightarrow> True | Some sp \<Rightarrow> ps_live sp)
                  then map_option (\<lambda>lv. lv\<lparr>lv_releases := put_on_top found (lv_releases lv)\<rparr>) (d_live d)
                  else d_live d)\<rparr>"

section \<open>The page\<close>

definition without :: "(crel \<Rightarrow> bool) \<Rightarrow> distro \<Rightarrow> distro" where
  "without flag d =
     d\<lparr>d_releases := filter (\<lambda>r. \<not> flag r) (d_releases d),
       d_live := map_option (\<lambda>lv. lv\<lparr>lv_releases := filter (\<lambda>r. \<not> flag r) (lv_releases lv)\<rparr>) (d_live d)\<rparr>"

text \<open>What the mirrors answered for a distro: its releases, its pre-releases, the newest build of a release.\<close>

record answers =
  an_found :: "found list option"
  an_pres :: "crel list option"
  an_build :: "string \<Rightarrow> string option"

definition discovered :: "nat \<Rightarrow> found list option \<Rightarrow> distro \<Rightarrow> distro" where
  "discovered today found d = (case found of None \<Rightarrow> d | Some fs \<Rightarrow> if fs = [] then d else with_discovered today fs d)"

definition topped :: "crel list option \<Rightarrow> distro \<Rightarrow> distro" where
  "topped pres d = (case pres of None \<Rightarrow> d | Some ps \<Rightarrow> if ps = [] then d else with_prereleases ps d)"

definition page_entry :: "nat \<Rightarrow> answers \<Rightarrow> distro \<Rightarrow> distro" where
  "page_entry today an d =
     (let d1 = discovered today (an_found an) d;
          builds = (\<lambda>i. if i \<in> set (release_ids d1) then an_build an i else None)
      in topped (an_pres an) (with_builds builds d1))"

definition show_eol :: "settings \<Rightarrow> settings \<Rightarrow> bool" where
  "show_eol DEFAULTS db \<longleftrightarrow> get_setting DEFAULTS db ''netboot_show_eol'' None = ''1''"

definition show_prerelease :: "settings \<Rightarrow> settings \<Rightarrow> bool" where
  "show_prerelease DEFAULTS db \<longleftrightarrow> get_setting DEFAULTS db ''netboot_show_prerelease'' None = ''1''"

text \<open>A custom entry among the distros: an installer without discovery.\<close>

definition of_custom :: "nat \<Rightarrow> entry \<Rightarrow> distro" where
  "of_custom today e =
     \<lparr>d_id = e_id e, d_name = e_name e, d_mirror = e_mirror e, d_installer = True,
      d_releases = map (\<lambda>r. release.extend r
        \<lparr>rel_name = None, rel_ended = past today (rel_eol r), rel_build = None, rel_base_url = None,
         rel_unlisted = None, rel_mirror = None, rel_folder = (None, [])\<rparr>) (e_releases e),
      d_live = None, d_listing = None, d_lookup = None, d_builds = None, d_pre = None, d_custom = True\<rparr>"

definition page_catalog ::
  "nat \<Rightarrow> (string \<Rightarrow> answers) \<Rightarrow> settings \<Rightarrow> settings \<Rightarrow> distro list \<Rightarrow> entry_table \<Rightarrow> distro list" where
  "page_catalog today asked DEFAULTS db builtin custom =
     (let out = map (\<lambda>d. page_entry today (asked (d_id d)) d) builtin @ map (of_custom today) (custom_entries custom);
          out = (if show_eol DEFAULTS db then out else map (without rel_ended) out)
      in if show_prerelease DEFAULTS db then out else map (without rel_prerelease) out)"

section \<open>What was picked or typed\<close>

definition rel_names :: "crel \<Rightarrow> string list" where
  "rel_names r = map lower (filter (\<lambda>n. n \<noteq> [])
     [rel_id r, case rel_number r of None \<Rightarrow> [] | Some n \<Rightarrow> n, rel_label r, case rel_name r of None \<Rightarrow> [] | Some n \<Rightarrow> n])"

definition match_release :: "crel list \<Rightarrow> string \<Rightarrow> crel option" where
  "match_release releases text = (let full = lower (strip text) in find (\<lambda>r. full \<in> set (rel_names r)) releases)"

definition resolve_release :: "distro \<Rightarrow> string \<Rightarrow> string" where
  "resolve_release d text =
     (let text = strip text; low = drop_name (d_name d) (lower text)
      in case match_release (d_releases d) low of
           Some r \<Rightarrow> rel_id r
         | None \<Rightarrow> (case match_release (d_releases d) text of Some r \<Rightarrow> rel_id r | None \<Rightarrow> text))"

definition validate_live_release :: "live_part \<Rightarrow> string \<Rightarrow> exn + crel" where
  "validate_live_release lv release =
     (if strip release = [] \<and> lv_releases lv \<noteq> []
      then Inr (case find rel_default (lv_releases lv) of Some r \<Rightarrow> r | None \<Rightarrow> hd (lv_releases lv))
      else case match_release (lv_releases lv) release of
             Some r \<Rightarrow> Inr r
           | None \<Rightarrow> err ''Unknown live release.'')"

definition validate_flavour :: "live_part \<Rightarrow> string \<Rightarrow> string option \<Rightarrow> exn + string" where
  "validate_flavour lv flavour release =
     (let flavour = strip flavour
      in case find (\<lambda>f. fl_id f = flavour) (lv_flavours lv) of
           None \<Rightarrow> err ''Choose one of the listed desktops.''
         | Some f \<Rightarrow>
             (let major = takeWhile is_digit (case release of None \<Rightarrow> [] | Some r \<Rightarrow> r)
              in case release of
                   None \<Rightarrow> Inr flavour
                 | Some r \<Rightarrow>
                     if fl_only f \<noteq> [] \<and> r \<notin> set (fl_only f) \<and> \<not> (major \<noteq> [] \<and> major \<in> set (fl_only f))
                     then err (fl_label f @ '' is only published for release '' @ join '', '' (fl_only f) @ ''.'')
                     else Inr flavour))"

definition live_release_from_mirror :: "(string \<Rightarrow> string option) \<Rightarrow> distro \<Rightarrow> live_part \<Rightarrow> string \<Rightarrow> exn + crel" where
  "live_release_from_mirror fetch d lv text =
     (case lookup_release fetch (d_name d) (d_lookup d) (d_mirror d) text of
        None \<Rightarrow> err (''No Debian release '' @ [CHR 0x27] @ strip text @ [CHR 0x27] @ '' was found. Type its ''
          @ ''number or codename, or choose '' @ [CHR 0x27] @ ''Download from a URL'' @ [CHR 0x27] @ '' to use any ISO.'')
      | Some f \<Rightarrow> Inr (live_release_for (d_name d) lv f))"

text \<open>The list the installer or the live desktop of a distro is picked from.\<close>

definition listed :: "bool \<Rightarrow> distro \<Rightarrow> crel list" where
  "listed live d = (if live then (case d_live d of None \<Rightarrow> [] | Some lv \<Rightarrow> lv_releases lv) else d_releases d)"

definition ended_release :: "nat \<Rightarrow> found list option \<Rightarrow> distro \<Rightarrow> string \<Rightarrow> bool \<Rightarrow> crel option" where
  "ended_release today found d release live =
     (let d = (if d_custom d then d else discovered today found d)
      in case find (\<lambda>r. rel_id r = release) (listed live d) of
           None \<Rightarrow> None
         | Some r \<Rightarrow> if rel_ended r then Some r else None)"

definition prerelease_match :: "distro \<Rightarrow> string \<Rightarrow> rmatch option" where
  "prerelease_match d release =
     (case Option.bind (d_pre d) ps_match of None \<Rightarrow> None | Some pat \<Rightarrow> re_fullmatch pat release)"

definition prerelease_release :: "nat \<Rightarrow> found list option \<Rightarrow> crel list option \<Rightarrow> distro \<Rightarrow> string \<Rightarrow> bool \<Rightarrow> crel option" where
  "prerelease_release today found pres d release live =
     (let d = (if d_custom d then d else topped pres (discovered today found d))
      in case find (\<lambda>r. rel_id r = release) (listed live d) of
           Some r \<Rightarrow> if rel_prerelease r then Some r else None
         | None \<Rightarrow>
             if prerelease_match d release \<noteq> None
                \<or> (d_lookup d \<noteq> None \<and> lower release \<in> {''sid'', ''unstable'', ''testing''})
             then Some (new_rel release (d_name d @ '' '' @ release)) else None)"

text \<open>The two refusals of the form (\<open>add_netboot\<close> of \<open>routers/images.py\<close>).\<close>

definition ARROW :: string where "ARROW = [CHR '' '', CHR 0xE2, CHR 0x86, CHR 0x92, CHR '' '']"

definition offer_check ::
  "nat \<Rightarrow> found list option \<Rightarrow> crel list option \<Rightarrow> settings \<Rightarrow> settings \<Rightarrow> distro \<Rightarrow> string \<Rightarrow> bool \<Rightarrow> exn + crel option" where
  "offer_check today found pres DEFAULTS db d picked live =
     (case (if show_eol DEFAULTS db then None else ended_release today found d picked live) of
        Some r \<Rightarrow> err (rel_label r @ '' has reached its end of life. Turn on Offer end-of-life releases under Settings''
                    @ ARROW @ ''Netboot catalog to add it.'')
      | None \<Rightarrow>
          (case prerelease_release today found pres d picked live of
             None \<Rightarrow> Inr None
           | Some r \<Rightarrow>
               if show_prerelease DEFAULTS db then Inr (Some r)
               else err ((case rel_name r of Some n \<Rightarrow> if n = [] then rel_label r else n | None \<Rightarrow> rel_label r)
                      @ '' is a pre-release. Turn on Offer pre-releases under Settings'' @ ARROW @ ''Netboot catalog to add it.'')))"

text \<open>The version in the name of a Debian live ISO, and the refusal of one that is not the release picked.\<close>

definition LIVE_ISO_RE :: rx where
  "LIVE_ISO_RE = Seq (lit ''debian-live-'') (Seq (Grp 1 (Alt (plus1 (Cls (\<lambda>c. is_digit c \<or> c = CHR ''.''))) (lit ''testing''))) (lit ''-''))"

definition check_live_iso_matches :: "live_part \<Rightarrow> crel \<Rightarrow> string \<Rightarrow> exn + unit" where
  "check_live_iso_matches lv r url =
     (case rel_number r of
        None \<Rightarrow> Inr ()
      | Some number \<Rightarrow>
          if number = [] then Inr ()
          else (let name = after_last CHR ''/'' url
                in case Option.bind (re_match LIVE_ISO_RE name) (group 1) of
                     None \<Rightarrow> Inr ()
                   | Some v \<Rightarrow>
                       if (if rel_base_url r = lv_testing lv then v = ''testing'' else prefix (number @ ''.'') v) then Inr ()
                       else err (''The Mirror folder holds '' @ (if v = ''testing'' then ''the testing build'' else ''Debian '' @ v)
                              @ '' ('' @ name @ ''), not '' @ rel_label r @ ''. Pick the release again so the Mirror box is refilled, or correct the folder.'')))"

section \<open>Lemmas\<close>

lemma find_id:
  "find (\<lambda>r. rel_id r = i) rs = None \<longleftrightarrow> i \<notin> rel_id ` set rs"
  "find (\<lambda>r. rel_id r = i) rs = Some r \<Longrightarrow> r \<in> set rs \<and> rel_id r = i"
  by (auto simp: find_None_iff find_Some_iff)

lemma find_id_unique:
  "distinct (map rel_id rs) \<Longrightarrow> r \<in> set rs \<Longrightarrow> find (\<lambda>x. rel_id x = rel_id r) rs = Some r"
  by (induction rs) (auto simp: image_iff)

lemma by_id:
  assumes "distinct (map rel_id rs)"
  shows "map_of (rev (map (\<lambda>r. (rel_id r, r)) rs)) i = find (\<lambda>r. rel_id r = i) rs"
proof -
  have "map_of (rev (map (\<lambda>r. (rel_id r, r)) rs)) = map_of (map (\<lambda>r. (rel_id r, r)) rs)"
    using assms by (intro map_of_inject_set [THEN iffD2]) (simp_all add: rev_map [symmetric] comp_def)
  moreover have "map_of (map (\<lambda>r. (rel_id r, r)) rs) i = find (\<lambda>r. rel_id r = i) rs"
    by (induction rs) auto
  ultimately show ?thesis by simp
qed

lemma refreshed_simps [simp]:
  "rel_id (refreshed today s f r) = rel_id r"
  "rel_number (refreshed today s f r) = rel_number r"
  "rel_name (refreshed today s f r) = rel_name r"
  "rel_base_url (refreshed today s f r) = rel_base_url r"
  "rel_folder (refreshed today s f r) = rel_folder r"
  "rel_default (refreshed today s f r) \<longleftrightarrow> s = Some (f_codename f)"
  "rel_ended (refreshed today s f r) \<longleftrightarrow> past today (rel_eol (refreshed today s f r))"
  by (simp_all add: refreshed_def Let_def)

lemma new_release_id [simp]:
  "rel_id (plain_release name f) = f_codename f"
  "rel_id (live_release_for name lv f) = f_codename f"
  by (simp_all add: plain_release_def live_release_for_def new_rel_def Let_def)

definition source_of :: "(found \<Rightarrow> crel) \<Rightarrow> crel list \<Rightarrow> found \<Rightarrow> crel" where
  "source_of new rs f =
     (case map_of (rev (map (\<lambda>r. (rel_id r, r)) rs)) (f_codename f) of None \<Rightarrow> new f | Some r \<Rightarrow> r)"

lemma merged_eq:
  "merged today s found new rs =
     map (\<lambda>f. refreshed today s f (source_of new rs f)) found @ filter (\<lambda>r. rel_id r \<notin> f_codename ` set found) rs"
  by (simp add: merged_def source_of_def)

lemma source_of_id: "(\<And>f. rel_id (new f) = f_codename f) \<Longrightarrow> rel_id (source_of new rs f) = f_codename f"
  by (auto simp: source_of_def dest!: map_of_SomeD split: option.split)

lemma merged_ids:
  assumes "\<And>f. rel_id (new f) = f_codename f"
  shows "map rel_id (merged today s found new rs) =
    map f_codename found @ filter (\<lambda>i. i \<notin> f_codename ` set found) (map rel_id rs)"
  using assms by (simp add: merged_eq source_of_id filter_map comp_def)

lemma distinct_merged:
  assumes "\<And>f. rel_id (new f) = f_codename f" "distinct (map f_codename found)" "distinct (map rel_id rs)"
  shows "distinct (map rel_id (merged today s found new rs))"
  unfolding merged_ids [OF assms(1)] using assms by auto

text \<open>The list of a distro, whichever it is, goes through the same steps.\<close>

definition maker :: "bool \<Rightarrow> distro \<Rightarrow> found \<Rightarrow> crel" where
  "maker live d =
     (case d_live d of
        Some lv \<Rightarrow> if live \<and> lv_folder lv = None then live_release_for (d_name d) lv else plain_release (d_name d)
      | None \<Rightarrow> plain_release (d_name d))"

lemma maker_id [simp]: "rel_id (maker live d f) = f_codename f"
  by (simp add: maker_def split: option.split)

definition kept_list :: "bool \<Rightarrow> distro \<Rightarrow> bool" where
  "kept_list live d \<longleftrightarrow> (if live then d_live d = None else \<not> d_installer d)"

lemma listed_discovered:
  "listed live (with_discovered today found d) =
     (if kept_list live d then listed live d
      else merged today (stable_release (d_listing d) found) found (maker live d) (listed live d))"
  by (auto simp: listed_def with_discovered_def kept_list_def maker_def Let_def split: option.splits)

lemma listed_without: "listed live (without flag d) = filter (\<lambda>r. \<not> flag r) (listed live d)"
  by (simp add: listed_def without_def split: option.split)

lemma built_simps [simp]:
  "rel_id (built bs b r) = rel_id r"
  "rel_ended (built bs b r) = rel_ended r"
  "rel_prerelease (built bs b r) = rel_prerelease r"
  "rel_number (built bs b r) = rel_number r"
  by (simp_all add: built_def split: option.split)

lemma builds_keep:
  "\<exists>g. listed live (with_builds b d) = map g (listed live d) \<and> (\<forall>r. g r = r \<or> (\<exists>bs c. g r = built bs c r))"
proof (cases "d_builds d")
  case None
  then show ?thesis by (intro exI [of _ id]) (simp add: with_builds_def)
next
  case (Some bs)
  then have "listed live (with_builds b d) =
      map (if live \<and> bs_installer_only bs then id else built bs b) (listed live d)"
    by (simp add: with_builds_def listed_def split: option.split)
  then show ?thesis by (intro exI [of _ "if live \<and> bs_installer_only bs then id else built bs b"]) auto
qed

text \<open>Whether a list of the distro gets its pre-releases.\<close>

definition gets_pres :: "bool \<Rightarrow> distro \<Rightarrow> bool" where
  "gets_pres live d \<longleftrightarrow>
     (if live then d_live d \<noteq> None \<and> (case d_pre d of None \<Rightarrow> True | Some sp \<Rightarrow> ps_live sp) else d_installer d)"

lemma listed_topped:
  "listed live (topped pres d) =
     (case pres of None \<Rightarrow> listed live d
      | Some ps \<Rightarrow> if gets_pres live d then put_on_top ps (listed live d) else listed live d)"
  by (auto simp: listed_def topped_def with_prereleases_def put_on_top_def gets_pres_def split: option.splits)

lemma gets_pres_same [simp]:
  "gets_pres live (with_builds b d) = gets_pres live d"
  "gets_pres live (discovered today found d) = gets_pres live d"
  by (auto simp: gets_pres_def with_builds_def discovered_def with_discovered_def Let_def split: option.splits)

lemma superseded_mono: "set vs \<subseteq> set ws \<Longrightarrow> superseded n vs \<Longrightarrow> superseded n ws"
  by (auto simp: superseded_def Let_def list_ex_iff)

lemma versions_out_map:
  assumes "\<And>r. g r = r \<or> (\<exists>bs c. g r = built bs c r)" "\<And>r. r \<in> set rs \<Longrightarrow> rel_build r = None"
  shows "set (versions_out rs) \<subseteq> set (versions_out (map g rs))"
proof -
  have "rel_prerelease (g r) = rel_prerelease r" "rel_id (g r) = rel_id r" "rel_number (g r) = rel_number r" for r
    using assms(1) [of r] by auto
  with assms(2) show ?thesis by (fastforce simp: versions_out_def split: if_splits)
qed

section \<open>The page and the form\<close>

text \<open>A catalog and answers as the code makes them: no id twice, no build before it is looked up, and
  a pre-release marked as one.\<close>

definition wf_lists :: "found list option \<Rightarrow> crel list option \<Rightarrow> distro \<Rightarrow> bool" where
  "wf_lists found pres d \<longleftrightarrow>
     distinct (map rel_id (listed False d)) \<and> distinct (map rel_id (listed True d))
     \<and> list_all (\<lambda>r. rel_build r = None) (listed False d @ listed True d)
     \<and> (case found of None \<Rightarrow> True | Some fs \<Rightarrow> distinct (map f_codename fs))
     \<and> (case pres of None \<Rightarrow> True | Some ps \<Rightarrow> list_all (\<lambda>p. rel_prerelease p \<and> \<not> rel_ended p) ps)"

lemma discovered_wf:
  assumes "wf_lists found pres d"
  shows "distinct (map rel_id (listed live (discovered today found d)))"
    "r \<in> set (listed live (discovered today found d)) \<Longrightarrow> rel_build r = None"
proof -
  have d: "distinct (map rel_id (listed live d))" and b: "list_all (\<lambda>r. rel_build r = None) (listed live d)"
    using assms by (cases live; simp add: wf_lists_def)+
  show "distinct (map rel_id (listed live (discovered today found d)))"
    using assms d by (auto simp: discovered_def listed_discovered wf_lists_def distinct_merged split: option.split)
  have "rel_build (source_of (maker live d) (listed live d) f) = None" for f
    using b by (auto simp: source_of_def maker_def plain_release_def live_release_for_def new_rel_def Let_def list_all_iff
        dest!: map_of_SomeD split: option.split)
  then show "r \<in> set (listed live (discovered today found d)) \<Longrightarrow> rel_build r = None"
    using b by (auto simp: discovered_def listed_discovered merged_eq refreshed_def Let_def list_all_iff split: option.splits if_splits)
qed

text \<open>A release of the page comes from the list the form looks in, or is a pre-release put on top of it.\<close>

lemma page_release:
  assumes "r \<in> set (listed live (page_entry today an d))"
  obtains (own) r1 where "r1 \<in> set (listed live (discovered today (an_found an) d))"
      "rel_id r1 = rel_id r" "rel_ended r1 = rel_ended r" "rel_prerelease r1 = rel_prerelease r"
  | (top) ps where "an_pres an = Some ps" "r \<in> set ps" "gets_pres live d"
      "rel_id r \<notin> rel_id ` set (listed live (discovered today (an_found an) d))"
      "\<not> superseded (rel_number r) (versions_out (listed live (with_builds
          (\<lambda>i. if i \<in> set (release_ids (discovered today (an_found an) d)) then an_build an i else None)
          (discovered today (an_found an) d))))"
proof -
  let ?d = "discovered today (an_found an) d"
  let ?b = "\<lambda>i. if i \<in> set (release_ids ?d) then an_build an i else None"
  obtain g where g: "listed live (with_builds ?b ?d) = map g (listed live ?d)" "\<And>r. g r = r \<or> (\<exists>bs c. g r = built bs c r)"
    using builds_keep by blast
  have same: "rel_id (g x) = rel_id x" "rel_ended (g x) = rel_ended x" "rel_prerelease (g x) = rel_prerelease x" for x
    using g(2) [of x] by auto
  have cases: "r \<in> g ` set (listed live ?d) \<or> (\<exists>ps. an_pres an = Some ps \<and> r \<in> set ps \<and> gets_pres live d
      \<and> rel_id r \<notin> rel_id ` set (map g (listed live ?d)) \<and> \<not> superseded (rel_number r) (versions_out (map g (listed live ?d))))"
    using assms by (auto simp: page_entry_def Let_def listed_topped g(1) put_on_top_def split: option.splits if_splits)
  show thesis
    using cases
  proof
    assume "r \<in> g ` set (listed live ?d)"
    then show thesis using same own by auto
  next
    assume "\<exists>ps. an_pres an = Some ps \<and> r \<in> set ps \<and> gets_pres live d
      \<and> rel_id r \<notin> rel_id ` set (map g (listed live ?d)) \<and> \<not> superseded (rel_number r) (versions_out (map g (listed live ?d)))"
    moreover have "rel_id ` set (map g (listed live ?d)) = rel_id ` set (listed live ?d)" by (auto simp: same image_comp comp_def)
    ultimately show thesis using top g(1) by auto
  qed
qed

lemma find_top_own:
  "i \<in> rel_id ` set rs \<Longrightarrow> find (\<lambda>x. rel_id x = i) (put_on_top ps rs) = find (\<lambda>x. rel_id x = i) rs"
proof -
  let ?top = "filter (\<lambda>p. rel_id p \<notin> rel_id ` set rs \<and> \<not> superseded (rel_number p) (versions_out rs)) ps"
  assume "i \<in> rel_id ` set rs"
  then have "find (\<lambda>x. rel_id x = i) ?top = None" by (auto simp: find_None_iff)
  then show ?thesis by (simp add: put_on_top_def find_append)
qed

lemma find_top_new:
  "i \<notin> rel_id ` set rs \<Longrightarrow> find (\<lambda>x. rel_id x = i) (put_on_top ps rs) = Some p \<Longrightarrow> p \<in> set ps"
  using find_id(2) [of i "put_on_top ps rs" p] by (auto simp: put_on_top_def)

lemma form_finds:
  assumes "\<not> d_custom d"
  shows "find (\<lambda>x. rel_id x = i) (listed live (discovered today found d)) = Some x \<Longrightarrow>
      ended_release today found d i live \<noteq> None \<longleftrightarrow> rel_ended x"
    "find (\<lambda>x. rel_id x = i) (listed live (discovered today found d)) = None \<Longrightarrow>
      ended_release today found d i live = None"
    "find (\<lambda>x. rel_id x = i) (listed live (topped pres (discovered today found d))) = Some x \<Longrightarrow>
      prerelease_release today found pres d i live \<noteq> None \<longleftrightarrow> rel_prerelease x"
  using assms by (simp_all add: ended_release_def prerelease_release_def)

lemma form_knows:
  assumes wf: "wf_lists (an_found an) (an_pres an) d" and nc: "\<not> d_custom d"
    and r: "r \<in> set (listed live (page_entry today an d))"
  shows "(ended_release today (an_found an) d (rel_id r) live \<noteq> None \<longleftrightarrow> rel_ended r)
    \<and> (prerelease_release today (an_found an) (an_pres an) d (rel_id r) live \<noteq> None \<longleftrightarrow> rel_prerelease r)"
proof -
  let ?d = "discovered today (an_found an) d"
  let ?L = "listed live ?d" and ?T = "listed live (topped (an_pres an) (discovered today (an_found an) d))"
  note top_list = listed_topped [of live "an_pres an" ?d, unfolded gets_pres_same]
  have pre: "rel_prerelease p \<and> \<not> rel_ended p" if "an_pres an = Some ps" "p \<in> set ps" for p ps
    using wf that by (simp add: wf_lists_def list_all_iff)
  from r show ?thesis
  proof (cases rule: page_release)
    case (own r1)
    have L: "find (\<lambda>x. rel_id x = rel_id r) ?L = Some r1"
      using find_id_unique [OF discovered_wf(1) [OF wf] own(1)] own(2) by simp
    have "rel_id r \<in> rel_id ` set ?L" using own(1,2) by (metis image_eqI)
    then have "find (\<lambda>x. rel_id x = rel_id r) ?T = Some r1"
      unfolding top_list by (cases "an_pres an") (simp_all add: L find_top_own)
    from form_finds(1) [OF nc L] form_finds(3) [OF nc this] own(3,4) show ?thesis by simp
  next
    case (top ps)
    have none: "find (\<lambda>x. rel_id x = rel_id r) ?L = None" using top(4) unfolding find_id(1) .
    let ?b = "\<lambda>i. if i \<in> set (release_ids ?d) then an_build an i else None"
    obtain g where g: "listed live (with_builds ?b ?d) = map g ?L" "\<And>r. g r = r \<or> (\<exists>bs c. g r = built bs c r)"
      using builds_keep by blast
    have "rel_build x = None" if "x \<in> set ?L" for x by (rule discovered_wf(2) [OF wf that])
    from superseded_mono [OF versions_out_map [OF g(2) this]] top(5)
    have "\<not> superseded (rel_number r) (versions_out ?L)" unfolding g(1) by blast
    then have "r \<in> set (put_on_top ps ?L)" using top(2,4) by (simp add: put_on_top_def)
    then have "rel_id r \<in> rel_id ` set (put_on_top ps ?L)" by (rule imageI)
    then obtain p where p: "find (\<lambda>x. rel_id x = rel_id r) (put_on_top ps ?L) = Some p"
      using find_id(1) [of "rel_id r" "put_on_top ps ?L"] by fastforce
    have "?T = put_on_top ps ?L" unfolding top_list by (simp add: top(1,3))
    with p have "find (\<lambda>x. rel_id x = rel_id r) ?T = Some p" by simp
    from form_finds(2) [OF nc none] form_finds(3) [OF nc this] pre [OF top(1) find_top_new [OF top(4) p]] pre [OF top(1,2)]
    show ?thesis by simp
  qed
qed

section \<open>Properties\<close>

text \<open>C19. The page and the form agree: of the releases and pre-releases a distro would list with everything shown, the
  page offers exactly those the form accepts when they are picked or typed - for the installer and the live
  desktop alike, whatever the mirrors answered and the settings hide.\<close>

theorem page_and_form_agree:
  assumes "wf_lists (an_found an) (an_pres an) d" "\<not> d_custom d" "r \<in> set (listed live (page_entry today an d))"
  shows "r \<in> set (listed live (hd (page_catalog today (\<lambda>_. an) DEFAULTS db [d] [])))
    \<longleftrightarrow> (\<exists>x. offer_check today (an_found an) (an_pres an) DEFAULTS db d (rel_id r) live = Inr x)"
proof -
  have "r \<in> set (listed live (hd (page_catalog today (\<lambda>_. an) DEFAULTS db [d] [])))
      \<longleftrightarrow> (rel_ended r \<longrightarrow> show_eol DEFAULTS db) \<and> (rel_prerelease r \<longrightarrow> show_prerelease DEFAULTS db)"
    using assms(3) by (auto simp: page_catalog_def Let_def custom_entries_def map_filter_simps listed_without)
  also have "\<dots> \<longleftrightarrow> (\<exists>x. offer_check today (an_found an) (an_pres an) DEFAULTS db d (rel_id r) live = Inr x)"
    using form_knows [OF assms] by (auto simp: offer_check_def split: option.splits)
  finally show ?thesis .
qed


section \<open>Witnesses\<close>

text \<open>A distro whose catalog knows 44 (the default) and 43; the mirror carries 46, 45 and 44, and a beta of 47.\<close>

definition fedora :: distro where
  "fedora =
     \<lparr>d_id = ''fedora'', d_name = ''Fedora'', d_mirror = ''https://mirror'', d_installer = True,
      d_releases = [(new_rel ''44'' ''Fedora 44'')\<lparr>rel_default := True, rel_eol := Some ''2027-05-26''\<rparr>,
                    (new_rel ''43'' ''Fedora 43'')\<lparr>rel_eol := Some ''2026-12-02'', rel_ended := True\<rparr>],
      d_live = None, d_listing = None, d_lookup = None, d_builds = None, d_pre = None, d_custom = False\<rparr>"

definition carried :: "string \<Rightarrow> found" where
  "carried v = \<lparr>f_number = v, f_codename = v, f_testing = False, f_eol = None\<rparr>"

definition beta47 :: crel where
  "beta47 = (new_rel ''47_Beta'' (''Fedora 47 Beta'' @ DASH @ ''pre-release''))\<lparr>rel_prerelease := True, rel_number := Some ''47''\<rparr>"

definition todays_answers :: answers where
  "todays_answers = \<lparr>an_found = Some (map carried [''46'', ''45'', ''44'']), an_pres = Some [beta47], an_build = (\<lambda>_. None)\<rparr>"

text \<open>31 December 2026, in days.\<close>

definition a_day :: nat where "a_day = (case iso_date ''2026-12-31'' of Some n \<Rightarrow> n | None \<Rightarrow> 0)"

lemma fedora_stable: "stable_release (d_listing fedora) (map carried [''46'', ''45'', ''44'']) = Some ''46''"
  by (simp add: stable_release_def fedora_def carried_def)


text \<open>The former default keeps its mark when the mirror no longer carries it: two releases are the default.\<close>

lemma former_default_stays:
  "map rel_id (filter rel_default (d_releases (with_discovered a_day (map carried [''46'', ''45'']) fedora))) = [''46'', ''44'']"
  by (simp add: with_discovered_def Let_def merged_eq fedora_def carried_def stable_release_def source_of_def new_rel_def plain_release_def)

lemma fedora_list:
  "listed False (discovered a_day (Some (map carried [''46'', ''45'', ''44''])) fedora) =
     map (\<lambda>f. refreshed a_day (Some ''46'') f (source_of (plain_release ''Fedora'') (d_releases fedora) f))
       (map carried [''46'', ''45'', ''44'']) @ [(new_rel ''43'' ''Fedora 43'')\<lparr>rel_eol := Some ''2026-12-02'', rel_ended := True\<rparr>]"
  using fedora_stable by (simp add: discovered_def listed_def with_discovered_def Let_def merged_eq)
    (simp add: fedora_def carried_def new_rel_def)

lemma fedora_current: "\<not> superseded (Some ''47'') [''46'', ''46'', ''45'', ''45'', ''44'', ''43'']"
  by code_simp

lemma fedora_versions:
  "versions_out (listed False (discovered a_day (Some (map carried [''46'', ''45'', ''44''])) fedora)) =
     [''46'', ''46'', ''45'', ''45'', ''44'', ''43'']"
  unfolding fedora_list
  by (simp add: versions_out_def refreshed_def Let_def carried_def source_of_def fedora_def new_rel_def plain_release_def)

lemma fedora_page: "page_entry a_day todays_answers fedora =
    with_prereleases [beta47] (discovered a_day (Some (map carried [''46'', ''45'', ''44''])) fedora)"
proof -
  have "d_builds (discovered a_day (Some (map carried [''46'', ''45'', ''44''])) fedora) = None"
    by (simp add: discovered_def with_discovered_def Let_def fedora_def)
  then show ?thesis by (simp add: page_entry_def Let_def todays_answers_def topped_def with_builds_def)
qed

lemma beta_listed: "beta47 \<in> set (listed False (page_entry a_day todays_answers fedora))"
proof -
  let ?L = "listed False (discovered a_day (Some (map carried [''46'', ''45'', ''44''])) fedora)"
  have "rel_id beta47 \<notin> rel_id ` set ?L" unfolding fedora_list
    by (simp add: source_of_id carried_def beta47_def new_rel_def)
  moreover have "\<not> superseded (rel_number beta47) (versions_out ?L)"
    unfolding fedora_versions using fedora_current by (simp add: beta47_def)
  ultimately have "beta47 \<in> set (put_on_top [beta47] ?L)" by (simp add: put_on_top_def)
  moreover have "listed False (page_entry a_day todays_answers fedora) = put_on_top [beta47] ?L"
    using listed_topped [of False "Some [beta47]"] unfolding fedora_page
    by (simp add: topped_def gets_pres_same) (simp add: gets_pres_def fedora_def)
  ultimately show ?thesis by simp
qed

theorem page_and_form_agree_witness:
  "beta47 \<notin> set (listed False (hd (page_catalog a_day (\<lambda>_. todays_answers) [] [] [fedora] [])))
   \<and> (\<nexists>x. offer_check a_day (an_found todays_answers) (an_pres todays_answers) [] [] fedora ''47_Beta'' False = Inr x)"
proof -
  have w: "wf_lists (an_found todays_answers) (an_pres todays_answers) fedora" "\<not> d_custom fedora"
    by (simp_all add: wf_lists_def todays_answers_def fedora_def listed_def carried_def new_rel_def beta47_def)
  note a = page_and_form_agree [OF w beta_listed, of "[]" "[]"]
  have "beta47 \<notin> set (listed False (hd (page_catalog a_day (\<lambda>_. todays_answers) [] [] [fedora] [])))"
    by (simp add: page_catalog_def Let_def custom_entries_def map_filter_simps listed_without show_prerelease_def get_setting_def beta47_def)
  with a show ?thesis by (simp add: beta47_def new_rel_def)
qed

end
