(* ===== verification/BootFiles.thy ===== *)
theory BootFiles
  imports Releases Download ImageBuild
begin

text \<open>
  Building a catalog image (\<open>services/netboot.py\<close> and \<open>_process_netboot\<close> of \<open>services/images.py\<close>): the boot
  files of an installer, taken out of a netboot archive or downloaded one by one, those of a live
  desktop, taken out of its ISO, and the columns the build writes.  Tar and ISO parsing, gzip and the
  network are arguments.
\<close>

section \<open>The templates of an entry\<close>

text \<open>
  The boot file templates of a distro.  A release of the catalog or the distro's pre-releases can have
  templates of their own; in those of a pre-release \<open>{number}\<close> stands for its version.
\<close>

record templates =
  t_archive :: string
  t_kernel :: string
  t_initrd :: string
  t_args :: string
  t_extra :: "(string \<times> string) list"      \<comment> \<open>address and name\<close>
  t_mirror :: string

text \<open>The overrides of a release: arguments and extra files; of the pre-releases: each template.\<close>

record overrides =
  o_archive :: "string option"
  o_kernel_url :: "string option"
  o_initrd_url :: "string option"
  o_boot_args :: "string option"
  o_extra :: "(string \<times> string) list option"
  o_mirror :: "string option"

definition override :: "overrides \<Rightarrow> templates \<Rightarrow> templates" where
  "override ov t =
     \<lparr>t_archive = keep (o_archive ov) (t_archive t), t_kernel = keep (o_kernel_url ov) (t_kernel t),
      t_initrd = keep (o_initrd_url ov) (t_initrd t), t_args = keep (o_boot_args ov) (t_args t),
      t_extra = keep (o_extra ov) (t_extra t), t_mirror = keep (o_mirror ov) (t_mirror t)\<rparr>"

definition numbered :: "string \<Rightarrow> overrides \<Rightarrow> overrides" where
  "numbered number ov =
     (let fill_in = replace ''{number}'' number
      in \<lparr>o_archive = map_option fill_in (o_archive ov), o_kernel_url = map_option fill_in (o_kernel_url ov),
          o_initrd_url = map_option fill_in (o_initrd_url ov), o_boot_args = map_option fill_in (o_boot_args ov),
          o_extra = map_option (map (\<lambda>(u, n). (fill_in u, n))) (o_extra ov), o_mirror = o_mirror ov\<rparr>)"

text \<open>\<open>number_group\<close>: the group of the pattern that holds the version, where it has one.\<close>

definition prerelease_overrides :: "distro \<Rightarrow> nat option \<Rightarrow> overrides \<Rightarrow> string \<Rightarrow> overrides option" where
  "prerelease_overrides d number_group spec release =
     (case prerelease_match d release of
        None \<Rightarrow> None
      | Some mt \<Rightarrow>
          (let number = (case Option.bind number_group (\<lambda>k. group k mt) of None \<Rightarrow> [] | Some n \<Rightarrow> n)
           in Some (numbered (if number = [] then release else number) spec)))"

text \<open>\<open>own\<close>: the arguments and extra files the catalog gives the release itself.\<close>

definition for_release :: "distro \<Rightarrow> (string \<Rightarrow> overrides option) \<Rightarrow> nat option \<Rightarrow> overrides \<Rightarrow> templates \<Rightarrow> string \<Rightarrow> templates" where
  "for_release d own number_group spec t release =
     (let t = (case own release of None \<Rightarrow> t | Some ov \<Rightarrow> override ov t)
      in case prerelease_overrides d number_group spec release of None \<Rightarrow> t | Some ov \<Rightarrow> override ov t)"

text \<open>The kernel command line; \<open>values\<close> are read from the archive.\<close>

definition boot_args_for :: "templates \<Rightarrow> string \<Rightarrow> string \<Rightarrow> nat \<Rightarrow> (string \<times> string) list \<Rightarrow> exn + string" where
  "boot_args_for t mirror release i values =
     (case urlparse mirror of
        None \<Rightarrow> Inl Crash
      | Some parsed \<Rightarrow>
          filled ([(''mirror'', mirror), (''version'', release), (''mirror_proto'', scheme parsed),
                   (''mirror_host'', netloc parsed),
                   (''mirror_path'', if url_path parsed = [] then ''/'' else url_path parsed),
                   (''image_id'', show_nat i)] @ values) (t_args t))"

text \<open>A value of the archive is moved to the mirror an admin set.\<close>

definition archive_values :: "string \<Rightarrow> string \<Rightarrow> (string \<times> string) list \<Rightarrow> (string \<times> string) list" where
  "archive_values dflt mirror values =
     map (\<lambda>(k, v). (k, if mirror \<noteq> dflt \<and> prefix (dflt @ ''/'') v then mirror @ drop (length dflt) v else v)) values"

section \<open>Names in a listing\<close>

text \<open>The newest of the names a pattern finds, at the start of a name.\<close>

definition listed_names :: "rx \<Rightarrow> string \<Rightarrow> string list" where
  "listed_names r text =
     (let hits = re_finditer (Seq (NotBehind (\<lambda>c. py_word c \<or> c = CHR ''.'' \<or> c = CHR ''-'')) r) text
      in sort_by (\<lambda>a b. key_le (version_key a) (version_key b)) (remdups (map fst hits)))"

text \<open>
  An archive that is named for its point release, with the pattern of a beta's as a second choice; the
  patterns are compiled for the release.
\<close>

definition resolve_archive_url ::
  "(string \<Rightarrow> exn + string) \<Rightarrow> string \<Rightarrow> (string \<times> rx \<times> rx option) option \<Rightarrow> templates \<Rightarrow> string \<Rightarrow> string \<Rightarrow> exn + string" where
  "resolve_archive_url read_listing name archive_listing t mirror release =
     (case archive_listing of
        None \<Rightarrow> filled (url_args mirror release) (t_archive t)
      | Some (folder, r, beta) \<Rightarrow>
          rbind (filled (url_args mirror release) folder) (\<lambda>folder.
          rbind (read_listing folder) (\<lambda>text.
            (let names = listed_names r text;
                 names = (if names = [] then (case beta of None \<Rightarrow> [] | Some b \<Rightarrow> listed_names b text) else names)
             in if names = []
                then err (''No '' @ name @ '' '' @ release @ '' netboot archive was found at '' @ folder
                       @ ''/. Check the release and the mirror.'')
                else Inr (folder @ ''/'' @ last names)))))"

text \<open>The folder and the file of a live ISO.\<close>

definition resolve_release_folder ::
  "(string \<Rightarrow> exn + string) \<Rightarrow> rx option \<Rightarrow> string \<Rightarrow> string \<Rightarrow> string \<Rightarrow> exn + string" where
  "resolve_release_folder read_listing dir_regex label subpath base_url =
     (let base_url = rstrip_chars ''/'' base_url
      in case dir_regex of
           None \<Rightarrow> Inr base_url
         | Some r \<Rightarrow>
             rbind (read_listing base_url) (\<lambda>text.
               (let dirs = sort_by (\<lambda>a b. key_le (version_key a) (version_key b)) (remdups (map fst (re_finditer r text)))
                in if dirs = [] then err (''No '' @ label @ '' live folder was found at '' @ base_url @ ''/.'')
                   else Inr (join ''/'' (filter (\<lambda>p. p \<noteq> []) [base_url, rstrip_chars ''/'' (last dirs), subpath])))))"

definition resolve_live_iso_url :: "(string \<Rightarrow> exn + string) \<Rightarrow> rx \<Rightarrow> string \<Rightarrow> string \<Rightarrow> exn + string" where
  "resolve_live_iso_url read_listing iso_rx flavour base_url =
     (let base_url = rstrip_chars ''/'' base_url
      in rbind (read_listing base_url) (\<lambda>text.
           (let names = listed_names iso_rx text
            in if names = []
               then err (''No live ISO for '' @ [CHR 0x27] @ flavour @ [CHR 0x27] @ '' was found at '' @ base_url @ ''/.'')
               else Inr (base_url @ ''/'' @ last names))))"

section \<open>A netboot archive\<close>

record tar_member =
  tm_name :: string
  tm_reg :: bool
  tm_data :: string

text \<open>
  What \<open>tarfile\<close> reads from an archive: its members in order, and whether it then fails.  \<open>ta_opens\<close> is False
  where it cannot be opened at all.
\<close>

record tar_archive =
  ta_bytes :: "string option"
  ta_opens :: bool
  ta_members :: "tar_member list"
  ta_fails :: "string option"

definition is_iso :: "string option \<Rightarrow> bool" where
  "is_iso bytes = (case bytes of None \<Rightarrow> False | Some b \<Rightarrow> take 5 (drop 32769 b) = ''CD001'')"

definition is_kernel :: "string option \<Rightarrow> bool" where
  "is_kernel bytes = (case bytes of None \<Rightarrow> False | Some b \<Rightarrow> take 4 (drop 0x202 b) = ''HdrS'')"

text \<open>What an entry wants from its archive; a value has a name, the member it stands in and a pattern.\<close>

record archive_spec =
  as_kernel :: string
  as_initrd :: string
  as_version_member :: "string option"
  as_version_rx :: "rx option"
  as_values :: "(string \<times> string \<times> rx) list"

definition wanted_as :: "archive_spec \<Rightarrow> string \<Rightarrow> string option" where
  "wanted_as sp name =
     (if name = as_initrd sp then Some ''initrd'' else if name = as_kernel sp then Some ''vmlinuz'' else None)"

text \<open>\<open>reads\<close> of the code: of several values of one member the last.\<close>

definition value_of :: "archive_spec \<Rightarrow> string \<Rightarrow> (string \<times> rx) option" where
  "value_of sp name = map_of (rev (map (\<lambda>(v, member, r). (member, (v, r))) (as_values sp))) name"

definition testing_or_unknown :: "(string \<Rightarrow> string option) \<Rightarrow> distro \<Rightarrow> string \<Rightarrow> bool" where
  "testing_or_unknown fetch d release \<longleftrightarrow>
     lower release \<in> {''sid'', ''unstable'', ''testing''} \<or> prerelease_match d release \<noteq> None \<or>
     (case d_lookup d of
        None \<Rightarrow> False
      | Some lk \<Rightarrow> (case lk_testing lk of
            None \<Rightarrow> False
          | Some t \<Rightarrow>
              t \<noteq> [] \<and>
              (let info = suite_info fetch (suite_url lk (d_mirror d) t)
               in info = [] \<or> lower (case map_of info ''Codename'' of None \<Rightarrow> [] | Some c \<Rightarrow> c) = lower release)))"

definition check_archive_release :: "(string \<Rightarrow> string option) \<Rightarrow> distro \<Rightarrow> archive_spec \<Rightarrow> string \<Rightarrow> string \<Rightarrow> exn + unit" where
  "check_archive_release fetch d sp text release =
     (case Option.bind (Option.bind (as_version_rx sp) (\<lambda>r. re_search r text)) (group 1) of
        None \<Rightarrow> Inr ()
      | Some v \<Rightarrow>
          if lower v \<noteq> lower release \<and> \<not> testing_or_unknown fetch d release
          then err (''This archive is the '' @ v @ '' installer, not '' @ release @ ''. Use '' @ release
                 @ [CHR 0x27] @ ''s netboot archive, or add the image again with '' @ v @ '' as the release.'')
          else Inr ())"

text \<open>The files written under the image's folder, the latest first, and the values read.\<close>

record taken =
  tk_files :: "(string \<times> string) list"
  tk_found :: "string list"
  tk_values :: "(string \<times> string) list"

text \<open>
  One member: the version file is checked, a value is read, a wanted file is copied; \<open>fetch\<close> answers the
  question for the testing suite.
\<close>

definition check_member ::
  "(string \<Rightarrow> string option) \<Rightarrow> distro \<Rightarrow> archive_spec \<Rightarrow> string option \<Rightarrow> string \<Rightarrow> tar_member \<Rightarrow> exn + unit" where
  "check_member fetch d sp release name tm =
     (case release of
        None \<Rightarrow> Inr ()
      | Some r \<Rightarrow>
          if r \<noteq> [] \<and> Some name = as_version_member sp \<and> tm_reg tm
          then check_archive_release fetch d sp (take 4096 (tm_data tm)) r else Inr ())"

definition read_value :: "archive_spec \<Rightarrow> string \<Rightarrow> tar_member \<Rightarrow> taken \<Rightarrow> exn + taken" where
  "read_value sp name tm tk =
     (case (if tm_reg tm then value_of sp name else None) of
        None \<Rightarrow> Inr tk
      | Some (v, r) \<Rightarrow>
          (case Option.bind (re_search r (take (64 * 1024) (tm_data tm))) (group 1) of
             None \<Rightarrow> Inr tk
           | Some url \<Rightarrow> rbind (validate_source_url url) (\<lambda>ok.
               Inr (if ok = [] then tk else tk\<lparr>tk_values := put v url (tk_values tk)\<rparr>))))"

definition copy_member :: "archive_spec \<Rightarrow> string \<Rightarrow> tar_member \<Rightarrow> taken \<Rightarrow> taken" where
  "copy_member sp name tm tk =
     (case (if tm_reg tm then wanted_as sp name else None) of
        None \<Rightarrow> tk
      | Some file \<Rightarrow> tk\<lparr>tk_files := (file, tm_data tm) # tk_files tk, tk_found := name # tk_found tk\<rparr>)"

definition take_member ::
  "(string \<Rightarrow> string option) \<Rightarrow> distro \<Rightarrow> archive_spec \<Rightarrow> string option \<Rightarrow> tar_member \<Rightarrow> taken \<Rightarrow> exn + taken" where
  "take_member fetch d sp release tm tk =
     (let name = removeprefix ''./'' (tm_name tm)
      in rbind (check_member fetch d sp release name tm) (\<lambda>_.
         rbind (read_value sp name tm tk) (\<lambda>tk. Inr (copy_member sp name tm tk))))"

text \<open>The members in order; what was written stays written when one of them raises.\<close>

fun take_members ::
  "(string \<Rightarrow> string option) \<Rightarrow> distro \<Rightarrow> archive_spec \<Rightarrow> string option \<Rightarrow> tar_member list \<Rightarrow> taken \<Rightarrow> taken \<times> exn option" where
  "take_members fetch d sp release [] tk = (tk, None)"
| "take_members fetch d sp release (tm # tms) tk =
     (case take_member fetch d sp release tm tk of
        Inl e \<Rightarrow> (tk, Some e)
      | Inr tk' \<Rightarrow> take_members fetch d sp release tms tk')"

definition extract_boot_files ::
  "(string \<Rightarrow> string option) \<Rightarrow> distro \<Rightarrow> archive_spec \<Rightarrow> string option \<Rightarrow> tar_archive
     \<Rightarrow> (string \<times> string) list \<times> (exn + (string \<times> string) list)" where
  "extract_boot_files fetch d sp release ta =
     (if is_iso (ta_bytes ta)
      then ([], err (''This file is an ISO image, not a netboot archive. Add an ISO with Upload ISO at the top of ''
                 @ ''the page, or upload the distro'' @ [CHR 0x27] @ ''s netboot.tar.gz here.''))
      else if \<not> ta_opens ta
      then ([], err (''Could not read the archive: '' @ (case ta_fails ta of None \<Rightarrow> [] | Some e \<Rightarrow> e)))
      else (case take_members fetch d sp release (ta_members ta) \<lparr>tk_files = [], tk_found = [], tk_values = []\<rparr> of
              (tk, Some e) \<Rightarrow> (tk_files tk, Inl e)
            | (tk, None) \<Rightarrow>
                (tk_files tk,
                 case ta_fails ta of
                   Some e \<Rightarrow> err (''Could not read the archive: '' @ e)
                 | None \<Rightarrow>
                     (let missing = filter (\<lambda>n. n \<notin> set (tk_found tk)) (remdups [as_kernel sp, as_initrd sp]);
                          unread = filter (\<lambda>mb. case value_of sp mb of None \<Rightarrow> False | Some (v, _) \<Rightarrow> v \<notin> fst ` set (tk_values tk))
                            (remdups (map (\<lambda>(_, member, _). member) (as_values sp)))
                      in if missing \<noteq> []
                         then err (''The archive does not contain '' @ join '', '' (sort_by str_le missing)
                                @ ''. Is it the right distro and release?'')
                         else if unread \<noteq> []
                         then err (''The archive'' @ [CHR 0x27] @ ''s '' @ join '', '' (sort_by str_le unread)
                                @ '' does not give the address its installer needs. Is it the right distro?'')
                         else Inr (tk_values tk)))))"

section \<open>Downloads\<close>

definition ARCHIVE_MAX_BYTES :: nat where "ARCHIVE_MAX_BYTES = 1024 * 1024 * 1024"
definition LIVE_ISO_MAX_BYTES :: nat where "LIVE_ISO_MAX_BYTES = 12 * 1024 * 1024 * 1024"

text \<open>The network of a build: what each request for an address answers, and when the run is told to stop.\<close>

record network =
  nt_server :: "string \<Rightarrow> nat \<Rightarrow> nat option \<Rightarrow> reply"
  nt_stop :: "string \<Rightarrow> nat \<Rightarrow> nat \<Rightarrow> bool"

definition net_get :: "network \<Rightarrow> string \<Rightarrow> nat \<Rightarrow> exn + string" where
  "net_get N url cap = tries (nt_server N url) (nt_stop N url) cap url 1 DOWNLOAD_ATTEMPTS 0 []"

text \<open>One file: downloaded, not empty, and a kernel where its name says so.\<close>

definition fetch_file :: "network \<Rightarrow> string \<Rightarrow> string \<times> string \<times> nat \<Rightarrow> exn + string" where
  "fetch_file N kurl f =
     (case f of (url, dst, cap) \<Rightarrow>
        rbind (net_get N url cap) (\<lambda>bytes.
          if bytes = [] then err (url @ '' is empty.'')
          else if after_last CHR ''/'' dst = ''vmlinuz'' \<and> \<not> is_kernel (Some bytes)
          then err (kurl @ '' is not a Linux kernel. Check the entry'' @ [CHR 0x27] @ ''s kernel URL.'')
          else Inr bytes))"

text \<open>
  The files in order, with what was stored (a file that fails a check is stored already, one that was not
  downloaded is not) and the sum of their sizes.
\<close>

fun fetch_files :: "network \<Rightarrow> string \<Rightarrow> (string \<times> string \<times> nat) list \<Rightarrow> (string \<times> string) list \<times> exn option" where
  "fetch_files N kurl [] = ([], None)"
| "fetch_files N kurl ((url, dst, cap) # fs) =
     (let stored = (case net_get N url cap of Inl _ \<Rightarrow> [] | Inr bytes \<Rightarrow> [(dst, bytes)])
      in case fetch_file N kurl (url, dst, cap) of
           Inl e \<Rightarrow> (stored, Some e)
         | Inr _ \<Rightarrow> (case fetch_files N kurl fs of (rest, e) \<Rightarrow> (stored @ rest, e)))"

definition boot_list :: "templates \<Rightarrow> string \<Rightarrow> string \<Rightarrow> exn + (string \<times> string \<times> nat) list" where
  "boot_list t mirror release =
     rbind (filled (url_args mirror release) (t_kernel t)) (\<lambda>kurl.
     rbind (filled (url_args mirror release) (t_initrd t)) (\<lambda>initrd.
     rbind (rmap (\<lambda>(url, name). rbind (filled (url_args mirror release) url) (\<lambda>u. Inr (u, name, LIVE_ISO_MAX_BYTES))) (t_extra t)) (\<lambda>extra.
       Inr ((kurl, ''vmlinuz'', ARCHIVE_MAX_BYTES) # (initrd, ''initrd'', ARCHIVE_MAX_BYTES) # extra))))"

definition fetch_boot_files :: "network \<Rightarrow> templates \<Rightarrow> string \<Rightarrow> string \<Rightarrow> (string \<times> string) list \<times> (exn + nat)" where
  "fetch_boot_files N t mirror release =
     (case boot_list t mirror release of
        Inl e \<Rightarrow> ([], Inl e)
      | Inr fs \<Rightarrow>
          (case fetch_files N (fst (hd fs)) fs of
             (stored, Some e) \<Rightarrow> (stored, Inl e)
           | (stored, None) \<Rightarrow> (stored, Inr (sum_list (map (length \<circ> snd) stored)))))"

section \<open>A live ISO\<close>

text \<open>What the live part of an entry wants from its ISO: each member has alternatives, tried in order.\<close>

record live_spec =
  ls_kernel :: "string list"
  ls_initrd :: "string list"
  ls_root_member :: "string list"
  ls_root_dest :: string
  ls_nfs :: bool
  ls_extra :: "(string \<times> string) list"
  ls_args :: string

definition live_wanted :: "live_spec \<Rightarrow> (string list \<times> string) list" where
  "live_wanted sp =
     [(ls_kernel sp, ''vmlinuz''), (ls_initrd sp, ''initrd'')]
     @ (if ls_nfs sp then [] else [(ls_root_member sp, ls_root_dest sp)])"

text \<open>A name and its versioned hard links, the plain name first.\<close>

definition live_candidates :: "string list \<Rightarrow> string list \<Rightarrow> string list" where
  "live_candidates entries options =
     concat (map (\<lambda>opn.
       (let rx = Seq (lit_ci opn) (opt (Seq (lit ''-'') (plus1 any_chr)));
            hits = filter (\<lambda>e. re_fullmatch rx (bare e) \<noteq> None) entries
        in filter (\<lambda>e. bare e = opn) hits @ filter (\<lambda>e. bare e \<noteq> opn) hits)) options)"

text \<open>\<open>full\<close>: the member has content.  The first that has is kept.\<close>

fun first_full :: "tools \<Rightarrow> (string \<Rightarrow> bool) \<Rightarrow> string \<Rightarrow> string list \<Rightarrow> string + bool" where
  "first_full T full name [] = Inr False"
| "first_full T full name (c # cs) =
     (case extract_one T c of
        Some e \<Rightarrow> Inl e
      | None \<Rightarrow> if full c then Inr True else first_full T full name cs)"

fun take_live :: "tools \<Rightarrow> (string \<Rightarrow> bool) \<Rightarrow> string list \<Rightarrow> (string list \<times> string) list \<Rightarrow> string list \<times> exn option" where
  "take_live T full entries [] = ([], None)"
| "take_live T full entries ((options, name) # ws) =
     (let cs = live_candidates entries options
      in if cs = [] then ([], Some (NetbootError (''The live ISO does not contain '' @ join '' or '' options @ ''.'')))
         else case first_full T full name cs of
                Inl e \<Rightarrow> ([], Some (NetbootError (''Could not read the live ISO: '' @ e)))
              | Inr False \<Rightarrow> ([], Some (NetbootError (hd options @ '' is empty in the live ISO.'')))
              | Inr True \<Rightarrow> (case take_live T full entries ws of (got, e) \<Rightarrow> (name # got, e)))"

text \<open>Files the live system checks beside its root; the last entry of a name counts.\<close>

fun take_extra :: "tools \<Rightarrow> string list \<Rightarrow> (string \<times> string) list \<Rightarrow> string list \<times> exn option" where
  "take_extra T entries [] = ([], None)"
| "take_extra T entries ((member, name) # ms) =
     (case find (\<lambda>e. bare e = member) (rev entries) of
        None \<Rightarrow> take_extra T entries ms
      | Some e \<Rightarrow>
          (case extract_one T e of
             Some msg \<Rightarrow> ([], Some (NetbootError (''Could not read the live ISO: '' @ msg)))
           | None \<Rightarrow> (case take_extra T entries ms of (got, r) \<Rightarrow> (name # got, r))))"

definition extract_live_files :: "tools \<Rightarrow> (string \<Rightarrow> bool) \<Rightarrow> live_spec \<Rightarrow> string list \<times> exn option" where
  "extract_live_files T full sp =
     (case listing T of
        Inl e \<Rightarrow> ([], Some (NetbootError (''Could not read the live ISO: '' @ e)))
      | Inr entries \<Rightarrow>
          (case take_live T full entries (live_wanted sp) of
             (got, Some e) \<Rightarrow> (got, Some e)
           | (got, None) \<Rightarrow> (case take_extra T entries (ls_extra sp) of (extra, e) \<Rightarrow> (got @ extra, e))))"

section \<open>The build\<close>

text \<open>
  The entry an image was made from: how its release's boot files are found, and the live desktop picked.
\<close>

record catalog_item =
  ci_distro :: distro
  ci_downloads :: bool                       \<comment> \<open>the entry has a \<open>kernel_url\<close>\<close>
  ci_templates :: "string \<Rightarrow> templates"      \<comment> \<open>\<^const>\<open>for_release\<close> of the entry\<close>
  ci_archive :: archive_spec
  ci_live :: "live_spec option"              \<comment> \<open>for the image's desktop\<close>
  ci_xcpng :: bool

text \<open>The world of one build: what the network, the tools and the stop flag do, and the sizes they leave.\<close>

record site =
  si_net :: network
  si_tools :: tools
  si_full :: "string \<Rightarrow> bool"
  si_tar :: "string \<Rightarrow> tar_archive"
  si_fetch :: "string \<Rightarrow> string option"
  si_gunzip :: "string option"
  si_stop :: bool
  si_stop_tree :: bool
  si_root_size :: nat
  si_tree_size :: nat

record net_outcome = outcome +
  o_size :: "nat option"

definition net_failed :: "string \<Rightarrow> net_outcome" where
  "net_failed msg = outcome.extend (failed None msg) \<lparr>o_size = None\<rparr>"

definition record_net :: "net_outcome \<Rightarrow> image \<Rightarrow> image" where
  "record_net out img = (record_outcome (outcome.truncate out) img)\<lparr>size_bytes := keep (o_size out) (size_bytes img)\<rparr>"

definition finish_xcpng_netboot :: "site \<Rightarrow> dirs \<Rightarrow> catalog_item \<Rightarrow> nat option \<Rightarrow> image \<Rightarrow> net_outcome \<times> string list" where
  "finish_xcpng_netboot S D ci sz img =
     (let dest = dest_dir D (img_id img);
          dom0_args = (if boot_args img = [] then XCPNG_DOM0_ARGS else boot_args img);
          steps = [(None, path_join dest ''install.img''), (si_gunzip S, path_join dest ''xen''),
                   (grub_mkstandalone (si_tools S), path_join dest ''bootx64.efi'')]
      in case run_all steps of
           (ws, Some e) \<Rightarrow> ((net_failed (''XCP-NG boot files could not be prepared: '' @ e))\<lparr>o_size := sz\<rparr>, ws)
         | (ws, None) \<Rightarrow>
             (\<lparr>o_family = Some ''xcpng'', o_status = ''ready'',
               o_message = d_name (ci_distro ci) @ '' '' @ img_release img @ '' installer; Xen multiboot via UEFI GRUB ''
                 @ ''chainloader; packages come from '' @ img_mirror img,
               o_kernel = Some (rel_path (img_id img) ''xen''), o_initrd = Some (rel_path (img_id img) ''vmlinuz''),
               o_args = Some dom0_args, o_size = sz\<rparr>, ws))"

definition linux_outcome :: "nat \<Rightarrow> string \<Rightarrow> string \<Rightarrow> nat \<Rightarrow> net_outcome" where
  "linux_outcome i msg args sz =
     \<lparr>o_family = Some ''linux'', o_status = ''ready'', o_message = msg, o_kernel = Some (rel_path i ''vmlinuz''),
      o_initrd = Some (rel_path i ''initrd''), o_args = Some args, o_size = Some sz\<rparr>"

text \<open>A message for the image, or an exception that ends the run.\<close>

definition caught :: "exn + net_outcome \<Rightarrow> exn + net_outcome" where
  "caught r = (case r of Inl (NetbootError msg) \<Rightarrow> Inr (net_failed msg) | r \<Rightarrow> r)"

definition installer_message :: "catalog_item \<Rightarrow> image \<Rightarrow> string" where
  "installer_message ci img =
     d_name (ci_distro ci) @ '' '' @ img_release img @ '' installer; packages come from '' @ img_mirror img"

text \<open>The result, the paths written, and the archive left on disk.\<close>

type_synonym built_image = "(exn + net_outcome) \<times> string list \<times> string option"

definition build_downloads :: "site \<Rightarrow> dirs \<Rightarrow> catalog_item \<Rightarrow> image \<Rightarrow> (exn + net_outcome) \<times> string list" where
  "build_downloads S D ci img =
     (let t = ci_templates ci (img_release img); dest = dest_dir D (img_id img)
      in case fetch_boot_files (si_net S) t (img_mirror img) (img_release img) of
           (stored, Inl e) \<Rightarrow> (caught (Inl e), map (path_join dest \<circ> fst) stored)
         | (stored, Inr kept_size) \<Rightarrow>
             (let ws = map (path_join dest \<circ> fst) stored
              in if ci_xcpng ci
                 then (case finish_xcpng_netboot S D ci (Some kept_size) img of (out, vs) \<Rightarrow> (Inr out, ws @ vs))
                 else (rbind (boot_args_for t (img_mirror img) (img_release img) (img_id img) []) (\<lambda>args.
                         Inr (linux_outcome (img_id img) (installer_message ci img) args kept_size)), ws)))"

definition build_archive :: "site \<Rightarrow> dirs \<Rightarrow> catalog_item \<Rightarrow> string \<Rightarrow> image \<Rightarrow> (exn + net_outcome) \<times> string list" where
  "build_archive S D ci bytes img =
     (let t = ci_templates ci (img_release img); dest = dest_dir D (img_id img)
      in case extract_boot_files (si_fetch S) (ci_distro ci) (ci_archive ci) (Some (img_release img)) (si_tar S bytes) of
           (files, Inl e) \<Rightarrow> (caught (Inl e), map (path_join dest \<circ> fst) files)
         | (files, Inr values) \<Rightarrow>
             if ci_xcpng ci
             then (case finish_xcpng_netboot S D ci None img of (out, vs) \<Rightarrow> (Inr out, map (path_join dest \<circ> fst) files @ vs))
             else (rbind (boot_args_for t (img_mirror img) (img_release img) (img_id img)
                       (archive_values (d_mirror (ci_distro ci)) (img_mirror img) values)) (\<lambda>args.
                Inr (linux_outcome (img_id img) (installer_message ci img) args (length bytes))),
              map (path_join dest \<circ> fst) files))"

definition build_live :: "site \<Rightarrow> dirs \<Rightarrow> catalog_item \<Rightarrow> live_spec \<Rightarrow> image \<Rightarrow> (exn + net_outcome) \<times> string list \<times> bool" where
  "build_live S D ci sp img =
     (let dest = dest_dir D (img_id img); nfs = path_join (NFS_DIR D) (show_nat (img_id img));
          msg = d_name (ci_distro ci) @ '' live desktop ('' @ img_release img @ '')''
      in case extract_live_files (si_tools S) (si_full S) sp of
           (got, Some e) \<Rightarrow> (caught (Inl e), map (path_join dest) got, True)
         | (got, None) \<Rightarrow>
             (let ws = map (path_join dest) got
              in if ls_nfs sp \<and> si_stop_tree S then (Inl Cancelled, ws, True)
                 else case (if ls_nfs sp then extract_tree (si_tools S) else None) of
                   Some e \<Rightarrow> (Inr (net_failed (''Live filesystem extraction failed: '' @ e)), ws, True)
                 | None \<Rightarrow>
                     if ci_xcpng ci
                     then (case finish_xcpng_netboot S D ci None img of (out, vs) \<Rightarrow>
                             (Inr out, ws @ (if ls_nfs sp then [nfs] else []) @ vs, False))
                     else (rbind (filled [(''image_id'', show_nat (img_id img))] (ls_args sp)) (\<lambda>args.
                        Inr (linux_outcome (img_id img)
                          (msg @ (if ls_nfs sp then ''; unpacked ISO served over NFS'' else ''; root filesystem served over HTTP''))
                          args (if ls_nfs sp then si_tree_size S else si_root_size S))),
                      ws @ (if ls_nfs sp then [nfs] else []), False)))"

definition process_netboot :: "site \<Rightarrow> dirs \<Rightarrow> catalog_item option \<Rightarrow> string option \<Rightarrow> image \<Rightarrow> built_image" where
  "process_netboot S D item on_disk img =
     (case item of
        None \<Rightarrow> (Inr (net_failed (''Catalog entry '' @ [CHR 0x27] @ catalog_id img @ [CHR 0x27] @ '' no longer exists.'')), [], on_disk)
      | Some ci \<Rightarrow>
          if variant img = ''live'' \<and> ci_live ci = None
          then (Inr (net_failed (''Catalog entry '' @ [CHR 0x27] @ catalog_id img @ [CHR 0x27] @ '' no longer exists.'')), [], on_disk)
          else if variant img \<noteq> ''live'' \<and> ci_downloads ci
          then (case build_downloads S D ci img of (r, ws) \<Rightarrow> (r, ws, on_disk))
          else (case (case on_disk of
                        Some b \<Rightarrow> Inr (Some b)
                      | None \<Rightarrow> if source_url img = [] then Inr None
                          else rbind (net_get (si_net S) (source_url img)
                                 (if variant img = ''live'' then LIVE_ISO_MAX_BYTES else ARCHIVE_MAX_BYTES)) (\<lambda>b. Inr (Some b))) of
                  Inl e \<Rightarrow> (caught (Inl e), [], on_disk)
                | Inr None \<Rightarrow> (Inr (net_failed ''The uploaded archive is gone; add the image again.''), [], None)
                | Inr (Some bytes) \<Rightarrow>
                    if si_stop S then (Inl Cancelled, [], Some bytes)
                    else if variant img = ''live''
                    then (case build_live S D ci (the (ci_live ci)) img of
                            (r, ws, kept) \<Rightarrow> (r, ws, if kept then Some bytes else None))
                    else (case build_archive S D ci bytes img of (r, ws) \<Rightarrow> (r, ws, Some bytes))))"

section \<open>Lemmas\<close>

lemma fetch_files_stored:
  "fetch_files N kurl fs = (stored, None) \<Longrightarrow>
     list_all2 (\<lambda>(url, dst, cap) (name, bytes). name = dst \<and> net_get N url cap = Inr bytes \<and> bytes \<noteq> []
       \<and> (after_last CHR ''/'' dst = ''vmlinuz'' \<longrightarrow> is_kernel (Some bytes))) fs stored"
proof (induction N kurl fs arbitrary: stored rule: fetch_files.induct)
  case (2 N kurl url dst cap fs)
  from 2(2) obtain bytes where b: "net_get N url cap = Inr bytes" "bytes \<noteq> []"
      "after_last CHR ''/'' dst = ''vmlinuz'' \<longrightarrow> is_kernel (Some bytes)"
    by (cases "net_get N url cap") (auto simp: fetch_file_def Let_def split: if_splits)
  obtain rest e where r: "fetch_files N kurl fs = (rest, e)" by fastforce
  have "fetch_file N kurl (url, dst, cap) = Inr bytes" using b by (auto simp: fetch_file_def)
  with 2 b r show ?case by (auto simp: Let_def)
qed simp

lemma boot_list_Inr:
  assumes "boot_list t mirror release = Inr fs"
  shows "map (fst \<circ> snd) fs = ''vmlinuz'' # ''initrd'' # map snd (t_extra t)"
proof -
  have "map (fst \<circ> snd) ys = map snd xs"
    if "list_all2 (\<lambda>x y. (case x of (url, name) \<Rightarrow> rbind (filled (url_args mirror release) url)
        (\<lambda>u. Inr (u, name, LIVE_ISO_MAX_BYTES))) = Inr y) xs ys" for xs :: "(string \<times> string) list" and ys
    using that by (induction rule: list_all2_induct) (auto simp: rbind_eq_Inr)
  with assms show ?thesis by (auto simp: boot_list_def rbind_eq_Inr rmap_Inr_iff)
qed

lemma fetch_boot_files_Inr:
  assumes "fetch_boot_files N t mirror release = (stored, Inr n)"
  shows "map fst stored = ''vmlinuz'' # ''initrd'' # map snd (t_extra t)"
    "list_all (\<lambda>f. snd f \<noteq> []) stored" "is_kernel (map_of stored ''vmlinuz'')"
    "n = sum_list (map (length \<circ> snd) stored)"
proof -
  obtain fs where fs: "boot_list t mirror release = Inr fs" "fetch_files N (fst (hd fs)) fs = (stored, None)"
      "n = sum_list (map (length \<circ> snd) stored)"
    using assms by (auto simp: fetch_boot_files_def split: sum.splits prod.splits option.splits)
  note s = fetch_files_stored [OF fs(2)]
  have "map fst stored = map (fst \<circ> snd) fs" using s by (induction rule: list_all2_induct) auto
  with boot_list_Inr [OF fs(1)] show names: "map fst stored = ''vmlinuz'' # ''initrd'' # map snd (t_extra t)" by simp
  show "list_all (\<lambda>f. snd f \<noteq> []) stored" using s by (induction rule: list_all2_induct) auto
  obtain k rest where "stored = k # rest" "fst k = ''vmlinuz''" using names by (cases stored) auto
  moreover from this s have "is_kernel (Some (snd k))"
    by (cases fs) (auto simp: after_last_def)
  ultimately show "is_kernel (map_of stored ''vmlinuz'')" by (cases k) simp
  show "n = sum_list (map (length \<circ> snd) stored)" by (rule fs(3))
qed

lemma take_live_names: "take_live T full entries ws = (got, None) \<Longrightarrow> got = map snd ws"
  by (induction T full entries ws arbitrary: got rule: take_live.induct)
    (auto simp: Let_def split: if_splits sum.splits bool.splits prod.splits)

lemma extract_live_names:
  "extract_live_files T full sp = (got, None) \<Longrightarrow> set (map snd (live_wanted sp)) \<subseteq> set got"
  by (force simp: extract_live_files_def split: sum.splits prod.splits option.splits dest!: take_live_names)

text \<open>The members that count: regular files, by their name without the leading \<open>./\<close>.\<close>

definition member_named :: "tar_member list \<Rightarrow> string \<Rightarrow> tar_member option" where
  "member_named tms name = find (\<lambda>tm. tm_reg tm \<and> removeprefix ''./'' (tm_name tm) = name) (rev tms)"

lemma put_set: "(k, w) \<in> set (put x v xs) \<Longrightarrow> (k, w) = (x, v) \<or> (k, w) \<in> set xs"
  by (induction x v xs rule: put.induct) (auto split: if_splits)

lemma read_value_Inr:
  assumes "read_value sp name tm tk = Inr tk'"
  shows "tk_files tk' = tk_files tk" "tk_found tk' = tk_found tk"
    "(v, url) \<in> set (tk_values tk') \<Longrightarrow> (v, url) \<in> set (tk_values tk) \<or> (\<exists>u. validate_source_url url = Inr u \<and> u \<noteq> [])"
  using assms by (auto simp: read_value_def rbind_eq_Inr split: option.splits if_splits dest!: put_set)

lemma copy_member_simps:
  "tk_files (copy_member sp name tm tk) =
     (case (if tm_reg tm then wanted_as sp name else None) of None \<Rightarrow> tk_files tk | Some f \<Rightarrow> (f, tm_data tm) # tk_files tk)"
  "tk_found (copy_member sp name tm tk) =
     (case (if tm_reg tm then wanted_as sp name else None) of None \<Rightarrow> tk_found tk | Some f \<Rightarrow> name # tk_found tk)"
  "tk_values (copy_member sp name tm tk) = tk_values tk"
  by (simp_all add: copy_member_def split: option.split)

lemma take_member_Inr:
  assumes "take_member fetch d sp release tm tk = Inr tk'"
  shows "tk_files tk' = (case (if tm_reg tm then wanted_as sp (removeprefix ''./'' (tm_name tm)) else None) of
      None \<Rightarrow> tk_files tk | Some f \<Rightarrow> (f, tm_data tm) # tk_files tk)"
    "tk_found tk' = (case (if tm_reg tm then wanted_as sp (removeprefix ''./'' (tm_name tm)) else None) of
      None \<Rightarrow> tk_found tk | Some f \<Rightarrow> removeprefix ''./'' (tm_name tm) # tk_found tk)"
    "(v, url) \<in> set (tk_values tk') \<Longrightarrow> (v, url) \<in> set (tk_values tk) \<or> (\<exists>u. validate_source_url url = Inr u \<and> u \<noteq> [])"
    "release = Some r \<Longrightarrow> r \<noteq> [] \<Longrightarrow> tm_reg tm \<Longrightarrow> Some (removeprefix ''./'' (tm_name tm)) = as_version_member sp \<Longrightarrow>
      check_archive_release fetch d sp (take 4096 (tm_data tm)) r = Inr ()"
proof -
  let ?name = "removeprefix ''./'' (tm_name tm)"
  from assms obtain tk1 where c: "check_member fetch d sp release ?name tm = Inr ()"
      and r: "read_value sp ?name tm tk = Inr tk1" and tk': "tk' = copy_member sp ?name tm tk1"
    unfolding take_member_def Let_def by (auto simp: rbind_eq_Inr)
  note r = read_value_Inr [OF r]
  show "tk_files tk' = (case (if tm_reg tm then wanted_as sp ?name else None) of
      None \<Rightarrow> tk_files tk | Some f \<Rightarrow> (f, tm_data tm) # tk_files tk)"
    by (simp only: tk' copy_member_simps r(1))
  show "tk_found tk' = (case (if tm_reg tm then wanted_as sp ?name else None) of
      None \<Rightarrow> tk_found tk | Some f \<Rightarrow> ?name # tk_found tk)"
    by (simp only: tk' copy_member_simps r(2))
  show "(v, url) \<in> set (tk_values tk') \<Longrightarrow> (v, url) \<in> set (tk_values tk) \<or> (\<exists>u. validate_source_url url = Inr u \<and> u \<noteq> [])"
    using r(3) by (simp only: tk' copy_member_simps)
  show "release = Some r \<Longrightarrow> r \<noteq> [] \<Longrightarrow> tm_reg tm \<Longrightarrow> Some ?name = as_version_member sp \<Longrightarrow>
      check_archive_release fetch d sp (take 4096 (tm_data tm)) r = Inr ()"
    using c by (simp add: check_member_def)
qed

text \<open>What has been written: the last regular member of each of the two names, and nothing else.\<close>

definition taken_from :: "archive_spec \<Rightarrow> tar_member list \<Rightarrow> taken \<Rightarrow> bool" where
  "taken_from sp tms tk \<longleftrightarrow>
     fst ` set (tk_files tk) \<subseteq> {''vmlinuz'', ''initrd''}
     \<and> map_of (tk_files tk) ''initrd'' = map_option tm_data (member_named tms (as_initrd sp))
     \<and> (as_kernel sp \<noteq> as_initrd sp \<longrightarrow> map_of (tk_files tk) ''vmlinuz'' = map_option tm_data (member_named tms (as_kernel sp)))
     \<and> set (tk_found tk) \<subseteq> {as_kernel sp, as_initrd sp}
     \<and> (\<forall>name \<in> {as_kernel sp, as_initrd sp}. name \<in> set (tk_found tk) \<longleftrightarrow> member_named tms name \<noteq> None)
     \<and> (\<forall>(v, url) \<in> set (tk_values tk). \<exists>u. validate_source_url url = Inr u \<and> u \<noteq> [])"

lemma member_named_snoc:
  "member_named (tms @ [tm]) name =
     (if tm_reg tm \<and> removeprefix ''./'' (tm_name tm) = name then Some tm else member_named tms name)"
  by (simp add: member_named_def)

lemma taken_from_same:
  assumes "taken_from sp tms tk" "tk_files tk' = tk_files tk" "tk_found tk' = tk_found tk"
    "\<forall>(v, url) \<in> set (tk_values tk'). \<exists>u. validate_source_url url = Inr u \<and> u \<noteq> []"
    "\<And>n. n \<in> {as_kernel sp, as_initrd sp} \<Longrightarrow> member_named tms' n = member_named tms n"
  shows "taken_from sp tms' tk'"
  using assms(1,4) by (simp add: taken_from_def assms(2,3,5))

lemma taken_from_more:
  assumes "taken_from sp tms tk" "wanted_as sp name = Some f" "tm_reg tm" "name = removeprefix ''./'' (tm_name tm)"
    "tk_files tk' = (f, tm_data tm) # tk_files tk" "tk_found tk' = name # tk_found tk"
    "\<forall>(v, url) \<in> set (tk_values tk'). \<exists>u. validate_source_url url = Inr u \<and> u \<noteq> []"
  shows "taken_from sp (tms @ [tm]) tk'"
proof -
  have n: "name = as_initrd sp \<and> f = ''initrd'' \<or> name \<noteq> as_initrd sp \<and> name = as_kernel sp \<and> f = ''vmlinuz''"
    using assms(2) by (simp add: wanted_as_def split: if_splits)
  have m: "member_named (tms @ [tm]) x = (if name = x then Some tm else member_named tms x)" for x
    using assms(3,4) by (simp add: member_named_snoc)
  from n show ?thesis
    using assms(1,7) by (elim disjE conjE) (simp_all add: taken_from_def m assms(5,6))
qed

lemma taken_from_step:
  assumes from1: "taken_from sp tms tk" and "take_member fetch d sp release tm tk = Inr tk'"
  shows "taken_from sp (tms @ [tm]) tk'"
proof -
  define name where "name = removeprefix ''./'' (tm_name tm)"
  note t = take_member_Inr [OF assms(2), folded name_def]
  have v: "\<forall>(v, url) \<in> set (tk_values tk'). \<exists>u. validate_source_url url = Inr u \<and> u \<noteq> []"
    using t(3) from1 unfolding taken_from_def by blast
  show ?thesis
  proof (cases "if tm_reg tm then wanted_as sp name else None")
    case None
    then have "member_named (tms @ [tm]) n = member_named tms n" if "n \<in> {as_kernel sp, as_initrd sp}" for n
      using that unfolding member_named_snoc name_def [symmetric] by (auto simp: wanted_as_def split: if_splits)
    moreover have "tk_files tk' = tk_files tk" "tk_found tk' = tk_found tk" by (simp_all only: t(1,2) None option.case)
    ultimately show ?thesis using taken_from_same [OF from1 _ _ v] by blast
  next
    case (Some f)
    then have "wanted_as sp name = Some f" "tm_reg tm" by (simp_all split: if_splits)
    moreover have "tk_files tk' = (f, tm_data tm) # tk_files tk" "tk_found tk' = name # tk_found tk"
      by (simp_all only: t(1,2) Some option.case)
    ultimately show ?thesis using taken_from_more [OF from1 _ _ name_def _ _ v] by blast
  qed
qed

lemma take_members_from:
  "taken_from sp before tk \<Longrightarrow> take_members fetch d sp release tms tk = (tk', r) \<Longrightarrow>
     fst ` set (tk_files tk') \<subseteq> {''vmlinuz'', ''initrd''} \<and> (r = None \<longrightarrow> taken_from sp (before @ tms) tk')"
proof (induction tms arbitrary: before tk)
  case Nil
  then show ?case by (simp add: taken_from_def)
next
  case (Cons tm tms)
  show ?case
  proof (cases "take_member fetch d sp release tm tk")
    case (Inl e)
    with Cons.prems show ?thesis by (simp add: taken_from_def) blast
  next
    case (Inr tk1)
    with Cons.prems(2) have "take_members fetch d sp release tms tk1 = (tk', r)" by simp
    from Cons.IH [OF taken_from_step [OF Cons.prems(1) Inr] this] show ?thesis by simp
  qed
qed

lemma take_members_checked:
  "take_members fetch d sp (Some rel) tms tk = (tk', None) \<Longrightarrow> rel \<noteq> [] \<Longrightarrow>
     list_all (\<lambda>tm. tm_reg tm \<and> Some (removeprefix ''./'' (tm_name tm)) = as_version_member sp \<longrightarrow>
       check_archive_release fetch d sp (take 4096 (tm_data tm)) rel = Inr ()) tms"
proof (induction tms arbitrary: tk)
  case (Cons tm tms)
  then obtain tk1 where tk1: "take_member fetch d sp (Some rel) tm tk = Inr tk1" "take_members fetch d sp (Some rel) tms tk1 = (tk', None)"
    by (simp split: sum.splits)
  from Cons.IH [OF tk1(2) Cons.prems(2)] take_member_Inr(4) [OF tk1(1) refl Cons.prems(2)] show ?case by simp
qed simp

text \<open>The parts of a run of \<^const>\<open>extract_boot_files\<close> that succeeds.\<close>

lemma extract_boot_files_Inr:
  assumes "extract_boot_files fetch d sp release ta = (files, Inr values)"
  obtains tk where "take_members fetch d sp release (ta_members ta) \<lparr>tk_files = [], tk_found = [], tk_values = []\<rparr> = (tk, None)"
    "files = tk_files tk" "values = tk_values tk" "{as_kernel sp, as_initrd sp} \<subseteq> set (tk_found tk)"
    "\<not> is_iso (ta_bytes ta)"
proof -
  have o: "\<not> is_iso (ta_bytes ta)" "ta_opens ta"
    using assms by (simp_all add: extract_boot_files_def split: if_splits)
  obtain tk e where run: "take_members fetch d sp release (ta_members ta) \<lparr>tk_files = [], tk_found = [], tk_values = []\<rparr> = (tk, e)"
    by fastforce
  have e: "e = None" using assms o run by (cases e) (simp_all add: extract_boot_files_def)
  have f: "ta_fails ta = None" using assms o run e by (cases "ta_fails ta") (simp_all add: extract_boot_files_def)
  note parts = assms [unfolded extract_boot_files_def, simplified o run e f Let_def, simplified]
  have "filter (\<lambda>n. n \<notin> set (tk_found tk)) (remdups [as_kernel sp, as_initrd sp]) = []"
    using parts by (simp split: if_splits)
  then have "\<forall>n \<in> set (remdups [as_kernel sp, as_initrd sp]). n \<in> set (tk_found tk)" unfolding filter_empty_conv by blast
  then have found: "{as_kernel sp, as_initrd sp} \<subseteq> set (tk_found tk)" by simp
  moreover have "files = tk_files tk" "values = tk_values tk" using parts by (simp_all split: if_splits)
  ultimately show thesis using that run e o by blast
qed

lemma taken_from_nothing: "taken_from sp [] \<lparr>tk_files = [], tk_found = [], tk_values = []\<rparr>"
  by (simp add: taken_from_def member_named_def)

section \<open>Properties\<close>

text \<open>C25. Nothing but the two boot files comes out of a netboot archive: whatever the archive holds, files are
  written under the names vmlinuz and initrd only; and when the extraction succeeds they are the last
  regular members of the two names the entry gives, the archive's own version file passed the check
  against the release, and every value read from it is an http or https address.\<close>

theorem archive_gives_boot_files:
  assumes "extract_boot_files fetch d sp (Some rel) ta = (files, r)" "rel \<noteq> []" "as_kernel sp \<noteq> as_initrd sp"
  shows "fst ` set files \<subseteq> {''vmlinuz'', ''initrd''}
    \<and> (\<forall>values. r = Inr values \<longrightarrow>
        (\<exists>k i. member_named (ta_members ta) (as_kernel sp) = Some k \<and> map_of files ''vmlinuz'' = Some (tm_data k)
             \<and> member_named (ta_members ta) (as_initrd sp) = Some i \<and> map_of files ''initrd'' = Some (tm_data i))
        \<and> list_all (\<lambda>tm. tm_reg tm \<and> Some (removeprefix ''./'' (tm_name tm)) = as_version_member sp \<longrightarrow>
            check_archive_release fetch d sp (take 4096 (tm_data tm)) rel = Inr ()) (ta_members ta)
        \<and> list_all (\<lambda>(v, url). \<exists>u. validate_source_url url = Inr u) values)"
proof (intro conjI allI impI)
  obtain tk e where run: "take_members fetch d sp (Some rel) (ta_members ta) \<lparr>tk_files = [], tk_found = [], tk_values = []\<rparr> = (tk, e)"
    by fastforce
  have "files = [] \<or> files = tk_files tk"
    using assms(1) run by (cases e) (simp_all add: extract_boot_files_def split: if_splits)
  then show "fst ` set files \<subseteq> {''vmlinuz'', ''initrd''}"
    using take_members_from [OF taken_from_nothing run] by auto
next
  fix vs assume "r = Inr vs"
  with assms(1) have "extract_boot_files fetch d sp (Some rel) ta = (files, Inr vs)" by simp
  then obtain tk where run: "take_members fetch d sp (Some rel) (ta_members ta) \<lparr>tk_files = [], tk_found = [], tk_values = []\<rparr> = (tk, None)"
    and tk: "files = tk_files tk" "vs = tk_values tk" "{as_kernel sp, as_initrd sp} \<subseteq> set (tk_found tk)"
    by (rule extract_boot_files_Inr)
  have t: "taken_from sp (ta_members ta) tk" using take_members_from [OF taken_from_nothing run] by simp
  have "member_named (ta_members ta) (as_kernel sp) \<noteq> None" "member_named (ta_members ta) (as_initrd sp) \<noteq> None"
    using t tk(3) unfolding taken_from_def by blast+
  then obtain k i where ki: "member_named (ta_members ta) (as_kernel sp) = Some k" "member_named (ta_members ta) (as_initrd sp) = Some i"
    by blast
  have "map_of files ''vmlinuz'' = Some (tm_data k)" "map_of files ''initrd'' = Some (tm_data i)"
    using t ki assms(3) unfolding tk(1) by (simp_all add: taken_from_def)
  with ki show "\<exists>k i. member_named (ta_members ta) (as_kernel sp) = Some k \<and> map_of files ''vmlinuz'' = Some (tm_data k)
      \<and> member_named (ta_members ta) (as_initrd sp) = Some i \<and> map_of files ''initrd'' = Some (tm_data i)" by blast
  show "list_all (\<lambda>tm. tm_reg tm \<and> Some (removeprefix ''./'' (tm_name tm)) = as_version_member sp \<longrightarrow>
      check_archive_release fetch d sp (take 4096 (tm_data tm)) rel = Inr ()) (ta_members ta)"
    by (rule take_members_checked [OF run assms(2)])
  show "list_all (\<lambda>(v, url). \<exists>u. validate_source_url url = Inr u) vs"
    using t unfolding tk(2) taken_from_def list_all_iff by blast
qed

text \<open>The names of an image's own files beside its kernel and initrd: extra files, or the live root.\<close>

definition own_names :: "catalog_item \<Rightarrow> image \<Rightarrow> string list" where
  "own_names ci img =
     (if variant img = ''live'' then (case ci_live ci of None \<Rightarrow> [] | Some sp \<Rightarrow> [ls_root_dest sp])
      else map snd (t_extra (ci_templates ci (img_release img))))"

definition root_name :: "catalog_item \<Rightarrow> string" where
  "root_name ci = (case ci_live ci of None \<Rightarrow> ''filesystem.squashfs'' | Some sp \<Rightarrow> ls_root_dest sp)"

text \<open>A catalog entry whose arguments say what its files are: an archive has no extra files and two names, only
  an NFS desktop boots over NFS, and the base directory of an Arch root is that of a file it has.\<close>

definition sound_item :: "catalog_item \<Rightarrow> image \<Rightarrow> bool" where
  "sound_item ci img \<longleftrightarrow>
     (ci_downloads ci \<or> t_extra (ci_templates ci (img_release img)) = [] \<and> as_kernel (ci_archive ci) \<noteq> as_initrd (ci_archive ci))
     \<and> (ci_xcpng ci \<longrightarrow> ci_downloads ci \<and> variant img \<noteq> ''live'')"

definition sound_args :: "catalog_item \<Rightarrow> image \<Rightarrow> bool" where
  "sound_args ci img \<longleftrightarrow>
     (contains ''netboot=nfs'' (boot_args img) \<longleftrightarrow>
        variant img = ''live'' \<and> (case ci_live ci of None \<Rightarrow> False | Some sp \<Rightarrow> ls_nfs sp))
     \<and> (case re_search BASEDIR_RE (boot_args img) of
          None \<Rightarrow> True
        | Some mt \<Rightarrow> \<not> contains ''netboot=nfs'' (boot_args img)
            \<and> (case group 1 mt of None \<Rightarrow> False | Some b \<Rightarrow> b \<noteq> [] \<and> list_ex (prefix (b @ ''/'')) (own_names ci img)))"

lemma linux_needs:
  assumes "os_family img = ''linux''" "img_source img = ''netboot''"
    "kernel_path img = rel_path (img_id img) ''vmlinuz''" "initrd_path img = rel_path (img_id img) ''initrd''"
    "sound_args ci img"
    "{''vmlinuz'', ''initrd''} \<subseteq> set got" "\<not> contains ''netboot=nfs'' (boot_args img) \<Longrightarrow> set (own_names ci img) \<subseteq> set got"
    "path_join (dest_dir D (img_id img)) ` set got \<subseteq> set ws"
    "contains ''netboot=nfs'' (boot_args img) \<Longrightarrow> path_join (NFS_DIR D) (show_nat (img_id img)) \<in> set ws"
    "variant img = ''live'' \<Longrightarrow> ci_live ci \<noteq> None"
  shows "list_all (covered ws) (required_paths D (root_name ci) (Some (map snd (t_extra (ci_templates ci (img_release img))))) img)"
proof -
  let ?dest = "dest_dir D (img_id img)"
  have there: "covered ws (path_join ?dest n)" if "n \<in> set got" for n
    using that assms(8) by (auto intro: coveredI)
  have own: "covered ws (path_join ?dest n)" if "n \<in> set (own_names ci img)" "\<not> contains ''netboot=nfs'' (boot_args img)" for n
    using there assms(7) that by blast
  have fam: "(os_family img = ''xcpng'') = False" "(os_family img = ''windows'') = False"
    "(img_source img = ''netboot'') = True" using assms(1,2) by simp_all
  have boot: "path_join (BOOTROOT_DIR D) (rel_path i ''vmlinuz'') = path_join (dest_dir D i) ''vmlinuz''"
    "path_join (BOOTROOT_DIR D) (rel_path i ''initrd'') = path_join (dest_dir D i) ''initrd''"
    "(rel_path i n = []) = False" for i n
    by (simp_all add: boot_path)
  have base: "covered ws (path_join ?dest b)" if "b \<noteq> []" "list_ex (prefix (b @ ''/'')) (own_names ci img)" "\<not> contains ''netboot=nfs'' (boot_args img)" for b
  proof -
    obtain n where n: "n \<in> set (own_names ci img)" "prefix (b @ ''/'') n" using \<open>list_ex _ _\<close> by (auto simp: list_ex_iff)
    then have "path_join ?dest n \<in> set ws" using assms(7,8) that(3) by blast
    moreover have "prefix (path_join ?dest b @ ''/'') (path_join ?dest n)"
      using n(2) that(1) by (cases b) (auto simp: path_join_def prefix_def)
    ultimately show ?thesis by (rule covered_above)
  qed
  have "list_all (covered ws) (case re_search BASEDIR_RE (boot_args img) of None \<Rightarrow> []
      | Some mt \<Rightarrow> [path_join ?dest (case group 1 mt of None \<Rightarrow> [] | Some b \<Rightarrow> b)])"
    using assms(5) base by (auto simp: sound_args_def split: option.splits)
  moreover have "covered ws (path_join ?dest ''vmlinuz'')" "covered ws (path_join ?dest ''initrd'')"
    using there assms(6) by simp_all
  moreover have "list_all (covered ws) (if contains ''netboot=nfs'' (boot_args img) then [path_join (NFS_DIR D) (show_nat (img_id img))] else [])"
    using assms(9) coveredI by simp
  moreover have "list_all (covered ws) (if variant img = ''live'' \<and> \<not> contains ''netboot=nfs'' (boot_args img)
      then [path_join ?dest (root_name ci)] else if variant img \<noteq> ''live''
      then map (path_join ?dest) (map snd (t_extra (ci_templates ci (img_release img)))) else [])"
  proof -
    have "list_all (covered ws) (map (path_join ?dest) (own_names ci img))" if "\<not> contains ''netboot=nfs'' (boot_args img)"
      using own [OF _ that] by (simp add: list_all_iff)
    moreover have "variant img \<noteq> ''live'' \<Longrightarrow> \<not> contains ''netboot=nfs'' (boot_args img)"
      using assms(5) by (simp add: sound_args_def)
    moreover have "own_names ci img = (if variant img = ''live'' then [root_name ci] else map snd (t_extra (ci_templates ci (img_release img))))"
      using assms(10) by (auto simp: own_names_def root_name_def)
    ultimately show ?thesis by (cases "variant img = ''live''") (simp_all del: map_map)
  qed
  ultimately show ?thesis
    unfolding required_paths_def Let_def fam if_True if_False assms(3,4) boot option.case(2)
    by (simp del: map_map split del: if_split)
qed

lemma filled_downloads:
  assumes "build_downloads S D ci img = (Inr out, ws)" "o_status out = ''ready''" "\<not> ci_xcpng ci"
  obtains args n got where "out = linux_outcome (img_id img) (installer_message ci img) args n"
    "set got = {''vmlinuz'', ''initrd''} \<union> set (map snd (t_extra (ci_templates ci (img_release img))))"
    "ws = map (path_join (dest_dir D (img_id img))) got"
proof -
  obtain stored r where f: "fetch_boot_files (si_net S) (ci_templates ci (img_release img)) (img_mirror img) (img_release img) = (stored, r)"
    by fastforce
  show thesis
  proof (cases r)
    case (Inl e)
    with assms f show thesis
      by (cases e) (auto simp: build_downloads_def Let_def caught_def net_failed_def failed_def outcome.defs)
  next
    case (Inr n)
    with f have names: "map fst stored = ''vmlinuz'' # ''initrd'' # map snd (t_extra (ci_templates ci (img_release img)))"
      using fetch_boot_files_Inr(1) by blast
    from assms f Inr obtain args where "out = linux_outcome (img_id img) (installer_message ci img) args n"
        "ws = map (path_join (dest_dir D (img_id img))) (map fst stored)"
      by (auto simp: build_downloads_def Let_def rbind_eq_Inr comp_def)
    moreover have "set (map fst stored) = {''vmlinuz'', ''initrd''} \<union> set (map snd (t_extra (ci_templates ci (img_release img))))"
      unfolding names by auto
    ultimately show thesis using that by blast
  qed
qed

lemma filled_archive:
  assumes "build_archive S D ci bytes img = (Inr out, ws)" "o_status out = ''ready''" "\<not> ci_xcpng ci"
    "as_kernel (ci_archive ci) \<noteq> as_initrd (ci_archive ci)"
  obtains args n got where "out = linux_outcome (img_id img) (installer_message ci img) args n"
    "{''vmlinuz'', ''initrd''} \<subseteq> set got" "ws = map (path_join (dest_dir D (img_id img))) got"
proof -
  obtain files r where f: "extract_boot_files (si_fetch S) (ci_distro ci) (ci_archive ci) (Some (img_release img)) (si_tar S bytes) = (files, r)"
    by fastforce
  show thesis
  proof (cases r)
    case (Inl e)
    with assms f show thesis
      by (cases e) (auto simp: build_archive_def Let_def caught_def net_failed_def failed_def outcome.defs)
  next
    case (Inr vs)
    from assms f Inr obtain args where o: "out = linux_outcome (img_id img) (installer_message ci img) args (length bytes)"
        "ws = map (path_join (dest_dir D (img_id img))) (map fst files)"
      by (auto simp: build_archive_def Let_def rbind_eq_Inr comp_def)
    from f Inr obtain tk where run: "take_members (si_fetch S) (ci_distro ci) (ci_archive ci) (Some (img_release img))
          (ta_members (si_tar S bytes)) \<lparr>tk_files = [], tk_found = [], tk_values = []\<rparr> = (tk, None)"
        and tk: "files = tk_files tk" "{as_kernel (ci_archive ci), as_initrd (ci_archive ci)} \<subseteq> set (tk_found tk)"
      by (auto elim: extract_boot_files_Inr)
    have t: "taken_from (ci_archive ci) (ta_members (si_tar S bytes)) tk"
      using take_members_from [OF taken_from_nothing run] by simp
    have "member_named (ta_members (si_tar S bytes)) (as_kernel (ci_archive ci)) \<noteq> None"
      "member_named (ta_members (si_tar S bytes)) (as_initrd (ci_archive ci)) \<noteq> None"
      using t tk(2) unfolding taken_from_def by blast+
    then have "map_of files ''vmlinuz'' \<noteq> None" "map_of files ''initrd'' \<noteq> None"
      using t assms(4) unfolding tk(1) by (auto simp: taken_from_def)
    then have "{''vmlinuz'', ''initrd''} \<subseteq> set (map fst files)" by (simp add: map_of_eq_None_iff)
    with o that show thesis by blast
  qed
qed

lemma filled_live:
  assumes "build_live S D ci sp img = (Inr out, ws, kept)" "o_status out = ''ready''" "\<not> ci_xcpng ci"
  obtains msg args n got where "out = linux_outcome (img_id img) msg args n"
    "set (map snd (live_wanted sp)) \<subseteq> set got" "path_join (dest_dir D (img_id img)) ` set got \<subseteq> set ws"
    "ls_nfs sp \<Longrightarrow> path_join (NFS_DIR D) (show_nat (img_id img)) \<in> set ws"
proof -
  obtain got e where f: "extract_live_files (si_tools S) (si_full S) sp = (got, e)" by fastforce
  show thesis
  proof (cases e)
    case (Some x)
    with assms f show thesis
      by (cases x) (auto simp: build_live_def Let_def caught_def net_failed_def failed_def outcome.defs)
  next
    case None
    from assms f None have "\<not> (ls_nfs sp \<and> si_stop_tree S)" by (auto simp: build_live_def Let_def)
    moreover have "(if ls_nfs sp then extract_tree (si_tools S) else None) = None"
    proof (rule ccontr)
      assume "(if ls_nfs sp then extract_tree (si_tools S) else None) \<noteq> None"
      then obtain x where "(if ls_nfs sp then extract_tree (si_tools S) else None) = Some x" by blast
      with assms f None calculation show False
        by (simp add: build_live_def Let_def net_failed_def failed_def outcome.defs) (auto simp: outcome.defs)
    qed
    ultimately obtain msg args n where "out = linux_outcome (img_id img) msg args n"
        "ws = map (path_join (dest_dir D (img_id img))) got @ (if ls_nfs sp then [path_join (NFS_DIR D) (show_nat (img_id img))] else [])"
      using assms(1,3) f None by (auto simp: build_live_def Let_def rbind_eq_Inr simp del: if_split)
    with that [of msg args n got] extract_live_names [OF f [unfolded None]] show thesis by simp
  qed
qed

lemma record_linux:
  "out = linux_outcome (img_id img) msg args n \<Longrightarrow> r = record_net out img \<Longrightarrow>
     os_family r = ''linux'' \<and> kernel_path r = rel_path (img_id r) ''vmlinuz'' \<and> initrd_path r = rel_path (img_id r) ''initrd''
     \<and> img_id r = img_id img \<and> img_source r = img_source img \<and> variant r = variant img \<and> img_release r = img_release img"
  by (simp add: linux_outcome_def record_net_def record_outcome_def keep_def outcome.defs)

lemma xcpng_needs:
  assumes "build_downloads S D ci img = (Inr out, ws)" "o_status out = ''ready''" "ci_xcpng ci"
  shows "list_all (covered ws) (required_paths D rd ex (record_net out img))"
proof -
  let ?dest = "dest_dir D (img_id img)"
  obtain stored r where f: "fetch_boot_files (si_net S) (ci_templates ci (img_release img)) (img_mirror img) (img_release img) = (stored, r)"
    by fastforce
  obtain n where r: "r = Inr n"
    using assms(1,2) f by (cases r; cases "projl r")
      (auto simp: build_downloads_def Let_def caught_def net_failed_def failed_def outcome.defs)
  have v: "path_join ?dest ''vmlinuz'' \<in> set (map (path_join ?dest \<circ> fst) stored)"
    using fetch_boot_files_Inr(1) [OF f [unfolded r]] by (cases stored) auto
  obtain vs where fin: "finish_xcpng_netboot S D ci (Some n) img = (out, vs)" "ws = map (path_join ?dest \<circ> fst) stored @ vs"
    using assms(1,3) f r by (auto simp: build_downloads_def Let_def split: prod.splits)
  let ?steps = "[(None, path_join ?dest ''install.img''), (si_gunzip S, path_join ?dest ''xen''),
      (grub_mkstandalone (si_tools S), path_join ?dest ''bootx64.efi'')]"
  obtain us e where run: "run_all ?steps = (us, e)" by fastforce
  have e: "e = None"
    using fin(1) assms(2) run by (cases e) (auto simp: finish_xcpng_netboot_def Let_def net_failed_def failed_def outcome.defs)
  have vs: "vs = map snd ?steps" using fin(1) run e run_all_None [OF run [unfolded e]] by (auto simp: finish_xcpng_netboot_def Let_def)
  have out: "o_family out = Some ''xcpng''" "o_kernel out = Some (rel_path (img_id img) ''xen'')"
      "o_initrd out = Some (rel_path (img_id img) ''vmlinuz'')"
    using fin(1) run e by (auto simp: finish_xcpng_netboot_def Let_def)
  have "required_paths D rd ex (record_net out img) =
      [path_join ?dest ''xen'', path_join ?dest ''vmlinuz'', path_join ?dest ''bootx64.efi'', path_join ?dest ''install.img'']"
    using out by (simp add: required_paths_def record_net_def record_outcome_def keep_def outcome.defs Let_def boot_path)
  with v show ?thesis unfolding fin(2) vs by (intro all_covered_self) auto
qed

lemma failed_never_ready: "o_status (net_failed msg) = ''ready'' \<longleftrightarrow> False"
  by (simp add: net_failed_def failed_def outcome.defs)

lemma caught_never_ready: "caught (Inl e) = Inr out \<Longrightarrow> o_status out = ''ready'' \<Longrightarrow> P"
  by (cases e) (auto simp: caught_def failed_never_ready)

lemma netboot_ready:
  assumes "process_netboot S D (Some ci) on_disk img = (Inr out, ws, left)" "o_status out = ''ready''"
  shows "\<not> (variant img = ''live'' \<and> ci_live ci = None)"
    "variant img \<noteq> ''live'' \<and> ci_downloads ci \<and> build_downloads S D ci img = (Inr out, ws)
     \<or> variant img = ''live'' \<and> (\<exists>kept. build_live S D ci (the (ci_live ci)) img = (Inr out, ws, kept))
     \<or> variant img \<noteq> ''live'' \<and> \<not> ci_downloads ci \<and> (\<exists>bytes. build_archive S D ci bytes img = (Inr out, ws))"
proof -
  show l: "\<not> (variant img = ''live'' \<and> ci_live ci = None)"
  proof
    assume l: "variant img = ''live'' \<and> ci_live ci = None"
    from assms(1) [unfolded process_netboot_def option.case if_P [OF l]] assms(2) failed_never_ready show False by auto
  qed
  let ?source = "case on_disk of Some b \<Rightarrow> Inr (Some b)
    | None \<Rightarrow> if source_url img = [] then Inr None
        else rbind (net_get (si_net S) (source_url img)
          (if variant img = ''live'' then LIVE_ISO_MAX_BYTES else ARCHIVE_MAX_BYTES)) (\<lambda>b. Inr (Some b))"
  show "variant img \<noteq> ''live'' \<and> ci_downloads ci \<and> build_downloads S D ci img = (Inr out, ws)
     \<or> variant img = ''live'' \<and> (\<exists>kept. build_live S D ci (the (ci_live ci)) img = (Inr out, ws, kept))
     \<or> variant img \<noteq> ''live'' \<and> \<not> ci_downloads ci \<and> (\<exists>bytes. build_archive S D ci bytes img = (Inr out, ws))"
  proof (cases "variant img \<noteq> ''live'' \<and> ci_downloads ci")
    case True
    then show ?thesis using assms(1) l by (simp add: process_netboot_def split: prod.splits)
  next
    case False
    note run = assms(1) [unfolded process_netboot_def option.case if_not_P [OF l] if_not_P [OF False]]
    obtain bytes where "?source = Inr (Some bytes)"
    proof (cases ?source)
      case (Inl e)
      with run have "caught (Inl e) = Inr out" by simp
      with assms(2) show ?thesis by (rule caught_never_ready [rotated])
    next
      case (Inr b)
      then show ?thesis using that run assms(2) failed_never_ready by (cases b) auto
    qed
    with run show ?thesis using False by (auto split: if_splits prod.splits)
  qed
qed

text \<open>C26. A catalog image that is ready has its files: when the build of an installer or a live desktop ends in ready -
  its files taken from an archive, downloaded one by one, or taken out of a live ISO - every path its row
  then requires was written by that build; so the check at startup never flags it as it was left.  The
  catalog entry is assumed to be consistent with its own arguments.\<close>

theorem catalog_build_is_complete:
  assumes "process_netboot S D (Some ci) on_disk img = (Inr out, ws, left)" "o_status out = ''ready''"
    and "img_source img = ''netboot''" "sound_item ci img" "\<not> ci_xcpng ci \<longrightarrow> sound_args ci (record_net out img)"
  shows "list_all (covered ws) (required_paths D (root_name ci)
    (Some (map snd (t_extra (ci_templates ci (img_release img))))) (record_net out img))"
proof -
  let ?r = "record_net out img"
  note no = netboot_ready(1) [OF assms(1,2)]
  consider (downloads) "variant img \<noteq> ''live''" "ci_downloads ci" "build_downloads S D ci img = (Inr out, ws)"
    | (live) kept where "variant img = ''live''" "build_live S D ci (the (ci_live ci)) img = (Inr out, ws, kept)"
    | (archive) bytes where "variant img \<noteq> ''live''" "\<not> ci_downloads ci" "build_archive S D ci bytes img = (Inr out, ws)"
    using netboot_ready(2) [OF assms(1,2)] by blast
  then show ?thesis
  proof cases
    case downloads
    show ?thesis
    proof (cases "ci_xcpng ci")
      case True
      then show ?thesis by (rule xcpng_needs [OF downloads(3) assms(2)])
    next
      case False
      from downloads(3) assms(2) False obtain args n got where
        o: "out = linux_outcome (img_id img) (installer_message ci img) args n"
        and got: "set got = {''vmlinuz'', ''initrd''} \<union> set (map snd (t_extra (ci_templates ci (img_release img))))"
        and ws: "ws = map (path_join (dest_dir D (img_id img))) got"
        by (rule filled_downloads)
      note rec = record_linux [OF o refl]
      have "list_all (covered ws) (required_paths D (root_name ci) (Some (map snd (t_extra (ci_templates ci (img_release ?r))))) ?r)"
        using rec assms(3,5) False got downloads(1)
        by (intro linux_needs [of _ ci got]) (auto simp: ws own_names_def sound_args_def)
      then show ?thesis using rec by simp
    qed
  next
    case live
    then have "\<not> ci_xcpng ci" using assms(4) by (auto simp: sound_item_def)
    from live(2) assms(2) this obtain msg args n got where o: "out = linux_outcome (img_id img) msg args n"
      and got: "set (map snd (live_wanted (the (ci_live ci)))) \<subseteq> set got" "path_join (dest_dir D (img_id img)) ` set got \<subseteq> set ws"
        "ls_nfs (the (ci_live ci)) \<longrightarrow> path_join (NFS_DIR D) (show_nat (img_id img)) \<in> set ws"
      by (rule filled_live) blast
    note rec = record_linux [OF o refl]
    obtain sp where sp: "ci_live ci = Some sp" using no live(1) by auto
    have "list_all (covered ws) (required_paths D (root_name ci) (Some (map snd (t_extra (ci_templates ci (img_release ?r))))) ?r)"
      using rec assms(3,5) \<open>\<not> ci_xcpng ci\<close> got live(1) sp
      by (intro linux_needs [of _ ci got]) (auto simp: own_names_def sound_args_def live_wanted_def)
    then show ?thesis using rec by simp
  next
    case archive
    then have s: "\<not> ci_xcpng ci" "t_extra (ci_templates ci (img_release img)) = []" "as_kernel (ci_archive ci) \<noteq> as_initrd (ci_archive ci)"
      using assms(4) by (auto simp: sound_item_def)
    from archive(3) assms(2) s(1,3) obtain args n got where o: "out = linux_outcome (img_id img) (installer_message ci img) args n"
      and got: "{''vmlinuz'', ''initrd''} \<subseteq> set got" and ws: "ws = map (path_join (dest_dir D (img_id img))) got"
      by (rule filled_archive)
    note rec = record_linux [OF o refl]
    have "list_all (covered ws) (required_paths D (root_name ci) (Some (map snd (t_extra (ci_templates ci (img_release ?r))))) ?r)"
      using rec assms(3,5) s got archive(1)
      by (intro linux_needs [of _ ci got]) (auto simp: ws own_names_def sound_args_def)
    then show ?thesis using rec by simp
  qed
qed

section \<open>Witnesses\<close>

text \<open>An archive with a kernel, an initrd and a file nobody asked for.\<close>

definition deb_tar :: tar_archive where
  "deb_tar = \<lparr>ta_bytes = Some ''gz'', ta_opens = True,
     ta_members = [\<lparr>tm_name = ''./amd64/linux'', tm_reg = True, tm_data = ''K''\<rparr>, \<lparr>tm_name = ''/etc/passwd'', tm_reg = True, tm_data = ''x''\<rparr>,
       \<lparr>tm_name = ''./amd64/initrd.gz'', tm_reg = True, tm_data = ''I''\<rparr>], ta_fails = None\<rparr>"

definition deb_spec :: archive_spec where
  "deb_spec = \<lparr>as_kernel = ''amd64/linux'', as_initrd = ''amd64/initrd.gz'', as_version_member = None, as_version_rx = None, as_values = []\<rparr>"

lemma deb_extract: "extract_boot_files (\<lambda>_. None) fedora deb_spec (Some ''trixie'') deb_tar =
    ([(''initrd'', ''I''), (''vmlinuz'', ''K'')], Inr [])"
  by (simp add: extract_boot_files_def deb_tar_def deb_spec_def is_iso_def take_member_def check_member_def read_value_def
      value_of_def copy_member_def wanted_as_def removeprefix_def)

definition deb_item :: catalog_item where
  "deb_item = \<lparr>ci_distro = fedora, ci_downloads = False,
     ci_templates = (\<lambda>_. \<lparr>t_archive = [], t_kernel = [], t_initrd = [], t_args = ''ip=dhcp'', t_extra = [], t_mirror = ''http://m''\<rparr>),
     ci_archive = deb_spec, ci_live = None, ci_xcpng = False\<rparr>"

definition deb_site :: site where
  "deb_site = \<lparr>si_net = \<lparr>nt_server = (\<lambda>_ _ _. HttpError 404), nt_stop = (\<lambda>_ _ _. False)\<rparr>, si_tools = good_tools [], si_full = (\<lambda>_. True),
     si_tar = (\<lambda>_. deb_tar), si_fetch = (\<lambda>_. None), si_gunzip = None, si_stop = False, si_stop_tree = False, si_root_size = 0, si_tree_size = 0\<rparr>"

definition deb_image :: image where
  "deb_image = (image_row 5 ''Debian'' ''debian.tar.gz'')\<lparr>img_source := ''netboot'', variant := ''installer'', img_release := ''trixie'', img_mirror := ''http://m''\<rparr>"

lemma deb_args: "boot_args_for (ci_templates deb_item ''trixie'') ''http://m'' ''trixie'' 5 [] = Inr ''ip=dhcp''"
  by code_simp

lemma deb_build: "process_netboot deb_site sample_dirs (Some deb_item) (Some ''gz'') deb_image =
    (Inr (linux_outcome 5 (installer_message deb_item deb_image) ''ip=dhcp'' 2), [''/b/os/5/initrd'', ''/b/os/5/vmlinuz''], Some ''gz'')"
proof -
  have d: "dest_dir sample_dirs 5 = ''/b/os/5''" by code_simp
  have e: "extract_boot_files (si_fetch deb_site) (ci_distro deb_item) (ci_archive deb_item) (Some (img_release deb_image)) (si_tar deb_site ''gz'') =
      ([(''initrd'', ''I''), (''vmlinuz'', ''K'')], Inr [])"
    using deb_extract by (simp add: deb_site_def deb_item_def deb_image_def)
  have a: "boot_args_for (ci_templates deb_item (img_release deb_image)) (img_mirror deb_image) (img_release deb_image) (img_id deb_image)
      (archive_values (d_mirror (ci_distro deb_item)) (img_mirror deb_image) []) = Inr ''ip=dhcp''"
    using deb_args by (simp add: deb_image_def image_row_def archive_values_def)
  have i: "img_id deb_image = 5" "(variant deb_image = ''live'') = False" "ci_downloads deb_item = False" "si_stop deb_site = False"
    "ci_xcpng deb_item = False"
    by (simp_all add: deb_image_def image_row_def deb_item_def deb_site_def)
  show ?thesis by (simp add: process_netboot_def build_archive_def i Let_def e a [unfolded i] d path_join_def numeral_2_eq_2)
qed

theorem archive_gives_boot_files_witness:
  "\<exists>k i. member_named (ta_members deb_tar) ''amd64/linux'' = Some k \<and> tm_data k = ''K''
     \<and> member_named (ta_members deb_tar) ''amd64/initrd.gz'' = Some i \<and> tm_data i = ''I''"
proof -
  have "''trixie'' \<noteq> []" "as_kernel deb_spec \<noteq> as_initrd deb_spec" by (simp_all add: deb_spec_def)
  note a = archive_gives_boot_files [OF deb_extract this]
  from conjunct2 [OF a] obtain k i where "member_named (ta_members deb_tar) (as_kernel deb_spec) = Some k"
      "map_of [(''initrd'', ''I''), (''vmlinuz'', ''K'')] ''vmlinuz'' = Some (tm_data k)"
      "member_named (ta_members deb_tar) (as_initrd deb_spec) = Some i"
      "map_of [(''initrd'', ''I''), (''vmlinuz'', ''K'')] ''initrd'' = Some (tm_data i)"
    by blast
  then show ?thesis by (simp add: deb_spec_def)
qed

theorem catalog_build_is_complete_witness:
  "list_all (covered [''/b/os/5/initrd'', ''/b/os/5/vmlinuz''])
     (required_paths sample_dirs ''filesystem.squashfs'' (Some [])
       (record_net (linux_outcome 5 (installer_message deb_item deb_image) ''ip=dhcp'' 2) deb_image))"
proof -
  let ?out = "linux_outcome 5 (installer_message deb_item deb_image) ''ip=dhcp'' 2"
  have r: "o_status ?out = ''ready''" "img_source deb_image = ''netboot''" "sound_item deb_item deb_image"
    by (simp_all add: linux_outcome_def deb_image_def image_row_def sound_item_def deb_item_def deb_spec_def)
  have a: "boot_args (record_net ?out deb_image) = ''ip=dhcp''"
    by (simp add: record_net_def record_outcome_def keep_def linux_outcome_def outcome.defs)
  have "\<not> contains ''netboot=nfs'' ''ip=dhcp''" "re_search BASEDIR_RE ''ip=dhcp'' = None" by code_simp+
  then have "sound_args deb_item (record_net ?out deb_image)"
    using a by (simp add: sound_args_def) (simp add: record_net_def record_outcome_def deb_image_def image_row_def)
  then have "\<not> ci_xcpng deb_item \<longrightarrow> sound_args deb_item (record_net ?out deb_image)" by blast
  from catalog_build_is_complete [OF deb_build r this] show ?thesis
    by (simp add: root_name_def deb_item_def)
qed

end
