(* ===== verification/AddImage.thy ===== *)
theory AddImage
  imports ImageRuns BootFiles
begin

text \<open>
  Adding an image from the catalog (\<open>add_netboot\<close> of \<open>routers/images.py\<close>): the release, the mirror and the
  download a form means, where a live ISO is looked for (\<open>services/netboot.py\<close>), the refusals, and the
  row, the file and the task the request leaves.
\<close>

section \<open>Where a live ISO is\<close>

text \<open>
  Where the live ISO of a desktop and release is: a folder template, the pattern of the file's name
  (compiled for the desktop and the release), the folder of one build, the mirror.  A desktop or the pre-releases can
  have their own.
\<close>

record iso_source =
  is_folder :: string
  is_rx :: "string \<Rightarrow> string \<Rightarrow> rx"
  is_dir :: "rx option"
  is_mirror :: "string option"

record iso_over =
  io_folder :: "string option"
  io_rx :: "(string \<Rightarrow> string \<Rightarrow> rx) option"
  io_dir :: "rx option"
  io_mirror :: "string option"

definition iso_with :: "iso_over \<Rightarrow> iso_source \<Rightarrow> iso_source" where
  "iso_with ov src =
     \<lparr>is_folder = keep (io_folder ov) (is_folder src), is_rx = keep (io_rx ov) (is_rx src),
      is_dir = keep (map_option Some (io_dir ov)) (is_dir src), is_mirror = keep (map_option Some (io_mirror ov)) (is_mirror src)\<rparr>"

text \<open>
  The live part of an entry: its own source; what a desktop has of its own, its text fields and title; what
  the pre-releases have, for their number; where beta ISOs are; and the folders for a number that is not
  listed (\<open>dir_regex\<close> for the number, \<open>subpath\<close>, \<open>base_url\<close>).
\<close>

record live_sources =
  lo_base :: iso_source
  lo_own :: "string \<Rightarrow> iso_over"
  lo_fields :: "string \<Rightarrow> (string \<times> string) list"
  lo_title :: "string \<Rightarrow> string option"
  lo_pre :: "(string \<Rightarrow> iso_over) option"
  lo_beta :: "iso_over option"
  lo_unlisted :: "string \<Rightarrow> (rx option \<times> string \<times> string) list"

definition pre_number :: "distro \<Rightarrow> nat option \<Rightarrow> string \<Rightarrow> string option" where
  "pre_number d number_group release =
     (case prerelease_match d release of
        None \<Rightarrow> None
      | Some mt \<Rightarrow>
          (let number = (case Option.bind number_group (\<lambda>k. group k mt) of None \<Rightarrow> [] | Some n \<Rightarrow> n)
           in Some (if number = [] then release else number)))"

definition live_for_release :: "distro \<Rightarrow> nat option \<Rightarrow> live_sources \<Rightarrow> string \<Rightarrow> iso_source" where
  "live_for_release d number_group ls release =
     (case lo_pre ls of
        None \<Rightarrow> lo_base ls
      | Some spec \<Rightarrow>
          (case pre_number d number_group release of
             None \<Rightarrow> lo_base ls
           | Some number \<Rightarrow> iso_with (spec number) (lo_base ls)))"

definition live_for_flavour :: "live_sources \<Rightarrow> string \<Rightarrow> iso_source \<Rightarrow> iso_source" where
  "live_for_flavour ls flavour src = iso_with (lo_own ls flavour) src"

definition live_mirror :: "distro \<Rightarrow> live_sources \<Rightarrow> string \<Rightarrow> iso_source \<Rightarrow> string" where
  "live_mirror d ls flavour src =
     (case is_mirror (live_for_flavour ls flavour src) of
        None \<Rightarrow> d_mirror d
      | Some m' \<Rightarrow> if m' = [] then d_mirror d else m')"

text \<open>A mirror's listing of a folder, or the message that it cannot be read.\<close>

type_synonym listing_reader = "string \<Rightarrow> exn + string"

definition resolve_flavour_iso_url ::
  "listing_reader \<Rightarrow> live_sources \<Rightarrow> iso_source \<Rightarrow> string \<Rightarrow> string \<Rightarrow> string \<Rightarrow> iso_over option \<Rightarrow> exn + string" where
  "resolve_flavour_iso_url read ls src flavour mirror version over =
     (let lv = live_for_flavour ls flavour src;
          lv = (case over of None \<Rightarrow> lv | Some ov \<Rightarrow> iso_with ov lv)
      in rbind (filled ([(''mirror'', mirror), (''version'', version), (''flavour'', flavour)] @ lo_fields ls flavour) (is_folder lv)) (\<lambda>folder.
         rbind (case is_dir lv of
                  None \<Rightarrow> Inr folder
                | Some r \<Rightarrow> resolve_release_folder read (Some r) flavour [] folder) (\<lambda>folder.
         resolve_live_iso_url read (is_rx lv flavour version) flavour folder)))"

text \<open>\<open>try\<close> an address, and on a \<open>NetbootError\<close> the next one; the first error counts.\<close>

fun first_url :: "exn \<Rightarrow> (exn + string) list \<Rightarrow> exn + string" where
  "first_url e [] = Inl e"
| "first_url e (r # rs) = (case r of Inl (NetbootError _) \<Rightarrow> first_url e rs | r \<Rightarrow> r)"

definition only_rx :: "iso_over \<Rightarrow> iso_over" where
  "only_rx ov = \<lparr>io_folder = None, io_rx = io_rx ov, io_dir = None, io_mirror = None\<rparr>"

definition resolve_release_iso_url ::
  "listing_reader \<Rightarrow> distro \<Rightarrow> nat option \<Rightarrow> live_sources \<Rightarrow> string \<Rightarrow> string \<Rightarrow> string \<Rightarrow> exn + string" where
  "resolve_release_iso_url read d number_group ls flavour mirror release =
     (let lv = live_for_release d number_group ls release;
          look = resolve_flavour_iso_url read ls lv flavour mirror release
      in case look None of
           Inl (NetbootError msg) \<Rightarrow>
             (case lo_beta ls of
                None \<Rightarrow> err msg
              | Some beta \<Rightarrow> first_url (NetbootError msg) [look (Some (only_rx beta)), look (Some beta)])
         | r \<Rightarrow> r)"

fun unlisted_url :: "listing_reader \<Rightarrow> iso_source \<Rightarrow> string \<Rightarrow> string \<Rightarrow> (rx option \<times> string \<times> string) list \<Rightarrow> exn + string" where
  "unlisted_url read src number flavour [] =
     err (''No live ISO for Debian '' @ number @ '' was found in Debian'' @ [CHR 0x27] @ ''s current or archive folders. If it is a ''
       @ ''pre-release, choose '' @ [CHR 0x27] @ ''Download from a URL'' @ [CHR 0x27] @ '' and paste the ISO address.'')"
| "unlisted_url read src number flavour ((dir_regex, subpath, base_url) # folders) =
     (case rbind (resolve_release_folder read dir_regex (''Debian '' @ number) subpath base_url)
                 (\<lambda>base. resolve_live_iso_url read (is_rx src flavour []) flavour base) of
        Inl (NetbootError _) \<Rightarrow> unlisted_url read src number flavour folders
      | Inl e \<Rightarrow> Inl e
      | Inr url \<Rightarrow>
          if contains (''debian-live-'' @ number @ ''.'') (after_last CHR ''/'' url) then Inr url
          else unlisted_url read src number flavour folders)"

definition resolve_unlisted_live_url :: "listing_reader \<Rightarrow> live_sources \<Rightarrow> string \<Rightarrow> string \<Rightarrow> exn + string" where
  "resolve_unlisted_live_url read ls number flavour = unlisted_url read (lo_base ls) number flavour (lo_unlisted ls number)"

section \<open>What the form means\<close>

text \<open>
  An entry of the catalog with its templates (\<open>of_templates\<close> is \<^const>\<open>for_release\<close>), and its archive's folder and patterns
  for a release.
\<close>

record offer =
  of_distro :: distro
  of_files :: bool                       \<comment> \<open>the entry has a \<open>kernel_url\<close>\<close>
  of_own :: templates
  of_templates :: "string \<Rightarrow> templates"
  of_listing :: "string \<Rightarrow> (string \<times> rx \<times> rx option) option"
  of_group :: "nat option"
  of_sources :: live_sources

record add_form =
  fm_distro :: string
  fm_variant :: string
  fm_release :: string
  fm_live_release :: string
  fm_flavour :: string
  fm_mirror :: string
  fm_name :: string
  fm_source :: string
  fm_url :: string
  fm_file :: "(string \<times> nat) option"      \<comment> \<open>name and length\<close>

text \<open>
  What the request finds outside: pages and listings of the mirrors, the discovered releases, the day, the
  settings, the random part of a file name, and the catalog's patterns compiled.
\<close>

record outside =
  ou_fetch :: "string \<Rightarrow> string option"
  ou_listing :: listing_reader
  ou_found :: "found list option"
  ou_pres :: "crel list option"
  ou_today :: nat
  ou_defaults :: settings
  ou_settings :: settings
  ou_token :: string
  ou_rx :: "string \<Rightarrow> rx"

text \<open>What was picked: the release stored, the one its end of life is looked up by, and the rest of the row.\<close>

record pick =
  pk_release :: string
  pk_picked :: string
  pk_mirror :: string
  pk_url :: string
  pk_name :: string
  pk_file :: string

definition new_archive_name :: "string \<Rightarrow> string \<Rightarrow> string \<Rightarrow> string \<Rightarrow> string" where
  "new_archive_name token i release ext = ''netboot-'' @ i @ ''-'' @ release @ ''-'' @ token @ ext"

definition flavour_label :: "live_part \<Rightarrow> string \<Rightarrow> exn + string" where
  "flavour_label lv i = (case find (\<lambda>f. fl_id f = i) (lv_flavours lv) of None \<Rightarrow> Inl Crash | Some f \<Rightarrow> Inr (fl_label f))"

text \<open>\<open>try: ... except NetbootError: ...\<close>\<close>

definition or_else :: "exn + 'a \<Rightarrow> (unit \<Rightarrow> exn + 'a) \<Rightarrow> exn + 'a" where
  "or_else r other = (case r of Inl (NetbootError _) \<Rightarrow> other () | r \<Rightarrow> r)"

definition given :: "string option \<Rightarrow> string option" where
  "given x = (case x of None \<Rightarrow> None | Some s \<Rightarrow> if s = [] then None else Some s)"

text \<open>A live desktop whose folder follows a template.\<close>

definition pick_folder_live :: "outside \<Rightarrow> offer \<Rightarrow> live_part \<Rightarrow> add_form \<Rightarrow> exn + pick" where
  "pick_folder_live E x lv fm =
     (let d = of_distro x; ls = of_sources x
      in rbind (or_else (validate_live_release lv (fm_live_release fm))
                 (\<lambda>_. rbind (validate_release (resolve_release d (fm_live_release fm))) (\<lambda>rid. Inr (new_rel rid (d_name d @ '' '' @ rid))))) (\<lambda>rel.
         rbind (validate_flavour lv (fm_flavour fm) (Some (rel_id rel))) (\<lambda>flavour.
           (let usual = live_mirror d ls flavour (lo_base ls);
                pre = live_mirror d ls flavour (live_for_release d (of_group x) ls (rel_id rel))
            in rbind (validate_mirror (if fm_mirror fm = [] \<or> fm_mirror fm = usual then pre else fm_mirror fm)) (\<lambda>mirror.
               rbind (if fm_source fm = ''url'' then validate_source_url (fm_url fm)
                      else resolve_release_iso_url (ou_listing E) d (of_group x) ls flavour mirror (rel_id rel)) (\<lambda>url.
               rbind (flavour_label lv flavour) (\<lambda>label.
                 (let version = (case given (rel_name rel) of Some n \<Rightarrow> n | None \<Rightarrow>
                        d_name d @ '' '' @ (case given (rel_number rel) of Some n \<Rightarrow> n | None \<Rightarrow> rel_id rel))
                  in Inr \<lparr>pk_release = flavour, pk_picked = rel_id rel, pk_mirror = mirror, pk_url = url,
                       pk_name = (case given (lo_title ls flavour) of Some t \<Rightarrow> t | None \<Rightarrow> version @ '' Live '' @ label),
                       pk_file = new_archive_name (ou_token E) (d_id d) (''live-'' @ flavour) ''.iso''\<rparr>))))))))"

text \<open>A live desktop of one fixed folder per release (Debian).\<close>

definition plain_live_url :: "outside \<Rightarrow> offer \<Rightarrow> live_part \<Rightarrow> add_form \<Rightarrow> crel \<Rightarrow> string \<Rightarrow> string \<Rightarrow> exn + string" where
  "plain_live_url E x lv fm rel flavour mirror =
     (if fm_source fm = ''url'' then validate_source_url (fm_url fm)
      else case given (rel_unlisted rel) of
             Some number \<Rightarrow> resolve_unlisted_live_url (ou_listing E) (of_sources x) number flavour
           | None \<Rightarrow>
               rbind (resolve_release_folder (ou_listing E) (map_option (ou_rx E) (given (fst (rel_folder rel)))) (rel_label rel)
                        (snd (rel_folder rel)) mirror) (\<lambda>folder.
               rbind (resolve_live_iso_url (ou_listing E) (is_rx (lo_base (of_sources x)) flavour []) flavour folder) (\<lambda>url.
               rbind (check_live_iso_matches lv rel url) (\<lambda>_. Inr url))))"

definition pick_plain_live :: "outside \<Rightarrow> offer \<Rightarrow> live_part \<Rightarrow> add_form \<Rightarrow> exn + pick" where
  "pick_plain_live E x lv fm =
     (let d = of_distro x
      in rbind (validate_flavour lv (fm_flavour fm) None) (\<lambda>flavour.
         rbind (or_else (validate_live_release lv (fm_live_release fm))
                  (\<lambda>_. live_release_from_mirror (ou_fetch E) d lv (fm_live_release fm))) (\<lambda>rel.
         rbind (if fm_mirror fm = [] then (case rel_base_url rel of None \<Rightarrow> Inl Crash | Some b \<Rightarrow> validate_mirror b)
                else validate_mirror (fm_mirror fm)) (\<lambda>mirror.
         rbind (plain_live_url E x lv fm rel flavour mirror) (\<lambda>url.
         rbind (flavour_label lv flavour) (\<lambda>label.
         rbind (if strip (fm_live_release fm) = [] then Inr []
                else (case rel_name rel of None \<Rightarrow> Inl Crash | Some n \<Rightarrow> Inr (n @ '' ''))) (\<lambda>version.
           Inr \<lparr>pk_release = flavour, pk_picked = rel_id rel, pk_mirror = mirror, pk_url = url,
             pk_name = (if version = [] then d_name d @ '' '' else version) @ ''Live '' @ label,
             pk_file = new_archive_name (ou_token E) (d_id d) (''live-'' @ flavour) ''.iso''\<rparr>)))))))"

text \<open>An installer: a release that is not listed is looked up on the mirror.\<close>

definition numbered_rx :: "string \<Rightarrow> rx" where
  "numbered_rx name = Seq (opt (Seq (lit_ci name) (plus1 (Cls py_space)))) (Seq digit_rx (upto_n 2 digit_rx))"

definition looked_up :: "outside \<Rightarrow> distro \<Rightarrow> string \<Rightarrow> string \<Rightarrow> exn + (string \<times> string option)" where
  "looked_up E d mirror release =
     (if release \<in> rel_id ` set (d_releases d)
      then Inr (release, Option.bind (find (\<lambda>r. rel_id r = release) (d_releases d)) rel_number)
      else case lookup_release (ou_fetch E) (d_name d) (d_lookup d) mirror release of
             Some f \<Rightarrow> Inr (f_codename f, Some (f_number f))
           | None \<Rightarrow>
               if d_lookup d \<noteq> None \<and> re_fullmatch (numbered_rx (d_name d)) release \<noteq> None
               then err (''No release numbered '' @ release @ '' was found on '' @ mirror @ ''. Type its name instead.'')
               else Inr (release, None))"

definition installer_url :: "outside \<Rightarrow> offer \<Rightarrow> add_form \<Rightarrow> string \<Rightarrow> string \<Rightarrow> exn + string" where
  "installer_url E x fm mirror release =
     (if of_files x
      then (if fm_source fm \<noteq> ''mirror''
            then err (d_name (of_distro x) @ '' downloads its kernel and initrd separately, so it can only use Download from the mirror.'')
            else Inr [])
      else if fm_source fm = ''upload''
      then (if (case fm_file fm of None \<Rightarrow> True | Some (n, _) \<Rightarrow> n = []) then err ''Choose an archive file to upload.'' else Inr [])
      else if fm_source fm = ''url'' then validate_source_url (fm_url fm)
      else resolve_archive_url (ou_listing E) (d_name (of_distro x)) (of_listing x release) (of_own x) mirror release)"

definition installer_name :: "distro \<Rightarrow> string \<Rightarrow> string option \<Rightarrow> string" where
  "installer_name d release number =
     (case given (Option.bind (find (\<lambda>r. rel_id r = release) (d_releases d)) rel_name) of
        Some n \<Rightarrow> n @ '' (netboot)''
      | None \<Rightarrow>
          (case given number of
             Some n \<Rightarrow> if n \<noteq> release then d_name d @ '' '' @ n @ '' '' @ release @ '' (netboot)''
                      else d_name d @ '' '' @ release @ '' (netboot)''
           | None \<Rightarrow> d_name d @ '' '' @ release @ '' (netboot)''))"

definition pick_installer :: "outside \<Rightarrow> offer \<Rightarrow> add_form \<Rightarrow> exn + pick" where
  "pick_installer E x fm =
     (let d = of_distro x
      in rbind (validate_mirror (if fm_mirror fm = [] then d_mirror d else fm_mirror fm)) (\<lambda>mirror.
         rbind (looked_up E d mirror (resolve_release d (fm_release fm))) (\<lambda>(release, number).
         rbind (validate_release release) (\<lambda>release.
           (let mirror = (if mirror = d_mirror d then t_mirror (of_templates x release) else mirror)
            in rbind (installer_url E x fm mirror release) (\<lambda>url.
               Inr \<lparr>pk_release = release, pk_picked = release, pk_mirror = mirror, pk_url = url,
                 pk_name = installer_name d release number,
                 pk_file = new_archive_name (ou_token E) (d_id d) release ''.tar.gz''\<rparr>))))))"

section \<open>The request\<close>

text \<open>The live part of the entry that is asked for, if it is.\<close>

definition live_wanted_of :: "offer \<Rightarrow> add_form \<Rightarrow> live_part option" where
  "live_wanted_of x fm = (if fm_variant fm = ''live'' then d_live (of_distro x) else None)"

definition pick_of :: "outside \<Rightarrow> offer \<Rightarrow> add_form \<Rightarrow> exn + pick" where
  "pick_of E x fm =
     (case live_wanted_of x fm of
        Some lv \<Rightarrow> if given (lv_folder lv) \<noteq> None then pick_folder_live E x lv fm else pick_plain_live E x lv fm
      | None \<Rightarrow> pick_installer E x fm)"

text \<open>The pick with the name of a pre-release spelled out, after the two refusals.\<close>

definition offered_pick :: "outside \<Rightarrow> offer \<Rightarrow> add_form \<Rightarrow> exn + pick" where
  "offered_pick E x fm =
     (let d = of_distro x; live = live_wanted_of x fm \<noteq> None
      in rbind (pick_of E x fm) (\<lambda>pk.
         rbind (offer_check (ou_today E) (ou_found E) (ou_pres E) (ou_defaults E) (ou_settings E) d (pk_picked pk) live) (\<lambda>pre.
           Inr (case Option.bind pre (given \<circ> rel_name) of
                  None \<Rightarrow> pk
                | Some n \<Rightarrow> pk\<lparr>pk_name := replace (d_name d @ '' '' @ pk_picked pk) n (pk_name pk)\<rparr>))))"

definition added_row :: "nat \<Rightarrow> offer \<Rightarrow> add_form \<Rightarrow> nat \<Rightarrow> pick \<Rightarrow> image" where
  "added_row i x fm len pk =
     (let shown = strip_control_chars (strip (fm_name fm))
      in (image_row i (if shown = [] then pk_name pk else shown) (pk_file pk))
           \<lparr>size_bytes := len, img_source := ''netboot'',
            variant := (if live_wanted_of x fm \<noteq> None then ''live'' else ''installer''),
            catalog_id := d_id (of_distro x), img_release := pk_release pk, img_mirror := pk_mirror pk,
            source_url := pk_url pk\<rparr>)"

text \<open>
  The answer is the new image's id, a message on the page, or a server error.  \<open>catalog\<close> is
  \<open>catalog_entry\<close>.  An upload with no file can only get here with a live desktop, which ignores it.
\<close>

definition add_netboot :: "outside \<Rightarrow> (string \<Rightarrow> offer option) \<Rightarrow> add_form \<Rightarrow> world \<Rightarrow> (exn + nat) \<times> world" where
  "add_netboot E catalog fm w =
     (case catalog (fm_distro fm) of
        None \<Rightarrow> (err ''Unknown distro.'', w)
      | Some x \<Rightarrow>
          if fm_variant fm = ''live'' \<and> d_live (of_distro x) = None
          then (err (d_name (of_distro x) @ '' has no live desktop entry.''), w)
          else if fm_variant fm \<noteq> ''live'' \<and> \<not> d_installer (of_distro x)
          then (err (d_name (of_distro x) @ '' has no installer entry; choose Live desktop.''), w)
          else (case offered_pick E x fm of
                  Inl e \<Rightarrow> (Inl e, w)
                | Inr pk \<Rightarrow>
                    (let i = next_id img_id (rows w);
                         upload = live_wanted_of x fm = None \<and> fm_source fm = ''upload'';
                         len = (case (if upload then fm_file fm else None) of None \<Rightarrow> 0 | Some (_, n) \<Rightarrow> n)
                     in (Inr i, w\<lparr>rows := rows w @ [added_row i x fm len pk],
                                  isos := (if upload then pk_file pk # isos w else isos w),
                                  tasks := tasks w @ [i]\<rparr>))))"

section \<open>Lemmas\<close>

lemma or_else_Inr: "or_else r other = Inr x \<longleftrightarrow> r = Inr x \<or> (\<exists>msg. r = err msg) \<and> other () = Inr x"
  by (cases r) (auto simp: or_else_def split: exn.split)

lemma first_url_Inr: "first_url e rs = Inr u \<Longrightarrow> \<exists>r \<in> set rs. r = Inr u"
  by (induction e rs rule: first_url.induct) (auto split: sum.splits exn.splits)

text \<open>An address that is found or was checked is not empty.\<close>

lemma empty_url: "urlparse [] = Some \<lparr>scheme = [], netloc = [], url_path = [], params = [], query = [], fragment = []\<rparr>"
  by code_simp

lemma source_url_full: "validate_source_url url = Inr u \<Longrightarrow> u \<noteq> []"
  by (auto simp: validate_source_url_def Let_def empty_url split: option.splits if_splits)

lemma live_iso_full: "resolve_live_iso_url read r flavour folder = Inr u \<Longrightarrow> u \<noteq> []"
  by (auto simp: resolve_live_iso_url_def Let_def rbind_eq_Inr split: if_splits)

lemma flavour_iso_full: "resolve_flavour_iso_url read ls src flavour mirror version over = Inr u \<Longrightarrow> u \<noteq> []"
  by (auto simp: resolve_flavour_iso_url_def Let_def rbind_eq_Inr dest: live_iso_full)

lemma release_iso_full: "resolve_release_iso_url read d g ls flavour mirror release = Inr u \<Longrightarrow> u \<noteq> []"
  by (auto simp: resolve_release_iso_url_def Let_def simp del: first_url.simps split: sum.splits exn.splits option.splits
    dest!: first_url_Inr dest: flavour_iso_full flavour_iso_full [OF sym])

lemma unlisted_full: "unlisted_url read src number flavour folders = Inr u \<Longrightarrow> u \<noteq> []"
  by (induction read src number flavour folders rule: unlisted_url.induct)
    (auto simp: rbind_eq_Inr live_iso_full split: sum.splits exn.splits if_splits)

lemma plain_live_full: "plain_live_url E x lv fm rel flavour mirror = Inr u \<Longrightarrow> u \<noteq> []"
  by (auto simp: plain_live_url_def resolve_unlisted_live_url_def rbind_eq_Inr dest: source_url_full unlisted_full live_iso_full
    split: if_splits option.splits)

lemma flavour_listed: "validate_flavour lv flavour release = Inr i \<Longrightarrow> i \<in> fl_id ` set (lv_flavours lv)"
  by (auto simp: validate_flavour_def Let_def find_Some_iff split: option.splits if_splits)

text \<open>The entry's archive, where it has one, has an address.\<close>

definition has_archive :: "offer \<Rightarrow> bool" where
  "has_archive x \<longleftrightarrow> (\<forall>mirror release. filled (url_args mirror release) (t_archive (of_own x)) \<noteq> Inr [])"

lemma archive_url_full:
  "has_archive x \<Longrightarrow> resolve_archive_url read name al (of_own x) mirror release = Inr u \<Longrightarrow> u \<noteq> []"
  by (auto simp: resolve_archive_url_def has_archive_def Let_def rbind_eq_Inr split: option.splits if_splits)

lemma folder_live_pick:
  assumes "pick_folder_live E x lv fm = Inr pk"
  shows "pk_release pk \<in> fl_id ` set (lv_flavours lv)" "pk_url pk \<noteq> []"
    "pk_file pk = new_archive_name (ou_token E) (d_id (of_distro x)) (''live-'' @ pk_release pk) ''.iso''"
  using assms
  by (auto simp: pick_folder_live_def Let_def rbind_eq_Inr dest: flavour_listed source_url_full release_iso_full split: if_splits)

lemma plain_live_pick:
  assumes "pick_plain_live E x lv fm = Inr pk"
  shows "pk_release pk \<in> fl_id ` set (lv_flavours lv)" "pk_url pk \<noteq> []"
    "pk_file pk = new_archive_name (ou_token E) (d_id (of_distro x)) (''live-'' @ pk_release pk) ''.iso''"
  using assms
  by (auto simp: pick_plain_live_def Let_def rbind_eq_Inr dest: flavour_listed plain_live_full split: if_splits)

lemma installer_pick:
  assumes "pick_installer E x fm = Inr pk"
  shows "validate_release (pk_release pk) = Inr (pk_release pk)" "pk_picked pk = pk_release pk"
    "pk_file pk = new_archive_name (ou_token E) (d_id (of_distro x)) (pk_release pk) ''.tar.gz''"
    "has_archive x \<Longrightarrow> of_files x \<or> fm_source fm = ''upload'' \<or> pk_url pk \<noteq> []"
proof -
  from assms obtain mirror r number release where r: "validate_release r = Inr release"
      and u: "installer_url E x fm mirror release = Inr (pk_url pk)" and pk: "pk_release pk = release" "pk_picked pk = release"
        "pk_file pk = new_archive_name (ou_token E) (d_id (of_distro x)) release ''.tar.gz''"
    unfolding pick_installer_def Let_def by (auto simp: rbind_eq_Inr)
  show "validate_release (pk_release pk) = Inr (pk_release pk)" using r pk(1) validate_release_idem by simp
  show "pk_picked pk = pk_release pk" "pk_file pk = new_archive_name (ou_token E) (d_id (of_distro x)) (pk_release pk) ''.tar.gz''"
    using pk by simp_all
  show "of_files x \<or> fm_source fm = ''upload'' \<or> pk_url pk \<noteq> []" if "has_archive x"
    using u archive_url_full [OF that] source_url_full
    by (auto simp: installer_url_def split: if_splits)
qed

definition permitted :: "outside \<Rightarrow> distro \<Rightarrow> string \<Rightarrow> bool \<Rightarrow> bool" where
  "permitted E d picked live \<longleftrightarrow>
     (show_eol (ou_defaults E) (ou_settings E) \<or> ended_release (ou_today E) (ou_found E) d picked live = None)
     \<and> (show_prerelease (ou_defaults E) (ou_settings E) \<or> prerelease_release (ou_today E) (ou_found E) (ou_pres E) d picked live = None)"

lemma offered_pick_Inr:
  assumes "offered_pick E x fm = Inr pk"
  obtains pk0 name where "pick_of E x fm = Inr pk0" "pk = pk0\<lparr>pk_name := name\<rparr>"
    "permitted E (of_distro x) (pk_picked pk0) (live_wanted_of x fm \<noteq> None)"
proof -
  let ?live = "live_wanted_of x fm \<noteq> None"
  from assms obtain pk0 pre where p: "pick_of E x fm = Inr pk0"
      and c: "offer_check (ou_today E) (ou_found E) (ou_pres E) (ou_defaults E) (ou_settings E) (of_distro x) (pk_picked pk0) ?live = Inr pre"
      and pk: "pk = (case Option.bind pre (given \<circ> rel_name) of None \<Rightarrow> pk0
        | Some n \<Rightarrow> pk0\<lparr>pk_name := replace (d_name (of_distro x) @ '' '' @ pk_picked pk0) n (pk_name pk0)\<rparr>)"
    unfolding offered_pick_def Let_def by (auto simp: rbind_eq_Inr)
  from c have "permitted E (of_distro x) (pk_picked pk0) ?live"
    by (auto simp: permitted_def offer_check_def split: option.splits if_splits)
  moreover have "\<exists>name. pk = pk0\<lparr>pk_name := name\<rparr>"
    unfolding pk by (cases "Option.bind pre (given \<circ> rel_name)") (auto intro: exI [of _ "pk_name pk0"])
  ultimately show ?thesis using that p by blast
qed

text \<open>What an accepted request leaves.\<close>

lemma accepted:
  assumes "add_netboot E catalog fm w = (Inr i, w')"
  obtains x pk len where "catalog (fm_distro fm) = Some x" "offered_pick E x fm = Inr pk"
    "fm_variant fm = ''live'' \<Longrightarrow> d_live (of_distro x) \<noteq> None" "fm_variant fm \<noteq> ''live'' \<Longrightarrow> d_installer (of_distro x)"
    "i = next_id img_id (rows w)"
    "w' = w\<lparr>rows := rows w @ [added_row i x fm len pk],
       isos := (if live_wanted_of x fm = None \<and> fm_source fm = ''upload'' then pk_file pk # isos w else isos w), tasks := tasks w @ [i]\<rparr>"
  using assms by (auto simp: add_netboot_def Let_def split: option.splits if_splits sum.splits)

lemma refused: "add_netboot E catalog fm w = (Inl e, w') \<Longrightarrow> w' = w"
  by (auto simp: add_netboot_def Let_def split: option.splits if_splits sum.splits)

lemma added_row_simps [simp]:
  "img_id (added_row i x fm len pk) = i" "img_filename (added_row i x fm len pk) = pk_file pk"
  "status (added_row i x fm len pk) = ''pending''" "source_url (added_row i x fm len pk) = pk_url pk"
  "img_release (added_row i x fm len pk) = pk_release pk" "img_mirror (added_row i x fm len pk) = pk_mirror pk"
  "catalog_id (added_row i x fm len pk) = d_id (of_distro x)"
  "variant (added_row i x fm len pk) = ''live'' \<longleftrightarrow> live_wanted_of x fm \<noteq> None"
  by (simp_all add: added_row_def image_row_def Let_def)

lemma inv_fewer_files: "inv w \<Longrightarrow> set fs \<subseteq> set (isos w) \<Longrightarrow> inv (w\<lparr>isos := fs\<rparr>)"
  by (auto simp: inv_defs file_of_def status_of_def doomed_iff)

lemma pick_file_token:
  "offered_pick E x fm = Inr pk \<Longrightarrow> \<exists>a b. pk_file pk = a @ ou_token E @ b"
proof (elim offered_pick_Inr)
  fix pk0 name assume "pick_of E x fm = Inr pk0" "pk = pk0\<lparr>pk_name := name\<rparr>"
  then have "\<exists>r ext. pk_file pk = new_archive_name (ou_token E) (d_id (of_distro x)) r ext"
    by (auto simp: pick_of_def folder_live_pick(3) plain_live_pick(3) installer_pick(3) split: option.splits if_splits)
  then obtain r ext where "pk_file pk = (''netboot-'' @ d_id (of_distro x) @ ''-'' @ r @ ''-'') @ ou_token E @ ext"
    by (auto simp: new_archive_name_def)
  then show ?thesis by blast
qed


text \<open>The random part of the file name, \<open>ou_token\<close>, is new: no image's file name contains it.\<close>

definition token_fresh :: "outside \<Rightarrow> world \<Rightarrow> bool" where
  "token_fresh E w \<longleftrightarrow> (\<forall>r \<in> set (rows w). \<forall>a b. img_filename r \<noteq> a @ ou_token E @ b)"

lemma added_keeps_inv:
  assumes "inv w" "token_fresh E w" "add_netboot E catalog fm w = (Inr i, w')"
  shows "inv w'"
proof -
  obtain x pk len where p: "offered_pick E x fm = Inr pk" and i: "i = next_id img_id (rows w)"
      and w': "w' = w\<lparr>rows := rows w @ [added_row i x fm len pk],
        isos := (if live_wanted_of x fm = None \<and> fm_source fm = ''upload'' then pk_file pk # isos w else isos w), tasks := tasks w @ [i]\<rparr>"
    using accepted [OF assms(3)] by metis
  let ?row = "added_row i x fm len pk"
  have "pk_file pk \<notin> img_filename ` set (rows w)"
    using pick_file_token [OF p] assms(2) unfolding token_fresh_def by (metis imageE)
  then have "inv (w\<lparr>rows := rows w @ [?row], isos := img_filename ?row # isos w, tasks := tasks w @ [i]\<rparr>)"
    by (intro inv_add) (simp_all add: assms(1) i)
  from this inv_fewer_files [OF this, of "isos w"] show ?thesis
    by (cases "live_wanted_of x fm = None \<and> fm_source fm = ''upload''") (auto simp: w')
qed

section \<open>Properties\<close>



section \<open>Examples\<close>

text \<open>A distro whose kernel and initrd are downloaded one by one, and a request for its release 10.\<close>

definition sample_distro :: distro where
  "sample_distro = \<lparr>d_id = ''x'', d_name = ''X'', d_mirror = ''http://m'', d_installer = True, d_releases = [new_rel ''10'' ''X 10''],
     d_live = None, d_listing = None, d_lookup = None, d_builds = None, d_pre = None, d_custom = False\<rparr>"

definition sample_templates :: templates where
  "sample_templates = \<lparr>t_archive = ''{mirror}/a'', t_kernel = ''{mirror}/k'', t_initrd = ''{mirror}/i'', t_args = [], t_extra = [], t_mirror = ''http://m''\<rparr>"

definition no_over :: iso_over where "no_over = \<lparr>io_folder = None, io_rx = None, io_dir = None, io_mirror = None\<rparr>"

definition sample_offer :: offer where
  "sample_offer = \<lparr>of_distro = sample_distro, of_files = True, of_own = sample_templates, of_templates = (\<lambda>_. sample_templates),
     of_listing = (\<lambda>_. None), of_group = None,
     of_sources = \<lparr>lo_base = \<lparr>is_folder = [], is_rx = (\<lambda>_ _. Eps), is_dir = None, is_mirror = None\<rparr>, lo_own = (\<lambda>_. no_over),
       lo_fields = (\<lambda>_. []), lo_title = (\<lambda>_. None), lo_pre = None, lo_beta = None, lo_unlisted = (\<lambda>_. [])\<rparr>\<rparr>"

definition sample_outside :: outside where
  "sample_outside = \<lparr>ou_fetch = (\<lambda>_. None), ou_listing = (\<lambda>_. err []), ou_found = None, ou_pres = None, ou_today = 0,
     ou_defaults = [], ou_settings = [], ou_token = ''0a1b2c3d'', ou_rx = (\<lambda>_. Eps)\<rparr>"

definition sample_form :: add_form where
  "sample_form = \<lparr>fm_distro = ''x'', fm_variant = ''installer'', fm_release = ''X 10'', fm_live_release = [], fm_flavour = [],
     fm_mirror = [], fm_name = [], fm_source = ''mirror'', fm_url = [], fm_file = None\<rparr>"

lemma sample_added: "fst (add_netboot sample_outside (\<lambda>_. Some sample_offer) sample_form started) = Inr 1"
  by code_simp

definition sample_after :: world where
  "sample_after = snd (add_netboot sample_outside (\<lambda>_. Some sample_offer) sample_form started)"

lemma sample_result: "add_netboot sample_outside (\<lambda>_. Some sample_offer) sample_form started = (Inr 1, sample_after)"
  using sample_added by (simp add: sample_after_def prod_eq_iff)

lemma sample_has_archive: "has_archive sample_offer"
proof -
  have "parse_template ''{mirror}/a'' = Some [([], Some (''mirror'', [], None)), (''/a'', None)]" by code_simp
  then show ?thesis by (simp add: has_archive_def sample_offer_def sample_templates_def filled_def fill_def url_args_def)
qed



end
