(* ===== verification/Clients.thy ===== *)
theory Clients
  imports Discovery
begin

text \<open>
  The clients seen lately (\<open>services/clients.py\<close>): what dnsmasq's DHCP log says about each MAC address, folded
  with the boots that were tracked.  The log's text and the current year are arguments; a time is a
  number of seconds, as the wall clock of the host reads it.
\<close>

section \<open>The lines of the log\<close>

definition hex_rx :: rx where "hex_rx = Cls (\<lambda>c. is_digit c \<or> chr_in CHR ''a'' CHR ''f'' c \<or> chr_in CHR ''A'' CHR ''F'' c)"
definition space_rx :: rx where "space_rx = Cls py_space"
definition octets_rx :: rx where
  "octets_rx = (let d = Seq digit_rx (upto_n 2 digit_rx) in Seq d (exactly 3 (Seq (lit ''.'') d)))"

definition CLIENT_MAC_RE :: rx where
  "CLIENT_MAC_RE =
     Seq WordB (Seq (Alt (lit ''PXE'') (Seq (lit ''DHCP'') (plus1 (Cls is_upper))))
       (Seq (lit ''('') (Seq (Star (Cls (\<lambda>c. c \<noteq> CHR '')''))) (Seq (lit '')'') (Seq (plus1 space_rx)
         (Seq (Grp 1 (Seq (exactly 2 hex_rx) (exactly 5 (Seq (lit '':'') (exactly 2 hex_rx))))) WordB))))))"

definition CLIENT_IP_RE :: rx where
  "CLIENT_IP_RE =
     Seq WordB (Seq (lit ''DHCP'') (Seq (Alt (lit ''ACK'') (Alt (lit ''OFFER'') (lit ''REQUEST'')))
       (Seq (lit ''('') (Seq (Star (Cls (\<lambda>c. c \<noteq> CHR '')''))) (Seq (lit '')'') (Seq (plus1 space_rx)
         (Seq (Grp 1 octets_rx) WordB)))))))"

definition NAME_RE :: rx where
  "NAME_RE = Seq (lit ''client provides name'') (Seq (opt (lit '':'')) (Seq (Star space_rx) (Grp 1 (plus1 (Cls (\<lambda>c. \<not> py_space c))))))"

definition TS_RE :: rx where
  "TS_RE = Seq AtStart (Seq (Grp 1 (exactly 3 (Cls py_word))) (Seq (plus1 space_rx) (Seq (Grp 2 (plus1 digit_rx)) (Seq (plus1 space_rx)
     (Seq (Grp 3 (exactly 2 digit_rx)) (Seq (lit '':'') (Seq (Grp 4 (exactly 2 digit_rx)) (Seq (lit '':'') (Grp 5 (exactly 2 digit_rx))))))))))"

definition TXID_RE :: rx where
  "TXID_RE = Seq (lit ''dnsmasq-dhcp['') (Seq (plus1 digit_rx) (Seq (lit '']:'') (Seq (plus1 space_rx) (Seq (Grp 1 (plus1 digit_rx)) space_rx))))"

definition ARCH :: "(string \<times> string) list" where
  "ARCH = [(''x86pc'', ''BIOS''), (''x86-64_efi'', ''UEFI''), (''bc_efi'', ''UEFI''), (''pc_efi'', ''UEFI''),
     (''efi64'', ''UEFI''), (''efi32'', ''UEFI''), (''efibc'', ''UEFI'')]"

definition MONTHS :: "string list" where
  "MONTHS = [''jan'', ''feb'', ''mar'', ''apr'', ''may'', ''jun'', ''jul'', ''aug'', ''sep'', ''oct'', ''nov'', ''dec'']"

text \<open>
  \<open>strptime\<close> knows no year here, so a day must be one of the year 1900; \<open>year\<close> then takes its place.
\<close>

definition parse_ts :: "nat \<Rightarrow> string \<Rightarrow> nat option" where
  "parse_ts year line =
     (case re_match TS_RE line of
        None \<Rightarrow> None
      | Some x \<Rightarrow>
          (let g = (\<lambda>k. case group k x of None \<Rightarrow> [] | Some s \<Rightarrow> s);
               month = length (takeWhile (\<lambda>m. m \<noteq> lower (g 1)) MONTHS);
               d = nat_of_digits (g 2); h = nat_of_digits (g 3); mi = nat_of_digits (g 4); s = nat_of_digits (g 5)
           in if month = 12 \<or> 2 < length (g 2) \<or> d = 0 \<or> month_lengths 1900 ! month < d \<or> 23 < h \<or> 59 < mi \<or> 59 < s then None
              else Some ((days_before_year year + sum_list (take month (month_lengths year)) + (d - 1)) * 86400
                         + h * 3600 + mi * 60 + s)))"

section \<open>Transactions\<close>

record tx =
  tx_mac :: "string option"
  tx_ip :: string
  tx_host :: string
  tx_firmware :: string
  tx_seen :: "nat option"

definition new_tx :: tx where
  "new_tx = \<lparr>tx_mac = None, tx_ip = [], tx_host = [], tx_firmware = [], tx_seen = None\<rparr>"

text \<open>The transactions that are open, in the order they were opened, and those that are finished.\<close>

type_synonym log_state = "(string \<times> tx) list \<times> tx list"

definition flush :: "string \<Rightarrow> log_state \<Rightarrow> log_state" where
  "flush txid s =
     (case map_of (fst s) txid of
        None \<Rightarrow> s
      | Some rec \<Rightarrow>
          (filter (\<lambda>e. fst e \<noteq> txid) (fst s),
           if tx_mac rec \<noteq> None \<and> tx_mac rec \<noteq> Some [] then snd s @ [rec] else snd s))"

definition found_in :: "rx \<Rightarrow> string \<Rightarrow> string option" where
  "found_in r line = Option.bind (re_search r line) (group 1)"

definition firmware_of :: "string \<Rightarrow> string option" where
  "firmware_of line =
     map_option snd (find (\<lambda>(tag, label). re_search (Seq WordB (Seq (lit tag) WordB)) (lower line) \<noteq> None) ARCH)"

definition note_line :: "nat \<Rightarrow> string \<Rightarrow> string option \<Rightarrow> tx \<Rightarrow> tx" where
  "note_line year line mac r =
     \<lparr>tx_mac = (if mac = None then tx_mac r else mac),
      tx_ip = (case found_in CLIENT_IP_RE line of None \<Rightarrow> tx_ip r | Some ip \<Rightarrow> if ip = ''0.0.0.0'' then tx_ip r else ip),
      tx_host = (case found_in NAME_RE line of None \<Rightarrow> tx_host r | Some n \<Rightarrow> n),
      tx_firmware = (case firmware_of line of None \<Rightarrow> tx_firmware r | Some f \<Rightarrow> f),
      tx_seen = (case parse_ts year line of None \<Rightarrow> tx_seen r | Some t \<Rightarrow> Some t)\<rparr>"

definition log_line :: "nat \<Rightarrow> log_state \<Rightarrow> string \<Rightarrow> log_state" where
  "log_line year s line =
     (case found_in TXID_RE line of
        None \<Rightarrow> s
      | Some txid \<Rightarrow>
          (let mac = map_option lower (found_in CLIENT_MAC_RE line);
               s = (case map_of (fst s) txid of
                      Some r \<Rightarrow> if mac \<noteq> None \<and> tx_mac r \<noteq> None \<and> tx_mac r \<noteq> mac then flush txid s else s
                    | None \<Rightarrow> s);
               r = (case map_of (fst s) txid of Some r \<Rightarrow> r | None \<Rightarrow> new_tx)
           in (put txid (note_line year line mac r) (fst s), snd s)))"

definition transactions :: "nat \<Rightarrow> string \<Rightarrow> tx list" where
  "transactions year text =
     (let s = foldl (log_line year) ([], []) (splitlines text)
      in snd (foldl (\<lambda>s txid. flush txid s) s (map fst (fst s))))"

section \<open>Clients\<close>

record client =
  c_mac :: string
  c_ip :: string
  c_host :: string
  c_firmware :: string
  c_seen :: "nat option"

definition new_client :: "string \<Rightarrow> client" where
  "new_client mac = \<lparr>c_mac = mac, c_ip = [], c_host = [], c_firmware = [], c_seen = None\<rparr>"

type_synonym clients = "(string \<times> client) list"

definition client_of :: "clients \<Rightarrow> string \<Rightarrow> client" where
  "client_of cs mac = (case map_of cs mac of None \<Rightarrow> new_client mac | Some c \<Rightarrow> c)"

definition is_newer :: "nat option \<Rightarrow> nat option \<Rightarrow> bool" where
  "is_newer t seen = (case t of None \<Rightarrow> False | Some x \<Rightarrow> (case seen of None \<Rightarrow> True | Some y \<Rightarrow> y \<le> x))"

definition fold_tx :: "clients \<Rightarrow> tx \<Rightarrow> clients" where
  "fold_tx cs t =
     (let mac = (case tx_mac t of None \<Rightarrow> [] | Some m' \<Rightarrow> m'); c = client_of cs mac;
          newer = is_newer (tx_seen t) (c_seen c);
          pick = (\<lambda>new old. if new \<noteq> [] \<and> (newer \<or> old = []) then new else old)
      in put mac \<lparr>c_mac = mac, c_ip = pick (tx_ip t) (c_ip c), c_host = pick (tx_host t) (c_host c),
           c_firmware = pick (tx_firmware t) (c_firmware c), c_seen = (if newer then tx_seen t else c_seen c)\<rparr> cs)"

text \<open>A tracked boot: its MAC, its address and its time.\<close>

type_synonym boot_row = "string \<times> string \<times> nat option"

definition fold_boot :: "clients \<Rightarrow> boot_row \<Rightarrow> clients" where
  "fold_boot cs e =
     (case e of (mac, ip, t) \<Rightarrow>
        if mac = [] \<or> t = None then cs
        else (let mac = lower mac; c = client_of cs mac; newer = is_newer t (c_seen c)
              in put mac (c\<lparr>c_ip := (if ip \<noteq> [] \<and> (newer \<or> c_ip c = []) then ip else c_ip c),
                            c_seen := (if newer then t else c_seen c)\<rparr>) cs))"

definition seen_key :: "client \<Rightarrow> nat" where
  "seen_key c = (case c_seen c of None \<Rightarrow> 0 | Some t \<Rightarrow> Suc t)"

definition all_clients :: "nat \<Rightarrow> string \<Rightarrow> boot_row list \<Rightarrow> clients" where
  "all_clients year text boots = foldl fold_boot (foldl fold_tx [] (transactions year text)) boots"

definition recent :: "nat \<Rightarrow> nat \<Rightarrow> string \<Rightarrow> boot_row list \<Rightarrow> client list" where
  "recent limit year text boots =
     take limit (sort_by (\<lambda>a b. seen_key b \<le> seen_key a) (map snd (all_clients year text boots)))"

definition count_active :: "nat \<Rightarrow> nat \<Rightarrow> client list \<Rightarrow> nat" where
  "count_active now window rows =
     length (filter (\<lambda>c. case c_seen c of None \<Rightarrow> False | Some t \<Rightarrow> now \<le> t + window) rows)"

definition humanize :: "int \<Rightarrow> string" where
  "humanize s =
     (if s < 0 then ''just now'' else if s < 60 then show_int s @ ''s ago''
      else if s < 3600 then show_int (s div 60) @ ''m ago''
      else if s < 86400 then show_int (s div 3600) @ ''h ago'' else show_int (s div 86400) @ ''d ago'')"

section \<open>Lemmas\<close>

lemma map_of_put: "map_of (put k v xs) = (map_of xs)(k \<mapsto> v)"
  by (induction k v xs rule: put.induct) (auto simp: fun_eq_iff)

lemma keys_put: "map fst (put k v xs) = (if k \<in> fst ` set xs then map fst xs else map fst xs @ [k])"
  by (induction k v xs rule: put.induct) auto

lemma distinct_put: "distinct (map fst xs) \<Longrightarrow> distinct (map fst (put k v xs))"
  by (simp add: keys_put)

text \<open>Every finished transaction names its client.\<close>

lemma flush_closed: "list_all (\<lambda>t. tx_mac t \<noteq> None) (snd s) \<Longrightarrow> list_all (\<lambda>t. tx_mac t \<noteq> None) (snd (flush txid s))"
  by (auto simp: flush_def split: option.split)

lemma log_line_closed: "list_all (\<lambda>t. tx_mac t \<noteq> None) (snd s) \<Longrightarrow> list_all (\<lambda>t. tx_mac t \<noteq> None) (snd (log_line year s line))"
  using flush_closed by (auto simp: log_line_def Let_def split: option.split)

lemma foldl_keeps: "(\<And>s x. P s \<Longrightarrow> P (f s x)) \<Longrightarrow> P s \<Longrightarrow> P (foldl f s xs)"
  by (induction xs arbitrary: s) auto

lemma transactions_have_macs: "list_all (\<lambda>t. tx_mac t \<noteq> None) (transactions year text)"
proof -
  let ?P = "\<lambda>s :: log_state. list_all (\<lambda>t. tx_mac t \<noteq> None) (snd s)"
  let ?s = "foldl (log_line year) ([], []) (splitlines text)"
  have "?P ?s" by (rule foldl_keeps [where P = ?P, OF log_line_closed]) simp_all
  then have "?P (foldl (\<lambda>s txid. flush txid s) ?s (map fst (fst ?s)))"
    by (rule foldl_keeps [where P = ?P, rotated]) (rule flush_closed)
  then show ?thesis by (simp add: transactions_def Let_def)
qed

text \<open>The latest of a set of times, and what a client's row shows of the sightings so far.\<close>

definition latest :: "nat set \<Rightarrow> nat option" where
  "latest T = (if T = {} then None else Some (Max T))"

lemma latest_insert: "finite T \<Longrightarrow> latest (insert t T) = (if is_newer (Some t) (latest T) then Some t else latest T)"
proof (cases "T = {}")
  case False
  assume f: "finite T"
  show ?thesis using False Max_insert [OF f False, of t] by (simp add: latest_def is_newer_def max_def)
qed (simp add: latest_def is_newer_def)

type_synonym sighting = "string \<times> nat option"

definition times :: "sighting list \<Rightarrow> string \<Rightarrow> nat set" where
  "times ss mac = {t. (mac, Some t) \<in> set ss}"

lemma times_snoc: "times (ss @ [(mac, x)]) mac' =
    (if mac' = mac then (case x of None \<Rightarrow> times ss mac | Some t \<Rightarrow> insert t (times ss mac)) else times ss mac')"
  by (auto simp: times_def split: option.split)

lemma finite_times: "finite (times ss mac)"
proof -
  have "times ss mac \<subseteq> the ` snd ` set ss" by (force simp: times_def)
  then show ?thesis by (rule finite_subset) simp
qed

definition reflects :: "clients \<Rightarrow> sighting list \<Rightarrow> bool" where
  "reflects cs ss \<longleftrightarrow> distinct (map fst cs) \<and> fst ` set cs = fst ` set ss
     \<and> (\<forall>mac c. map_of cs mac = Some c \<longrightarrow> c_mac c = mac \<and> c_seen c = latest (times ss mac))"

lemma reflects_nil: "reflects [] []"
  by (simp add: reflects_def)

lemma times_unknown: "mac \<notin> fst ` set ss \<Longrightarrow> times ss mac = {}"
  by (force simp: times_def)

lemma client_of_seen: "reflects cs ss \<Longrightarrow> c_mac (client_of cs mac) = mac \<and> c_seen (client_of cs mac) = latest (times ss mac)"
proof (cases "map_of cs mac")
  case None
  assume r: "reflects cs ss"
  from None have "mac \<notin> fst ` set cs" by (simp add: map_of_eq_None_iff)
  with r have "mac \<notin> fst ` set ss" by (simp add: reflects_def)
  with None show ?thesis by (simp add: client_of_def new_client_def latest_def times_unknown)
qed (simp add: reflects_def client_of_def)

lemma reflects_put:
  assumes "reflects cs ss" "c_mac c = mac"
    "c_seen c = (if is_newer x (c_seen (client_of cs mac)) then x else c_seen (client_of cs mac))"
  shows "reflects (put mac c cs) (ss @ [(mac, x)])"
proof -
  have seen: "c_seen (client_of cs mac) = latest (times ss mac)"
    using client_of_seen [OF assms(1)] by simp
  have "c_seen c = latest (times (ss @ [(mac, x)]) mac)"
    using assms(3) by (auto simp: seen times_snoc latest_insert [OF finite_times] is_newer_def split: option.split)
  moreover have "fst ` set (put mac c cs) = insert mac (fst ` set cs)"
    by (metis keys_put list.set_map set_append insert_absorb empty_set list.simps(15) Un_insert_right sup_bot_right)
  ultimately show ?thesis
    using assms(1,2) by (auto simp: reflects_def distinct_put map_of_put times_snoc)
qed

lemma fold_tx_reflects:
  "reflects cs ss \<Longrightarrow> tx_mac t = Some mac \<Longrightarrow> reflects (fold_tx cs t) (ss @ [(mac, tx_seen t)])"
  unfolding fold_tx_def Let_def by (simp del: put.simps add: reflects_put)

definition boot_sightings :: "boot_row list \<Rightarrow> sighting list" where
  "boot_sightings boots =
     map (\<lambda>(mac, ip, t). (lower mac, t)) (filter (\<lambda>(mac, ip, t). mac \<noteq> [] \<and> t \<noteq> None) boots)"

definition sightings :: "nat \<Rightarrow> string \<Rightarrow> boot_row list \<Rightarrow> sighting list" where
  "sightings year text boots =
     map (\<lambda>t. (case tx_mac t of None \<Rightarrow> [] | Some m' \<Rightarrow> m', tx_seen t)) (transactions year text) @ boot_sightings boots"

lemma fold_boot_reflects: "reflects cs ss \<Longrightarrow> reflects (fold_boot cs e) (ss @ boot_sightings [e])"
proof (cases e)
  case (fields mac ip t)
  assume r: "reflects cs ss"
  show ?thesis
  proof (cases "mac = [] \<or> t = None")
    case True
    then show ?thesis using r fields by (auto simp: fold_boot_def boot_sightings_def)
  next
    case False
    have "reflects (fold_boot cs e) (ss @ [(lower mac, t)])"
      unfolding fold_boot_def fields prod.case if_not_P [OF False] Let_def
      by (rule reflects_put [OF r]) (simp_all add: client_of_seen [OF r])
    with False show ?thesis by (simp add: fields boot_sightings_def)
  qed
qed

lemma fold_txs_reflect:
  "list_all (\<lambda>t. tx_mac t \<noteq> None) ts \<Longrightarrow> reflects cs ss \<Longrightarrow>
   reflects (foldl fold_tx cs ts) (ss @ map (\<lambda>t. (case tx_mac t of None \<Rightarrow> [] | Some m' \<Rightarrow> m', tx_seen t)) ts)"
proof (induction ts arbitrary: cs ss)
  case (Cons t ts)
  then obtain mac where m: "tx_mac t = Some mac" by auto
  show ?case using Cons.IH [OF _ fold_tx_reflects [OF Cons.prems(2) m]] Cons.prems(1) m by simp
qed simp

lemma fold_boots_reflect: "reflects cs ss \<Longrightarrow> reflects (foldl fold_boot cs es) (ss @ boot_sightings es)"
proof (induction es arbitrary: cs ss)
  case Nil
  then show ?case by (simp add: boot_sightings_def)
next
  case (Cons e es)
  have "boot_sightings (e # es) = boot_sightings [e] @ boot_sightings es"
    by (simp add: boot_sightings_def)
  then show ?case using Cons.IH [OF fold_boot_reflects [OF Cons.prems]] by simp
qed

lemma all_clients_reflect: "reflects (all_clients year text boots) (sightings year text boots)"
  unfolding all_clients_def sightings_def
  using fold_boots_reflect [OF fold_txs_reflect [OF transactions_have_macs reflects_nil]] by simp

lemma reflects_rows:
  assumes "reflects cs ss"
  shows "map c_mac (map snd cs) = map fst cs"
    "\<And>c. c \<in> snd ` set cs \<Longrightarrow> c_mac c \<in> fst ` set ss \<and> c_seen c = latest (times ss (c_mac c))"
proof -
  have row: "c_mac c = mac \<and> c_seen c = latest (times ss mac)" if "(mac, c) \<in> set cs" for mac c
    using assms that by (simp add: reflects_def map_of_is_SomeI)
  then show "map c_mac (map snd cs) = map fst cs" by auto
  show "c_mac c \<in> fst ` set ss \<and> c_seen c = latest (times ss (c_mac c))" if "c \<in> snd ` set cs" for c
  proof -
    from that obtain mac where e: "(mac, c) \<in> set cs" by auto
    then have "mac \<in> fst ` set ss" using assms by (metis reflects_def fst_conv image_eqI)
    with row [OF e] show ?thesis by simp
  qed
qed

text \<open>The key of a client that was last seen at a time.\<close>

definition time_key :: "nat option \<Rightarrow> nat" where
  "time_key t = (case t of None \<Rightarrow> 0 | Some x \<Rightarrow> Suc x)"

lemma seen_key_time: "seen_key c = time_key (c_seen c)"
  by (simp add: seen_key_def time_key_def)

lemma take_drop_sorted:
  assumes "sorted_wrt le xs" "x \<in> set (take n xs)" "y \<in> set xs" "y \<notin> set (take n xs)"
  shows "le x y"
proof -
  have "sorted_wrt le (take n xs @ drop n xs)" using assms(1) by simp
  moreover have "y \<in> set (drop n xs)"
    using assms(3,4) by (metis Un_iff append_take_drop_id set_append)
  ultimately show ?thesis using assms(2) by (simp only: sorted_wrt_append)
qed

text \<open>A sighting shows: the row of its address says at least as late a time, or the list is full of such rows.\<close>

lemma sighting_shows:
  fixes limit year tail boots
  defines "rows \<equiv> recent limit year tail boots"
  assumes "(mac, Some t) \<in> set (sightings year tail boots)"
  shows "(\<exists>c \<in> set rows. c_mac c = mac \<and> Suc t \<le> seen_key c) \<or> (length rows = limit \<and> (\<forall>c \<in> set rows. Suc t \<le> seen_key c))"
proof -
  let ?cs = "all_clients year tail boots" and ?ss = "sightings year tail boots"
  let ?le = "\<lambda>a b. seen_key b \<le> seen_key a"
  let ?all = "sort_by ?le (map snd ?cs)"
  have r: "reflects ?cs ?ss" by (rule all_clients_reflect)
  have "mac \<in> fst ` set ?ss" using assms(2) by force
  then have "mac \<in> c_mac ` snd ` set ?cs"
    using r reflects_rows(1) [OF r] by (metis reflects_def list.set_map)
  then obtain c where c: "c \<in> snd ` set ?cs" "c_mac c = mac" by auto
  have "t \<in> times ?ss mac" using assms(2) by (simp add: times_def)
  then have "latest (times ?ss mac) = Some (Max (times ?ss mac))" "t \<le> Max (times ?ss mac)"
    using finite_times Max_ge by (auto simp: latest_def)
  with reflects_rows(2) [OF r c(1)] c(2) have k: "Suc t \<le> seen_key c" by (simp add: seen_key_def)
  show ?thesis
  proof (cases "c \<in> set rows")
    case False
    have sorted: "sorted_wrt ?le ?all" by (rule sorted_sort_by) (auto simp: total_preorder_def)
    have "seen_key c \<le> seen_key d" if "d \<in> set rows" for d
      using take_drop_sorted [OF sorted, of d limit c] that False c(1) by (simp add: rows_def recent_def)
    moreover have "length rows = limit"
    proof (rule ccontr)
      assume "length rows \<noteq> limit"
      then have "rows = ?all" by (simp add: rows_def recent_def min_def split: if_splits)
      with False c(1) show False by simp
    qed
    ultimately show ?thesis using k by (meson order.trans)
  qed (use c(2) k in blast)
qed

text \<open>C16. The list of recent clients has one row for each MAC address, the most recently seen first.  A row's
  last time is the latest of the address's transactions in the log and of its tracked boots; the list is only
  cut at its limit, and an address that is cut was not seen later than any that is shown.\<close>

theorem recent_clients:
  fixes limit year tail boots
  defines "rows \<equiv> recent limit year tail boots" and "ss \<equiv> sightings year tail boots"
  shows "distinct (map c_mac rows) \<and> length rows = min limit (card (fst ` set ss))
     \<and> sorted_wrt (\<lambda>a b. seen_key b \<le> seen_key a) rows
     \<and> (\<forall>c \<in> set rows. c_mac c \<in> fst ` set ss \<and> c_seen c = latest (times ss (c_mac c))
          \<and> (\<forall>mac \<in> fst ` set ss - c_mac ` set rows. time_key (latest (times ss mac)) \<le> seen_key c))"
proof -
  let ?cs = "all_clients year tail boots"
  let ?le = "\<lambda>a b. seen_key b \<le> seen_key a"
  let ?all = "sort_by ?le (map snd ?cs)"
  have r: "reflects ?cs ss" unfolding ss_def by (rule all_clients_reflect)
  note rows = reflects_rows [OF r]
  have rows_eq: "rows = take limit ?all" by (simp add: rows_def recent_def)
  have "distinct (map c_mac ?all)"
    using r unfolding distinct_map_sort_by rows(1) by (simp add: reflects_def)
  then have 1: "distinct (map c_mac rows)" unfolding rows_eq take_map [symmetric] by (rule distinct_take)
  have "card (fst ` set ss) = length ?cs"
    using r by (metis reflects_def distinct_card length_map list.set_map)
  then have 2: "length rows = min limit (card (fst ` set ss))" by (simp add: rows_eq min.commute)
  have sorted: "sorted_wrt ?le ?all"
    by (rule sorted_sort_by) (auto simp: total_preorder_def)
  then have 3: "sorted_wrt ?le rows" unfolding rows_eq by (rule sorted_wrt_take)
  have in_all: "c \<in> snd ` set ?cs" if "c \<in> set rows" for c
    using that in_set_takeD unfolding rows_eq by fastforce
  have 4: "time_key (latest (times ss mac)) \<le> seen_key c"
    if "c \<in> set rows" "mac \<in> fst ` set ss" "mac \<notin> c_mac ` set rows" for c mac
  proof -
    have "mac \<in> c_mac ` snd ` set ?cs"
      using that(2) r rows(1) by (metis reflects_def list.set_map)
    then obtain d where d: "d \<in> snd ` set ?cs" "c_mac d = mac" by auto
    then have "d \<in> set ?all" "d \<notin> set rows" using that(3) by auto
    then have "seen_key d \<le> seen_key c"
      using take_drop_sorted [OF sorted, of c limit d] that(1) unfolding rows_eq by simp
    with rows(2) [OF d(1)] d(2) show ?thesis by (simp add: seen_key_time)
  qed
  from 1 2 3 4 rows(2) in_all show ?thesis by auto
qed

definition SAMPLE_LOG :: string where
  "SAMPLE_LOG = ''dnsmasq-dhcp[1]: 7 PXE(e) aa:bb:cc:00:00:01 '' @ [CHR 0x0A]
     @ ''dnsmasq-dhcp[1]: 7 DHCPACK(e) 10.0.0.9 aa:bb:cc:00:00:02''"

text \<open>An acknowledgement names its client after the address, where the search for a MAC address does not look:
  with a transaction number that is used again, the address goes to the row of the client before.\<close>

lemma ack_goes_to_other_client:
  "map (\<lambda>c. (c_mac c, c_ip c)) (recent 5 2025 SAMPLE_LOG []) = [(''aa:bb:cc:00:00:01'', ''10.0.0.9'')]"
  by code_simp

theorem recent_clients_witness:
  "c_seen (hd (recent 1 2025 [] [(''AA'', ''10.0.0.3'', Some 7), (''b'', [], Some 5)])) = latest {7}
     \<and> time_key (latest {5}) \<le> seen_key (hd (recent 1 2025 [] [(''AA'', ''10.0.0.3'', Some 7), (''b'', [], Some 5)]))"
proof -
  let ?b = "[(''AA'', ''10.0.0.3'', Some 7), (''b'', [], Some 5)] :: boot_row list"
  have "lower ''AA'' = ''aa''" "lower ''b'' = ''b''" by code_simp+
  then have ss: "sightings 2025 [] ?b = [(''aa'', Some 7), (''b'', Some 5)]"
    by (simp add: sightings_def boot_sightings_def transactions_def splitlines_def)
  have rows: "map c_mac (recent 1 2025 [] ?b) = [''aa'']" by code_simp
  then obtain c where c: "recent 1 2025 [] ?b = [c]" "c_mac c = ''aa''" by auto
  have "times (sightings 2025 [] ?b) ''aa'' = {7}" "times (sightings 2025 [] ?b) ''b'' = {5}"
    unfolding ss by (auto simp: times_def)
  with recent_clients [of 1 2025 "[]" ?b] c show ?thesis by (auto simp: ss)
qed

end
