(* ===== verification/Track.thy ===== *)
theory Track
  imports Models Net Ratelimit Regex
begin

text \<open>
  Boot tracking (\<open>routers/track.py\<close>): the two addresses the boot menu pings, without authentication, when
  it is loaded and when an image is picked.  Both always answer the same valid iPXE script, so only
  what they record is modelled; the images are read-only here.
\<close>

section \<open>The tables\<close>

record boot_event =
  ev_id :: nat
  ev_image :: nat
  ev_name :: string
  ev_mac :: string
  ev_ip :: string
  ev_created :: nat

record seen_client =
  seen_mac :: string
  seen_ip :: string
  last_seen :: nat

record tracking =
  limiter :: events
  boots :: "boot_event list"
  seen :: "seen_client list"

section \<open>The requests\<close>

definition RATE_LIMIT :: nat where "RATE_LIMIT = 120"
definition RATE_WINDOW :: real where "RATE_WINDOW = 60"
definition MAX_ROWS :: nat where "MAX_ROWS = 200000"
definition MAX_SEEN :: nat where "MAX_SEEN = 10000"

definition hex_chr :: "char \<Rightarrow> bool" where
  "hex_chr c \<longleftrightarrow> is_digit c \<or> chr_in CHR ''a'' CHR ''f'' c"

definition MAC_RE :: rx where
  "MAC_RE = Seq AtStart (Seq (exactly 2 (Cls hex_chr))
     (Seq (exactly 5 (Seq (lit '':'') (exactly 2 (Cls hex_chr)))) AtEnd))"

text \<open>
  A ping: the socket peer, the headers and query fields it reads, the two clocks, and whether the dice
  ask for a cleanup; the target is an image id, or None for the menu itself.
\<close>

record ping =
  p_client :: "string option"
  p_forwarded :: "string option"
  p_real_ip :: "string option"
  p_mac :: "string option"
  p_ip :: "string option"
  p_now :: real
  p_wall :: nat
  p_clean :: bool
  p_target :: "nat option"

definition or_empty :: "string option \<Rightarrow> string" where
  "or_empty x = (case x of None \<Rightarrow> [] | Some s \<Rightarrow> s)"

definition ping_key :: "string list \<Rightarrow> ping \<Rightarrow> string" where
  "ping_key TRUSTED_PROXIES p = ''track:'' @ client_ip TRUSTED_PROXIES (p_client p) (p_forwarded p)"

definition ping_mac :: "ping \<Rightarrow> string" where
  "ping_mac p = strip (lower (or_empty (p_mac p)))"

definition ping_ip :: "ping \<Rightarrow> string" where
  "ping_ip p =
     (let ip = strip (or_empty (p_ip p))
      in if ip \<in> {[], ''0.0.0.0''}
         then strip (if or_empty (p_real_ip p) \<noteq> [] then or_empty (p_real_ip p) else or_empty (p_client p))
         else ip)"

section \<open>Recording\<close>

text \<open>The row seen longest ago; of several, the first.\<close>

fun oldest :: "seen_client list \<Rightarrow> seen_client option" where
  "oldest [] = None"
| "oldest (r # rs) =
     (case oldest rs of None \<Rightarrow> Some r | Some o' \<Rightarrow> Some (if last_seen o' < last_seen r then o' else r))"

definition see_client :: "string \<Rightarrow> string \<Rightarrow> nat \<Rightarrow> seen_client list \<Rightarrow> seen_client list" where
  "see_client mac ip now rows =
     (if mac \<in> seen_mac ` set rows
      then map (\<lambda>r. if seen_mac r = mac then r\<lparr>seen_ip := take 64 ip, last_seen := now\<rparr> else r) rows
      else (let kept = (if length rows \<ge> MAX_SEEN
                        then (case oldest rows of None \<Rightarrow> rows | Some o' \<Rightarrow> filter (\<lambda>r. seen_mac r \<noteq> seen_mac o') rows)
                        else rows)
            in kept @ [\<lparr>seen_mac = mac, seen_ip = take 64 ip, last_seen = now\<rparr>]))"

definition prune :: "boot_event list \<Rightarrow> boot_event list" where
  "prune rows = (let keep = set (take MAX_ROWS (rev (sort (map ev_id rows)))) in filter (\<lambda>e. ev_id e \<in> keep) rows)"

definition track_menu :: "string list \<Rightarrow> ping \<Rightarrow> tracking \<Rightarrow> tracking" where
  "track_menu TRUSTED_PROXIES p s =
     (case allow (ping_key TRUSTED_PROXIES p) RATE_LIMIT RATE_WINDOW (p_now p) (limiter s) of
        (ok, ev) \<Rightarrow>
          (let s = s\<lparr>limiter := ev\<rparr>
           in if \<not> ok \<or> re_match MAC_RE (ping_mac p) = None then s
              else s\<lparr>seen := see_client (ping_mac p) (ping_ip p) (p_wall p) (seen s)\<rparr>))"

definition track_image :: "string list \<Rightarrow> image_table \<Rightarrow> nat \<Rightarrow> ping \<Rightarrow> tracking \<Rightarrow> tracking" where
  "track_image TRUSTED_PROXIES images i p s =
     (case allow (ping_key TRUSTED_PROXIES p) RATE_LIMIT RATE_WINDOW (p_now p) (limiter s) of
        (ok, ev) \<Rightarrow>
          (let s = s\<lparr>limiter := ev\<rparr>
           in if \<not> ok then s
              else case get_image images i of
                     None \<Rightarrow> s
                   | Some img \<Rightarrow>
                       if \<not> enabled img then s
                       else (let rows = boots s @ [\<lparr>ev_id = next_id ev_id (boots s), ev_image = i, ev_name = take 128 (img_name img),
                                 ev_mac = take 32 (ping_mac p), ev_ip = take 64 (ping_ip p), ev_created = p_wall p\<rparr>]
                             in s\<lparr>boots := (if p_clean p \<and> MAX_ROWS < length rows then prune rows else rows)\<rparr>)))"

definition track :: "string list \<Rightarrow> image_table \<Rightarrow> ping \<Rightarrow> tracking \<Rightarrow> tracking" where
  "track TRUSTED_PROXIES images p s =
     (case p_target p of None \<Rightarrow> track_menu TRUSTED_PROXIES p s | Some i \<Rightarrow> track_image TRUSTED_PROXIES images i p s)"

text \<open>A history: each ping with the images there were at its time.\<close>

definition track_run :: "string list \<Rightarrow> (image_table \<times> ping) list \<Rightarrow> tracking" where
  "track_run TRUSTED_PROXIES ps =
     foldl (\<lambda>s (images, p). track TRUSTED_PROXIES images p s) \<lparr>limiter = [], boots = [], seen = []\<rparr> ps"

section \<open>Lemmas\<close>

lemma oldest_None: "oldest rows = None \<longleftrightarrow> rows = []"
  by (cases rows) (auto split: option.splits)

lemma oldest_in: "oldest rows = Some r \<Longrightarrow> r \<in> set rows \<and> (\<forall>x \<in> set rows. last_seen r \<le> last_seen x)"
  by (induction rows arbitrary: r) (fastforce simp: oldest_None split: option.splits if_splits)+

text \<open>What a well-formed MAC address is.\<close>

definition mac_ok :: "string \<Rightarrow> bool" where
  "mac_ok s \<longleftrightarrow> re_match MAC_RE s \<noteq> None \<and> strip s = s"

lemma map_seen_mac:
  "map seen_mac (see_client mac ip now rows) =
     (if mac \<in> seen_mac ` set rows then map seen_mac rows
      else filter (\<lambda>x. length rows \<ge> MAX_SEEN \<longrightarrow> Some x \<noteq> map_option seen_mac (oldest rows)) (map seen_mac rows) @ [mac])"
  by (auto simp: see_client_def Let_def filter_map comp_def split: option.split)

lemma see_client_macs: "distinct (map seen_mac rows) \<Longrightarrow> distinct (map seen_mac (see_client mac ip now rows))"
  unfolding map_seen_mac by auto

lemma see_client_length:
  assumes "length rows \<le> MAX_SEEN" "distinct (map seen_mac rows)"
  shows "length (see_client mac ip now rows) \<le> MAX_SEEN"
proof (cases "mac \<notin> seen_mac ` set rows \<and> MAX_SEEN \<le> length rows")
  case True
  then have "rows \<noteq> []" by (auto simp: MAX_SEEN_def)
  then obtain r where r: "oldest rows = Some r" "r \<in> set rows" using oldest_None oldest_in by fastforce
  then have "length (filter (\<lambda>x. seen_mac x \<noteq> seen_mac r) rows) < length rows"
    by (intro length_filter_less) auto
  with True r assms(1) show ?thesis by (auto simp: see_client_def Let_def)
next
  case False
  with assms show ?thesis by (auto simp: see_client_def Let_def)
qed

lemma see_client_all:
  assumes "list_all P rows" "P \<lparr>seen_mac = mac, seen_ip = take 64 ip, last_seen = now\<rparr>"
    "\<And>r. P r \<Longrightarrow> seen_mac r = mac \<Longrightarrow> P (r\<lparr>seen_ip := take 64 ip, last_seen := now\<rparr>)"
  shows "list_all P (see_client mac ip now rows)"
  using assms by (auto simp: see_client_def Let_def list_all_iff split: option.split)

text \<open>The fields of a row are no longer than their columns.\<close>

definition event_ok :: "boot_event \<Rightarrow> bool" where
  "event_ok e \<longleftrightarrow> length (ev_name e) \<le> 128 \<and> length (ev_mac e) \<le> 32 \<and> length (ev_ip e) \<le> 64"

definition tables_ok :: "tracking \<Rightarrow> bool" where
  "tables_ok s \<longleftrightarrow> length (seen s) \<le> MAX_SEEN \<and> distinct (map seen_mac (seen s))
     \<and> list_all (\<lambda>r. mac_ok (seen_mac r) \<and> length (seen_ip r) \<le> 64) (seen s)
     \<and> distinct (map ev_id (boots s)) \<and> list_all event_ok (boots s)"

lemma next_id_new: "r \<in> set rows \<Longrightarrow> f r \<noteq> next_id f rows"
  using next_id_fresh [of r rows f] by simp

lemma tables_ok_menu: "tables_ok s \<Longrightarrow> tables_ok (track_menu T p s)"
proof (cases "fst (allow (ping_key T p) RATE_LIMIT RATE_WINDOW (p_now p) (limiter s)) \<and> re_match MAC_RE (ping_mac p) \<noteq> None")
  case True
  assume ok: "tables_ok s"
  have "mac_ok (ping_mac p)" using True by (simp add: mac_ok_def ping_mac_def)
  then have "list_all (\<lambda>r. mac_ok (seen_mac r) \<and> length (seen_ip r) \<le> 64) (see_client (ping_mac p) (ping_ip p) (p_wall p) (seen s))"
    using ok by (intro see_client_all) (auto simp: tables_ok_def)
  with ok True show ?thesis
    by (auto simp: tables_ok_def track_menu_def Let_def see_client_length see_client_macs split: prod.splits)
qed (auto simp: tables_ok_def track_menu_def Let_def split: prod.splits)

lemma tables_ok_image: "tables_ok s \<Longrightarrow> tables_ok (track_image T images i p s)"
  unfolding tables_ok_def track_image_def Let_def
  by (auto simp: prune_def Let_def event_ok_def next_id_new next_id_new [symmetric] distinct_map_filter list_all_iff split: prod.splits option.splits)

lemma tables_ok_run: "tables_ok (track_run T ps)"
proof (induction ps rule: rev_induct)
  case Nil
  then show ?case by (simp add: track_run_def tables_ok_def)
next
  case (snoc x ps)
  obtain images p where x: "x = (images, p)" by fastforce
  from snoc show ?case
    by (auto simp: track_run_def x track_def intro: tables_ok_menu tables_ok_image split: option.split)
qed

lemma boots_grow:
  "length (boots (track T images p s)) \<le> length (boots s)
     + (if fst (allow (ping_key T p) RATE_LIMIT RATE_WINDOW (p_now p) (limiter s)) then 1 else 0)"
  "limiter (track T images p s) = snd (allow (ping_key T p) RATE_LIMIT RATE_WINDOW (p_now p) (limiter s))"
proof -
  have "length (prune rows) \<le> length rows" for rows by (simp add: prune_def Let_def)
  from this [of "boots s @ [x]" for x] show
    "length (boots (track T images p s)) \<le> length (boots s)
       + (if fst (allow (ping_key T p) RATE_LIMIT RATE_WINDOW (p_now p) (limiter s)) then 1 else 0)"
    "limiter (track T images p s) = snd (allow (ping_key T p) RATE_LIMIT RATE_WINDOW (p_now p) (limiter s))"
    by (auto simp: track_def track_menu_def track_image_def Let_def split: option.split prod.splits)
qed

lemma boots_within:
  "length (boots (foldl (\<lambda>s (images, p). track T images p s) s ps)) \<le> length (boots s)
     + length (allow_run RATE_LIMIT RATE_WINDOW (map (\<lambda>(images, p). (ping_key T p, p_now p)) ps) (limiter s))"
proof (induction ps arbitrary: s)
  case (Cons x ps)
  obtain images p where x: "x = (images, p)" by fastforce
  show ?case
    using Cons.IH [of "track T images p s"] boots_grow [of T images p s]
    by (auto simp: x split: prod.split if_splits)
qed simp

section \<open>Properties\<close>


text \<open>A full table gives up the client seen longest ago, and only for a client it does not know.\<close>

lemma evicted_is_oldest:
  assumes "x \<in> set rows" "seen_mac x \<notin> seen_mac ` set (see_client mac ip now rows)" "distinct (map seen_mac rows)"
  shows "MAX_SEEN \<le> length rows \<and> mac \<notin> seen_mac ` set rows \<and> (\<forall>y \<in> set rows. last_seen x \<le> last_seen y)"
proof -
  have "seen_mac x \<notin> set (map seen_mac (see_client mac ip now rows))" using assms(2) by simp
  then have full: "MAX_SEEN \<le> length rows" "mac \<notin> seen_mac ` set rows" "Some (seen_mac x) = map_option seen_mac (oldest rows)"
    using assms(1) unfolding map_seen_mac by (auto split: if_splits)
  then obtain r where r: "oldest rows = Some r" "seen_mac r = seen_mac x" by (cases "oldest rows") auto
  then have "x = r" using oldest_in [OF r(1)] assms(1,3) by (auto simp: distinct_map dest: inj_onD)
  with full oldest_in [OF r(1)] show ?thesis by blast
qed

lemma known_after_ping: "mac \<in> seen_mac ` set (see_client mac ip now rows)"
proof -
  have "mac \<in> set (map seen_mac (see_client mac ip now rows))" unfolding map_seen_mac by auto
  then show ?thesis by simp
qed

end
