(* ===== verification/Metrics.thy ===== *)
theory Metrics
  imports Complex_Main Host
begin

text \<open>
  The load of the host (\<open>services/metrics.py\<close>), read from \<open>/proc\<close>: counters of the processor, the memory, the disks
  and the network, and the rates between two reads.  \<open>read name\<close> is the text of a file; None stands for any
  exception, of which the request that asked fails.  Times and rates are exact fractions; the code computes them in
  floating point and rounds them for the page.
\<close>

definition SKIP_DISK :: "string list" where "SKIP_DISK = [''loop'', ''ram'', ''dm-'', ''sr'', ''fd'']"
definition SKIP_NET :: "string list" where "SKIP_NET = [''lo'', ''veth'', ''docker'', ''br-'', ''virbr'']"

definition starts_with :: "string list \<Rightarrow> string \<Rightarrow> bool" where
  "starts_with ps s \<longleftrightarrow> list_ex (\<lambda>p. prefix p s) ps"

definition nth_int :: "string list \<Rightarrow> nat \<Rightarrow> int option" where
  "nth_int f k = (if k < length f then py_int (f ! k) else None)"

definition cpu_totals :: "string \<Rightarrow> (int \<times> int) option" where
  "cpu_totals stat =
     (case splitlines stat of
        [] \<Rightarrow> None
      | line # _ \<Rightarrow>
          (case words line of
             [] \<Rightarrow> None
           | _ # f \<Rightarrow>
               (case those (map py_int f) of
                  None \<Rightarrow> None
                | Some parts \<Rightarrow>
                    if length parts < 4 then None
                    else Some (parts ! 3 + (if 4 < length parts then parts ! 4 else 0), sum_list parts))))"

text \<open>A line without a number after the colon raises; of two lines with one key the last counts.\<close>

definition meminfo :: "string \<Rightarrow> (string \<Rightarrow> int option) option" where
  "meminfo text =
     map_option (\<lambda>rows. map_of (rev rows))
       (those (map (\<lambda>line. case partition_at CHR '':'' line of
          (key, _, rest) \<Rightarrow> map_option (\<lambda>n. (key, n * 1024)) (nth_int (words rest) 0)) (splitlines text)))"

definition disk_rows :: "string \<Rightarrow> (string \<times> int \<times> int) list option" where
  "disk_rows text =
     those (map (\<lambda>f. case (nth_int f 5, nth_int f 9) of
            (Some r, Some w) \<Rightarrow> Some (f ! 2, r * 512, w * 512) | _ \<Rightarrow> None)
       (filter (\<lambda>f. 14 \<le> length f \<and> \<not> starts_with SKIP_DISK (f ! 2)) (map words (splitlines text))))"

text \<open>What the code takes for a whole device: no other name in the table is a prefix of its name.\<close>

definition whole :: "string list \<Rightarrow> string \<Rightarrow> bool" where
  "whole names dev \<longleftrightarrow> \<not> list_ex (\<lambda>other. dev \<noteq> other \<and> prefix other dev) names"

definition disk_bytes :: "string \<Rightarrow> (int \<times> int) option" where
  "disk_bytes text =
     map_option (\<lambda>rows.
       (let kept = filter (\<lambda>(dev, _). whole (map fst rows) dev) rows
        in (sum_list (map (\<lambda>(_, r, _). r) kept), sum_list (map (\<lambda>(_, _, w). w) kept)))) (disk_rows text)"

definition net_row :: "string \<Rightarrow> (int \<times> int) option option" where
  "net_row line =
     (case partition_at CHR '':'' line of
        (name, sep, data) \<Rightarrow>
          if \<not> sep \<or> starts_with SKIP_NET (strip name) then None
          else Some (case (nth_int (words data) 0, nth_int (words data) 8) of (Some r, Some t) \<Rightarrow> Some (r, t) | _ \<Rightarrow> None))"

definition net_bytes :: "string \<Rightarrow> (int \<times> int) option" where
  "net_bytes text =
     map_option (\<lambda>rows. (sum_list (map fst rows), sum_list (map snd rows)))
       (those (List.map_filter net_row (splitlines text)))"

section \<open>Rates\<close>

record counters =
  ct_t :: rat
  ct_idle :: int
  ct_total :: int
  ct_disk :: "int \<times> int"
  ct_net :: "int \<times> int"

record load =
  ld_cpu :: rat
  ld_mem_total :: int
  ld_mem_used :: int
  ld_mem_pct :: rat
  ld_disk :: "rat \<times> rat"
  ld_net :: "rat \<times> rat"

definition cpu_pct :: "counters \<Rightarrow> counters \<Rightarrow> rat" where
  "cpu_pct prev cur =
     (let dtotal = ct_total cur - ct_total prev; didle = ct_idle cur - ct_idle prev
      in if 0 < dtotal then max 0 (min 100 ((1 - of_int didle / of_int dtotal) * 100)) else 0)"

definition rate :: "rat \<Rightarrow> int \<Rightarrow> int \<Rightarrow> rat" where
  "rate dt prev cur = (if 0 < dt then max 0 (of_int (cur - prev) / dt) else 0)"

definition rates :: "rat \<Rightarrow> int \<times> int \<Rightarrow> int \<times> int \<Rightarrow> rat \<times> rat" where
  "rates dt prev cur = (rate dt (fst prev) (fst cur), rate dt (snd prev) (snd cur))"

text \<open>One sample: what it answers, and the counters it keeps for the next.\<close>

definition sample_of :: "counters option \<Rightarrow> counters \<Rightarrow> (string \<Rightarrow> int option) \<Rightarrow> load" where
  "sample_of prev cur mem =
     (let total = (case mem ''MemTotal'' of None \<Rightarrow> 0 | Some n \<Rightarrow> n);
          free = (case mem ''MemFree'' of None \<Rightarrow> 0 | Some n \<Rightarrow> n);
          used = total - (case mem ''MemAvailable'' of None \<Rightarrow> free | Some n \<Rightarrow> n)
      in \<lparr>ld_cpu = (case prev of None \<Rightarrow> 0 | Some p \<Rightarrow> cpu_pct p cur),
          ld_mem_total = total, ld_mem_used = used,
          ld_mem_pct = (if total = 0 then 0 else of_int used / of_int total * 100),
          ld_disk = (case prev of None \<Rightarrow> (0, 0) | Some p \<Rightarrow> rates (ct_t cur - ct_t p) (ct_disk p) (ct_disk cur)),
          ld_net = (case prev of None \<Rightarrow> (0, 0) | Some p \<Rightarrow> rates (ct_t cur - ct_t p) (ct_net p) (ct_net cur))\<rparr>)"

definition net_dev_path :: "string \<Rightarrow> (string \<Rightarrow> string option) \<Rightarrow> string" where
  "net_dev_path PROC read = (if read (PROC @ ''/1/net/dev'') \<noteq> None then PROC @ ''/1/net/dev'' else PROC @ ''/net/dev'')"

definition sample :: "string \<Rightarrow> string \<Rightarrow> (string \<Rightarrow> string option) \<Rightarrow> rat \<Rightarrow> counters option \<Rightarrow> load option \<times> counters option" where
  "sample PROC net_dev read now prev =
     (case (Option.bind (read (PROC @ ''/stat'')) cpu_totals, Option.bind (read (PROC @ ''/meminfo'')) meminfo,
            Option.bind (read (PROC @ ''/diskstats'')) disk_bytes, Option.bind (read net_dev) net_bytes) of
        (Some (idle, jiffies), Some mem, Some disk, Some net) \<Rightarrow>
          (let cur = \<lparr>ct_t = now, ct_idle = idle, ct_total = jiffies, ct_disk = disk, ct_net = net\<rparr>
           in (Some (sample_of prev cur mem), Some cur))
      | _ \<Rightarrow> (None, prev))"

section \<open>Lemmas\<close>

lemma cpu_pct_bounds: "0 \<le> cpu_pct prev cur \<and> cpu_pct prev cur \<le> 100"
  by (simp add: cpu_pct_def Let_def)

lemma rate_nonneg: "0 \<le> rate dt prev cur"
  by (simp add: rate_def)

text \<open>Nothing a sample shows is negative or above its whole, however the counters jump; without a previous
  sample every rate is zero, and a failed read keeps the previous sample.\<close>

lemma sample_sane:
  "sample PROC net_dev read now prev = (Some ld, prev') \<Longrightarrow>
     0 \<le> ld_cpu ld \<and> ld_cpu ld \<le> 100 \<and> 0 \<le> fst (ld_disk ld) \<and> 0 \<le> snd (ld_disk ld) \<and> 0 \<le> fst (ld_net ld) \<and> 0 \<le> snd (ld_net ld)
     \<and> prev' \<noteq> None \<and> (prev = None \<longrightarrow> ld_cpu ld = 0 \<and> ld_disk ld = (0, 0) \<and> ld_net ld = (0, 0))"
  "sample PROC net_dev read now prev = (None, prev') \<Longrightarrow> prev' = prev"
  using cpu_pct_bounds rate_nonneg
  by (auto simp: sample_def sample_of_def Let_def rates_def split: option.splits prod.splits)

text \<open>
  No disk is counted twice: of two rows that are counted, neither name is a prefix of the other.  But the
  test takes a disk for a partition where its name only starts like another disk's.
\<close>

lemma whole_antichain:
  "whole names a \<Longrightarrow> whole names b \<Longrightarrow> a \<in> set names \<Longrightarrow> b \<in> set names \<Longrightarrow> prefix a b \<Longrightarrow> a = b"
  by (auto simp: whole_def list_ex_iff)

lemma every_name_has_a_whole: "dev \<in> set names \<Longrightarrow> \<exists>d \<in> set names. whole names d \<and> prefix d dev"
proof (induction "length dev" arbitrary: dev rule: less_induct)
  case less
  show ?case
  proof (cases "whole names dev")
    case False
    then obtain other where o': "other \<in> set names" "dev \<noteq> other" "prefix other dev" by (auto simp: whole_def list_ex_iff)
    then have "length other < length dev" by (auto simp: prefix_def)
    from less.hyps [OF this o'(1)] o'(3) show ?thesis by (meson prefix_order.trans)
  qed (use less.prems in auto)
qed

lemma disk_27_not_counted:
  "disk_bytes (''8 0 sda 1 0 2 0 1 0 4 0 0 0 0'' @ [NL] @ ''65 160 sdaa 1 0 1000 0 1 0 1000 0 0 0 0'') = Some (1024, 2048)"
  by code_simp

end
