(* ===== verification/Dashboard.thy ===== *)
theory Dashboard
  imports Clients Track Metrics
begin

text \<open>
  The figures of the dashboard (\<open>routers/dashboard.py\<close>): the clients seen lately, from the log and from what
  tracking recorded, the totals over all boots, the list of boots for other tools, and their reset.  The load of the host comes
  from \<^theory_text>\<open>Metrics\<close>, the pages are left out.  A time is a number of seconds, as in the tables.
\<close>

section \<open>Figures\<close>

definition WEEK :: nat where "WEEK = 7 * 86400"
definition CLIENT_LIMIT :: nat where "CLIENT_LIMIT = 25"

text \<open>The rows folded into the log's: last week's boots, the oldest first, then the menus loaded.\<close>

definition boot_rows :: "nat \<Rightarrow> tracking \<Rightarrow> boot_row list" where
  "boot_rows since s =
     map (\<lambda>e. (ev_mac e, ev_ip e, Some (ev_created e)))
       (sort_by (\<lambda>a b. ev_created a \<le> ev_created b) (filter (\<lambda>e. ev_mac e \<noteq> [] \<and> since \<le> ev_created e) (boots s)))
     @ map (\<lambda>r. (seen_mac r, seen_ip r, Some (last_seen r))) (filter (\<lambda>r. since \<le> last_seen r) (seen s))"

definition boots_of :: "boot_event list \<Rightarrow> string \<Rightarrow> boot_event list" where
  "boots_of rows name = filter (\<lambda>e. ev_name e = name) rows"

text \<open>By the number of boots; of equal numbers the image booted last comes first.\<close>

definition ranked_before :: "boot_event list \<Rightarrow> string \<Rightarrow> string \<Rightarrow> bool" where
  "ranked_before rows a b \<longleftrightarrow>
     (let n = (\<lambda>x. length (boots_of rows x)); t = (\<lambda>x. foldr max (map ev_created (boots_of rows x)) 0)
      in n b < n a \<or> (n a = n b \<and> t b \<le> t a))"

definition top_images :: "boot_event list \<Rightarrow> (string \<times> nat) list" where
  "top_images rows =
     map (\<lambda>name. (name, length (boots_of rows name))) (take 5 (sort_by (ranked_before rows) (remdups (map ev_name rows))))"

record figures =
  fg_clients :: "client list"
  fg_active :: nat
  fg_served :: nat
  fg_deploys :: nat
  fg_top :: "(string \<times> nat) list"

text \<open>\<open>tail\<close> is the end of the DHCP log.\<close>

definition stats :: "nat \<Rightarrow> nat \<Rightarrow> string \<Rightarrow> tracking \<Rightarrow> figures" where
  "stats now year tail s =
     (let rows = recent CLIENT_LIMIT year tail (boot_rows (now - WEEK) s)
      in \<lparr>fg_clients = rows, fg_active = count_active now 600 rows,
          fg_served = length (remdups (filter (\<lambda>m'. m' \<noteq> []) (map ev_mac (boots s)))),
          fg_deploys = length (boots s), fg_top = top_images (boots s)\<rparr>)"

text \<open>The boots for other tools, the latest first; \<open>since\<close> is the parameter's time, None where it names none.\<close>

definition boot_events :: "nat option \<Rightarrow> nat option \<Rightarrow> int \<Rightarrow> tracking \<Rightarrow> boot_event list" where
  "boot_events image_id since limit s =
     take (nat (max 1 (min limit 1000)))
       (sort_by (\<lambda>a b. ev_created b \<le> ev_created a)
         (filter (\<lambda>e. (case image_id of None \<Rightarrow> True | Some i \<Rightarrow> ev_image e = i)
                    \<and> (case since of None \<Rightarrow> True | Some t \<Rightarrow> t \<le> ev_created e)) (boots s)))"

definition reset_stats :: "tracking \<Rightarrow> string \<Rightarrow> tracking \<times> string" where
  "reset_stats s tail = (s\<lparr>boots := [], seen := []\<rparr>, [])"

section \<open>Lemmas\<close>

lemma lower_chr_idem: "lower_chr (lower_chr c) = lower_chr c"
  by (auto simp: lower_chr_def is_upper_def chr_in_def)

lemma lower_idem: "lower (lower s) = lower s"
  by (simp add: lower_def lower_chr_idem)

lemma lower_ping_mac: "lower (ping_mac p) = ping_mac p"
proof -
  have "lower_chr c = c" if "c \<in> set (ping_mac p)" for c
  proof -
    have "c \<in> set (lower (or_empty (p_mac p)))" using that strip_subset unfolding ping_mac_def by blast
    then show ?thesis unfolding lower_def by (auto simp: lower_chr_idem)
  qed
  then show ?thesis unfolding lower_def by (intro map_idI)
qed

lemma insort_snoc: "x \<le> m' \<Longrightarrow> insort x (ys @ [m' :: nat]) = insort x ys @ [m']"
  by (induction ys) auto

lemma sort_snoc_max: "\<forall>x \<in> set xs. x \<le> m' \<Longrightarrow> sort (xs @ [m' :: nat]) = sort xs @ [m']"
  by (induction xs) (auto simp: insort_snoc)

lemma new_event_kept: "e \<in> set (if b \<and> MAX_ROWS < length (rows @ [e]) then prune (rows @ [e]) else rows @ [e])"
  if "ev_id e = next_id ev_id rows"
proof -
  have "\<forall>x \<in> set (map ev_id rows). x \<le> ev_id e"
    using next_id_fresh [of _ rows ev_id] that by (auto simp: less_imp_le)
  then have "sort (map ev_id (rows @ [e])) = sort (map ev_id rows) @ [ev_id e]" using sort_snoc_max by simp
  then have "ev_id e \<in> set (take MAX_ROWS (rev (sort (map ev_id (rows @ [e])))))" by (simp add: MAX_ROWS_def)
  then show ?thesis by (simp add: prune_def Let_def)
qed

lemma seen_now: "\<exists>r \<in> set (see_client mac ip now rows). seen_mac r = mac \<and> last_seen r = now"
proof (cases "mac \<in> seen_mac ` set rows")
  case True
  then obtain r where "r \<in> set rows" "seen_mac r = mac" by auto
  then have "r\<lparr>seen_ip := take 64 ip, last_seen := now\<rparr> \<in> set (see_client mac ip now rows)"
    unfolding see_client_def if_P [OF True] by (force simp: image_iff)
  with \<open>seen_mac r = mac\<close> show ?thesis by (intro bexI [of _ "r\<lparr>seen_ip := take 64 ip, last_seen := now\<rparr>"]) simp_all
next
  case False
  then show ?thesis by (simp add: see_client_def Let_def)
qed

text \<open>What an accepted ping leaves in the tables.\<close>

definition counts :: "image_table \<Rightarrow> ping \<Rightarrow> bool" where
  "counts images p \<longleftrightarrow>
     (case p_target p of
        None \<Rightarrow> re_match MAC_RE (ping_mac p) \<noteq> None
      | Some i \<Rightarrow> (case get_image images i of None \<Rightarrow> False | Some img \<Rightarrow> enabled img) \<and> ping_mac p \<noteq> [])"

definition shown_mac :: "ping \<Rightarrow> string" where
  "shown_mac p = (if p_target p = None then ping_mac p else take 32 (ping_mac p))"

lemma ping_recorded:
  assumes "fst (allow (ping_key T p) RATE_LIMIT RATE_WINDOW (p_now p) (limiter s))" "counts images p"
  shows "(\<exists>e \<in> set (boots (track T images p s)). ev_mac e = shown_mac p \<and> ev_created e = p_wall p \<and> shown_mac p \<noteq> [])
    \<or> (\<exists>r \<in> set (seen (track T images p s)). seen_mac r = shown_mac p \<and> last_seen r = p_wall p \<and> shown_mac p \<noteq> [])"
proof -
  obtain ev where a: "allow (ping_key T p) RATE_LIMIT RATE_WINDOW (p_now p) (limiter s) = (True, ev)"
    using assms(1) by (cases "allow (ping_key T p) RATE_LIMIT RATE_WINDOW (p_now p) (limiter s)") simp
  show ?thesis
  proof (cases "p_target p")
    case None
    let ?rows = "see_client (ping_mac p) (ping_ip p) (p_wall p) (seen s)"
    obtain mt where "re_match MAC_RE (ping_mac p) = Some mt" using assms(2) by (auto simp: counts_def None)
    then have "seen (track T images p s) = ?rows" by (simp add: track_def None track_menu_def a Let_def)
    moreover have "\<exists>r \<in> set ?rows. seen_mac r = ping_mac p \<and> last_seen r = p_wall p" by (rule seen_now)
    moreover have "ping_mac p \<noteq> []"
    proof
      assume "ping_mac p = []"
      moreover have "re_match MAC_RE [] = None" by code_simp
      ultimately show False using assms(2) by (simp add: counts_def None)
    qed
    ultimately show ?thesis by (auto simp: shown_mac_def None)
  next
    case (Some i)
    then obtain img where img: "get_image images i = Some img" "enabled img" "ping_mac p \<noteq> []"
      using assms(2) by (auto simp: counts_def split: option.splits)
    let ?e = "\<lparr>ev_id = next_id ev_id (boots s), ev_image = i, ev_name = take 128 (img_name img),
       ev_mac = take 32 (ping_mac p), ev_ip = take 64 (ping_ip p), ev_created = p_wall p\<rparr>"
    have "boots (track T images p s) =
        (if p_clean p \<and> MAX_ROWS < length (boots s @ [?e]) then prune (boots s @ [?e]) else boots s @ [?e])"
      by (simp add: track_def Some track_image_def a img Let_def)
    with new_event_kept [of ?e "boots s" "p_clean p"] have "?e \<in> set (boots (track T images p s))" by simp
    with img(3) show ?thesis by (intro disjI1 bexI [of _ ?e]) (simp_all add: shown_mac_def Some)
  qed
qed

lemma recorded_is_sighting:
  assumes "(\<exists>e \<in> set (boots s). ev_mac e = mac \<and> ev_created e = t \<and> mac \<noteq> [])
    \<or> (\<exists>r \<in> set (seen s). seen_mac r = mac \<and> last_seen r = t \<and> mac \<noteq> [])" "since \<le> t"
  shows "(lower mac, Some t) \<in> set (sightings year tail (boot_rows since s))"
proof -
  have "\<exists>ip. (mac, ip, Some t) \<in> set (boot_rows since s) \<and> mac \<noteq> []"
    using assms by (auto simp: boot_rows_def image_iff)
  then show ?thesis by (force simp: sightings_def boot_sightings_def)
qed


section \<open>Properties\<close>

lemma distinct_sort_by [simp]: "distinct (sort_by le xs) \<longleftrightarrow> distinct xs"
  using distinct_map_sort_by [of id le xs] by simp

lemma ranked_total_preorder: "total_preorder (ranked_before rows)"
  by (auto simp: total_preorder_def ranked_before_def Let_def)

text \<open>C17. Tracking and the dashboard agree: a ping the rate limit lets through - of a menu with a well-formed MAC address,
  or of an enabled image by a client that names one - shows on the dashboard at once.  The client's row says at
  least the time of the ping, unless the list is full of clients seen no earlier; and the totals count each recorded boot once.\<close>

theorem accepted_ping_shows:
  fixes year tail
  assumes "fst (allow (ping_key T p) RATE_LIMIT RATE_WINDOW (p_now p) (limiter s))" "counts images p"
  defines "fg \<equiv> stats (p_wall p) year tail (track T images p s)"
  shows "((\<exists>c \<in> set (fg_clients fg). c_mac c = lower (shown_mac p) \<and> Suc (p_wall p) \<le> seen_key c)
       \<or> length (fg_clients fg) = CLIENT_LIMIT \<and> (\<forall>c \<in> set (fg_clients fg). Suc (p_wall p) \<le> seen_key c))
     \<and> fg_deploys fg = length (boots (track T images p s))
     \<and> (\<forall>(name, n) \<in> set (fg_top fg). n = length (boots_of (boots (track T images p s)) name) \<and> 0 < n)
     \<and> distinct (map fst (fg_top fg))"
proof -
  let ?s = "track T images p s"
  have "(lower (shown_mac p), Some (p_wall p)) \<in> set (sightings year tail (boot_rows (p_wall p - WEEK) ?s))"
    using recorded_is_sighting [where mac = "shown_mac p" and t = "p_wall p" and s = ?s] ping_recorded [OF assms(1,2)] by simp
  note shows1 = sighting_shows [OF this, of CLIENT_LIMIT]
  have "0 < length (boots_of rows x)" if "x \<in> ev_name ` set rows" for rows x
    using that by (force simp: boots_of_def filter_empty_conv)
  then have top: "(\<forall>(name, n) \<in> set (top_images rows). n = length (boots_of rows name) \<and> 0 < n)" for rows
    by (auto simp: top_images_def dest!: in_set_takeD)
  have "map fst (top_images rows) = take 5 (sort_by (ranked_before rows) (remdups (map ev_name rows)))" for rows
    by (simp add: top_images_def comp_def)
  then have "distinct (map fst (top_images rows))" for rows by simp
  with shows1 top show ?thesis unfolding fg_def by (simp add: stats_def Let_def)
qed

text \<open>After a reset nothing is left to show.\<close>

lemma reset_shows_nothing:
  "reset_stats s tail = (s', tail') \<Longrightarrow>
     stats now year tail' s' = \<lparr>fg_clients = [], fg_active = 0, fg_served = 0, fg_deploys = 0, fg_top = []\<rparr>
     \<and> boot_events i since limit s' = []"
  by (auto simp: reset_stats_def stats_def boot_rows_def recent_def all_clients_def transactions_def splitlines_def
    count_active_def top_images_def boot_events_def Let_def)


section \<open>Examples\<close>

definition sample_ping :: ping where
  "sample_ping = \<lparr>p_client = Some ''10.0.0.7'', p_forwarded = None, p_real_ip = None, p_mac = Some ''AA:BB:CC:00:00:01'', p_ip = Some ''10.0.0.7'',
     p_now = 0, p_wall = 700, p_clean = False, p_target = None\<rparr>"

theorem accepted_ping_shows_witness:
  "\<exists>c \<in> set (fg_clients (stats 700 2025 [] (track [] [] sample_ping \<lparr>limiter = [], boots = [], seen = []\<rparr>))). 701 \<le> seen_key c"
proof -
  let ?s = "\<lparr>limiter = [], boots = [], seen = []\<rparr> :: tracking"
  have p: "ping_mac sample_ping = ''aa:bb:cc:00:00:01''" "p_wall sample_ping = 700" "p_target sample_ping = None"
    by (code_simp, simp_all add: sample_ping_def)
  have a: "fst (allow (ping_key [] sample_ping) RATE_LIMIT RATE_WINDOW (p_now sample_ping) (limiter ?s))"
    by (simp add: allow_def Let_def RATE_LIMIT_def ev_get_def)
  have "re_match MAC_RE ''aa:bb:cc:00:00:01'' \<noteq> None" by code_simp
  then have "counts [] sample_ping" by (simp add: counts_def p)
  note w = accepted_ping_shows [OF a this, of 2025 "[]", unfolded p(2)]
  show ?thesis
  proof (cases "fg_clients (stats 700 2025 [] (track [] [] sample_ping ?s)) = []")
    case True
    with w show ?thesis by (simp add: CLIENT_LIMIT_def)
  next
    case False
    then have "hd (fg_clients (stats 700 2025 [] (track [] [] sample_ping ?s))) \<in> set (fg_clients (stats 700 2025 [] (track [] [] sample_ping ?s)))"
      by (rule hd_in_set)
    with w show ?thesis by auto
  qed
qed

end
