(* ===== verification/Guards.thy ===== *)
theory Guards
  imports Auth Url
begin

text \<open>
  What stands before every route (\<open>main.py\<close>): the middleware that refuses cross-origin and anonymous
  state-changing requests, the redirect to the first-run wizard, and the security headers, in the order
  the application stacks them.
\<close>

section \<open>Requests\<close>

text \<open>A request as the guards see it; header names are in lower case.\<close>

record request =
  req_method :: string
  req_path :: string
  req_netloc :: string              \<comment> \<open>\<open>request.url.netloc\<close>: the Host header\<close>
  req_client :: "string option"     \<comment> \<open>the socket peer\<close>
  req_headers :: "(string \<times> string) list"

definition header :: "request \<Rightarrow> string \<Rightarrow> string option" where
  "header req h = map_of (req_headers req) h"

section \<open>The guards\<close>

definition UNSAFE_METHODS :: "string list" where
  "UNSAFE_METHODS = [''POST'', ''PUT'', ''PATCH'', ''DELETE'']"

definition ANONYMOUS_POSTS :: "string list" where
  "ANONYMOUS_POSTS = [''/login'', ''/logout'']"

definition EXEMPT_PREFIXES :: "string list" where
  "EXEMPT_PREFIXES = [''/login'', ''/logout'', ''/setup'', ''/static'', ''/theme'', ''/track'', ''/healthz'']"

definition request_hosts :: "string list \<Rightarrow> request \<Rightarrow> string list" where
  "request_hosts TRUSTED_PROXIES req =
     (let peer = (case req_client req of None \<Rightarrow> [] | Some h \<Rightarrow> h);
          forwarded = (case header req ''x-forwarded-host'' of None \<Rightarrow> [] | Some h \<Rightarrow> h)
      in if forwarded \<noteq> [] \<and> peer \<noteq> [] \<and> peer_is_trusted TRUSTED_PROXIES peer
         then [req_netloc req, strip (last (split_on CHR '','' forwarded))] else [req_netloc req])"

text \<open>\<open>request.headers.get("origin") or request.headers.get("referer")\<close>.\<close>

definition request_source :: "request \<Rightarrow> string option" where
  "request_source req =
     (case header req ''origin'' of
        None \<Rightarrow> header req ''referer''
      | Some s \<Rightarrow> if s = [] then header req ''referer'' else Some s)"

text \<open>What a guard does with a request: answer it, fail, or hand it on.\<close>

datatype verdict = Refused | RedirectTo string | Broken | HandOn

definition csrf_guard :: "string list \<Rightarrow> request \<Rightarrow> web \<Rightarrow> verdict" where
  "csrf_guard TRUSTED_PROXIES req w =
     (let anonymous = (if \<not> list_ex (\<lambda>p. prefix p (req_path req)) ANONYMOUS_POSTS \<and> \<not> truthy_id (s_uid (session w))
                         \<and> user_by_token (users w) (header req ''authorization'') = None
                       then RedirectTo ''/login'' else HandOn)
      in if req_method req \<in> set UNSAFE_METHODS
         then (case request_source req of
                 None \<Rightarrow> anonymous
               | Some source \<Rightarrow>
                   (case urlparse source of
                      None \<Rightarrow> Broken
                    | Some u \<Rightarrow> if netloc u \<notin> set (request_hosts TRUSTED_PROXIES req) then Refused else anonymous))
         else HandOn)"

definition first_run_redirect :: "settings \<Rightarrow> settings \<Rightarrow> request \<Rightarrow> web \<Rightarrow> verdict" where
  "first_run_redirect DEFAULTS db req w =
     (if \<not> list_ex (\<lambda>p. prefix p (req_path req)) EXEMPT_PREFIXES \<and> truthy_id (s_uid (session w))
        \<and> get_setting DEFAULTS db ''setup_complete'' (Some ''0'') \<noteq> ''1''
      then RedirectTo ''/setup'' else HandOn)"

text \<open>
  The stack: the middleware added last runs first, so the first-run redirect comes before the guard.
  The route is an argument, run only when both hand the request on.
\<close>

datatype 'a served = Answered verdict | Routed 'a

definition dispatch ::
  "string list \<Rightarrow> settings \<Rightarrow> (request \<Rightarrow> settings \<times> web \<Rightarrow> 'a \<times> settings \<times> web) \<Rightarrow> request
     \<Rightarrow> settings \<times> web \<Rightarrow> 'a served \<times> settings \<times> web" where
  "dispatch TRUSTED_PROXIES DEFAULTS route req s =
     (case first_run_redirect DEFAULTS (fst s) req (snd s) of
        HandOn \<Rightarrow> (case csrf_guard TRUSTED_PROXIES req (snd s) of
            HandOn \<Rightarrow> (case route req s of (a, s') \<Rightarrow> (Routed a, s'))
          | v \<Rightarrow> (Answered v, s))
      | v \<Rightarrow> (Answered v, s))"

section \<open>The security headers\<close>

definition csp :: "string \<Rightarrow> string" where
  "csp nonce = join '' ''
     [''default-src '' @ [CHR 0x27] @ ''self'' @ [CHR 0x27] @ '';'',
      ''script-src '' @ [CHR 0x27] @ ''self'' @ [CHR 0x27] @ '' '' @ [CHR 0x27] @ ''nonce-'' @ nonce @ [CHR 0x27] @ '';'',
      ''style-src '' @ [CHR 0x27] @ ''self'' @ [CHR 0x27] @ '' '' @ [CHR 0x27] @ ''unsafe-inline'' @ [CHR 0x27] @ '';'',
      ''img-src '' @ [CHR 0x27] @ ''self'' @ [CHR 0x27] @ '' data:;'',
      ''object-src '' @ [CHR 0x27] @ ''none'' @ [CHR 0x27] @ '';'',
      ''base-uri '' @ [CHR 0x27] @ ''self'' @ [CHR 0x27] @ '';'',
      ''frame-ancestors '' @ [CHR 0x27] @ ''none'' @ [CHR 0x27] @ '';'',
      ''form-action '' @ [CHR 0x27] @ ''self'' @ [CHR 0x27]]"

definition setdefault :: "(string \<times> string) list \<Rightarrow> string \<Rightarrow> string \<Rightarrow> (string \<times> string) list" where
  "setdefault hs h v = (if map_of hs h = None then hs @ [(h, v)] else hs)"

definition security_headers :: "string \<Rightarrow> string \<Rightarrow> (string \<times> string) list \<Rightarrow> (string \<times> string) list" where
  "security_headers nonce path hs =
     (if prefix ''/healthz'' path \<or> prefix ''/static'' path then hs
      else setdefault (setdefault (setdefault (setdefault hs ''content-security-policy'' (csp nonce))
             ''x-frame-options'' ''DENY'') ''x-content-type-options'' ''nosniff'') ''referrer-policy'' ''same-origin'')"

section \<open>Properties\<close>

text \<open>The host part of an address written the usual way.\<close>

definition host_chr :: "char \<Rightarrow> bool" where
  "host_chr c \<longleftrightarrow> is_alnum c \<or> c \<in> set ''.-_:''"

lemma host_chr_plain: "host_chr c \<Longrightarrow> c \<notin> set ''/?#[]@'' \<and> c \<notin> {CHR 0x09, CR, NL} \<and> \<not> code c \<le> 32"
  by (auto simp: host_chr_def is_alnum_def is_lower_def is_upper_def chr_in_def)

lemma takeWhile_host: "list_all host_chr h \<Longrightarrow> rest = [] \<or> hd rest = CHR ''/'' \<Longrightarrow>
    takeWhile (\<lambda>c. c \<notin> set ''/?#'') (h @ rest) = h"
proof (induction h)
  case Nil
  then show ?case by (cases rest) auto
next
  case (Cons c h)
  then show ?case using host_chr_plain [of c] by simp
qed

lemma urlparse_origin:
  assumes "sch \<in> {''http'', ''https''}" "list_all host_chr h" "rest = [] \<or> hd rest = CHR ''/''"
    "list_all (\<lambda>c. c \<notin> {CHR 0x09, CR, NL}) rest"
  shows "map_option netloc (urlparse (sch @ ''://'' @ h @ rest)) = Some h"
proof -
  have chars: "filter (\<lambda>c. c \<notin> {CHR 0x09, CR, NL}) (h @ rest) = h @ rest"
    using assms(2,4) host_chr_plain by (auto simp: list_all_iff filter_id_conv)
  have brackets: "CHR ''['' \<notin> set h" "CHR '']'' \<notin> set h" using assms(2) host_chr_plain by (auto simp: list_all_iff)
  have "split_scheme (sch @ ''://'' @ h @ rest) = (sch, ''//'' @ h @ rest)"
    using assms(1) by (auto simp: split_scheme_def partition_at_def scheme_chr_def is_alnum_def is_lower_def chr_in_def lower_def lower_chr_def is_upper_def)
  moreover have "filter (\<lambda>c. c \<notin> {CHR 0x09, CR, NL}) (dropWhile (\<lambda>c. code c \<le> 32) (sch @ ''://'' @ h @ rest)) = sch @ ''://'' @ h @ rest"
    using assms(1) chars by auto
  ultimately show ?thesis
    using takeWhile_host [OF assms(2,3)] brackets
    by (simp add: urlparse_def Let_def split: prod.split)
qed

text \<open>A forwarded host counts only when the socket peer is a trusted proxy.\<close>

lemma request_hosts_direct: "\<not> peer_is_trusted TRUSTED_PROXIES (the (req_client req)) \<Longrightarrow> request_hosts TRUSTED_PROXIES req = [req_netloc req]"
  by (auto simp: request_hosts_def Let_def split: option.split)

text \<open>C14. A browser's state-changing request reaches its route only from this origin and with a credential: with
  an Origin header naming another host or another port it is refused, from this origin it passes for the sign-in
  and sign-out pages, for a session and for a valid API token, and is sent to the sign-in page otherwise; and
  a request that is turned away changes nothing.\<close>

theorem only_own_origin_posts:
  assumes "req_method req \<in> set UNSAFE_METHODS" "header req ''origin'' = Some (sch @ ''://'' @ h)"
    "sch \<in> {''http'', ''https''}" "list_all host_chr h"
    "first_run_redirect DEFAULTS (fst s) req (snd s) = HandOn"
  shows "dispatch TRUSTED_PROXIES DEFAULTS route req s =
    (if h \<notin> set (request_hosts TRUSTED_PROXIES req) then (Answered Refused, s)
     else if prefix ''/login'' (req_path req) \<or> prefix ''/logout'' (req_path req) \<or> truthy_id (s_uid (session (snd s)))
       \<or> user_by_token (users (snd s)) (header req ''authorization'') \<noteq> None
     then (case route req s of (a, s') \<Rightarrow> (Routed a, s'))
     else (Answered (RedirectTo ''/login''), s))"
proof -
  have "request_source req = Some (sch @ ''://'' @ h)" using assms(2,3) by (auto simp: request_source_def)
  moreover obtain u where "urlparse (sch @ ''://'' @ h) = Some u" "netloc u = h"
    using urlparse_origin [OF assms(3,4), of "[]"] by auto
  ultimately show ?thesis
    using assms(1,5) by (simp add: dispatch_def csrf_guard_def Let_def ANONYMOUS_POSTS_def)
qed

definition a_post :: request where
  "a_post = \<lparr>req_method = ''POST'', req_path = ''/users'', req_netloc = ''beacon:8080'', req_client = Some ''10.0.0.7'',
     req_headers = [(''origin'', ''http://beacon:80''), (''x-forwarded-host'', ''beacon:80'')]\<rparr>"

theorem only_own_origin_posts_witness:
  "dispatch [] [] (\<lambda>req s. (1::nat, s)) a_post ([(''setup_complete'', ''1'')], \<lparr>users = [], lockouts = Map.empty, session = empty_session\<rparr>)
     = (Answered Refused, [(''setup_complete'', ''1'')], \<lparr>users = [], lockouts = Map.empty, session = empty_session\<rparr>)"
proof -
  let ?s = "([(''setup_complete'', ''1'')], \<lparr>users = [], lockouts = Map.empty, session = empty_session\<rparr>)"
  have pre: "req_method a_post \<in> set UNSAFE_METHODS" "header a_post ''origin'' = Some (''http'' @ ''://'' @ ''beacon:80'')"
    "list_all host_chr ''beacon:80''" "''beacon:80'' \<notin> set (request_hosts [] a_post)" by code_simp+
  have run: "first_run_redirect [] (fst ?s) a_post (snd ?s) = HandOn"
    by (simp add: first_run_redirect_def empty_session_def truthy_id_def)
  have "''http'' \<in> {''http'', ''https''}" by simp
  note only_own_origin_posts [OF pre(1,2) this pre(3) run]
  from this [of "[]", THEN trans, OF if_P, OF pre(4)] show ?thesis .
qed

end
