(* ===== verification/Forms.thy ===== *)
theory Forms
  imports Guards Ipxe Dnsmasq
begin

text \<open>
  The forms that write settings (\<open>routers/settings.py\<close>, \<open>routers/setup.py\<close>) and the seeding of the database
  at startup (\<open>services/bootstrap.py\<close>).  A form is its fields, one value for each.
\<close>

section \<open>Settings\<close>

definition BOOL_KEYS :: "string list" where
  "BOOL_KEYS = [''svc_dhcp'', ''svc_tftp'', ''svc_http'', ''netboot_show_eol'', ''netboot_show_prerelease'']"

definition TEXT_KEYS :: "string list" where
  "TEXT_KEYS = [''server_ip'', ''boot_interface'', ''dhcp_mode'', ''dhcp_range_start'', ''dhcp_range_end'',
     ''dhcp_subnet_mask'', ''dhcp_gateway'', ''dhcp_dns'', ''menu_title'', ''theme'', ''boot_timeout'']"

definition WIZARD_KEYS :: "string list" where
  "WIZARD_KEYS = [''server_ip'', ''boot_interface'', ''dhcp_mode'', ''dhcp_range_start'', ''dhcp_range_end'',
     ''dhcp_subnet_mask'', ''dhcp_gateway'', ''dhcp_dns'', ''menu_title'']"

definition form_value :: "string \<Rightarrow> string \<Rightarrow> string" where
  "form_value key v =
     (let raw = strip_control_chars (strip v)
      in if key = ''boot_timeout''
         then (case py_int raw of Some n \<Rightarrow> show_int (max 0 n) | None \<Rightarrow> ''30'')
         else raw)"

text \<open>The loops over the fields; the sets of keys are run through in some order.\<close>

fun store_texts :: "string list \<Rightarrow> (string \<times> string) list \<Rightarrow> settings \<Rightarrow> settings" where
  "store_texts [] form db = db"
| "store_texts (key # ks) form db =
     store_texts ks form (case map_of form key of None \<Rightarrow> db | Some v \<Rightarrow> set_setting db key (form_value key v))"

fun store_flags :: "string list \<Rightarrow> (string \<times> string) list \<Rightarrow> settings \<Rightarrow> settings" where
  "store_flags [] form db = db"
| "store_flags (key # ks) form db =
     store_flags ks form (set_setting db key (if map_of form key \<noteq> None then ''1'' else ''0''))"

text \<open>
  What is then rendered from the settings: \<open>dnsmasq.conf\<close> and the boot menu, whose rendering can raise.
\<close>

definition render_all :: "settings \<Rightarrow> image_table \<Rightarrow> settings \<Rightarrow> render_error + string \<times> string" where
  "render_all DEFAULTS images db =
     rbind (ipxe_render DEFAULTS db images) (\<lambda>menu. Inr (fst (dnsmasq_render DEFAULTS db None), menu))"

definition settings_save ::
  "settings \<Rightarrow> image_table \<Rightarrow> (string \<times> string) list \<Rightarrow> settings \<Rightarrow> settings \<times> (render_error + string \<times> string)" where
  "settings_save DEFAULTS images form db =
     (let db = store_flags BOOL_KEYS form (store_texts TEXT_KEYS form db)
      in (db, render_all DEFAULTS images db))"

definition setup_save ::
  "settings \<Rightarrow> image_table \<Rightarrow> (string \<times> string) list \<Rightarrow> settings \<Rightarrow> settings \<times> (render_error + string \<times> string)" where
  "setup_save DEFAULTS images form db =
     (let db = set_setting (store_texts WIZARD_KEYS form db) ''setup_complete'' ''1''
      in (db, render_all DEFAULTS images db))"

text \<open>The navbar's toggle: the new theme, and the page to go back to (None: \<open>urlparse\<close> raised).\<close>

definition toggle_theme :: "settings \<Rightarrow> string option \<Rightarrow> string \<Rightarrow> settings \<Rightarrow> settings \<times> string option" where
  "toggle_theme DEFAULTS referer own_netloc db =
     (let current = dict_get (all_settings DEFAULTS db) ''theme'' ''dark'';
          db' = set_setting db ''theme'' (if current = ''dark'' then ''light'' else ''dark'')
      in (db',
          case referer of
            None \<Rightarrow> Some ''/''
          | Some r \<Rightarrow>
              if r = [] then Some ''/''
              else (case urlparse r of
                      None \<Rightarrow> None
                    | Some u \<Rightarrow>
                        Some (if netloc u = [] \<or> netloc u = own_netloc
                              then (if url_path u = [] then ''/'' else url_path u) @ (if query u = [] then [] else ''?'' @ query u)
                              else ''/''))))"

section \<open>Startup\<close>

definition seed_settings :: "settings \<Rightarrow> settings \<Rightarrow> settings" where
  "seed_settings DEFAULTS db = db @ filter (\<lambda>kv. fst kv \<notin> fst ` set db) DEFAULTS"

text \<open>\<open>generated\<close> is the random password drawn when the environment gives none.\<close>

definition seed_admin :: "(nat list \<Rightarrow> string) \<Rightarrow> string \<Rightarrow> string \<Rightarrow> string \<Rightarrow> user_table \<Rightarrow> user_table" where
  "seed_admin hashpw ADMIN_USER ADMIN_PASSWORD generated db =
     (if db = []
      then [user_row (next_id user_id db) ADMIN_USER
              (hash_password hashpw (if ADMIN_PASSWORD = [] then generated else ADMIN_PASSWORD)) ''admin'']
      else db)"

definition bootstrap ::
  "(nat list \<Rightarrow> string) \<Rightarrow> string \<Rightarrow> string \<Rightarrow> string \<Rightarrow> settings \<Rightarrow> settings \<times> user_table \<Rightarrow> settings \<times> user_table" where
  "bootstrap hashpw ADMIN_USER ADMIN_PASSWORD generated DEFAULTS s =
     (seed_settings DEFAULTS (fst s), seed_admin hashpw ADMIN_USER ADMIN_PASSWORD generated (snd s))"

section \<open>Lemmas\<close>

lemma map_of_store_texts:
  "distinct ks \<Longrightarrow> map_of (store_texts ks form db) k =
     (if k \<in> set ks \<and> map_of form k \<noteq> None then Some (form_value k (the (map_of form k))) else map_of db k)"
  by (induction ks form db rule: store_texts.induct) (auto simp: map_of_set_setting split: option.splits)

lemma map_of_store_flags:
  "distinct ks \<Longrightarrow> map_of (store_flags ks form db) k =
     (if k \<in> set ks then Some (if map_of form k \<noteq> None then ''1'' else ''0'') else map_of db k)"
  by (induction ks form db rule: store_flags.induct) (auto simp: map_of_set_setting)

lemma form_keys_distinct: "distinct TEXT_KEYS" "distinct BOOL_KEYS" "distinct WIZARD_KEYS"
  "k \<in> set TEXT_KEYS \<Longrightarrow> k \<notin> set BOOL_KEYS" "''setup_complete'' \<notin> set WIZARD_KEYS"
  by (auto simp: TEXT_KEYS_def BOOL_KEYS_def WIZARD_KEYS_def)

lemma form_value_clean: "c \<in> set (form_value key v) \<Longrightarrow> \<not> is_control c"
  by (auto simp: form_value_def Let_def strip_control_chars_iff show_int_def is_control_def
      dest: show_nat_plain split: if_splits option.splits)

section \<open>Properties\<close>

text \<open>Saving the settings form writes exactly its own keys: a text field that was sent is stored stripped and
  without control characters, the boot timeout as a plain number, a check box as 1 or 0 by its presence, and
  every other row - accounts of the update, the wizard's flag - is as before; this holds also when the
  rendering that follows fails.\<close>

theorem saved_settings_exact:
  "map_of (fst (settings_save DEFAULTS images form db)) k =
     (if k \<in> set BOOL_KEYS then Some (if map_of form k \<noteq> None then ''1'' else ''0'')
      else if k \<in> set TEXT_KEYS \<and> map_of form k \<noteq> None then Some (form_value k (the (map_of form k)))
      else map_of db k)
   \<and> list_all (\<lambda>c. \<not> is_control c) (form_value k v)
   \<and> (\<exists>n. form_value ''boot_timeout'' v = show_nat n)"
proof -
  have "list_all (\<lambda>c. \<not> is_control c) (form_value k v)"
    using form_value_clean by (auto simp: list_all_iff)
  moreover have "show_int (max 0 i) = show_nat (nat i)" for i
    by (cases "0 \<le> i") (auto simp: show_int_def max_def)
  moreover have "''30'' = show_nat 30" by code_simp
  ultimately show ?thesis
    by (auto simp: settings_save_def Let_def map_of_store_flags map_of_store_texts form_keys_distinct form_value_def
        split: option.splits)
qed

text \<open>The wizard comes once: as long as setup is not recorded as complete, a signed-in user is sent to it from
  every page but the exempt ones; once its form is saved - whatever the fields - no request is sent there again.\<close>

theorem wizard_comes_once:
  "first_run_redirect DEFAULTS db req w =
     (if list_ex (\<lambda>p. prefix p (req_path req)) EXEMPT_PREFIXES \<or> s_uid (session w) \<in> {None, Some 0}
         \<or> get_setting DEFAULTS db ''setup_complete'' (Some ''0'') = ''1''
      then HandOn else RedirectTo ''/setup'')
   \<and> first_run_redirect DEFAULTS (fst (setup_save DEFAULTS images form db)) req w = HandOn
   \<and> first_run_redirect DEFAULTS (fst (settings_save DEFAULTS images form' (fst (setup_save DEFAULTS images form db)))) req w = HandOn"
proof -
  have set1: "map_of (fst (setup_save DEFAULTS images form db)) ''setup_complete'' = Some ''1''"
    by (simp add: setup_save_def Let_def map_of_set_setting)
  moreover have "''setup_complete'' \<notin> set TEXT_KEYS" "''setup_complete'' \<notin> set BOOL_KEYS"
    by (auto simp: TEXT_KEYS_def BOOL_KEYS_def)
  ultimately have "map_of (fst (settings_save DEFAULTS images form' (fst (setup_save DEFAULTS images form db)))) ''setup_complete'' = Some ''1''"
    by (simp add: settings_save_def Let_def map_of_store_flags map_of_store_texts form_keys_distinct)
  with set1 show ?thesis by (auto simp: first_run_redirect_def get_setting_def truthy_id_def)
qed

lemma map_of_filter_keys: "map_of (filter (\<lambda>kv. fst kv \<notin> A) xs) k = (if k \<in> A then None else map_of xs k)"
  by (induction xs) auto

text \<open>Starting again changes nothing: the seeding keeps every setting and account it finds, adds each missing
  default, makes the first administrator only for an empty account table, and a second start is the identity.\<close>

theorem bootstrap_keeps_what_it_finds:
  "map_of (fst (bootstrap hashpw n p g DEFAULTS s)) k =
     (case map_of (fst s) k of Some v \<Rightarrow> Some v | None \<Rightarrow> map_of DEFAULTS k)
   \<and> snd (bootstrap hashpw n p g DEFAULTS s) =
       (if snd s = [] then [user_row 1 n (hash_password hashpw (if p = [] then g else p)) ''admin''] else snd s)
   \<and> bootstrap hashpw n' p' g' DEFAULTS (bootstrap hashpw n p g DEFAULTS s) = bootstrap hashpw n p g DEFAULTS s"
proof -
  have "map_of (seed_settings DEFAULTS db) k = (case map_of db k of Some v \<Rightarrow> Some v | None \<Rightarrow> map_of DEFAULTS k)" for db k
  proof (cases "map_of db k")
    case None
    then have "k \<notin> fst ` set db" by (simp add: map_of_eq_None_iff)
    with None show ?thesis by (simp add: seed_settings_def map_add_def map_of_filter_keys)
  next
    case (Some v)
    then show ?thesis by (simp add: seed_settings_def map_add_def)
  qed
  moreover have "seed_settings DEFAULTS (seed_settings DEFAULTS db) = seed_settings DEFAULTS db" for db
    by (auto simp: seed_settings_def filter_empty_conv)
  ultimately show ?thesis by (simp add: bootstrap_def seed_admin_def next_id_def)
qed

text \<open>A page of the console whose path starts with two slashes sends the toggle off the site.\<close>

lemma toggle_theme_leaves_the_site:
  "snd (toggle_theme [] (Some ''http://beacon:8080//evil.example/x'') ''beacon:8080'' []) = Some ''//evil.example/x''"
  by code_simp


end
