(* ===== verification/Rebuild.thy ===== *)
theory Rebuild
  imports Forms ImageBuild
begin

text \<open>
  The server address is written into boot files of two families, so saving it rewrites them
  (\<open>rebuild_xcpng_grub_all\<close> and \<open>rebuild_windows_setup_all\<close> of \<open>services/images.py\<close>, called by the handlers of
  \<open>routers/settings.py\<close>, \<open>routers/setup.py\<close> and \<open>routers/drivers.py\<close>).  The files are a map from paths to contents;
  \<open>grub-mkstandalone\<close> and \<open>wimupdate\<close> are arguments.  Both loops are instances of one interface, \<open>rebaking\<close>.
\<close>

section \<open>Files and tools\<close>

type_synonym file_map = "string \<rightharpoonup> string"

text \<open>How a command ends: with \<open>check=True\<close> a bad exit is the exception the callers expect, any other is not.\<close>

datatype tool_end = Exit0 | CalledProcessError | Unexpected

text \<open>
  \<open>grub-mkstandalone\<close> gets the text of \<open>grub.cfg\<close> and what is at its output path; \<open>wimupdate\<close> the temporary files by name, the
  commands on its input and the image it changes in place.  Each gives what it leaves there, also when it fails.
\<close>

record bake_tools =
  t_grub :: "string \<Rightarrow> string option \<Rightarrow> string option \<times> tool_end"
  t_wimupdate :: "(string \<times> string) list \<Rightarrow> string \<Rightarrow> string \<Rightarrow> string \<times> tool_end"
  t_tmp :: string
  t_nic_dir :: string
  t_nic_infs :: bool

definition build_xcpng_grub ::
  "bake_tools \<Rightarrow> nat \<Rightarrow> string \<Rightarrow> string \<Rightarrow> string \<Rightarrow> file_map \<Rightarrow> file_map \<times> tool_end" where
  "build_xcpng_grub T i dest dom0_args server_ip fs =
     (let cfg = grub_cfg i dom0_args server_ip;
          cfg_path = path_join dest ''grub.cfg''; out_path = path_join dest ''bootx64.efi'';
          fs = fs(cfg_path \<mapsto> cfg)
      in case t_grub T cfg (fs out_path) of (loader, e) \<Rightarrow> (fs(out_path := loader), e))"

definition patched_wim :: "bake_tools \<Rightarrow> string \<Rightarrow> nat \<Rightarrow> string \<Rightarrow> string \<times> tool_end" where
  "patched_wim T server_ip i w =
     t_wimupdate T
       [(path_join (t_tmp T) ''beacon-setup.cmd'', beacon_setup_cmd server_ip i),
        (path_join (t_tmp T) ''winpeshl.ini'', WINPESHL_INI),
        (path_join (t_tmp T) ''beacon-unattend.xml'', unattend_xml)]
       (wim_commands (t_tmp T) (t_nic_dir T) (t_nic_infs T)) w"

section \<open>The loops\<close>

text \<open>
  One image of a loop; None when the extracted files are gone and the loop goes on to the next.
\<close>

definition xcpng_step :: "bake_tools \<Rightarrow> dirs \<Rightarrow> string \<Rightarrow> image \<Rightarrow> file_map \<Rightarrow> (file_map \<times> tool_end) option" where
  "xcpng_step T D server_ip img fs =
     (let dest = dest_dir D (img_id img)
      in if fs (path_join dest ''xen'') = None then None
         else Some (build_xcpng_grub T (img_id img) dest
                (if boot_args img = [] then XCPNG_DOM0_ARGS else boot_args img) server_ip fs))"

definition windows_step :: "bake_tools \<Rightarrow> dirs \<Rightarrow> string \<Rightarrow> image \<Rightarrow> file_map \<Rightarrow> (file_map \<times> tool_end) option" where
  "windows_step T D server_ip img fs =
     (let wim = path_join (dest_dir D (img_id img)) ''boot.wim''
      in case fs wim of
           None \<Rightarrow> None
         | Some w \<Rightarrow> (case patched_wim T server_ip (img_id img) w of (w', e) \<Rightarrow> Some (fs(wim \<mapsto> w'), e)))"

text \<open>The number of images done, or None for an exception that leaves the loop; one that \<open>check=True\<close> raised is logged.\<close>

fun rebuild_each ::
  "(image \<Rightarrow> file_map \<Rightarrow> (file_map \<times> tool_end) option) \<Rightarrow> image list \<Rightarrow> file_map \<Rightarrow> file_map \<times> nat option" where
  "rebuild_each step [] fs = (fs, Some 0)"
| "rebuild_each step (img # imgs) fs =
     (case step img fs of
        None \<Rightarrow> rebuild_each step imgs fs
      | Some (fs', Exit0) \<Rightarrow> (case rebuild_each step imgs fs' of (gs, n) \<Rightarrow> (gs, map_option Suc n))
      | Some (fs', CalledProcessError) \<Rightarrow> rebuild_each step imgs fs'
      | Some (fs', Unexpected) \<Rightarrow> (fs', None))"

definition ready_of :: "string \<Rightarrow> image_table \<Rightarrow> image list" where
  "ready_of family images = filter (\<lambda>img. os_family img = family \<and> status img = ''ready'') images"

definition rebuild_xcpng_grub_all ::
  "bake_tools \<Rightarrow> dirs \<Rightarrow> settings \<Rightarrow> settings \<Rightarrow> image_table \<Rightarrow> file_map \<Rightarrow> file_map \<times> nat option" where
  "rebuild_xcpng_grub_all T D DEFAULTS db images fs =
     (let server_ip = dict_get (all_settings DEFAULTS db) ''server_ip'' []
      in rebuild_each (xcpng_step T D server_ip) (ready_of ''xcpng'' images) fs)"

definition rebuild_windows_setup_all ::
  "bake_tools \<Rightarrow> dirs \<Rightarrow> settings \<Rightarrow> settings \<Rightarrow> image_table \<Rightarrow> file_map \<Rightarrow> file_map \<times> nat option" where
  "rebuild_windows_setup_all T D DEFAULTS db images fs =
     (let server_ip = dict_get (all_settings DEFAULTS db) ''server_ip'' []
      in rebuild_each (windows_step T D server_ip) (ready_of ''windows'' images) fs)"

section \<open>The handlers\<close>

text \<open>After the configurations; None for an exception of the rebuilding.\<close>

definition rebuild_all ::
  "bake_tools \<Rightarrow> dirs \<Rightarrow> settings \<Rightarrow> settings \<Rightarrow> image_table \<Rightarrow> file_map \<Rightarrow> file_map \<times> nat option" where
  "rebuild_all T D DEFAULTS db images fs =
     (case rebuild_xcpng_grub_all T D DEFAULTS db images fs of
        (fs', None) \<Rightarrow> (fs', None)
      | (fs', Some n) \<Rightarrow> rebuild_windows_setup_all T D DEFAULTS db images fs')"

definition settings_save_whole ::
  "bake_tools \<Rightarrow> dirs \<Rightarrow> settings \<Rightarrow> image_table \<Rightarrow> (string \<times> string) list \<Rightarrow> settings \<times> file_map
   \<Rightarrow> (settings \<times> file_map) \<times> (render_error + string \<times> string) \<times> nat option" where
  "settings_save_whole T D DEFAULTS images form s =
     (case settings_save DEFAULTS images form (fst s) of
        (db, Inl e) \<Rightarrow> ((db, snd s), Inl e, None)
      | (db, Inr texts) \<Rightarrow>
          (case rebuild_all T D DEFAULTS db images (snd s) of (fs, r) \<Rightarrow> ((db, fs), Inr texts, r)))"

definition setup_save_whole ::
  "bake_tools \<Rightarrow> dirs \<Rightarrow> settings \<Rightarrow> image_table \<Rightarrow> (string \<times> string) list \<Rightarrow> settings \<times> file_map
   \<Rightarrow> (settings \<times> file_map) \<times> (render_error + string \<times> string) \<times> nat option" where
  "setup_save_whole T D DEFAULTS images form s =
     (case setup_save DEFAULTS images form (fst s) of
        (db, Inl e) \<Rightarrow> ((db, snd s), Inl e, None)
      | (db, Inr texts) \<Rightarrow>
          (case rebuild_all T D DEFAULTS db images (snd s) of (fs, r) \<Rightarrow> ((db, fs), Inr texts, r)))"

text \<open>\<open>_rebake\<close> of the driver page: the notice it leaves in the session, None for an exception.\<close>

definition rebake ::
  "bake_tools \<Rightarrow> dirs \<Rightarrow> settings \<Rightarrow> settings \<Rightarrow> image_table \<Rightarrow> file_map \<Rightarrow> file_map \<times> string option" where
  "rebake T D DEFAULTS db images fs =
     (case rebuild_windows_setup_all T D DEFAULTS db images fs of
        (fs', n) \<Rightarrow> (fs', map_option (\<lambda>n.
           if n = 0 then ''No ready Windows image to re-bake '' @ [CHR 0xE2, CHR 0x80, CHR 0x94] @ '' the drivers will be baked in ''
             @ ''when a Windows image is processed.''
           else ''Boot images updated: '' @ show_nat n @ '' Windows image'' @ (if n = 1 then [] else ''s'') @ '' ''
             @ ''re-baked with the current NIC drivers.'') n))"

section \<open>What a loop does to each image\<close>

text \<open>
  A step reads and writes only what its image owns, and two images own nothing in common.
\<close>

locale rebaking =
  fixes step :: "image \<Rightarrow> file_map \<Rightarrow> (file_map \<times> tool_end) option"
    and owns :: "image \<Rightarrow> string set"
  assumes frame: "step img fs = Some (fs', e) \<Longrightarrow> p \<notin> owns img \<Longrightarrow> fs' p = fs p"
    and local: "fs |` owns img = gs |` owns img \<Longrightarrow>
      map_option (\<lambda>(f, e). (f |` owns img, e)) (step img fs) = map_option (\<lambda>(f, e). (f |` owns img, e)) (step img gs)"
    and apart: "img_id a \<noteq> img_id b \<Longrightarrow> owns a \<inter> owns b = {}"
begin

definition after :: "image \<Rightarrow> file_map \<Rightarrow> file_map" where
  "after img fs = (case step img fs of None \<Rightarrow> fs | Some (fs', _) \<Rightarrow> fs')"

definition succeeds :: "image \<Rightarrow> file_map \<Rightarrow> bool" where
  "succeeds img fs \<longleftrightarrow> (\<exists>fs'. step img fs = Some (fs', Exit0))"

lemma after_frame: "p \<notin> owns img \<Longrightarrow> after img fs p = fs p"
  by (auto simp: after_def split: option.split dest: frame)

lemma after_local:
  assumes "fs |` owns img = gs |` owns img"
  shows "after img fs |` owns img = after img gs |` owns img" and "succeeds img fs = succeeds img gs"
  using local [OF assms] assms
  by (cases "step img fs"; cases "step img gs"; auto simp: after_def succeeds_def)+

lemma after_apart:
  assumes "img_id a \<noteq> img_id b"
  shows "after a fs |` owns b = fs |` owns b"
proof
  fix p show "(after a fs |` owns b) p = (fs |` owns b) p"
    using apart [OF assms] after_frame [of p a fs] by (auto simp: restrict_map_def)
qed

lemma rebuild_each_step:
  "rebuild_each step (img # imgs) fs = (gs, Some n) \<Longrightarrow>
     \<exists>m. rebuild_each step imgs (after img fs) = (gs, Some m) \<and> n = (if succeeds img fs then Suc m else m)"
  by (auto simp: after_def succeeds_def split: option.splits prod.splits tool_end.splits)

lemma rebuild_each_frame: "p \<notin> (\<Union>img \<in> set imgs. owns img) \<Longrightarrow> fst (rebuild_each step imgs fs) p = fs p"
proof (induction imgs arbitrary: fs)
  case (Cons img imgs)
  then show ?case using after_frame [of p img fs]
    by (auto simp: after_def split: option.splits prod.splits tool_end.splits) (metis fst_conv)+
qed simp

lemma rebuild_each_exact:
  "distinct (map img_id imgs) \<Longrightarrow> rebuild_each step imgs fs = (gs, Some n) \<Longrightarrow>
     (\<forall>img \<in> set imgs. gs |` owns img = after img fs |` owns img) \<and> n = length (filter (\<lambda>img. succeeds img fs) imgs)"
proof (induction imgs arbitrary: fs n)
  case (Cons a imgs)
  from rebuild_each_step [OF Cons.prems(2)] obtain m where
    rest: "rebuild_each step imgs (after a fs) = (gs, Some m)" and n: "n = (if succeeds a fs then Suc m else m)" by blast
  have ids: "img_id a \<noteq> img_id img" if "img \<in> set imgs" for img using Cons.prems(1) that by auto
  have kept: "after a fs |` owns img = fs |` owns img" if "img \<in> set imgs" for img
    by (rule after_apart [OF ids [OF that]])
  from Cons.IH [OF _ rest] Cons.prems(1) have
    IH: "\<And>img. img \<in> set imgs \<Longrightarrow> gs |` owns img = after img (after a fs) |` owns img"
    and m: "m = length (filter (\<lambda>img. succeeds img (after a fs)) imgs)" by auto
  have "gs p = after a fs p" if "p \<in> owns a" for p
    using rebuild_each_frame [of p imgs "after a fs"] rest that apart ids by fastforce
  then have "gs |` owns a = after a fs |` owns a" by (auto simp: restrict_map_def fun_eq_iff)
  moreover have "gs |` owns img = after img fs |` owns img" if "img \<in> set imgs" for img
    using IH [OF that] after_local(1) [OF kept [OF that]] by simp
  moreover have "filter (\<lambda>img. succeeds img (after a fs)) imgs = filter (\<lambda>img. succeeds img fs) imgs"
    by (rule filter_cong [OF refl]) (rule after_local(2) [OF kept])
  ultimately show ?case using n m by simp
qed simp

end

section \<open>The two loops\<close>

definition own_path :: "dirs \<Rightarrow> image \<Rightarrow> string \<Rightarrow> string" where
  "own_path D img name = path_join (dest_dir D (img_id img)) name"

lemma no_slash_number: "CHR ''/'' \<notin> set (show_nat i)"
  using show_nat_digits [of "CHR ''/''" i] by (auto simp: chr_in_def)

lemma own_path_eq:
  assumes "CHR ''/'' \<notin> set a" "CHR ''/'' \<notin> set b"
  shows "own_path D x a = own_path D y b \<longleftrightarrow> img_id x = img_id y \<and> a = b"
proof -
  have "show_nat i @ CHR ''/'' # a = show_nat j @ CHR ''/'' # b \<longleftrightarrow> i = j \<and> a = b" for i j
    by (subst append_Cons_eq_iff) (simp_all add: no_slash_number assms)
  moreover have "\<not> prefix ''/'' s" if "CHR ''/'' \<notin> set s" for s
    using that by (auto simp: prefix_def)
  ultimately show ?thesis using assms no_slash_number by (simp add: own_path_def dest_dir_def path_join_def)
qed

lemma restrict_upd_cong:
  assumes "f |` A = g |` A"
  shows "f(p := v) |` A = g(p := v) |` A"
proof
  fix q show "(f(p := v) |` A) q = (g(p := v) |` A) q"
    using fun_cong [OF assms, of q] by (auto simp: restrict_map_def)
qed

definition xcpng_owns :: "dirs \<Rightarrow> image \<Rightarrow> string set" where
  "xcpng_owns D img = own_path D img ` {''xen'', ''grub.cfg'', ''bootx64.efi''}"

definition windows_owns :: "dirs \<Rightarrow> image \<Rightarrow> string set" where
  "windows_owns D img = own_path D img ` {''boot.wim''}"

lemma restrict_agree: "f |` A = g |` A \<Longrightarrow> p \<in> A \<Longrightarrow> f p = g p"
  by (metis restrict_in)

interpretation xc: rebaking "xcpng_step T D server_ip" "xcpng_owns D"
proof
  fix img fs fs' e p
  assume "xcpng_step T D server_ip img fs = Some (fs', e)" and "p \<notin> xcpng_owns D img"
  then show "fs' p = fs p"
    by (auto simp: xcpng_step_def build_xcpng_grub_def xcpng_owns_def own_path_def Let_def split: if_splits prod.splits)
next
  fix img and fs gs :: file_map
  assume eq: "fs |` xcpng_owns D img = gs |` xcpng_owns D img"
  then have "fs (own_path D img ''xen'') = gs (own_path D img ''xen'')"
    "fs (own_path D img ''bootx64.efi'') = gs (own_path D img ''bootx64.efi'')"
    by (auto intro: restrict_agree simp: xcpng_owns_def)
  then show "map_option (\<lambda>(f, e). (f |` xcpng_owns D img, e)) (xcpng_step T D server_ip img fs) =
      map_option (\<lambda>(f, e). (f |` xcpng_owns D img, e)) (xcpng_step T D server_ip img gs)"
    using eq own_path_eq [of "''grub.cfg''" "''bootx64.efi''" D img img]
    by (auto simp: xcpng_step_def build_xcpng_grub_def own_path_def Let_def simp del: restrict_fun_upd
        split: prod.split intro!: restrict_upd_cong)
next
  fix a b :: image
  assume "img_id a \<noteq> img_id b"
  then show "xcpng_owns D a \<inter> xcpng_owns D b = {}" by (auto simp: xcpng_owns_def own_path_eq)
qed

interpretation wn: rebaking "windows_step T D server_ip" "windows_owns D"
proof
  fix img fs fs' e p
  assume "windows_step T D server_ip img fs = Some (fs', e)" and "p \<notin> windows_owns D img"
  then show "fs' p = fs p"
    by (auto simp: windows_step_def windows_owns_def own_path_def Let_def split: option.splits prod.splits)
next
  fix img and fs gs :: file_map
  assume eq: "fs |` windows_owns D img = gs |` windows_owns D img"
  then have "fs (own_path D img ''boot.wim'') = gs (own_path D img ''boot.wim'')"
    by (rule restrict_agree) (simp add: windows_owns_def)
  then show "map_option (\<lambda>(f, e). (f |` windows_owns D img, e)) (windows_step T D server_ip img fs) =
      map_option (\<lambda>(f, e). (f |` windows_owns D img, e)) (windows_step T D server_ip img gs)"
    using eq by (auto simp: windows_step_def own_path_def Let_def simp del: restrict_fun_upd
        split: option.split prod.split intro!: restrict_upd_cong)
next
  fix a b :: image
  assume "img_id a \<noteq> img_id b"
  then show "windows_owns D a \<inter> windows_owns D b = {}" by (auto simp: windows_owns_def own_path_eq)
qed

section \<open>The address that was sent\<close>

lemma distinct_store: "distinct (map fst db) \<Longrightarrow> distinct (map fst (store_texts ks form db))"
  "distinct (map fst db) \<Longrightarrow> distinct (map fst (store_flags ks form db))"
  by (induction ks form db rule: store_texts.induct; simp add: distinct_set_setting split: option.split)
    (induction ks form db rule: store_flags.induct; simp add: distinct_set_setting)

lemma sent_field_stored:
  assumes "distinct (map fst db)" and "map_of form ''server_ip'' = Some v"
  shows "dict_get (all_settings DEFAULTS (fst (settings_save DEFAULTS images form db))) ''server_ip'' d = strip_control_chars (strip v)"
proof -
  have "''server_ip'' \<in> set TEXT_KEYS" "''server_ip'' \<notin> set BOOL_KEYS" by (auto simp: TEXT_KEYS_def BOOL_KEYS_def)
  then have "map_of (fst (settings_save DEFAULTS images form db)) ''server_ip'' = Some (strip_control_chars (strip v))"
    using assms(2)
    by (simp add: settings_save_def Let_def map_of_store_flags map_of_store_texts form_keys_distinct form_value_def)
  moreover have "distinct (map fst (fst (settings_save DEFAULTS images form db)))"
    using assms(1) by (simp add: settings_save_def Let_def distinct_store)
  ultimately show ?thesis by (simp add: dict_get_def map_of_all_settings map_add_def)
qed

section \<open>Properties\<close>

lemma apart_families: "xcpng_owns D a \<inter> windows_owns D b = {}"
  by (auto simp: xcpng_owns_def windows_owns_def own_path_eq)

definition xcpng_cfg :: "string \<Rightarrow> image \<Rightarrow> string" where
  "xcpng_cfg ip img = grub_cfg (img_id img) (if boot_args img = [] then XCPNG_DOM0_ARGS else boot_args img) ip"

lemma own_paths_differ:
  "own_path D img ''bootx64.efi'' \<noteq> own_path D img ''grub.cfg''" "own_path D img ''xen'' \<noteq> own_path D img ''grub.cfg''"
  "own_path D img ''xen'' \<noteq> own_path D img ''bootx64.efi''"
  by (simp_all add: own_path_eq)

lemma xc_after:
  assumes "fs (own_path D img ''xen'') \<noteq> None"
  shows "xc.after T D ip img fs (own_path D img ''grub.cfg'') = Some (xcpng_cfg ip img)"
    and "xc.after T D ip img fs (own_path D img ''bootx64.efi'') =
           fst (t_grub T (xcpng_cfg ip img) (fs (own_path D img ''bootx64.efi'')))"
    and "xc.after T D ip img fs (own_path D img ''xen'') = fs (own_path D img ''xen'')"
proof -
  have "xc.after T D ip img fs =
      fs(own_path D img ''grub.cfg'' \<mapsto> xcpng_cfg ip img,
         own_path D img ''bootx64.efi'' := fst (t_grub T (xcpng_cfg ip img) (fs (own_path D img ''bootx64.efi''))))"
    using assms own_paths_differ [of D img]
    unfolding xc.after_def xcpng_step_def build_xcpng_grub_def own_path_def [symmetric] xcpng_cfg_def [symmetric] Let_def
    by (simp only: if_False option.case prod.case prod.case_distrib fst_conv fun_upd_other not_False_eq_True split: prod.split) simp
  then show "xc.after T D ip img fs (own_path D img ''grub.cfg'') = Some (xcpng_cfg ip img)"
    and "xc.after T D ip img fs (own_path D img ''bootx64.efi'') =
           fst (t_grub T (xcpng_cfg ip img) (fs (own_path D img ''bootx64.efi'')))"
    and "xc.after T D ip img fs (own_path D img ''xen'') = fs (own_path D img ''xen'')"
    using own_paths_differ [of D img] by simp_all
qed

lemma wn_after:
  "wn.after T D ip img fs (own_path D img ''boot.wim'') =
     map_option (\<lambda>w. fst (patched_wim T ip (img_id img) w)) (fs (own_path D img ''boot.wim''))"
  by (simp add: wn.after_def windows_step_def own_path_def Let_def split: option.split prod.split)

lemma ready_of_distinct: "wf_images images \<Longrightarrow> distinct (map img_id (ready_of family images))"
  unfolding wf_images_def ready_of_def by (rule distinct_map_filter)

lemma rebuild_all_exact:
  assumes ids: "wf_images images" and run: "rebuild_all T D DEFAULTS db images fs = (fs', Some n)"
  defines "ip \<equiv> dict_get (all_settings DEFAULTS db) ''server_ip'' []"
  shows "img \<in> set (ready_of ''xcpng'' images) \<Longrightarrow> fs' |` xcpng_owns D img = xc.after T D ip img fs |` xcpng_owns D img"
    and "img \<in> set (ready_of ''windows'' images) \<Longrightarrow> fs' |` windows_owns D img = wn.after T D ip img fs |` windows_owns D img"
    and "p \<notin> (\<Union>img \<in> set (ready_of ''xcpng'' images). xcpng_owns D img) \<Longrightarrow>
         p \<notin> (\<Union>img \<in> set (ready_of ''windows'' images). windows_owns D img) \<Longrightarrow> fs' p = fs p"
proof -
  let ?xs = "ready_of ''xcpng'' images" and ?ws = "ready_of ''windows'' images"
  obtain gs m where xr: "rebuild_each (xcpng_step T D ip) ?xs fs = (gs, Some m)"
    and wr: "rebuild_each (windows_step T D ip) ?ws gs = (fs', Some n)"
    using run by (auto simp: rebuild_all_def rebuild_xcpng_grub_all_def rebuild_windows_setup_all_def ip_def Let_def
        split: prod.splits option.splits)
  note X = xc.rebuild_each_exact [OF ready_of_distinct [OF ids] xr]
  note W = wn.rebuild_each_exact [OF ready_of_distinct [OF ids] wr]
  have gs: "gs p = fs p" if "p \<notin> (\<Union>img \<in> set ?xs. xcpng_owns D img)" for p
    using xc.rebuild_each_frame [OF that, of T ip fs] xr by simp
  have ws: "fs' p = gs p" if "p \<notin> (\<Union>img \<in> set ?ws. windows_owns D img)" for p
    using wn.rebuild_each_frame [OF that, of T ip gs] wr by simp
  show "fs' |` xcpng_owns D img = xc.after T D ip img fs |` xcpng_owns D img" if img: "img \<in> set ?xs"
  proof -
    have "fs' p = gs p" if "p \<in> xcpng_owns D img" for p
      using ws [of p] apart_families [of D img] that by blast
    then have "fs' |` xcpng_owns D img = gs |` xcpng_owns D img" by (auto simp: restrict_map_def)
    with X img show ?thesis by simp
  qed
  show "fs' |` windows_owns D img = wn.after T D ip img fs |` windows_owns D img" if img: "img \<in> set ?ws"
  proof -
    have "gs p = fs p" if "p \<in> windows_owns D img" for p
      using gs [of p] apart_families [of D _ img] that by blast
    then have "gs |` windows_owns D img = fs |` windows_owns D img" by (auto simp: restrict_map_def)
    from wn.after_local(1) [OF this] W img show ?thesis by simp
  qed
  show "fs' p = fs p" if "p \<notin> (\<Union>img \<in> set ?xs. xcpng_owns D img)" "p \<notin> (\<Union>img \<in> set ?ws. windows_owns D img)"
    using gs [OF that(1)] ws [OF that(2)] by simp
qed

text \<open>C20. A saved server address reaches every boot file it is written into: when the settings form is saved and
  everything is rendered and rebuilt, the configurations come from the settings now stored, every ready XCP-ng image
  whose files are there has the GRUB configuration and loader of that address, every ready Windows image's boot.wim is
  patched with its setup script, and no other file has changed; a field that was sent is the address used.\<close>

theorem saved_address_reaches_boot_files:
  assumes ids: "wf_images images" and keys: "distinct (map fst db)"
    and saved: "settings_save_whole T D DEFAULTS images form (db, fs) = ((db', fs'), Inr texts, Some n)"
  shows "\<exists>ip. (\<forall>v. map_of form ''server_ip'' = Some v \<longrightarrow> ip = strip_control_chars (strip v))
    \<and> ip = dict_get (all_settings DEFAULTS db') ''server_ip'' []
    \<and> render_all DEFAULTS images db' = Inr texts
    \<and> (\<forall>img \<in> set images. status img = ''ready'' \<and> os_family img = ''xcpng'' \<and> fs (own_path D img ''xen'') \<noteq> None \<longrightarrow>
         fs' (own_path D img ''grub.cfg'') = Some (xcpng_cfg ip img)
         \<and> fs' (own_path D img ''bootx64.efi'') = fst (t_grub T (xcpng_cfg ip img) (fs (own_path D img ''bootx64.efi'')))
         \<and> fs' (own_path D img ''xen'') = fs (own_path D img ''xen''))
    \<and> (\<forall>img \<in> set images. status img = ''ready'' \<and> os_family img = ''windows'' \<longrightarrow>
         fs' (own_path D img ''boot.wim'') =
           map_option (\<lambda>w. fst (patched_wim T ip (img_id img) w)) (fs (own_path D img ''boot.wim'')))
    \<and> (\<forall>p. (\<forall>img \<in> set images. status img = ''ready'' \<longrightarrow>
              (os_family img = ''xcpng'' \<longrightarrow> p \<notin> xcpng_owns D img) \<and> (os_family img = ''windows'' \<longrightarrow> p \<notin> windows_owns D img))
         \<longrightarrow> fs' p = fs p)"
proof -
  have db': "db' = fst (settings_save DEFAULTS images form db)" and rendered: "render_all DEFAULTS images db' = Inr texts"
    and run: "rebuild_all T D DEFAULTS db' images fs = (fs', Some n)"
    using saved by (auto simp: settings_save_whole_def settings_save_def Let_def split: sum.splits prod.splits)
  define ip where "ip = dict_get (all_settings DEFAULTS db') ''server_ip'' []"
  note exact = rebuild_all_exact [OF ids run, folded ip_def]
  have "\<forall>v. map_of form ''server_ip'' = Some v \<longrightarrow> ip = strip_control_chars (strip v)"
    using sent_field_stored [OF keys] by (auto simp: ip_def db')
  moreover have "fs' (own_path D img ''grub.cfg'') = Some (xcpng_cfg ip img)
         \<and> fs' (own_path D img ''bootx64.efi'') = fst (t_grub T (xcpng_cfg ip img) (fs (own_path D img ''bootx64.efi'')))
         \<and> fs' (own_path D img ''xen'') = fs (own_path D img ''xen'')"
    if "img \<in> set images" "status img = ''ready'' \<and> os_family img = ''xcpng'' \<and> fs (own_path D img ''xen'') \<noteq> None" for img
  proof -
    from that have "img \<in> set (ready_of ''xcpng'' images)" by (simp add: ready_of_def)
    note at = restrict_agree [OF exact(1) [OF this]]
    have "own_path D img n \<in> xcpng_owns D img" if "n \<in> {''xen'', ''grub.cfg'', ''bootx64.efi''}" for n
      using that unfolding xcpng_owns_def by (rule imageI)
    then show ?thesis
      using at [of "own_path D img ''grub.cfg''"] at [of "own_path D img ''bootx64.efi''"] at [of "own_path D img ''xen''"]
        xc_after [of fs D img T ip] that(2) by simp
  qed
  moreover have "fs' (own_path D img ''boot.wim'') =
      map_option (\<lambda>w. fst (patched_wim T ip (img_id img) w)) (fs (own_path D img ''boot.wim''))"
    if "img \<in> set images" "status img = ''ready'' \<and> os_family img = ''windows''" for img
  proof -
    from that have "img \<in> set (ready_of ''windows'' images)" by (simp add: ready_of_def)
    from restrict_agree [OF exact(2) [OF this]] show ?thesis by (simp add: windows_owns_def wn_after)
  qed
  moreover have "fs' p = fs p" if "\<forall>img \<in> set images. status img = ''ready'' \<longrightarrow>
      (os_family img = ''xcpng'' \<longrightarrow> p \<notin> xcpng_owns D img) \<and> (os_family img = ''windows'' \<longrightarrow> p \<notin> windows_owns D img)" for p
    by (rule exact(3)) (use that in \<open>auto simp: ready_of_def\<close>)
  ultimately show ?thesis using rendered ip_def by blast
qed

definition addressed_images :: image_table where
  "addressed_images =
     [(image_row 1 ''XCP-ng'' ''x.iso'')\<lparr>os_family := ''xcpng'', status := ''ready''\<rparr>,
      (image_row 2 ''Windows'' ''w.iso'')\<lparr>os_family := ''windows'', status := ''ready''\<rparr>]"

definition sample_bakers :: bake_tools where
  "sample_bakers = \<lparr>t_grub = (\<lambda>cfg old. (Some cfg, Exit0)), t_wimupdate = (\<lambda>files commands w. (commands, Exit0)),
     t_tmp = ''/tmp/t'', t_nic_dir = ''/nic'', t_nic_infs = False\<rparr>"

definition addressed_files :: file_map where
  "addressed_files = map_of (map (\<lambda>(img, n). (own_path sample_dirs img n, ''old''))
     (zip addressed_images [''xen'', ''boot.wim'']))"

theorem saved_address_reaches_boot_files_witness:
  "\<exists>db' fs' texts. settings_save_whole sample_bakers sample_dirs [] addressed_images [(''server_ip'', '' 192.0.2.9 '')] ([], addressed_files)
       = ((db', fs'), Inr texts, Some 1)
     \<and> fs' ''/b/os/1/bootx64.efi'' = Some (xcpng_cfg ''192.0.2.9'' (hd addressed_images))
     \<and> fs' ''/b/os/2/boot.wim'' = Some (wim_commands ''/tmp/t'' ''/nic'' False)"
proof -
  let ?r = "settings_save_whole sample_bakers sample_dirs [] addressed_images [(''server_ip'', '' 192.0.2.9 '')] ([], addressed_files)"
  have "case ?r of (_, Inr _, Some n) \<Rightarrow> n = 1 | _ \<Rightarrow> False" by code_simp
  then obtain db' fs' texts where r: "?r = ((db', fs'), Inr texts, Some 1)"
    by (auto split: prod.splits sum.splits option.splits)
  have "wf_images addressed_images" by code_simp
  from saved_address_reaches_boot_files [OF this _ r] obtain ip where
    "ip = strip_control_chars (strip '' 192.0.2.9 '')"
    and x: "\<And>img. img \<in> set addressed_images \<Longrightarrow> status img = ''ready'' \<Longrightarrow> os_family img = ''xcpng'' \<Longrightarrow>
         addressed_files (own_path sample_dirs img ''xen'') \<noteq> None \<Longrightarrow>
         fs' (own_path sample_dirs img ''bootx64.efi'') =
           fst (t_grub sample_bakers (xcpng_cfg ip img) (addressed_files (own_path sample_dirs img ''bootx64.efi'')))"
    and w: "\<And>img. img \<in> set addressed_images \<Longrightarrow> status img = ''ready'' \<Longrightarrow> os_family img = ''windows'' \<Longrightarrow>
         fs' (own_path sample_dirs img ''boot.wim'') =
           map_option (\<lambda>w. fst (patched_wim sample_bakers ip (img_id img) w)) (addressed_files (own_path sample_dirs img ''boot.wim''))"
    by (auto simp: map_of_eq_None_iff)
  moreover have "strip_control_chars (strip '' 192.0.2.9 '') = ''192.0.2.9''" by code_simp
  ultimately have ip: "ip = ''192.0.2.9''" by simp
  have imgs: "set addressed_images = {hd addressed_images, last addressed_images}" by (simp add: addressed_images_def)
  have at: "own_path sample_dirs (hd addressed_images) ''bootx64.efi'' = ''/b/os/1/bootx64.efi''"
    "own_path sample_dirs (last addressed_images) ''boot.wim'' = ''/b/os/2/boot.wim''"
    "status (hd addressed_images) = ''ready''" "os_family (hd addressed_images) = ''xcpng''"
    "status (last addressed_images) = ''ready''" "os_family (last addressed_images) = ''windows''"
    "addressed_files (own_path sample_dirs (hd addressed_images) ''xen'') = Some ''old''"
    "addressed_files (own_path sample_dirs (last addressed_images) ''boot.wim'') = Some ''old''" by code_simp+
  have "addressed_files ''/b/os/2/boot.wim'' = Some ''old''" by code_simp
  then show ?thesis
    using r x [of "hd addressed_images"] w [of "last addressed_images"] imgs
    unfolding at ip by (simp add: sample_bakers_def patched_wim_def)
qed

text \<open>
  A build reads the address when it starts and writes it at its end.  An address saved in between does not reach its
  image: the row is not ready when the loops run, and the build then writes the address of before.
\<close>

lemma build_under_way_keeps_old_address:
  "let img = (hd addressed_images)\<lparr>status := ''processing''\<rparr>;
       read = dict_get (all_settings [] [(''server_ip'', ''192.0.2.1'')]) ''server_ip'' [];
       s = fst (settings_save_whole sample_bakers sample_dirs [] [img] [(''server_ip'', ''192.0.2.9'')]
                 ([(''server_ip'', ''192.0.2.1'')], addressed_files));
       gs = fst (build_xcpng_grub sample_bakers 1 (dest_dir sample_dirs 1) XCPNG_DOM0_ARGS read (snd s))
   in dict_get (all_settings [] (fst s)) ''server_ip'' [] = ''192.0.2.9''
      \<and> gs (own_path sample_dirs img ''grub.cfg'') = Some (xcpng_cfg ''192.0.2.1'' img)"
  by code_simp

end
