(* ===== verification/Startup.thy ===== *)
theory Startup
  imports Forms BootFiles ImageRuns
begin

text \<open>
  The start of the console: \<open>services/bootstrap.py\<close> as a whole, with \<open>reconcile_statuses\<close> of \<open>services/images.py\<close> on the
  files themselves (\<open>ImageRuns\<close> leaves open which files are there).  The folders are a list of paths, each a file with
  its size or a folder.
\<close>

section \<open>The folders\<close>

datatype on_disk = Plain nat | Folder

type_synonym volume = "(string \<times> on_disk) list"

text \<open>\<open>q\<close> is \<open>p\<close> or a path below it.\<close>

definition at_or_below :: "string \<Rightarrow> string \<Rightarrow> bool" where
  "at_or_below p q \<longleftrightarrow> prefix (p @ ''/'') (q @ ''/'')"

definition exists_nonempty :: "volume \<Rightarrow> string \<Rightarrow> bool" where
  "exists_nonempty vol p =
     (case map_of vol p of
        None \<Rightarrow> False
      | Some Folder \<Rightarrow> list_ex (\<lambda>kv. fst kv \<noteq> p \<and> at_or_below p (fst kv)) vol
      | Some (Plain n) \<Rightarrow> 0 < n)"

text \<open>The ISO and the three folders of an image.\<close>

definition image_roots :: "dirs \<Rightarrow> image \<Rightarrow> string list" where
  "image_roots D img =
     (let sid = show_nat (img_id img)
      in [iso_path D (img_filename img), dest_dir D (img_id img), path_join (NFS_DIR D) sid, path_join (SMB_DIR D) sid])"

definition remove_files :: "dirs \<Rightarrow> image \<Rightarrow> volume \<Rightarrow> volume" where
  "remove_files D img vol = filter (\<lambda>kv. fst kv \<notin> {q. list_ex (\<lambda>r. at_or_below r q) (image_roots D img)}) vol"

text \<open>\<open>src\<close> is the size of the wimboot in the image of the container, if there is one.\<close>

definition stage_wimboot :: "dirs \<Rightarrow> nat option \<Rightarrow> volume \<Rightarrow> volume" where
  "stage_wimboot D src vol =
     (let dest = path_join (BOOTROOT_DIR D) ''wimboot''
      in case src of
           None \<Rightarrow> vol
         | Some n \<Rightarrow>
             if map_of vol dest = Some (Plain n) then vol
             else (dest, Plain n) # filter (\<lambda>kv. fst kv \<notin> {dest}) vol)"

section \<open>Which files are missing\<close>

text \<open>
  The built-in catalog and the custom entries, by id.  What an image needs is looked up in the first alone; only
  the message about it knows custom entries, which have no further files.
\<close>

record catalogs =
  built_in :: "string \<Rightarrow> catalog_item option"
  custom :: "string \<Rightarrow> catalog_item option"

definition required_of :: "catalogs \<Rightarrow> dirs \<Rightarrow> image \<Rightarrow> string list" where
  "required_of C D img =
     (let ci = built_in C (catalog_id img)
      in required_paths D (case ci of None \<Rightarrow> ''filesystem.squashfs'' | Some ci \<Rightarrow> root_name ci)
           (map_option (\<lambda>ci. map snd (t_extra (ci_templates ci (img_release img)))) ci) img)"

definition missing_of :: "catalogs \<Rightarrow> dirs \<Rightarrow> volume \<Rightarrow> image \<Rightarrow> string option" where
  "missing_of C D vol img =
     (let missing = filter (\<lambda>p. \<not> exists_nonempty vol p) (required_of C D img);
          ci = (case built_in C (catalog_id img) of Some ci \<Rightarrow> Some ci | None \<Rightarrow> custom C (catalog_id img))
      in if missing = [] then None
         else Some (missing_message img missing (case ci of None \<Rightarrow> False | Some ci \<Rightarrow> ci_downloads ci)
                (map_of vol (iso_path D (img_filename img)) \<noteq> None)))"

text \<open>\<open>reconcile_statuses\<close>, row after row.\<close>

fun reconcile_disk :: "catalogs \<Rightarrow> dirs \<Rightarrow> image_table \<Rightarrow> volume \<Rightarrow> image_table \<times> volume" where
  "reconcile_disk C D [] vol = ([], vol)"
| "reconcile_disk C D (img # imgs) vol =
     (case reconcile_row (missing_of C D vol) img of
        None \<Rightarrow> reconcile_disk C D imgs (remove_files D img vol)
      | Some row \<Rightarrow> (case reconcile_disk C D imgs vol of (kept_rows, vol') \<Rightarrow> (row # kept_rows, vol')))"

section \<open>The start\<close>

record console =
  c_settings :: settings
  c_users :: user_table
  c_images :: image_table
  c_volume :: volume

record environment =
  ADMIN_USER :: string
  ADMIN_PASSWORD :: string
  drawn_password :: string
  wimboot_src :: "nat option"

definition run_bootstrap ::
  "(nat list \<Rightarrow> string) \<Rightarrow> environment \<Rightarrow> settings \<Rightarrow> catalogs \<Rightarrow> dirs \<Rightarrow> console
   \<Rightarrow> console \<times> (render_error + string \<times> string)" where
  "run_bootstrap hashpw env DEFAULTS C D s =
     (case bootstrap hashpw (ADMIN_USER env) (ADMIN_PASSWORD env) (drawn_password env) DEFAULTS (c_settings s, c_users s) of
        (db, accounts) \<Rightarrow>
          (case reconcile_disk C D (c_images s) (stage_wimboot D (wimboot_src env) (c_volume s)) of
             (kept_rows, vol) \<Rightarrow>
               (\<lparr>c_settings = db, c_users = accounts, c_images = kept_rows, c_volume = vol\<rparr>, render_all DEFAULTS kept_rows db)))"

section \<open>Removing one image leaves the others' files\<close>

lemma at_or_below_cases: "at_or_below r q \<Longrightarrow> at_or_below p q \<Longrightarrow> at_or_below r p \<or> at_or_below p r"
  unfolding at_or_below_def by (rule prefix_same_cases)

lemma at_or_below_refl [simp]: "at_or_below p p"
  by (simp add: at_or_below_def)

definition unrelated :: "dirs \<Rightarrow> image \<Rightarrow> string \<Rightarrow> bool" where
  "unrelated D img p \<longleftrightarrow> list_all (\<lambda>r. \<not> at_or_below r p \<and> \<not> at_or_below p r) (image_roots D img)"

text \<open>What is below a path that has nothing to do with an image stays when the image's files are removed.\<close>

lemma unrelated_below:
  assumes "unrelated D img p" "at_or_below p q"
  shows "\<not> list_ex (\<lambda>r. at_or_below r q) (image_roots D img)"
  using assms at_or_below_cases by (fastforce simp: unrelated_def list_all_iff list_ex_iff)

lemma map_of_remove_files:
  "map_of (remove_files D img vol) p =
     (if list_ex (\<lambda>r. at_or_below r p) (image_roots D img) then None else map_of vol p)"
  unfolding remove_files_def map_of_filter_keys by simp

lemma remove_files_unrelated:
  assumes "unrelated D img p"
  shows "map_of (remove_files D img vol) p = map_of vol p"
    and "exists_nonempty (remove_files D img vol) p = exists_nonempty vol p"
proof -
  show same: "map_of (remove_files D img vol) p = map_of vol p"
    using unrelated_below [OF assms at_or_below_refl] by (simp add: map_of_remove_files)
  have "list_ex (\<lambda>kv. fst kv \<noteq> p \<and> at_or_below p (fst kv)) (remove_files D img vol) =
      list_ex (\<lambda>kv. fst kv \<noteq> p \<and> at_or_below p (fst kv)) vol"
    using unrelated_below [OF assms] by (force simp: remove_files_def list_ex_iff)
  with same show "exists_nonempty (remove_files D img vol) p = exists_nonempty vol p"
    by (simp add: exists_nonempty_def split: option.split on_disk.split)
qed

text \<open>The files an image is judged by have nothing to do with those of any image that is being deleted (\<open>deletions_apartI\<close> below
  says when).\<close>

definition deletions_apart :: "catalogs \<Rightarrow> dirs \<Rightarrow> image_table \<Rightarrow> bool" where
  "deletions_apart C D db \<longleftrightarrow>
     list_all (\<lambda>old. status old = DELETING \<longrightarrow>
       list_all (\<lambda>img. status img \<noteq> DELETING \<longrightarrow>
         list_all (unrelated D old) (iso_path D (img_filename img) # required_of C D img)) db) db"

lemma missing_of_remove:
  assumes "list_all (unrelated D old) (iso_path D (img_filename img) # required_of C D img)"
  shows "missing_of C D (remove_files D old vol) img = missing_of C D vol img"
proof -
  have "filter (\<lambda>p. \<not> exists_nonempty (remove_files D old vol) p) (required_of C D img) =
      filter (\<lambda>p. \<not> exists_nonempty vol p) (required_of C D img)"
    using assms remove_files_unrelated(2) by (intro filter_cong) (auto simp: list_all_iff)
  moreover have "map_of (remove_files D old vol) (iso_path D (img_filename img)) = map_of vol (iso_path D (img_filename img))"
    using assms remove_files_unrelated(1) by simp
  ultimately show ?thesis by (simp add: missing_of_def Let_def)
qed

section \<open>When deletions are apart\<close>

text \<open>
  No configured folder lies in another, two images have different ids and ISO names, and what an image requires lies in its own
  folders.
\<close>

definition folders :: "dirs \<Rightarrow> string list" where
  "folders D = [IMAGE_DIR D, path_join (BOOTROOT_DIR D) EXTRACT_SUBDIR, NFS_DIR D, SMB_DIR D]"

definition folders_apart :: "dirs \<Rightarrow> bool" where
  "folders_apart D \<longleftrightarrow> distinct (folders D) \<and> list_all (\<lambda>a. list_all (\<lambda>b. a = b \<or> \<not> at_or_below a b) (folders D)) (folders D)"

definition keeps_to_itself :: "catalogs \<Rightarrow> dirs \<Rightarrow> image \<Rightarrow> bool" where
  "keeps_to_itself C D img \<longleftrightarrow>
     list_all (\<lambda>p. list_ex (\<lambda>r. at_or_below r p) (image_roots D img)) (required_of C D img)"

lemma at_or_below_trans: "at_or_below p q \<Longrightarrow> at_or_below q r \<Longrightarrow> at_or_below p r"
  unfolding at_or_below_def by (rule prefix_order.trans)

lemma at_or_below_join:
  assumes "a = b \<or> \<not> at_or_below a b \<and> \<not> at_or_below b a" "CHR ''/'' \<notin> set u" "CHR ''/'' \<notin> set v"
    and "at_or_below (a @ ''/'' @ u) (b @ ''/'' @ v)"
  shows "a = b \<and> u = v"
proof -
  have le: "prefix (a @ ''/'' @ u @ ''/'') (b @ ''/'' @ v @ ''/'')" using assms(4) by (simp add: at_or_below_def)
  moreover have "prefix (a @ ''/'') (a @ ''/'' @ u @ ''/'')" "prefix (b @ ''/'') (b @ ''/'' @ v @ ''/'')"
    by (simp_all add: prefix_def)
  ultimately have "at_or_below a b \<or> at_or_below b a"
    unfolding at_or_below_def by (meson prefix_order.trans prefix_same_cases)
  with assms(1) have "a = b" by blast
  with le obtain z where "u @ CHR ''/'' # z = v @ [CHR ''/'']" by (auto simp: prefix_def)
  from arg_cong [OF this, of "takeWhile (\<lambda>c. c \<noteq> CHR ''/'')"] assms(2,3) have "u = v"
    by (subst (asm) takeWhile_append2, fastforce) (subst (asm) takeWhile_append2, auto)
  with \<open>a = b\<close> show ?thesis by simp
qed

definition root_parts :: "dirs \<Rightarrow> image \<Rightarrow> (string \<times> string) list" where
  "root_parts D img =
     [(IMAGE_DIR D, iso_name (img_filename img)), (path_join (BOOTROOT_DIR D) EXTRACT_SUBDIR, show_nat (img_id img)),
      (NFS_DIR D, show_nat (img_id img)), (SMB_DIR D, show_nat (img_id img))]"

lemma number_no_slash: "CHR ''/'' \<notin> set (show_nat i)"
  using show_nat_digits [of "CHR ''/''" i] by (auto simp: chr_in_def)

lemma iso_name_no_slash: "CHR ''/'' \<notin> set (iso_name f)"
  using path_name_no_slash [of f] by (simp add: iso_name_def Let_def)

lemma image_roots_parts: "image_roots D img = map (\<lambda>(a, n). a @ ''/'' @ n) (root_parts D img)"
proof -
  have "\<not> prefix ''/'' s" if "CHR ''/'' \<notin> set s" for s using that by (auto simp: prefix_def)
  then show ?thesis
    by (simp add: image_roots_def root_parts_def Let_def iso_path_def dest_dir_def path_join_def number_no_slash iso_name_no_slash)
qed

lemma roots_apart:
  assumes D: "folders_apart D" and ne: "img_id x \<noteq> img_id y" "iso_name (img_filename x) \<noteq> iso_name (img_filename y)"
    and r: "r \<in> set (image_roots D x)" and q: "q \<in> set (image_roots D y)"
  shows "\<not> at_or_below r q"
proof
  assume le: "at_or_below r q"
  obtain a u where a: "(a, u) \<in> set (root_parts D x)" "r = a @ ''/'' @ u" using r by (auto simp: image_roots_parts)
  obtain b v where b: "(b, v) \<in> set (root_parts D y)" "q = b @ ''/'' @ v" using q by (auto simp: image_roots_parts)
  have fs: "a \<in> set (folders D)" "b \<in> set (folders D)" using a(1) b(1) by (auto simp: root_parts_def folders_def)
  have "CHR ''/'' \<notin> set u" "CHR ''/'' \<notin> set v"
    using a(1) b(1) number_no_slash iso_name_no_slash by (auto simp: root_parts_def)
  moreover have "a = b \<or> \<not> at_or_below a b \<and> \<not> at_or_below b a"
    using D fs unfolding folders_apart_def list_all_iff by metis
  ultimately have "a = b \<and> u = v" using at_or_below_join le a(2) b(2) by blast
  moreover have "distinct (folders D)" using D by (simp add: folders_apart_def)
  ultimately show False using a(1) b(1) ne by (auto simp: root_parts_def folders_def)
qed

lemma deletions_apartI:
  assumes D: "folders_apart D" and ids: "distinct (map img_id db)" and names: "distinct (map (\<lambda>r. iso_name (img_filename r)) db)"
    and own: "list_all (keeps_to_itself C D) db"
  shows "deletions_apart C D db"
proof -
  have "unrelated D old p" if rows: "old \<in> set db" "img \<in> set db" "old \<noteq> img" "p \<in> set (iso_path D (img_filename img) # required_of C D img)"
    for old img p
  proof -
    from rows ids names have ne: "img_id old \<noteq> img_id img" "iso_name (img_filename old) \<noteq> iso_name (img_filename img)"
      by (auto simp: distinct_map inj_on_def)
    have "iso_path D (img_filename img) \<in> set (image_roots D img)" by (simp add: image_roots_def Let_def)
    then obtain r where r: "r \<in> set (image_roots D img)" "at_or_below r p"
      using own rows(2,4) by (auto simp: keeps_to_itself_def list_all_iff list_ex_iff)
    have "\<not> at_or_below q p \<and> \<not> at_or_below p q" if q: "q \<in> set (image_roots D old)" for q
      using at_or_below_cases [OF _ r(2), of q] at_or_below_trans [OF r(2), of q]
        roots_apart [OF D ne q r(1)] roots_apart [OF D ne(1)[symmetric] ne(2)[symmetric] r(1) q] by blast
    then show ?thesis by (simp add: unrelated_def list_all_iff)
  qed
  then show ?thesis unfolding deletions_apart_def list_all_iff by metis
qed

section \<open>All rows\<close>

lemma deletions_apart_Cons: "deletions_apart C D (img # db) \<Longrightarrow> deletions_apart C D db"
  by (auto simp: deletions_apart_def list_all_iff)

lemma reconcile_row_cong:
  "(status img \<noteq> DELETING \<Longrightarrow> missing img = missing' img) \<Longrightarrow> reconcile_row missing img = reconcile_row missing' img"
  by (simp add: reconcile_row_def)

lemma kept_cong:
  "(\<And>img. img \<in> set db \<Longrightarrow> status img \<noteq> DELETING \<Longrightarrow> missing img = missing' img) \<Longrightarrow> kept missing db = kept missing' db"
  unfolding kept_def using reconcile_row_cong [of _ missing missing'] by (intro arg_cong [where f = concat] map_cong) auto

lemma kept_Cons:
  "kept missing (img # db) = (case reconcile_row missing img of None \<Rightarrow> kept missing db | Some r \<Rightarrow> r # kept missing db)"
  by (simp add: kept_def split: option.split)

text \<open>The rows are those \<open>ImageRuns\<close> keeps, for the files as they were when the start began.\<close>

lemma reconcile_disk_rows:
  "deletions_apart C D db \<Longrightarrow> fst (reconcile_disk C D db vol) = kept (missing_of C D vol) db"
proof (induction db arbitrary: vol)
  case (Cons img db)
  note IH = Cons.IH [OF deletions_apart_Cons [OF Cons.prems]]
  show ?case
  proof (cases "reconcile_row (missing_of C D vol) img")
    case None
    then have del: "status img = DELETING" by (simp add: reconcile_row_None)
    have "kept (missing_of C D (remove_files D img vol)) db = kept (missing_of C D vol) db"
    proof (rule kept_cong)
      fix x assume "x \<in> set db" and "status x \<noteq> DELETING"
      with Cons.prems del have "list_all (unrelated D img) (iso_path D (img_filename x) # required_of C D x)"
        by (auto simp: deletions_apart_def)
          (auto simp: list_all_iff)
      then show "missing_of C D (remove_files D img vol) x = missing_of C D vol x" by (rule missing_of_remove)
    qed
    with None IH show ?thesis by (simp add: kept_Cons)
  next
    case (Some r)
    with IH show ?thesis by (simp add: kept_Cons split: prod.split) (metis fst_conv)
  qed
qed (simp add: kept_def)

lemma reconcile_disk_keeps:
  "(\<And>old. old \<in> set db \<Longrightarrow> status old = DELETING \<Longrightarrow> unrelated D old p) \<Longrightarrow>
     exists_nonempty (snd (reconcile_disk C D db vol)) p = exists_nonempty vol p"
proof (induction db arbitrary: vol)
  case (Cons img db)
  have IH: "exists_nonempty (snd (reconcile_disk C D db vol)) p = exists_nonempty vol p" for vol
    by (rule Cons.IH) (use Cons.prems in auto)
  show ?case
  proof (cases "reconcile_row (missing_of C D vol) img")
    case None
    then have "status img = DELETING" by (simp add: reconcile_row_None)
    then have "unrelated D img p" using Cons.prems by simp
    with None IH remove_files_unrelated(2) show ?thesis by simp
  next
    case (Some r)
    with IH [of vol] show ?thesis by (simp split: prod.split) (metis snd_conv)
  qed
qed simp

lemma no_deletion_no_removal:
  "(\<And>img. img \<in> set db \<Longrightarrow> reconcile_row (missing_of C D vol) img = Some img) \<Longrightarrow> reconcile_disk C D db vol = (db, vol)"
  by (induction db) auto

section \<open>Properties\<close>

lemma kept_rows:
  assumes "img \<in> set (kept missing db)"
  shows "status img \<notin> set BUSY" and "status img = ''ready'' \<Longrightarrow> missing img = None \<and> img \<in> set db"
proof -
  obtain old where old: "old \<in> set db" "reconcile_row missing old = Some img"
    using assms by (auto simp: kept_def split: option.splits)
  have "NEEDS_REPROCESS \<notin> set BUSY" "NEEDS_REPROCESS \<noteq> ''ready''" by code_simp+
  with old show "status img \<notin> set BUSY" and "status img = ''ready'' \<Longrightarrow> missing img = None \<and> img \<in> set db"
    by (auto simp: reconcile_row_def BUSY_def split: if_splits option.splits)
qed

lemma missing_of_None: "missing_of C D vol img = None \<longleftrightarrow> list_all (exists_nonempty vol) (required_of C D img)"
  by (auto simp: missing_of_def Let_def filter_empty_conv list_all_iff)

lemma settled_row:
  "status img \<notin> set BUSY \<Longrightarrow> (status img = ''ready'' \<Longrightarrow> missing img = None) \<Longrightarrow> reconcile_row missing img = Some img"
  by (auto simp: reconcile_row_def BUSY_def split: option.split)


definition stopped_console :: console where
  "stopped_console =
     \<lparr>c_settings = [], c_users = [],
      c_images =
        [(image_row 1 ''A'' ''a.iso'')\<lparr>status := ''ready'', kernel_path := ''os/1/vmlinuz'', boot_args := ''netboot=nfs''\<rparr>,
         (image_row 2 ''B'' ''b.iso'')\<lparr>status := ''deleting''\<rparr>,
         (image_row 3 ''C'' ''c.iso'')\<lparr>status := ''processing''\<rparr>,
         (image_row 4 ''D'' ''d.iso'')\<lparr>status := ''ready'', kernel_path := ''os/4/vmlinuz''\<rparr>],
      c_volume = [(''/b/os/1/vmlinuz'', Plain 9), (''/n/1'', Folder), (''/n/1/casper'', Plain 5), (''/i/b.iso'', Plain 7),
        (''/s/2'', Folder), (''/s/2/setup.exe'', Plain 3), (''/b/os/4/vmlinuz'', Plain 0)]\<rparr>"

definition sample_environment :: environment where
  "sample_environment = \<lparr>ADMIN_USER = ''admin'', ADMIN_PASSWORD = [], drawn_password = ''s3cret'', wimboot_src = Some 60\<rparr>"

definition no_catalogs :: catalogs where
  "no_catalogs = \<lparr>built_in = (\<lambda>_. None), custom = (\<lambda>_. None)\<rparr>"


end
