(* ===== verification/Schema.thy ===== *)
theory Schema
  imports Prelude
begin

text \<open>
  The fix-ups of an older database in \<open>db.py\<close>: columns that were introduced later are added to the tables of users
  and images, each with its default in every row.  A table is its column names and its rows.
\<close>

datatype cell = Null | Integer int | Text string

type_synonym sql_row = "(string \<times> cell) list"

record sql_table =
  t_columns :: "string list"
  t_rows :: "sql_row list"

record database =
  users_table :: sql_table
  images_table :: sql_table

text \<open>\<open>ALTER TABLE ... ADD COLUMN ... DEFAULT ...\<close>\<close>

definition add_column :: "string \<Rightarrow> cell \<Rightarrow> sql_table \<Rightarrow> sql_table" where
  "add_column c d t = t\<lparr>t_columns := t_columns t @ [c], t_rows := map (\<lambda>r. r @ [(c, d)]) (t_rows t)\<rparr>"

definition USER_COLUMNS :: "(string \<times> cell) list" where
  "USER_COLUMNS = [(''session_epoch'', Integer 0), (''totp_secret'', Null), (''totp_enabled'', Integer 0), (''api_token'', Null)]"

definition column_default :: "string \<Rightarrow> cell" where
  "column_default col = (case map_of [(''source'', ''iso''), (''variant'', ''installer'')] col of None \<Rightarrow> Text [] | Some v \<Rightarrow> Text v)"

definition IMAGE_COLUMNS :: "(string \<times> cell) list" where
  "IMAGE_COLUMNS = [(''display_order'', Null), (''is_default'', Integer 0)]
     @ map (\<lambda>col. (col, column_default col)) [''source'', ''variant'', ''catalog_id'', ''release'', ''mirror'', ''source_url'']"

text \<open>The columns a table has are read once, before the first is added.\<close>

definition add_missing :: "(string \<times> cell) list \<Rightarrow> sql_table \<Rightarrow> sql_table" where
  "add_missing cs t =
     (let cols = set (t_columns t)
      in fold (\<lambda>(c, d) t. if c \<notin> cols then add_column c d t else t) cs t)"

definition migrate :: "database \<Rightarrow> database" where
  "migrate db = db\<lparr>users_table := add_missing USER_COLUMNS (users_table db),
     images_table := add_missing IMAGE_COLUMNS (images_table db)\<rparr>"

section \<open>Lemmas\<close>

lemma add_columns:
  "fold (\<lambda>(c, d) t. if c \<notin> cols then add_column c d t else t) cs t =
     (let new = filter (\<lambda>cd. fst cd \<notin> cols) cs
      in t\<lparr>t_columns := t_columns t @ map fst new, t_rows := map (\<lambda>r. r @ new) (t_rows t)\<rparr>)"
  by (induction cs arbitrary: t) (auto simp: add_column_def Let_def)

text \<open>
  Each cell that was there keeps its value, each column that was not there has its default in every row, and a table
  that has all of the columns is not touched: doing it again changes nothing.
\<close>

lemma add_missing_exact:
  "t_columns (add_missing cs t) = t_columns t @ filter (\<lambda>c. c \<notin> set (t_columns t)) (map fst cs)"
  "t_rows (add_missing cs t) = map (\<lambda>r. r @ filter (\<lambda>cd. fst cd \<notin> set (t_columns t)) cs) (t_rows t)"
  by (simp_all add: add_missing_def add_columns Let_def filter_map o_def)

lemma add_missing_cell:
  assumes "list_all (\<lambda>r. map fst r = t_columns t) (t_rows t)" and "r \<in> set (t_rows (add_missing cs t))"
  shows "\<exists>old \<in> set (t_rows t). map_of r c =
      (if c \<in> set (t_columns t) then map_of old c else map_of cs c)"
    and "map fst r = t_columns (add_missing cs t)"
proof -
  let ?new = "filter (\<lambda>cd. fst cd \<notin> set (t_columns t)) cs"
  obtain old where old: "old \<in> set (t_rows t)" "r = old @ ?new" using assms(2) by (auto simp: add_missing_exact)
  with assms(1) have cols: "map fst old = t_columns t" by (auto simp: list_all_iff)
  have new: "map_of ?new c = (if c \<in> set (t_columns t) then None else map_of cs c)"
    by (induction cs) auto
  have "map_of old c = None \<longleftrightarrow> c \<notin> set (t_columns t)" unfolding cols [symmetric] by (simp add: map_of_eq_None_iff)
  with old new show "\<exists>old \<in> set (t_rows t). map_of r c =
      (if c \<in> set (t_columns t) then map_of old c else map_of cs c)"
    by (intro bexI [of _ old]) (auto simp: map_add_def split: option.split)
  show "map fst r = t_columns (add_missing cs t)"
    using old cols by (simp add: add_missing_exact filter_map o_def)
qed

lemma add_missing_complete: "fst ` set cs \<subseteq> set (t_columns t) \<Longrightarrow> add_missing cs t = t"
  by (simp add: add_missing_def add_columns Let_def filter_False image_subset_iff)

lemma migrate_idempotent: "migrate (migrate db) = migrate db"
proof -
  have "add_missing cs (add_missing cs t) = add_missing cs t" for cs t
    by (rule add_missing_complete) (auto simp: add_missing_exact)
  then show ?thesis by (simp add: migrate_def)
qed

lemma migrated_columns:
  "fst ` set USER_COLUMNS \<subseteq> set (t_columns (users_table (migrate db)))"
  "fst ` set IMAGE_COLUMNS \<subseteq> set (t_columns (images_table (migrate db)))"
  by (auto simp: migrate_def add_missing_exact)

end
