(* ===== verification/Published.thy ===== *)
theory Published
  imports Ipxe BootFiles
begin

text \<open>
  The end of a run of \<open>process_image\<close> (\<open>services/images.py\<close>): the row it leaves and whether \<open>boot.ipxe\<close> is written
  again.  The menu on disk is the text last rendered; the rows are the table.
\<close>

section \<open>How a run ends\<close>

text \<open>
  With the columns it writes, and whether the menu is rendered after them; with an exception, whose text is known;
  or because it was told to stop, also by an exception after that.  A stop that comes too late for the run to see is
  a second end, \<open>Told_to_stop\<close>, after the first.
\<close>

datatype run_end = Wrote "image \<Rightarrow> image" bool | Raised string | Told_to_stop

text \<open>A run for an ISO returns at once where the ISO cannot be read, and where a Linux image fails.\<close>

definition iso_run :: "tools \<Rightarrow> dirs \<Rightarrow> image \<Rightarrow> run_end" where
  "iso_run T D img =
     (let out = fst (process_iso T D img)
      in case tools.listing T of
           Inl e \<Rightarrow> Wrote (record_outcome out) False
         | Inr entries \<Rightarrow>
             (let family = detect_family entries
              in if family = ''windows'' then Wrote (record_outcome out) True
                 else if family = ''xcpng'' then Wrote (record_outcome out) True
                 else Wrote (record_outcome out) (o_status out = ''ready'')))"

text \<open>\<open>exc\<close> is the text of an exception nothing turned into a message.\<close>

definition netboot_run :: "site \<Rightarrow> dirs \<Rightarrow> catalog_item option \<Rightarrow> string option \<Rightarrow> string \<Rightarrow> image \<Rightarrow> run_end" where
  "netboot_run S D item on_disk exc img =
     (case fst (process_netboot S D item on_disk img) of
        Inr out \<Rightarrow> Wrote (record_net out) True
      | Inl Cancelled \<Rightarrow> Told_to_stop
      | Inl (NetbootError msg) \<Rightarrow> Raised msg
      | Inl Crash \<Rightarrow> Raised exc)"

text \<open>The handler of an unexpected exception; a second one, of the rendering, leaves the menu as it is.\<close>

definition handle_exception :: "settings \<Rightarrow> settings \<Rightarrow> nat \<Rightarrow> string \<Rightarrow> image_table \<times> string \<Rightarrow> image_table \<times> string" where
  "handle_exception DEFAULTS db i msg p =
     (if get_image (fst p) i = None then p
      else let imgs = upd_image (fst p) i (\<lambda>r. r\<lparr>status := ''error'', message := ''Processing failed: '' @ msg\<rparr>)
      in (imgs, case ipxe_render DEFAULTS db imgs of Inr text \<Rightarrow> text | Inl e \<Rightarrow> snd p))"

definition end_run ::
  "settings \<Rightarrow> settings \<Rightarrow> string \<Rightarrow> nat \<Rightarrow> run_end \<Rightarrow> image_table \<times> string \<Rightarrow> image_table \<times> string" where
  "end_run DEFAULTS db exc i res p =
     (case res of
        Wrote f renders \<Rightarrow>
          (let imgs = upd_image (fst p) i f
           in if \<not> renders then (imgs, snd p)
              else case ipxe_render DEFAULTS db imgs of
                     Inr text \<Rightarrow> (imgs, text)
                   | Inl e \<Rightarrow> handle_exception DEFAULTS db i exc (imgs, snd p))
      | Raised msg \<Rightarrow> handle_exception DEFAULTS db i msg p
      | Told_to_stop \<Rightarrow>
          (if get_image (fst p) i = None then p
           else let imgs = del_image (fst p) i
           in (imgs, case ipxe_render DEFAULTS db imgs of Inr text \<Rightarrow> text | Inl e \<Rightarrow> snd p)))"

section \<open>The menu depends on the ready rows alone\<close>

lemma render_menu_cong: "menu_images imgs = menu_images imgs' \<Longrightarrow> ipxe_render DEFAULTS db imgs = ipxe_render DEFAULTS db imgs'"
  by (simp add: ipxe_render_def render_menu_def)

lemma menu_images_upd:
  assumes "\<And>r. r \<in> set imgs \<Longrightarrow> img_id r = i \<Longrightarrow> status r \<noteq> ''ready'' \<and> status (f r) \<noteq> ''ready''"
  shows "menu_images (upd_image imgs i f) = menu_images imgs"
proof -
  have "filter (\<lambda>img. status img = ''ready'' \<and> enabled img) (upd_image imgs i f) =
      filter (\<lambda>img. status img = ''ready'' \<and> enabled img) imgs"
    using assms by (induction imgs) (auto simp: upd_row_def)
  then show ?thesis by (simp add: menu_images_def)
qed

text \<open>Only a run that leaves its row out of \<open>ready\<close> keeps the menu of before.\<close>

lemma iso_run_quiet:
  assumes "iso_run T D img = Wrote f False"
  shows "status (f r) \<noteq> ''ready''"
proof -
  let ?out = "fst (process_iso T D img)"
  have f: "f = record_outcome ?out" and out: "(\<exists>e. tools.listing T = Inl e) \<or> o_status ?out \<noteq> ''ready''"
    using assms by (auto simp: iso_run_def Let_def split: sum.splits if_splits)
  have "o_status ?out \<noteq> ''ready''"
    using out by (auto simp: process_iso_def failed_def)
  then show ?thesis by (simp add: f record_outcome_def)
qed

lemma netboot_run_loud: "netboot_run S D item on_disk exc img \<noteq> Wrote f False"
  by (auto simp: netboot_run_def split: sum.splits exn.splits)

section \<open>Properties\<close>

text \<open>C22. The menu on disk follows the builds: if \<open>boot.ipxe\<close> was the rendering of the table before a build of an image
  that was not on offer, it is the rendering of the table after it, however the build ends - ready, failed,
  raised or stopped; and after a build that did become ready it is so whatever was on disk before.\<close>

theorem build_publishes_menu:
  assumes run: "res \<in> {iso_run T D img, netboot_run S D item on_disk exc img, Raised msg, Told_to_stop}"
    and current: "(ipxe_render DEFAULTS db imgs = Inr menu \<and> (\<forall>r \<in> set imgs. img_id r = i \<longrightarrow> status r \<noteq> ''ready''))
      \<or> (\<exists>f. res = Wrote f True)"
    and after: "end_run DEFAULTS db exc i res (imgs, menu) = (imgs', menu')"
    and renders: "ipxe_render DEFAULTS db imgs' = Inr shown"
  shows "menu' = shown"
proof (cases res)
  case (Wrote f loud)
  show ?thesis
  proof (cases loud)
    case True
    with Wrote after renders show ?thesis
      by (auto simp: end_run_def handle_exception_def Let_def split: sum.splits if_splits)
  next
    case False
    with Wrote run have quiet: "status (f r) \<noteq> ''ready''" for r
      using iso_run_quiet netboot_run_loud by (metis insertE run_end.distinct(1,3) singletonD)
    from False Wrote after have eq: "imgs' = upd_image imgs i f" "menu' = menu" by (simp_all add: end_run_def Let_def)
    from False Wrote current have cur: "ipxe_render DEFAULTS db imgs = Inr menu"
      "\<forall>r \<in> set imgs. img_id r = i \<longrightarrow> status r \<noteq> ''ready''" by auto
    then have "menu_images imgs' = menu_images imgs" unfolding eq using quiet by (intro menu_images_upd) auto
    from render_menu_cong [OF this] cur(1) renders eq(2) show ?thesis by simp
  qed
next
  case (Raised msg)
  with after renders current show ?thesis by (auto simp: end_run_def handle_exception_def Let_def split: if_splits)
next
  case Told_to_stop
  with after renders current show ?thesis by (auto simp: end_run_def Let_def split: if_splits)
qed

definition unreadable_iso :: tools where
  "unreadable_iso = (good_tools [])\<lparr>tools.listing := Inl ''truncated''\<rparr>"

definition queued_image :: image where
  "queued_image = (image_row 1 ''Debian'' ''deb.iso'')\<lparr>status := ''pending''\<rparr>"

definition rendered_text :: "render_error + string \<Rightarrow> string" where
  "rendered_text r = (case r of Inr text \<Rightarrow> text | Inl e \<Rightarrow> [])"

theorem build_publishes_menu_witness:
  "let menu = rendered_text (ipxe_render [] [] [queued_image]);
       (imgs', menu') = end_run [] [] [] 1 (iso_run unreadable_iso sample_dirs queued_image) ([queued_image], menu)
   in map status imgs' = [''error''] \<and> ipxe_render [] [] imgs' = Inr menu'"
proof -
  let ?menu = "rendered_text (ipxe_render [] [] [queued_image])"
  let ?res = "iso_run unreadable_iso sample_dirs queued_image"
  let ?fin = "end_run [] [] [] 1 ?res ([queued_image], ?menu)"
  have current: "ipxe_render [] [] [queued_image] = Inr ?menu" by code_simp
  have queued: "\<forall>r \<in> set [queued_image]. img_id r = 1 \<longrightarrow> status r \<noteq> ''ready''" by (simp add: queued_image_def)
  have "case ipxe_render [] [] (fst ?fin) of Inr _ \<Rightarrow> True | Inl _ \<Rightarrow> False" by code_simp
  then obtain shown where renders: "ipxe_render [] [] (fst ?fin) = Inr shown" by (auto split: sum.splits)
  have "snd ?fin = shown"
    by (rule build_publishes_menu [OF insertI1 disjI1 [OF conjI [OF current queued]] prod.collapse [symmetric] renders])
  moreover have "map status (fst ?fin) = [''error'']" by code_simp
  ultimately show ?thesis using renders by (simp add: Let_def split: prod.split) (metis fst_conv snd_conv)
qed

text \<open>
  An image that is on offer and is reprocessed stays in the menu when its ISO cannot be read any more: its row is in
  error, its files were removed and the table offers nothing, and \<open>boot.ipxe\<close> is what it was.
\<close>

lemma failed_reprocess_stays_in_menu:
  "let p = end_run DEFAULTS db exc 1 (iso_run unreadable_iso sample_dirs queued_image) ([queued_image], menu)
   in map status (fst p) = [''error''] \<and> menu_images (fst p) = [] \<and> snd p = menu"
  by (simp add: iso_run_def unreadable_iso_def process_iso_def end_run_def failed_def record_outcome_def keep_def
      queued_image_def image_row_def menu_images_def upd_row_def Let_def)

end
