(* ===== verification/DriverList.thy ===== *)
theory DriverList
  imports Drivers Models
begin

text \<open>
  What the driver page lists (\<open>list_entries\<close>, \<open>_dir_stats\<close>, \<open>total_infs\<close> and \<open>human_size\<close> of \<open>services/drivers.py\<close>), on the
  file tree of \<open>Files\<close>, and the test of \<open>services/images.py\<close> for drivers to bake into a boot image.
\<close>

section \<open>Listing\<close>

definition is_dir :: "tree \<Rightarrow> path \<Rightarrow> bool" where
  "is_dir t p = (case resolve t p of Some q \<Rightarrow> node_at t q = Some Dir | None \<Rightarrow> False)"

text \<open>A file that is no link, its size, and whether it is a driver's description.\<close>

definition plain_file :: "tree \<Rightarrow> path \<Rightarrow> bool" where
  "plain_file t p \<longleftrightarrow> is_file t p \<and> \<not> is_link (node_at t p)"

definition file_size :: "tree \<Rightarrow> path \<Rightarrow> nat" where
  "file_size t p = (case node_at t p of Some (File s) \<Rightarrow> length s | _ \<Rightarrow> 0)"

definition is_inf :: "path \<Rightarrow> bool" where
  "is_inf p \<longleftrightarrow> ascii_lower (name_suffix (last p)) = ''.inf''"

definition dir_stats :: "tree \<Rightarrow> path \<Rightarrow> nat \<times> nat \<times> nat" where
  "dir_stats t p =
     (let fs = filter (plain_file t) (below t p)
      in (length fs, length (filter is_inf fs), sum_list (map (file_size t) fs)))"

record listed_entry =
  le_name :: string
  le_is_dir :: bool
  le_files :: nat
  le_infs :: nat
  le_size :: nat

text \<open>\<open>iterdir\<close>: the paths one component below a folder, each once.\<close>

definition children :: "tree \<Rightarrow> path \<Rightarrow> path list" where
  "children t root = filter (\<lambda>p. length p = Suc (length root)) (below t root)"

definition name_le :: "path \<Rightarrow> path \<Rightarrow> bool" where
  "name_le p q \<longleftrightarrow> str_le (ascii_lower (last p)) (ascii_lower (last q))"

definition listed :: "tree \<Rightarrow> path \<Rightarrow> listed_entry option" where
  "listed t p =
     (if is_link (node_at t p) then None
      else if is_dir t p then
        (case dir_stats t p of (n, infs, sz) \<Rightarrow>
           Some \<lparr>le_name = last p, le_is_dir = True, le_files = n, le_infs = infs, le_size = sz\<rparr>)
      else if is_file t p then
        Some \<lparr>le_name = last p, le_is_dir = False, le_files = 1, le_infs = (if is_inf p then 1 else 0), le_size = file_size t p\<rparr>
      else None)"

definition list_entries :: "tree \<Rightarrow> path \<Rightarrow> listed_entry list" where
  "list_entries t root = List.map_filter (listed t) (sort_by name_le (children t root))"

definition total_infs :: "listed_entry list \<Rightarrow> nat" where
  "total_infs entries = sum_list (map le_infs entries)"

text \<open>
  \<open>any(nic_dir.rglob("*.inf"))\<close>: the name ends in these four characters as they stand.
\<close>

definition has_inf :: "tree \<Rightarrow> path \<Rightarrow> bool" where
  "has_inf t root = list_ex (\<lambda>p. Sublist.suffix ''.inf'' (last p)) (below t root)"

section \<open>Sizes\<close>

text \<open>
  The size is divided by 1024 as long as a larger unit is left.  A division of a number below \<open>2 ^ 53\<close> by a power of two is exact, and a
  number is printed with one decimal, rounded half to even; \<open>d\<close> is what \<open>n\<close> has been divided by.
\<close>

definition tenths :: "nat \<Rightarrow> nat \<Rightarrow> nat" where
  "tenths n d =
     (let q = 10 * n div d; r = 10 * n mod d
      in if 2 * r < d \<or> (2 * r = d \<and> even q) then q else Suc q)"

fun sized :: "nat \<Rightarrow> nat \<Rightarrow> string list \<Rightarrow> string" where
  "sized n d [] = []"
| "sized n d (unit # units) =
     (if n < 1024 * d \<or> units = []
      then (if unit = ''B'' then show_nat n
            else show_nat (tenths n d div 10) @ ''.'' @ show_nat (tenths n d mod 10)) @ '' '' @ unit
      else sized n (1024 * d) units)"

definition human_size :: "nat \<Rightarrow> string" where
  "human_size n = sized n 1 [''B'', ''KB'', ''MB'', ''GB'']"

section \<open>Lemmas\<close>

lemma sum_over_sort_by: "sum_list (map f (sort_by le xs)) = (sum_list (map f xs) :: nat)"
proof -
  have "sum_list (map f (insert_by le x ys)) = f x + sum_list (map f ys)" for x ys
    by (induction ys) auto
  then show ?thesis by (induction xs) auto
qed

lemma sum_map_filter:
  fixes f :: "'b \<Rightarrow> nat"
  shows "sum_list (map f (List.map_filter g xs)) = sum_list (map (\<lambda>x. case g x of None \<Rightarrow> 0 | Some y \<Rightarrow> f y) xs)"
  by (induction xs) (auto simp: List.map_filter_simps split: option.split)

text \<open>Counting a list by classes that take each element once.\<close>

lemma count_by_class:
  "(\<And>x. x \<in> set xs \<Longrightarrow> length (filter (\<lambda>c. R c x) cs) = 1) \<Longrightarrow> sum_list (map (\<lambda>c. length (filter (R c) xs)) cs) = length xs"
proof (induction xs)
  case (Cons x xs)
  have "sum_list (map (\<lambda>c. length (filter (R c) (x # xs))) cs) =
      length (filter (\<lambda>c. R c x) cs) + sum_list (map (\<lambda>c. length (filter (R c) xs)) cs)"
    by (induction cs) auto
  with Cons show ?case by simp
qed simp

definition ordinary_names :: "tree \<Rightarrow> bool" where
  "ordinary_names t \<longleftrightarrow> list_all (\<lambda>e. list_all ordinary (fst e) \<and> fst e \<noteq> []) t"

definition named_tree :: "tree \<Rightarrow> bool" where
  "named_tree t \<longleftrightarrow> grounded t \<and> ordinary_names t"

lemma key_node: "named_tree t \<Longrightarrow> p \<in> set (map fst t) \<Longrightarrow> node_at t p \<noteq> None"
  using map_of_eq_None_iff [of t p] by (simp add: node_at_def)

lemma key_resolve:
  assumes "named_tree t" "p \<in> set (map fst t)" "\<not> is_link (node_at t p)"
  shows "resolve t p = Some p"
proof (rule resolve_ordinary)
  show "list_all ordinary p" using assms by (auto simp: named_tree_def ordinary_names_def list_all_iff)
  show "linkless t p" unfolding linkless_def
  proof (intro allI impI)
    fix q assume "prefix q p"
    then show "\<not> is_link (node_at t q)"
      using assms grounded_prefix [OF _ key_node [OF assms(1,2)], of q] by (cases "q = p") (auto simp: named_tree_def)
  qed
qed

lemma plain_file_iff:
  "named_tree t \<Longrightarrow> p \<in> set (map fst t) \<Longrightarrow> plain_file t p \<longleftrightarrow> (\<exists>s. node_at t p = Some (File s))"
  using key_resolve [of t p] by (auto simp: plain_file_def is_file_def split: option.splits node.splits)

lemma is_dir_iff:
  "named_tree t \<Longrightarrow> p \<in> set (map fst t) \<Longrightarrow> \<not> is_link (node_at t p) \<Longrightarrow> is_dir t p \<longleftrightarrow> node_at t p = Some Dir"
  using key_resolve [of t p] by (simp add: is_dir_def)

text \<open>The plain files that are descriptions, below a folder and at one of its children.\<close>

definition inf_files :: "tree \<Rightarrow> path \<Rightarrow> path list" where
  "inf_files t root = filter (\<lambda>p. plain_file t p \<and> is_inf p) (below t root)"

lemma one_of: "distinct xs \<Longrightarrow> c \<in> set xs \<Longrightarrow> length (filter (\<lambda>p. p = c) xs) = 1"
  by (induction xs) (auto simp: filter_empty_conv)

lemma child_infs:
  assumes t: "named_tree t" and c: "c \<in> set (children t root)"
  shows "(case listed t c of None \<Rightarrow> 0 | Some e \<Rightarrow> le_infs e) = length (filter (prefix c) (inf_files t root))"
proof -
  have key: "c \<in> set (map fst t)" "strict_prefix root c" using c by (auto simp: children_def below_def)
  have under: "filter (prefix c) (inf_files t root) =
      filter (\<lambda>p. prefix c p \<and> plain_file t p \<and> is_inf p) (remdups (map fst t))"
    using key(2) by (auto simp: inf_files_def below_def intro!: filter_cong dest: prefix_order.less_le_trans)
  show ?thesis
  proof (cases "node_at t c = Some Dir")
    case True
    then have "is_dir t c" "\<not> is_link (node_at t c)" using is_dir_iff [OF t key(1)] by auto
    moreover have "\<not> plain_file t c" using plain_file_iff [OF t key(1)] True by simp
    then have "filter (\<lambda>p. prefix c p \<and> plain_file t p \<and> is_inf p) (remdups (map fst t)) = inf_files t c"
      by (auto simp: inf_files_def below_def strict_prefix_def intro!: filter_cong)
    ultimately show ?thesis unfolding under
      by (simp add: listed_def dir_stats_def inf_files_def Let_def conj_commute)
  next
    case False
    have "p = c" if "p \<in> set (map fst t)" "prefix c p" for p
      using grounded_prefix [OF _ key_node [OF t that(1)], of c] that(2) t False by (auto simp: named_tree_def strict_prefix_def)
    then have "filter (\<lambda>p. prefix c p \<and> plain_file t p \<and> is_inf p) (remdups (map fst t)) =
        filter (\<lambda>p. p = c \<and> plain_file t c \<and> is_inf c) (remdups (map fst t))"
      by (intro filter_cong) auto
    also have "length \<dots> = (if plain_file t c \<and> is_inf c then 1 else 0)"
      using one_of [of "remdups (map fst t)" c] key(1) by simp
    finally show ?thesis unfolding under
      using is_dir_iff [OF t key(1)] False by (auto simp: listed_def plain_file_def)
  qed
qed

text \<open>
  The total on the page is the number of description files anywhere below the folder, links left out.
\<close>

lemma only_child:
  assumes t: "named_tree t" and q: "q \<in> set (map fst t)" "strict_prefix root q"
  shows "length (filter (\<lambda>c. prefix c q) (children t root)) = 1"
proof -
  obtain x w where w: "q = root @ x # w" using q(2) by (elim strict_prefixE')
  let ?c = "root @ [x]"
  have "node_at t ?c = Some Dir \<or> w = []"
    using grounded_prefix [OF _ key_node [OF t q(1)], of ?c] t w by (auto simp: named_tree_def strict_prefix_def)
  then have "?c \<in> set (map fst t)"
  proof
    assume "node_at t ?c = Some Dir"
    then have "(?c, Dir) \<in> set t" by (simp add: node_at_def map_of_SomeD)
    then show ?thesis by force
  qed (use q w in simp)
  then have "?c \<in> set (children t root)" by (simp add: children_def below_def strict_prefix_def)
  moreover have "c = ?c" if c: "c \<in> set (children t root)" "prefix c q" for c
  proof -
    obtain y where "c = root @ [y]"
      using c(1) by (auto simp: children_def below_def elim!: strict_prefixE')
    with c(2) w show ?thesis by simp
  qed
  moreover have "prefix ?c q" using w by simp
  ultimately have same: "?c \<in> set (children t root)"
    "filter (\<lambda>c. prefix c q) (children t root) = filter (\<lambda>c. c = ?c) (children t root)"
    by (blast, blast intro: filter_cong)
  have "distinct (children t root)" by (simp add: children_def below_def)
  from one_of [OF this same(1)] same(2) show ?thesis by simp
qed

lemma total_infs_exact:
  assumes t: "named_tree t"
  shows "total_infs (list_entries t root) = length (inf_files t root)"
proof -
  have "sum_list (map (\<lambda>c. length (filter (prefix c) (inf_files t root))) (children t root)) = length (inf_files t root)"
    by (rule count_by_class, rule only_child [OF t]) (auto simp: inf_files_def below_def)
  moreover have "total_infs (list_entries t root) =
      sum_list (map (\<lambda>c. length (filter (prefix c) (inf_files t root))) (children t root))"
    unfolding total_infs_def list_entries_def sum_map_filter sum_over_sort_by
    using child_infs [OF t] by (intro arg_cong [where f = sum_list] map_cong) auto
  ultimately show ?thesis by simp
qed

text \<open>
  Only lower-case names are baked in: a boot pack whose descriptions are in capitals, as Windows tools write them, is counted on
  the page and left out of the boot image.
\<close>

definition capital_pack :: tree where
  "capital_pack = [([''nic''], Dir), ([''nic'', ''netkvm''], Dir), ([''nic'', ''netkvm'', ''NETKVM.INF''], File ''x'')]"

lemma capital_infs_not_baked:
  "total_infs (list_entries capital_pack [''nic'']) = 1 \<and> \<not> has_inf capital_pack [''nic'']"
  by code_simp

lemma below_next_unit: "human_size 1048575 = ''1024.0 KB''" and "human_size 1048576 = ''1.0 MB''"
  by code_simp+

end
