(* ===== verification/Streams.thy ===== *)
theory Streams
  imports Prelude
begin

text \<open>
  The open status streams of \<open>routers/images.py\<close> (\<open>images_sse\<close>): how many each user has open, counted when a stream's
  generator starts and not when the request is answered, so that what is counted is also taken off again.  A stream is
  asked for, started or dropped by the server, and ended by its client, in any order.
\<close>

definition SSE_MAX_PER_USER :: nat where "SSE_MAX_PER_USER = 6"

text \<open>
  \<open>open_count\<close> is \<open>_sse_open\<close>, a dict without entries of zero; \<open>waiting\<close> are the generators not started yet, \<open>started\<close> those
  inside their \<open>try\<close>.  Both are lists of the users they belong to.
\<close>

record streams =
  open_count :: "nat \<rightharpoonup> nat"
  waiting :: "nat list"
  started_by :: "nat list"

definition no_streams :: streams where
  "no_streams = \<lparr>open_count = (\<lambda>_. None), waiting = [], started_by = []\<rparr>"

definition count_of :: "streams \<Rightarrow> nat \<Rightarrow> nat" where
  "count_of s uid = (case open_count s uid of None \<Rightarrow> 0 | Some n \<Rightarrow> n)"

text \<open>The route: None is the answer 429.\<close>

definition request_stream :: "nat \<Rightarrow> streams \<Rightarrow> streams option" where
  "request_stream uid s =
     (if SSE_MAX_PER_USER \<le> count_of s uid then None else Some (s\<lparr>waiting := uid # waiting s\<rparr>))"

text \<open>The first step of a generator, and its \<open>finally\<close>.\<close>

definition start_stream :: "nat \<Rightarrow> streams \<Rightarrow> streams" where
  "start_stream uid s =
     (let s = s\<lparr>waiting := remove1 uid (waiting s)\<rparr>
      in if SSE_MAX_PER_USER \<le> count_of s uid then s
         else s\<lparr>open_count := (open_count s)(uid \<mapsto> count_of s uid + 1), started_by := uid # started_by s\<rparr>)"

definition end_stream :: "nat \<Rightarrow> streams \<Rightarrow> streams" where
  "end_stream uid s =
     (let n = count_of s uid - 1
      in s\<lparr>open_count := (open_count s)(uid := if n = 0 then None else Some n), started_by := remove1 uid (started_by s)\<rparr>)"

inductive stream_step :: "streams \<Rightarrow> streams \<Rightarrow> bool" where
  Request: "request_stream uid s = Some s' \<Longrightarrow> stream_step s s'"
| Start: "uid \<in> set (waiting s) \<Longrightarrow> stream_step s (start_stream uid s)"
| Drop: "uid \<in> set (waiting s) \<Longrightarrow> stream_step s (s\<lparr>waiting := remove1 uid (waiting s)\<rparr>)"
| End: "uid \<in> set (started_by s) \<Longrightarrow> stream_step s (end_stream uid s)"

text \<open>The count of each user is the number of streams started and not ended, and at most six.\<close>

definition counted :: "streams \<Rightarrow> bool" where
  "counted s \<longleftrightarrow> (\<forall>uid. open_count s uid =
     (let n = count_list (started_by s) uid in if n = 0 then None else Some n) \<and> count_list (started_by s) uid \<le> SSE_MAX_PER_USER)"

lemma count_list_remove1: "count_list (remove1 x xs) y = (if x = y then count_list xs y - 1 else count_list xs y)"
  by (induction xs) (auto simp: count_list_0_iff)

lemma counted_count: "counted s \<Longrightarrow> count_of s uid = count_list (started_by s) uid"
  by (simp add: counted_def count_of_def Let_def)

lemma counted_step:
  assumes "stream_step s s'" "counted s"
  shows "counted s'"
  using assms(1)
proof (cases rule: stream_step.cases)
  case (Request uid)
  with assms(2) show ?thesis by (auto simp: request_stream_def counted_def split: if_splits)
next
  case (Start uid)
  with assms(2) counted_count [OF assms(2), of uid] show ?thesis
    by (auto simp: start_stream_def counted_def count_of_def Let_def)
next
  case (Drop uid)
  with assms(2) show ?thesis by (simp add: counted_def)
next
  case (End uid)
  have "count_list (remove1 uid (started_by s)) u \<le> SSE_MAX_PER_USER" for u
    using assms(2) unfolding counted_def count_list_remove1 by (auto intro: order.trans [OF diff_le_self])
  then show ?thesis using assms(2) End counted_count [OF assms(2), of uid]
    by (auto simp: end_stream_def counted_def Let_def count_list_remove1)
qed

text \<open>However requests, starts and ends interleave, no user has more than six streams running, the count on
  record is that number, and a user with none running is refused no stream.\<close>

theorem streams_are_counted:
  assumes "stream_step\<^sup>*\<^sup>* no_streams s"
  shows "count_of s uid = count_list (started_by s) uid \<and> count_list (started_by s) uid \<le> SSE_MAX_PER_USER
     \<and> (request_stream uid s = None \<longleftrightarrow> count_list (started_by s) uid = SSE_MAX_PER_USER)
     \<and> (open_count s uid = None \<longleftrightarrow> count_list (started_by s) uid = 0)"
proof -
  have "counted s" using assms
  proof (induction rule: rtranclp_induct)
    case base
    show ?case by (simp add: counted_def no_streams_def)
  qed (rule counted_step)
  with counted_count [OF this, of uid] show ?thesis
    by (auto simp: counted_def Let_def request_stream_def intro: antisym)
qed

theorem streams_are_counted_witness:
  "count_of (end_stream 7 (start_stream 7 (no_streams\<lparr>waiting := [7]\<rparr>))) 7 = 0"
proof -
  let ?a = "no_streams\<lparr>waiting := [7]\<rparr>"
  have "request_stream 7 no_streams = Some ?a"
    by (simp add: request_stream_def no_streams_def count_of_def SSE_MAX_PER_USER_def)
  then have 1: "stream_step no_streams ?a" by (rule Request)
  have 2: "stream_step ?a (start_stream 7 ?a)" by (rule Start) simp
  have running: "started_by (start_stream 7 ?a) = [7]"
    by (simp add: start_stream_def no_streams_def count_of_def SSE_MAX_PER_USER_def Let_def)
  then have 3: "stream_step (start_stream 7 ?a) (end_stream 7 (start_stream 7 ?a))" by (intro End) simp
  from 1 2 3 have "stream_step\<^sup>*\<^sup>* no_streams (end_stream 7 (start_stream 7 ?a))" by (iprover intro: rtranclp.rtrancl_into_rtrancl rtranclp.rtrancl_refl)
  moreover have "count_list (started_by (end_stream 7 (start_stream 7 ?a))) 7 = 0"
    using running by (simp add: end_stream_def Let_def)
  ultimately show ?thesis using streams_are_counted [of "end_stream 7 (start_stream 7 ?a)" 7] by simp
qed

end
