(* ===== verification/Builds.thy ===== *)
theory Builds
  imports Releases
begin

text \<open>
  The newest build a mirror carries of a release (\<open>current_build\<close> of \<open>services/netboot.py\<close>), which the Images page shows beside
  the release's name (\<open>Releases\<close>), and what the mirror is asked for.
\<close>

text \<open>
  Where the catalog says to look: the address, with its fields, and the pattern for a release, whose \<open>^\<close> is that of a
  line.
\<close>

record build_source =
  cb_url :: string
  cb_rx :: "string \<Rightarrow> rx"

definition build_url :: "build_source \<Rightarrow> string \<Rightarrow> string \<Rightarrow> string" where
  "build_url src mirror release = replace ''{version}'' release (replace ''{mirror}'' mirror (cb_url src))"

text \<open>The matches are a set in the code; here they are in the order of the text, which only orders ties.\<close>

definition builds_in :: "rx \<Rightarrow> string \<Rightarrow> string list" where
  "builds_in r text =
     (let found = remdups (map (\<lambda>x. case group 1 x of None \<Rightarrow> [] | Some b \<Rightarrow> b) (re_finditer r text))
      in sort_by (\<lambda>a b. key_le (version_key a) (version_key b)) found)"

definition current_build ::
  "(string \<Rightarrow> string option) \<Rightarrow> build_source option \<Rightarrow> string \<Rightarrow> string \<Rightarrow> string option" where
  "current_build fetch src mirror release =
     (case src of
        None \<Rightarrow> None
      | Some src \<Rightarrow>
          (case fetch (build_url src mirror release) of
             None \<Rightarrow> None
           | Some text \<Rightarrow>
               (let found = builds_in (cb_rx src release) text
                in if found = [] then None else Some (last found))))"

section \<open>Lemmas\<close>

lemma key_le_preorder: "total_preorder (\<lambda>a b. key_le (f a) (f b))"
proof -
  have total: "key_le x y \<or> key_le y x" for x y by (induction x y rule: key_le.induct) auto
  have trans: "key_le x y \<Longrightarrow> key_le y z \<Longrightarrow> key_le x z" for x y z
    by (induction x y arbitrary: z rule: key_le.induct) (case_tac z; auto)+
  show ?thesis unfolding total_preorder_def using total trans by blast
qed

text \<open>
  The build on show is one the mirror names, and of those it names none has a greater number; there is none on show
  only if the catalog names no source, the mirror does not answer, or the text has no match.
\<close>

theorem current_build_is_newest:
  "case current_build fetch (Some src) mirror release of
     Some b \<Rightarrow> (\<exists>text. fetch (build_url src mirror release) = Some text
       \<and> (\<exists>m \<in> set (re_finditer (cb_rx src release) text). b = (case group 1 m of None \<Rightarrow> [] | Some v \<Rightarrow> v))
       \<and> list_all (\<lambda>m. key_le (version_key (case group 1 m of None \<Rightarrow> [] | Some v \<Rightarrow> v)) (version_key b))
           (re_finditer (cb_rx src release) text))
   | None \<Rightarrow> (case fetch (build_url src mirror release) of None \<Rightarrow> True | Some text \<Rightarrow> re_finditer (cb_rx src release) text = [])"
proof (cases "fetch (build_url src mirror release)")
  case (Some body)
  let ?name = "\<lambda>m. case group 1 m of None \<Rightarrow> [] | Some v \<Rightarrow> v"
  let ?ms = "re_finditer (cb_rx src release) body" and ?found = "builds_in (cb_rx src release) body"
  have set: "set ?found = ?name ` set ?ms" by (simp add: builds_in_def)
  show ?thesis
  proof (cases "?found = []")
    case True
    with set Some show ?thesis by (simp add: current_build_def)
  next
    case False
    have "sorted_wrt (\<lambda>a b. key_le (version_key a) (version_key b)) ?found"
      unfolding builds_in_def Let_def by (rule sorted_sort_by [OF key_le_preorder])
    then have top: "key_le (version_key b) (version_key (last ?found))" if "b \<in> set ?found" for b
      using that False key_le_preorder [of version_key]
      by (cases ?found rule: rev_cases) (auto simp: sorted_wrt_append total_preorder_def)
    have "last ?found \<in> ?name ` set ?ms" using False set last_in_set by blast
    moreover have "list_all (\<lambda>m. key_le (version_key (?name m)) (version_key (last ?found))) ?ms"
      using top unfolding set list_all_iff by blast
    ultimately show ?thesis using Some False by (auto simp: current_build_def Let_def image_iff)
  qed
qed (simp add: current_build_def)

end
