(* ===== verification/Spec2Isabelle.thy ===== *)
theory Spec2Isabelle
  imports Ipxe Dnsmasq Net Auth Updates ImageRuns IsoTree Restore Download EntryForms DriverFetch ImageMenu Releases AddImage Dashboard
    Rebuild Startup Schema Published DriverList Streams Builds
begin

section \<open>The program\<close>

text \<open>
  Beacon PXE is a web console for network booting (\<open>src/web/app\<close>, FastAPI over SQLite).  An admin uploads ISO images or picks
  operating systems from a catalog; the console unpacks their boot files, writes the boot menu
  \<open>boot.ipxe\<close> and the configuration of dnsmasq, and serves both to the machines of a LAN.  Around
  this core it keeps accounts, custom catalog entries, Windows driver packs and boot statistics, restores backups and updates
  itself.  This development models that program as functions on explicit states.  Every definition is translated from the
  source and carries its name, or a name beside it, and each theory names the files it models.

  How the parts interact.  A request passes the middleware (\<open>Guards\<close>), finds its account (\<open>Auth\<close>) behind the login throttle
  (\<open>Ratelimit\<close>), keyed by the client's address (\<open>Net\<close>), and then reaches its handler.  The handlers of the Images page add rows
  (\<open>ImageRuns\<close> for uploads, \<open>AddImage\<close> for the catalog) and queue builds; a build reads what the row says and writes the row's
  boot columns and the files (\<open>Media\<close>, \<open>BootScripts\<close>, \<open>ImageBuild\<close> for ISOs, \<open>BootFiles\<close> for catalog images); the menu
  (\<open>Ipxe\<close>) is rendered from the ready rows in the order \<open>ImageMenu\<close> keeps, and from the settings (\<open>Store\<close>), which \<open>Forms\<close>,
  \<open>Restore\<close> and \<open>Updates\<close> write; \<open>Dnsmasq\<close> is rendered from the settings alone.  The booted clients ping \<open>Track\<close>, whose tables
  \<open>Dashboard\<close> folds into what \<open>Clients\<close> reads from the DHCP log.
\<close>

section \<open>Theories\<close>

text \<open>
  Shared ground:
  \<open>Prelude\<close> (strings and numbers as Python treats them, a sum type with bind for operations that can raise, the locales
  \<open>line_cleaner\<close> and \<open>machine\<close>), \<open>Regex\<close> (the patterns of \<open>re\<close> the console uses, as a matcher with Python's order of
  alternatives, with a declarative match relation), \<open>Template\<close> (\<open>str.format\<close>), \<open>Json\<close>, \<open>Clock\<close> (\<open>datetime\<close>), \<open>Url\<close>
  (\<open>urlparse\<close> and the checks on addresses), \<open>Files\<close> (a file tree with symbolic links), \<open>Models\<close> (the rows of
  \<open>models.py\<close> and a stable sort).

  Settings and accounts:
  \<open>Store\<close> (\<open>store.py\<close>: the key/value table behind the interface \<open>settings_store\<close>), \<open>Forms\<close> (\<open>routers/settings.py\<close>, \<open>routers/setup.py\<close>,
  seeding at startup), \<open>Rebuild\<close> (the boot files a saved server address is written into: both loops over the images go
  through the interface \<open>rebaking\<close>), \<open>Schema\<close> (the added columns of \<open>db.py\<close>), \<open>Ratelimit\<close> (\<open>services/ratelimit.py\<close>, behind the interface \<open>throttle\<close>), \<open>Net\<close> (\<open>net.py\<close> and
  the trusted proxies of \<open>config.py\<close>, on 32- and 128-bit words), \<open>Guards\<close> (the middleware of \<open>main.py\<close>), \<open>Auth\<close> (\<open>auth.py\<close>,
  \<open>deps.py\<close>, \<open>services/totp.py\<close>, \<open>routers/auth.py\<close>, \<open>routers/users.py\<close>).

  Images:
  \<open>Names\<close> (unused file names and entry ids, behind the interface \<open>numbering\<close>), \<open>Media\<close>, \<open>BootScripts\<close>, \<open>ImageBuild\<close> and \<open>ImageRuns\<close>
  (\<open>services/images.py\<close>: what an ISO is, the generated scripts, the build, and the life of a row with its runs as
  interleaved events), \<open>ImageMenu\<close> (\<open>routers/images.py\<close>: what arranges the menu), \<open>Streams\<close> (its open status streams, as a step relation), \<open>Ipxe\<close> (\<open>services/ipxe.py\<close>), \<open>Published\<close> (\<open>boot.ipxe\<close> on disk at the end of a build),
  \<open>Startup\<close> (\<open>services/bootstrap.py\<close> on the folders), \<open>Dnsmasq\<close>
  (\<open>services/dnsmasq.py\<close>), \<open>IsoTree\<close> (an unpacked ISO, from which the links that lead out are removed), \<open>Host\<close> (\<open>services/hostinfo.py\<close>).

  The catalog, \<open>services/netboot.py\<close>:
  \<open>Discovery\<close> (releases read from the mirrors, and the caches, behind the interface \<open>keeper\<close>), \<open>Releases\<close> (the lists of the page and
  the checks of a release), \<open>Builds\<close> (the newest build of a release), \<open>Download\<close> (the resumable download), \<open>BootFiles\<close> (archives, boot files, live ISOs, and
  \<open>_process_netboot\<close>), \<open>AddImage\<close> (\<open>add_netboot\<close> of \<open>routers/images.py\<close> and where live ISOs are found), \<open>Entries\<close> and \<open>EntryProps\<close>
  (custom entries: validation and import), \<open>EntryForms\<close> (the edit form, saving an entry, the preview).

  Operations:
  \<open>Drivers\<close>, \<open>DriverFetch\<close> and \<open>DriverList\<close> (\<open>services/drivers.py\<close>, \<open>routers/drivers.py\<close>; every way of unpacking goes through the interface
  \<open>packer\<close>), \<open>Restore\<close> (\<open>services/restore.py\<close>), \<open>Updates\<close> (\<open>services/updates.py\<close>, \<open>routers/updates.py\<close>), \<open>Track\<close>
  (\<open>routers/track.py\<close>), \<open>Clients\<close> (\<open>services/clients.py\<close>), \<open>Metrics\<close> (\<open>services/metrics.py\<close>), \<open>Dashboard\<close>
  (\<open>routers/dashboard.py\<close>).
\<close>

section \<open>State and operations\<close>

text \<open>
  A table is the list of its rows in the order of their ids, a new row gets the least id above all others as SQLite
  gives it, and a key/value table is an association list.  A handler is a function from the request's
  fields and the state to the answer and the new state; what raises is the left part of a sum, with the exceptions the callers tell
  apart as constructors (\<open>exn\<close>, \<open>driver_exn\<close>, and \<open>Crash\<close> for one that nothing expects), so that each early return and each
  handler of an exception is a branch.  Requests that interleave with background work are events of a machine
  (\<open>ImageRuns\<close>, \<open>Auth\<close>, \<open>Restore\<close>, \<open>Updates\<close>) whose reachable states are those of an event sequence.

  What is not code of the repository is an argument: bcrypt, pyotp and SHA-256; 7z, tar, gunzip, wimlib and grub;
  the answers of mirrors, vendors, docker and GitHub; clocks, random tokens and the texts of \<open>/proc\<close>.  Where a property needs
  something of them it is a named hypothesis with an instance (the honest server of \<open>Download\<close>, the vendor of \<open>DriverFetch\<close>,
  the fresh token of \<open>AddImage\<close>, in \<open>Startup\<close> that the files of an image being deleted are
  not another's, which \<open>deletions_apartI\<close> derives from folders that do not lie in each other, the checks of passwords and codes in \<open>Auth\<close>).
\<close>

section \<open>What is shown\<close>

text \<open>
  Invariants over all histories: no sign-in without credentials, old cookies stay worthless, an administrator
  remains (\<open>Auth\<close>); every file has one owner in every interleaving (\<open>ImageRuns\<close>); at most one default image (\<open>ImageMenu\<close>);
  tracking stays bounded (\<open>Track\<close>); a build of a new image leaves the menu on disk the rendering of the table (\<open>Published\<close>); open streams
  are counted (\<open>Streams\<close>); the throttles keep their bounds (\<open>Ratelimit\<close>).

  Refinements and equivalences: \<open>dnsmasq.conf\<close> is a list of directives that no setting can extend (\<open>Dnsmasq\<close>); a build that ends ready
  has written what the image's row later requires (\<open>ImageBuild\<close>, \<open>BootFiles\<close>, \<open>Media\<close>), and a start offers only images whose files are
  there (\<open>Startup\<close>); a saved server address is in every boot file it is written into (\<open>Rebuild\<close>); a restore follows the rules of its module
  (\<open>Restore\<close>); a finished download is the served file (\<open>Download\<close>); trusted peers are those of the configured networks
  (\<open>Net\<close>); the page and the form agree on the releases on offer (\<open>Releases\<close>); an entry comes back from its edit form as it was
  (\<open>EntryForms\<close>).

  Error behaviour: imports, adding an image and fetching a pack happen whole or not at all (\<open>EntryProps\<close>, \<open>AddImage\<close>, \<open>DriverFetch\<close>);
  unpacking stays inside its folder (\<open>Drivers\<close>), and no path below an unpacked ISO opens outside it (\<open>IsoTree\<close>); a foreign origin is refused (\<open>Guards\<close>).

  Liveness and termination: an update always resolves (\<open>Updates\<close>), a delete during a build is carried out (\<open>ImageRuns\<close>), one good answer ends a
  download (\<open>Download\<close>), an upload finds a name (\<open>Names\<close>), the wizard comes once (\<open>Forms\<close>), an accepted ping shows on the dashboard
  (\<open>Dashboard\<close>, over \<open>Track\<close> and \<open>Clients\<close>).

  Where the code does something it does not mean to, a lemma beside the component shows it on a concrete input: for instance
  \<open>separators_survive\<close> (\<open>Ipxe\<close>), \<open>token_renews_stale_cookie\<close> and \<open>deleted_cookie_opens_successor\<close> (\<open>Auth\<close>),
  \<open>second_delete_loses_next_upload\<close> (\<open>ImageRuns\<close>), \<open>delete_follows_link\<close> (\<open>Drivers\<close>), \<open>ack_goes_to_other_client\<close> (\<open>Clients\<close>),
  \<open>disk_27_not_counted\<close> (\<open>Metrics\<close>), \<open>failed_reprocess_stays_in_menu\<close> (\<open>Published\<close>), \<open>build_under_way_keeps_old_address\<close>
  (\<open>Rebuild\<close>), \<open>capital_infs_not_baked\<close> (\<open>DriverList\<close>).
\<close>

section \<open>Bounds\<close>

text \<open>
  Only three loops are bounded by an extra argument.  The search for an unused name (\<open>first_free\<close>) gets two rounds more than
  there are names in use, and \<open>numbering\<close> shows that it then ends with a name.  Resolving a path (\<open>resolve\<close>) may follow as many links at
  once as the tree has, and answers None only for links that lead back to themselves, where Python raises.  The iteration over matches
  (\<open>re_finditer\<close>) may take one step more than the text has characters, and each step moves on by at least one.  The regular expression matcher and the
  template parser terminate by measures; the four tries of a download and every cap and window are the code's own numbers.
\<close>

section \<open>Not modelled\<close>

text \<open>
  The page templates and what is only laid out on them (the listing of the user page, what is put into a template); the
  SQLAlchemy engine and its sessions (\<open>db.py\<close>), and the paths of \<open>config.py\<close>: they hold no logic of the program.  The start
  of the process, its logging and the scheduling of background tasks (\<open>main.py\<close>): a queued build is a task of \<open>ImageRuns\<close>.  The backup that is
  downloaded, a copy made by SQLite.  Reading the built-in catalog files: the catalog is an argument, its patterns compiled.  Of
  discovery, the support dates some distros publish as JSON (an argument); of the update check, the request for the registry's digest.  Of custom entries, the check of their addresses
  over the network for the preview (an argument).  Metrics are exact
  fractions, not rounded floats.  Texts are lists of bytes in UTF-8; letters outside ASCII are neither lowered nor classified.
\<close>

end
